(* ===== verification/Paths.thy ===== *)
theory Paths
  imports Prelude
begin

text \<open>
  Lexical host paths: the parts of Go's \<^verbatim>\<open>path/filepath\<close> (Unix) the daemon uses
  (\<^verbatim>\<open>IsAbs\<close>, \<^verbatim>\<open>Clean\<close>, \<^verbatim>\<open>Rel\<close>, \<^verbatim>\<open>Join\<close>), and
  \<^verbatim>\<open>path_containment.go\<close>. The theory proves that on canonical paths (absolute and equal
  to their own cleaning) containment is the prefix order on path components, and packages the
  order laws as a locale that the policy theories work in.
\<close>

section \<open>path/filepath\<close>

abbreviation sep :: char where
  "sep \<equiv> CHR ''/''"

text \<open>\<^verbatim>\<open>strings.Split(s, "/")\<close> and \<^verbatim>\<open>strings.Join(ws, "/")\<close>.\<close>

fun split_sep :: "string \<Rightarrow> string list" where
  "split_sep [] = [[]]"
| "split_sep (c # cs) =
     (if c = sep then [] # split_sep cs
      else (case split_sep cs of [] \<Rightarrow> [[c]] | w # ws \<Rightarrow> (c # w) # ws))"

fun join_sep :: "string list \<Rightarrow> string" where
  "join_sep [] = []"
| "join_sep [w] = w"
| "join_sep (w # ws) = w @ sep # join_sep ws"

definition filepath_IsAbs :: "string \<Rightarrow> bool" where
  "filepath_IsAbs p = prefix [sep] p"

text \<open>
  The element loop of \<^verbatim>\<open>filepath.Clean\<close>: empty and \<^verbatim>\<open>.\<close> elements vanish,
  \<^verbatim>\<open>..\<close> removes the last element that can be removed, disappears at the root and is kept
  at the front of a relative path. The second argument is the output so far, innermost first.
\<close>

fun clean_comps :: "bool \<Rightarrow> string list \<Rightarrow> string list \<Rightarrow> string list" where
  "clean_comps rooted st [] = rev st"
| "clean_comps rooted st (w # ws) =
     (if w = [] \<or> w = ''.'' then clean_comps rooted st ws
      else if w = ''..'' then
        (case st of
           [] \<Rightarrow> if rooted then clean_comps rooted [] ws else clean_comps rooted [''..''] ws
         | t # ts \<Rightarrow> if t = ''..'' then clean_comps rooted (''..'' # st) ws
                   else clean_comps rooted ts ws)
      else clean_comps rooted (w # st) ws)"

definition filepath_Clean :: "string \<Rightarrow> string" where
  "filepath_Clean p =
     (if p = [] then ''.''
      else let ws = clean_comps (filepath_IsAbs p) [] (split_sep p)
           in if filepath_IsAbs p then sep # join_sep ws
              else if ws = [] then ''.'' else join_sep ws)"

definition filepath_Join :: "string list \<Rightarrow> string" where
  "filepath_Join ws =
     (let ws' = filter (\<lambda>w. w \<noteq> []) ws in if ws' = [] then [] else filepath_Clean (join_sep ws'))"

text \<open>\<^verbatim>\<open>filepath.Abs\<close> with the working directory as a parameter.\<close>

definition filepath_Abs :: "string \<Rightarrow> string \<Rightarrow> string" where
  "filepath_Abs cwd p = (if filepath_IsAbs p then filepath_Clean p else filepath_Join [cwd, p])"

definition path_comps :: "string \<Rightarrow> string list" where
  "path_comps p = filter (\<lambda>w. w \<noteq> []) (split_sep p)"

fun drop_common :: "'a list \<Rightarrow> 'a list \<Rightarrow> 'a list \<times> 'a list" where
  "drop_common (x # xs) (y # ys) = (if x = y then drop_common xs ys else (x # xs, y # ys))"
| "drop_common xs ys = (xs, ys)"

text \<open>
  \<^verbatim>\<open>filepath.Rel(base, targ)\<close>: the relative path, or \<^const>\<open>None\<close> for the error
  (exactly one side is rooted, or the answer would need the working directory).
\<close>

definition filepath_Rel :: "string \<Rightarrow> string \<Rightarrow> string option" where
  "filepath_Rel basepath targpath =
     (let base = filepath_Clean basepath; targ = filepath_Clean targpath
      in if targ = base then Some ''.''
         else let base' = (if base = ''.'' then [] else base)
              in if filepath_IsAbs base' \<noteq> filepath_IsAbs targ then None
                 else (case drop_common (path_comps base') (path_comps targ) of (bs, ts) \<Rightarrow>
                   if bs = [] then Some (join_sep ts)
                   else if hd bs = ''..'' then None
                   else Some (join_sep (replicate (length bs) ''..'' @ ts))))"

section \<open>Containment (path\_containment.go)\<close>

definition rel_stays_inside :: "string option \<Rightarrow> bool" where
  "rel_stays_inside r =
     (case r of None \<Rightarrow> False | Some rel \<Rightarrow> rel \<noteq> ''..'' \<and> \<not> prefix ''../'' rel)"

definition pathWithin :: "string \<Rightarrow> string \<Rightarrow> bool" where
  "pathWithin root path =
     (if root = path then True else rel_stays_inside (filepath_Rel root path))"

definition pathStrictlyWithin :: "string \<Rightarrow> string \<Rightarrow> bool" where
  "pathStrictlyWithin root path =
     (if root = path then False else rel_stays_inside (filepath_Rel root path))"

text \<open>\<^verbatim>\<open>isWithinAnyAllowedRoot\<close> of principal.go.\<close>

fun isWithinAnyAllowedRoot :: "string \<Rightarrow> string list \<Rightarrow> bool" where
  "isWithinAnyAllowedRoot path [] = False"
| "isWithinAnyAllowedRoot path (r # rs) =
     (if path = r \<or> pathWithin r path then True else isWithinAnyAllowedRoot path rs)"

text \<open>
  The structural test of a canonical absolute path, as every policy boundary writes it:
  \<^verbatim>\<open>filepath.IsAbs(p) && filepath.Clean(p) == p\<close>.
\<close>

definition canonical_path :: "string \<Rightarrow> bool" where
  "canonical_path p = (filepath_IsAbs p \<and> filepath_Clean p = p)"

section \<open>Splitting and joining\<close>

definition plain_comp :: "string \<Rightarrow> bool" where
  "plain_comp w = (w \<noteq> [] \<and> sep \<notin> set w)"

definition clean_comp :: "string \<Rightarrow> bool" where
  "clean_comp w = (plain_comp w \<and> w \<noteq> ''.'' \<and> w \<noteq> ''..'')"

lemma split_sep_not_Nil [simp]: "split_sep s \<noteq> []"
  by (induction s) (auto split: list.splits)

lemma split_sep_no_sep: "w \<in> set (split_sep s) \<Longrightarrow> sep \<notin> set w"
proof (induction s arbitrary: w)
  case Nil
  then show ?case by simp
next
  case (Cons c cs)
  then show ?case by (cases "split_sep cs") (auto split: if_splits)
qed

lemma split_sep_word: "sep \<notin> set w \<Longrightarrow> split_sep w = [w]"
  by (induction w) auto

lemma split_sep_append_sep:
  "sep \<notin> set w \<Longrightarrow> split_sep (w @ sep # s) = w # split_sep s"
  by (induction w) auto

lemma split_join:
  "ws \<noteq> [] \<Longrightarrow> \<forall>w\<in>set ws. sep \<notin> set w \<Longrightarrow> split_sep (join_sep ws) = ws"
proof (induction ws rule: join_sep.induct)
  case 1
  then show ?case by simp
next
  case (2 w)
  then show ?case by (simp add: split_sep_word)
next
  case (3 w v vs)
  then show ?case by (simp add: split_sep_append_sep)
qed

lemma path_comps_join [path_simps]:
  assumes "\<forall>w\<in>set ws. plain_comp w"
  shows "path_comps (join_sep ws) = ws" and "path_comps (sep # join_sep ws) = ws"
proof -
  have "path_comps (join_sep ws) = filter (\<lambda>w. w \<noteq> []) ws"
  proof (cases "ws = []")
    case True
    then show ?thesis by (simp add: path_comps_def)
  next
    case False
    with assms show ?thesis by (simp add: path_comps_def split_join plain_comp_def)
  qed
  also have "\<dots> = ws" using assms by (simp add: filter_id_conv plain_comp_def)
  finally show *: "path_comps (join_sep ws) = ws" .
  then show "path_comps (sep # join_sep ws) = ws" by (simp add: path_comps_def)
qed

lemma path_comps_plain: "w \<in> set (path_comps p) \<Longrightarrow> plain_comp w"
  by (auto simp: path_comps_def plain_comp_def dest: split_sep_no_sep)

lemma join_sep_inject:
  "\<forall>w\<in>set xs. plain_comp w \<Longrightarrow> \<forall>w\<in>set ys. plain_comp w \<Longrightarrow>
   join_sep xs = join_sep ys \<longleftrightarrow> xs = ys"
  by (metis path_comps_join(1))

section \<open>Cleaning\<close>

lemma clean_comps_rooted_clean:
  assumes "\<forall>w\<in>set st. clean_comp w" and "\<forall>w\<in>set ws. sep \<notin> set w"
  shows "\<forall>w\<in>set (clean_comps True st ws). clean_comp w"
  using assms
proof (induction ws arbitrary: st)
  case Nil
  then show ?case by simp
next
  case (Cons w ws)
  note IH = Cons.IH and prems = Cons.prems
  consider (skip) "w = [] \<or> w = ''.''" | (up) "w = ''..''" | (keep) "clean_comp w"
    using Cons.prems(2) by (auto simp: clean_comp_def plain_comp_def)
  then show ?case
  proof cases
    case skip
    with Cons show ?thesis by auto
  next
    case up
    show ?thesis
    proof (cases st)
      case Nil
      with up Cons.prems Cons.IH [of "[]"] show ?thesis by simp
    next
      case (Cons t ts)
      have "t \<noteq> ''..''" using Cons Cons.prems(1) by (simp add: clean_comp_def)
      with up Cons have "clean_comps True st (w # ws) = clean_comps True ts ws" by simp
      with Cons Cons.prems Cons.IH [of ts] show ?thesis by simp
    qed
  next
    case keep
    then have eq: "clean_comps True st (w # ws) = clean_comps True (w # st) ws"
      by (simp add: clean_comp_def plain_comp_def)
    show ?thesis unfolding eq by (rule Cons.IH) (use keep Cons.prems in auto)
  qed
qed

lemma clean_comps_id:
  "\<forall>w\<in>set ws. clean_comp w \<Longrightarrow> clean_comps r st ws = rev st @ ws"
  by (induction ws arbitrary: st) (auto simp: clean_comp_def plain_comp_def)

lemma clean_comps_skip_empty [simp]: "clean_comps r st ([] # ws) = clean_comps r st ws"
  by simp

lemma canonical_path_iff:
  "canonical_path p \<longleftrightarrow> (\<exists>ws. (\<forall>w\<in>set ws. clean_comp w) \<and> p = sep # join_sep ws)"
proof
  assume can: "canonical_path p"
  let ?ws = "clean_comps True [] (split_sep p)"
  from can have "filepath_IsAbs p" and "p \<noteq> []" and "filepath_Clean p = p"
    by (auto simp: canonical_path_def filepath_IsAbs_def)
  then have "p = sep # join_sep ?ws" by (simp add: filepath_Clean_def Let_def)
  moreover have "\<forall>w\<in>set ?ws. clean_comp w"
    by (rule clean_comps_rooted_clean) (auto dest: split_sep_no_sep)
  ultimately show "\<exists>ws. (\<forall>w\<in>set ws. clean_comp w) \<and> p = sep # join_sep ws" by blast
next
  assume "\<exists>ws. (\<forall>w\<in>set ws. clean_comp w) \<and> p = sep # join_sep ws"
  then obtain ws where ws: "\<forall>w\<in>set ws. clean_comp w" and p: "p = sep # join_sep ws" by blast
  have "clean_comps True [] (split_sep p) = ws"
  proof (cases "ws = []")
    case True
    with p show ?thesis by simp
  next
    case False
    with ws have "split_sep (join_sep ws) = ws"
      by (intro split_join) (auto simp: clean_comp_def plain_comp_def)
    with ws p show ?thesis by (simp add: clean_comps_id)
  qed
  with p show "canonical_path p"
    by (simp add: canonical_path_def filepath_IsAbs_def filepath_Clean_def Let_def)
qed

lemma canonical_path_comps:
  assumes "canonical_path p"
  shows "p = sep # join_sep (path_comps p)" and "\<forall>w\<in>set (path_comps p). clean_comp w"
proof -
  from assms obtain ws where ws: "\<forall>w\<in>set ws. clean_comp w" and p: "p = sep # join_sep ws"
    by (auto simp: canonical_path_iff)
  then have "path_comps p = ws" by (simp add: path_comps_join(2) clean_comp_def)
  with ws p show "p = sep # join_sep (path_comps p)" and "\<forall>w\<in>set (path_comps p). clean_comp w"
    by auto
qed

lemma canonical_path_eq_iff:
  "canonical_path p \<Longrightarrow> canonical_path q \<Longrightarrow> p = q \<longleftrightarrow> path_comps p = path_comps q"
  by (metis canonical_path_comps(1))

lemma filepath_Clean_canonical [simp]: "canonical_path p \<Longrightarrow> filepath_Clean p = p"
  and filepath_IsAbs_canonical [simp]: "canonical_path p \<Longrightarrow> filepath_IsAbs p"
  by (simp_all add: canonical_path_def)

text \<open>Cleaning an absolute path always gives a canonical one.\<close>

lemma canonical_path_Clean: "filepath_IsAbs p \<Longrightarrow> canonical_path (filepath_Clean p)"
proof -
  assume abs: "filepath_IsAbs p"
  let ?ws = "clean_comps True [] (split_sep p)"
  have "p \<noteq> []" using abs by (auto simp: filepath_IsAbs_def)
  with abs have "filepath_Clean p = sep # join_sep ?ws" by (simp add: filepath_Clean_def Let_def)
  moreover have "\<forall>w\<in>set ?ws. clean_comp w"
    by (rule clean_comps_rooted_clean) (auto dest: split_sep_no_sep)
  ultimately show ?thesis by (auto simp: canonical_path_iff)
qed

section \<open>Containment is the component-prefix order\<close>

lemma drop_common_spec:
  "drop_common xs ys = (bs, ts) \<Longrightarrow>
     \<exists>ps. xs = ps @ bs \<and> ys = ps @ ts \<and> (bs = [] \<or> ts = [] \<or> hd bs \<noteq> hd ts)"
proof (induction xs ys arbitrary: bs ts rule: drop_common.induct)
  case (1 x xs y ys)
  show ?case
  proof (cases "x = y")
    case True
    with 1 obtain ps where "xs = ps @ bs" "ys = ps @ ts" "bs = [] \<or> ts = [] \<or> hd bs \<noteq> hd ts"
      by fastforce
    with True show ?thesis by (intro exI [of _ "x # ps"]) simp
  next
    case False
    with 1 show ?thesis by (intro exI [of _ "[]"]) auto
  qed
qed auto

lemma drop_common_Nil_iff:
  assumes "drop_common xs ys = (bs, ts)"
  shows "bs = [] \<longleftrightarrow> prefix xs ys"
proof -
  from drop_common_spec [OF assms] obtain ps where
    ps: "xs = ps @ bs" "ys = ps @ ts" "bs = [] \<or> ts = [] \<or> hd bs \<noteq> hd ts" by blast
  then show ?thesis by (cases bs; cases ts) (auto simp: prefix_def)
qed

lemma dotdot_escapes: "\<not> rel_stays_inside (Some (join_sep (''..'' # ws)))"
  by (cases ws) (auto simp: rel_stays_inside_def)

lemma join_clean_stays: 
  assumes "\<forall>w\<in>set ws. clean_comp w"
  shows "rel_stays_inside (Some (join_sep ws))"
proof (cases ws)
  case Nil
  then show ?thesis by (simp add: rel_stays_inside_def)
next
  case (Cons w vs)
  have w: "w \<noteq> ''..''" "sep \<notin> set w" using assms Cons by (auto simp: clean_comp_def plain_comp_def)
  have join: "\<exists>r. join_sep ws = w @ r \<and> (r = [] \<or> hd r = sep)" using Cons by (cases vs) auto
  then obtain r where r: "join_sep ws = w @ r" "r = [] \<or> hd r = sep" by blast
  have "join_sep ws \<noteq> ''..''" 
  proof
    assume "join_sep ws = ''..''"
    with r w show False by (cases w rule: list.exhaust; cases r) (auto simp: append_eq_Cons_conv Cons_eq_append_conv)
  qed
  moreover have "\<not> prefix ''../'' (join_sep ws)"
  proof
    assume "prefix ''../'' (join_sep ws)"
    then obtain t where "w @ r = ''../'' @ t" using r(1) by (auto simp: prefix_def)
    with r(2) w show False by (auto simp: append_eq_Cons_conv)
  qed
  ultimately show ?thesis by (simp add: rel_stays_inside_def)
qed

lemma rel_inside_iff:
  assumes "canonical_path r" and "canonical_path p" and "r \<noteq> p"
  shows "rel_stays_inside (filepath_Rel r p) \<longleftrightarrow> prefix (path_comps r) (path_comps p)"
proof -
  obtain bs ts where dc: "drop_common (path_comps r) (path_comps p) = (bs, ts)" by fastforce
  from drop_common_spec [OF dc] obtain ps where ps: "path_comps r = ps @ bs" "path_comps p = ps @ ts"
    by blast
  have clean: "\<forall>w\<in>set bs. clean_comp w" "\<forall>w\<in>set ts. clean_comp w"
    using canonical_path_comps(2) [OF assms(1)] canonical_path_comps(2) [OF assms(2)] ps by auto
  have r_ne: "r \<noteq> ''.''" using assms(1) by (auto simp: canonical_path_def filepath_IsAbs_def)
  have rel: "filepath_Rel r p =
      (if bs = [] then Some (join_sep ts) else if hd bs = ''..'' then None
       else Some (join_sep (replicate (length bs) ''..'' @ ts)))"
    using assms r_ne dc by (simp add: filepath_Rel_def Let_def)
  show ?thesis
  proof (cases bs)
    case Nil
    with rel clean(2) dc show ?thesis
      using join_clean_stays [of ts] drop_common_Nil_iff [OF dc] by simp
  next
    case (Cons b bs')
    with clean have "hd bs \<noteq> ''..''" by (auto simp: clean_comp_def)
    with rel Cons have "filepath_Rel r p = Some (join_sep (''..'' # (replicate (length bs') ''..'' @ ts)))"
      by simp
    then have "\<not> rel_stays_inside (filepath_Rel r p)" by (metis dotdot_escapes)
    with drop_common_Nil_iff [OF dc] Cons show ?thesis by simp
  qed
qed

lemma pathWithin_iff [path_simps]:
  "canonical_path r \<Longrightarrow> canonical_path p \<Longrightarrow>
   pathWithin r p \<longleftrightarrow> prefix (path_comps r) (path_comps p)"
  by (auto simp: pathWithin_def rel_inside_iff canonical_path_eq_iff)

lemma pathStrictlyWithin_iff [path_simps]:
  "canonical_path r \<Longrightarrow> canonical_path p \<Longrightarrow> pathStrictlyWithin r p \<longleftrightarrow> pathWithin r p \<and> r \<noteq> p"
  by (auto simp: pathWithin_def pathStrictlyWithin_def)

lemma isWithinAnyAllowedRoot_iff:
  "isWithinAnyAllowedRoot path roots \<longleftrightarrow> (\<exists>r\<in>set roots. pathWithin r path)"
  by (induction roots) (auto simp: pathWithin_def)

section \<open>The containment contract\<close>

text \<open>
  What the policy owner relies on: containment is a partial order in which the ancestors of one
  path form a chain, and an ancestor never comes after its descendants in the byte order. The
  deepest element of a scope that contains a path is the most-specific match.
\<close>

definition deepest_in :: "('p \<Rightarrow> 'p \<Rightarrow> bool) \<Rightarrow> ('e \<Rightarrow> 'p) \<Rightarrow> 'e set \<Rightarrow> 'p \<Rightarrow> 'e \<Rightarrow> bool" where
  "deepest_in inside key S s e \<longleftrightarrow>
     e \<in> S \<and> inside (key e) s \<and> (\<forall>e'\<in>S. inside (key e') s \<longrightarrow> inside (key e') (key e))"

locale containment =
  fixes inside :: "'p :: linorder \<Rightarrow> 'p \<Rightarrow> bool" and ok :: "'p \<Rightarrow> bool"
  assumes inside_refl: "inside a a"
    and inside_trans: "ok a \<Longrightarrow> ok b \<Longrightarrow> ok c \<Longrightarrow> inside a b \<Longrightarrow> inside b c \<Longrightarrow> inside a c"
    and inside_antisym: "ok a \<Longrightarrow> ok b \<Longrightarrow> inside a b \<Longrightarrow> inside b a \<Longrightarrow> a = b"
    and inside_chain: "ok a \<Longrightarrow> ok b \<Longrightarrow> ok c \<Longrightarrow> inside a c \<Longrightarrow> inside b c \<Longrightarrow> inside a b \<or> inside b a"
    and inside_le: "ok a \<Longrightarrow> ok b \<Longrightarrow> inside a b \<Longrightarrow> a \<le> b"
begin

lemma deepest_exists:
  assumes "finite S" and "\<forall>e\<in>S. ok (key e)" and "ok s" and "\<exists>e\<in>S. inside (key e) s"
  shows "\<exists>e. deepest_in inside key S s e"
  using assms
proof (induction S rule: finite_induct)
  case empty
  then show ?case by simp
next
  case (insert x S)
  show ?case
  proof (cases "\<exists>e\<in>S. inside (key e) s")
    case False
    with insert.prems have "deepest_in inside key (insert x S) s x"
      by (auto simp: deepest_in_def inside_refl)
    then show ?thesis by blast
  next
    case True
    with insert obtain e where e: "deepest_in inside key S s e" by auto
    have oks: "ok (key e)" "ok (key x)" "\<forall>e'\<in>S. ok (key e')" "ok s"
      using e insert.prems by (auto simp: deepest_in_def)
    show ?thesis
    proof (cases "inside (key x) s \<and> inside (key e) (key x)")
      case True
      then have "deepest_in inside key (insert x S) s x"
        using e oks unfolding deepest_in_def by (auto simp: inside_refl intro: inside_trans)
      then show ?thesis by blast
    next
      case False
      then have "deepest_in inside key (insert x S) s e"
        using e oks inside_chain unfolding deepest_in_def by (metis insert_iff)
      then show ?thesis by blast
    qed
  qed
qed

lemma deepest_key_unique:
  assumes "deepest_in inside key S s e" and "deepest_in inside key S s e'" and "\<forall>x\<in>S. ok (key x)"
  shows "key e = key e'"
  using assms inside_antisym unfolding deepest_in_def by meson

lemma deepest_unique:
  assumes "deepest_in inside key S s e" and "deepest_in inside key S s e'" and "\<forall>x\<in>S. ok (key x)"
    and "inj_on key S"
  shows "e = e'"
  using assms deepest_key_unique unfolding deepest_in_def by (metis inj_onD)

text \<open>The match for a path below a matched entry is the match of that entry's own path.\<close>

lemma deepest_self: "e \<in> S \<Longrightarrow> deepest_in inside key S (key e) e"
  by (auto simp: deepest_in_def inside_refl)

lemma deepest_subset:
  assumes d: "deepest_in inside key S s d" and k: "deepest_in inside key K s k" and "K \<subseteq> S"
    and oks: "\<forall>x\<in>S. ok (key x)" "ok s"
  shows "deepest_in inside key K (key d) k"
proof -
  have "k \<in> S" "inside (key k) s" using k assms(3) by (auto simp: deepest_in_def)
  with d have kd: "inside (key k) (key d)" by (auto simp: deepest_in_def)
  moreover have "inside (key e) (key k)" if "e \<in> K" "inside (key e) (key d)" for e
  proof -
    have "inside (key e) s" using that d assms(3) oks inside_trans
      unfolding deepest_in_def by (meson subsetD)
    with that k show ?thesis by (auto simp: deepest_in_def)
  qed
  ultimately show ?thesis using k by (auto simp: deepest_in_def)
qed

end

lemma prefix_join_sep: "prefix xs ys \<Longrightarrow> prefix (join_sep xs) (join_sep ys)"
proof (induction xs arbitrary: ys rule: join_sep.induct)
  case 1
  then show ?case by simp
next
  case (2 w)
  then obtain zs where "ys = w # zs" by (auto simp: prefix_def)
  then show ?case by (cases zs) (auto simp: prefix_def)
next
  case (3 w v vs)
  then obtain zs where ys: "ys = w # zs" and p: "prefix (v # vs) zs" by (cases ys) auto
  then obtain u us where "zs = u # us" by (cases zs) auto
  with 3 ys p show ?case by (auto simp: prefix_def)
qed

interpretation pw: containment pathWithin canonical_path
proof (unfold_locales, goal_cases)
  case (1 a)
  then show ?case by (simp add: pathWithin_def)
next
  case (2 a b c)
  then show ?case by (simp add: pathWithin_iff) 
next
  case (3 a b)
  then show ?case by (simp add: pathWithin_iff canonical_path_eq_iff prefix_order.antisym)
next
  case (4 a b c)
  then show ?case by (auto simp: pathWithin_iff dest: prefix_comparable)
next
  case (5 a b)
  then have "prefix (join_sep (path_comps a)) (join_sep (path_comps b))"
    by (simp add: pathWithin_iff prefix_join_sep)
  with 5 have "prefix a b" using canonical_path_comps(1) by (metis Cons_prefix_Cons)
  then show ?case by (rule prefix_less_eq)
qed

lemma split_sep_join_append:
  "ws \<noteq> [] \<Longrightarrow> \<forall>w\<in>set ws. plain_comp w \<Longrightarrow> split_sep (join_sep ws @ sep # r) = ws @ split_sep r"
  by (induction ws rule: join_sep.induct) (auto simp: split_sep_append_sep plain_comp_def)

text \<open>A bytewise tree test on canonical paths, as the workspace path safety check writes it.\<close>

lemma canonical_tree_prefix:
  assumes "canonical_path t" and "canonical_path p" and "path_comps t \<noteq> []"
  shows "pathWithin t p \<longleftrightarrow> p = t \<or> prefix (t @ [sep]) p"
proof -
  let ?ts = "path_comps t" and ?ps = "path_comps p"
  have t: "t = sep # join_sep ?ts" and p: "p = sep # join_sep ?ps"
    using assms canonical_path_comps(1) by blast+
  have plain: "\<forall>w\<in>set ?ts. plain_comp w" "\<forall>w\<in>set ?ps. plain_comp w"
    by (auto dest: path_comps_plain)
  have app: "join_sep (xs @ y # ys) = join_sep xs @ sep # join_sep (y # ys)" if "xs \<noteq> []" for xs y ys
    using that by (induction xs rule: join_sep.induct) auto
  show ?thesis
  proof
    assume "pathWithin t p"
    then obtain zs where zs: "?ps = ?ts @ zs" using assms by (auto simp: pathWithin_iff prefix_def)
    show "p = t \<or> prefix (t @ [sep]) p"
    proof (cases zs)
      case Nil
      with zs t p show ?thesis by simp
    next
      case (Cons z zs')
      then have "p = t @ sep # join_sep zs" using zs t p app [OF assms(3), of z zs'] by simp
      then show ?thesis by (simp add: prefix_def)
    qed
  next
    assume "p = t \<or> prefix (t @ [sep]) p"
    then consider "p = t" | r where "p = t @ sep # r" by (auto simp: prefix_def)
    then show "pathWithin t p"
    proof cases
      case 1
      then show ?thesis by (simp add: pathWithin_def)
    next
      case 2
      then have "p = sep # join_sep ?ts @ sep # r" using t by (metis append_Cons)
      then have "split_sep p = [] # ?ts @ split_sep r"
        using split_sep_join_append [OF assms(3) plain(1), of r] by simp
      then have "?ps = filter (\<lambda>w. w \<noteq> []) ?ts @ filter (\<lambda>w. w \<noteq> []) (split_sep r)"
        by (simp add: path_comps_def)
      also have "filter (\<lambda>w. w \<noteq> []) ?ts = ?ts" by (simp add: path_comps_def)
      finally show ?thesis using assms by (simp add: pathWithin_iff)
    qed
  qed
qed

end
