(* ===== verification/Errors.thy ===== *)
theory Errors
  imports Prelude
begin

text \<open>
  Go error values. The daemon classifies failures with \<^verbatim>\<open>errors.Is\<close> against its
  sentinel errors; an error value is modelled by the list of sentinels in its wrap chain, so an
  untyped error is the empty list and \<^verbatim>\<open>fmt.Errorf("...: %w: %w", err, ErrMAC)\<close> appends.
  The message text is not modelled. \<^verbatim>\<open>GoPanic\<close> is not an error value: it stands for a run-time panic (a nil
  dereference), which ends the request. The outcomes of privileged filesystem probes are the classes the
  code distinguishes with \<^verbatim>\<open>fs.ErrNotExist\<close> and \<^verbatim>\<open>fs.ErrPermission\<close>.
\<close>

datatype (plugins only: code) sentinel =
    ErrInvalidAllowedRoot | ErrInvalidAllowedRootAccess | ErrAllowedRootNotFound
  | ErrPrincipalNotFound | ErrPrincipalExists | ErrOSUserNotFound | ErrInvalidPrincipalUsername
  | ErrPrincipalRootOutsideGlobal | ErrPrincipalDisabled
  | ErrLauncherNotFound | ErrLauncherExists | ErrInvalidLauncherName | ErrInvalidScope
  | ErrInvalidAllowedRoots | ErrLauncherRootOutsidePrincipal | ErrLauncherNameRequiresPrincipal
  | ErrLauncherUnavailable | ErrLauncherDisabled | ErrLauncherRuntimeActive
  | ErrCredentialNotFound | ErrCredentialRevoked | ErrPrincipalCredentialExists
  | ErrInvalidPrincipalCredentialName | ErrLauncherCredentialNotFound | ErrLauncherCredentialExists
  | ErrCredentialRotationConflict | ErrCredentialRotationDelivery | ErrCredentialRotationCommitUnknown
  | ErrSessionNotFound | ErrInvalidWorkspace | ErrDatabase | ErrSystem | ErrMAC | ErrMACPreparation
  | ErrLifecycleBusy | ErrConflictingSelectors | ErrInvalidSelector | ErrMissingLauncherSelector
  | ErrInvalidSessionFilesystemPolicy | ErrReadOnlyRoot | ErrOutsideSessionSnapshot
  | ErrOperationNotFound | ErrOperationAlreadyTerminal | ErrStaleRotation
  | ErrInvalidControlAuthority | SqlErrNoRows | GoPanic

type_synonym go_error = "sentinel list"

definition errors_Is :: "go_error \<Rightarrow> sentinel \<Rightarrow> bool" where
  "errors_Is e s = (s \<in> set e)"

abbreviation err :: "sentinel \<Rightarrow> (go_error, 'a) result" where
  "err s \<equiv> Inl [s]"

text \<open>A failed statement, transaction begin or commit: an error that wraps no sentinel.\<close>

abbreviation io_err :: "(go_error, 'a) result" where
  "io_err \<equiv> Inl []"

section \<open>The privileged host-filesystem probes\<close>

datatype probe_error = ProbeNotExist | ProbePermission | ProbeOther

datatype file_kind = KindDir | KindRegular | KindOther

text \<open>
  The host filesystem is outside the program: \<^verbatim>\<open>filepath.EvalSymlinks\<close>,
  \<^verbatim>\<open>os.Stat\<close>, the working directory and the home directory of the process are
  parameters.
\<close>

record host_fs =
  fs_eval :: "string \<Rightarrow> (probe_error, string) result"
  fs_stat :: "string \<Rightarrow> (probe_error, file_kind) result"
  fs_cwd :: "string option"
  fs_home :: "string option"

end
