(* ===== verification/Go_Text.thy ===== *)
theory Go_Text
  imports Prelude
begin

text \<open>
  Go strings as byte sequences: UTF-8 decoding, the rune classes of package unicode that the daemon
  consults, and the splitting functions of package strings.
\<close>

section \<open>Runes\<close>

text \<open>
  \<^verbatim>\<open>for _, r := range s\<close>: the UTF-8 decoding of a Go string. A byte that does not start a
  well-formed encoding (overlong, surrogate, beyond U+10FFFF or truncated) is one replacement rune.
\<close>

definition cont_byte :: "nat \<Rightarrow> bool" where
  "cont_byte b \<longleftrightarrow> 0x80 \<le> b \<and> b \<le> 0xBF"

definition rune_error :: nat where
  "rune_error = 0xFFFD"

definition second_ok :: "nat \<Rightarrow> nat \<Rightarrow> bool" where
  "second_ok b c \<longleftrightarrow> (if b = 0xE0 then 0xA0 else if b = 0xF0 then 0x90 else 0x80) \<le> c \<and>
     c \<le> (if b = 0xED then 0x9F else if b = 0xF4 then 0x8F else 0xBF)"

fun runes :: "nat list \<Rightarrow> nat list" where
  "runes [] = []"
| "runes [b] = [if b < 0x80 then b else rune_error]"
| "runes (b # c # bs) =
     (if b < 0x80 then b # runes (c # bs)
      else if 0xC2 \<le> b \<and> b \<le> 0xDF \<and> cont_byte c then ((b - 0xC0) * 64 + (c - 0x80)) # runes bs
      else if 0xE0 \<le> b \<and> b \<le> 0xEF \<and> second_ok b c then
        (case bs of
           d # ds \<Rightarrow> if cont_byte d then ((b - 0xE0) * 4096 + (c - 0x80) * 64 + (d - 0x80)) # runes ds
                      else rune_error # runes (c # bs)
         | [] \<Rightarrow> rune_error # runes (c # bs))
      else if 0xF0 \<le> b \<and> b \<le> 0xF4 \<and> second_ok b c then
        (case bs of
           d # e # es \<Rightarrow> if cont_byte d \<and> cont_byte e
                          then ((b - 0xF0) * 262144 + (c - 0x80) * 4096 + (d - 0x80) * 64 + (e - 0x80)) # runes es
                          else rune_error # runes (c # bs)
         | _ \<Rightarrow> rune_error # runes (c # bs))
      else rune_error # runes (c # bs))"

definition string_runes :: "string \<Rightarrow> nat list" where
  "string_runes s = runes (map of_char s)"

text \<open>\<^verbatim>\<open>unicode.IsControl\<close>: the C0 controls, DEL and the C1 controls.\<close>

definition unicode_IsControl :: "nat \<Rightarrow> bool" where
  "unicode_IsControl r \<longleftrightarrow> r \<le> 0x1F \<or> 0x7F \<le> r \<and> r \<le> 0x9F"

section \<open>Strings as sequences of encoded runes\<close>

text \<open>
  A string as the byte sequences of its runes, \<^verbatim>\<open>unicode.IsSpace\<close> on them, and the
  line and field splitting of package strings.
\<close>

definition rune_width :: "nat list \<Rightarrow> nat" where
  "rune_width bs =
     (case bs of
        b # c # ds \<Rightarrow>
          if 0xC2 \<le> b \<and> b \<le> 0xDF \<and> cont_byte c then 2
          else if 0xE0 \<le> b \<and> b \<le> 0xEF \<and> second_ok b c \<and> ds \<noteq> [] \<and> cont_byte (hd ds) then 3
          else if 0xF0 \<le> b \<and> b \<le> 0xF4 \<and> second_ok b c \<and> 2 \<le> length ds \<and> cont_byte (ds ! 0) \<and> cont_byte (ds ! 1) then 4
          else 1
      | _ \<Rightarrow> 1)"

fun rune_chunks :: "string \<Rightarrow> string list" where
  "rune_chunks [] = []"
| "rune_chunks (c # cs) =
     (let w = rune_width (map of_char (c # cs)) in (c # take (w - 1) cs) # rune_chunks (drop (w - 1) cs))"

text \<open>\<^verbatim>\<open>utf8.ValidString\<close>.\<close>

definition utf8_ValidString :: "string \<Rightarrow> bool" where
  "utf8_ValidString s = list_all (\<lambda>chunk. length chunk = 1 \<longrightarrow> of_char (hd chunk) < (0x80 :: nat)) (rune_chunks s)"

definition unicode_IsSpace :: "string \<Rightarrow> bool" where
  "unicode_IsSpace chunk \<longleftrightarrow> map of_char chunk \<in> set
     ([[0x09], [0x0A], [0x0B], [0x0C], [0x0D], [0x20], [0xC2, 0x85], [0xC2, 0xA0], [0xE1, 0x9A, 0x80],
       [0xE2, 0x80, 0xA8], [0xE2, 0x80, 0xA9], [0xE2, 0x80, 0xAF], [0xE2, 0x81, 0x9F], [0xE3, 0x80, 0x80]]
      @ map (\<lambda>i. [0xE2, 0x80, i]) [0x80..<0x8B] :: nat list list)"

definition strings_TrimSpace :: "string list \<Rightarrow> string list" where
  "strings_TrimSpace cs = rev (dropWhile unicode_IsSpace (rev (dropWhile unicode_IsSpace cs)))"

fun split_chunks :: "(string \<Rightarrow> bool) \<Rightarrow> string list \<Rightarrow> string list \<Rightarrow> string list list" where
  "split_chunks P acc [] = [acc]"
| "split_chunks P acc (c # cs) = (if P c then acc # split_chunks P [] cs else split_chunks P (acc @ [c]) cs)"

definition strings_Fields :: "string list \<Rightarrow> string list" where
  "strings_Fields cs = map concat (filter (\<lambda>f. f \<noteq> []) (split_chunks unicode_IsSpace [] cs))"

section \<open>Facts\<close>

text \<open>The bytes of a control rune: an ASCII control, or the two-byte encoding of a C1 control.\<close>

definition ascii_control :: "nat \<Rightarrow> bool" where
  "ascii_control b \<longleftrightarrow> b \<le> 0x1F \<or> b = 0x7F"

fun control_bytes :: "nat list \<Rightarrow> bool" where
  "control_bytes [] = False"
| "control_bytes [b] = ascii_control b"
| "control_bytes (b # c # bs) \<longleftrightarrow>
     ascii_control b \<or> b = 0xC2 \<and> 0x80 \<le> c \<and> c \<le> 0x9F \<or> control_bytes (c # bs)"

lemma control_bytes_cont: "0x80 \<le> c \<Longrightarrow> c \<noteq> 0xC2 \<Longrightarrow> control_bytes (c # bs) = control_bytes bs"
  by (cases bs) (auto simp: ascii_control_def)

lemma control_two_bytes:
  assumes "0xC2 \<le> b" and "0x80 \<le> c" "c \<le> 0xBF"
  shows "unicode_IsControl ((b - 0xC0) * 64 + (c - 0x80)) \<longleftrightarrow> b = 0xC2 \<and> c \<le> 0x9F"
proof (cases "b = 0xC2")
  case True
  then show ?thesis using assms by (auto simp: unicode_IsControl_def)
next
  case False
  then have "3 \<le> b - 0xC0" using assms(1) by simp
  then have "192 \<le> (b - 0xC0) * 64" by simp
  then show ?thesis using False by (simp add: unicode_IsControl_def)
qed

lemma not_control_error [simp]: "\<not> unicode_IsControl rune_error"
  by (simp add: unicode_IsControl_def rune_error_def)

lemma not_control_big: "0xA0 \<le> r \<Longrightarrow> \<not> unicode_IsControl r"
  by (simp add: unicode_IsControl_def)

lemma big_rune:
  assumes "0xE0 \<le> b" "second_ok b c"
  shows "0xA0 \<le> (b - 0xE0) * 4096 + (c - 0x80) * 64 + d"
    and "0xF0 \<le> b \<Longrightarrow> 0xA0 \<le> (b - 0xF0) * 262144 + (c - 0x80) * 4096 + d" and "cont_byte c"
proof -
  have c: "0x80 \<le> c" "c \<le> 0xBF" and lo: "b = 0xE0 \<Longrightarrow> 0xA0 \<le> c" "b = 0xF0 \<Longrightarrow> 0x90 \<le> c"
    using assms by (auto simp: second_ok_def split: if_splits)
  show "cont_byte c" using c by (simp add: cont_byte_def)
  show "0xA0 \<le> (b - 0xE0) * 4096 + (c - 0x80) * 64 + d"
    using assms(1) c lo(1) by (cases "b = 0xE0") auto
  show "0xA0 \<le> (b - 0xF0) * 262144 + (c - 0x80) * 4096 + d" if "0xF0 \<le> b"
    using that c lo(2) by (cases "b = 0xF0") auto
qed

lemma control_bytes_bad: "0x80 \<le> b \<Longrightarrow> \<not> (b = 0xC2 \<and> cont_byte c) \<Longrightarrow> control_bytes (b # c # bs) = control_bytes (c # bs)"
  by (auto simp: ascii_control_def cont_byte_def)

lemma control_bytes_skip: "cont_byte c \<Longrightarrow> control_bytes (c # bs) = control_bytes bs"
  by (rule control_bytes_cont) (auto simp: cont_byte_def)

lemma runes_shape:
  assumes "\<not> b < 0x80" and "\<not> (0xC2 \<le> b \<and> b \<le> 0xDF \<and> cont_byte c)"
  shows "(0xE0 \<le> b \<and> b \<le> 0xEF \<and> second_ok b c) \<and> (\<exists>d ds. bs = d # ds \<and> cont_byte d) \<or>
    (0xF0 \<le> b \<and> b \<le> 0xF4 \<and> second_ok b c) \<and> (\<exists>d e es. bs = d # e # es \<and> cont_byte d \<and> cont_byte e) \<or>
    runes (b # c # bs) = rune_error # runes (c # bs)"
proof -
  consider "bs = []" | d where "bs = [d]" | d e es where "bs = d # e # es" by (metis list.exhaust)
  then show ?thesis
    using assms by cases (simp_all only: runes.simps list.case if_False list.simps, auto)
qed

lemma runes_control: "list_ex unicode_IsControl (runes bs) \<longleftrightarrow> control_bytes bs"
proof (induction bs rule: length_induct)
  case (1 xs)
  then have IH: "length ys < length xs \<Longrightarrow> list_ex unicode_IsControl (runes ys) = control_bytes ys" for ys by blast
  consider "xs = []" | b where "xs = [b]" | b c bs where "xs = b # c # bs" by (metis list.exhaust)
  then show ?case
  proof cases
    case (3 b c bs)
    note xs = this
    have tail: "list_ex unicode_IsControl (runes (c # bs)) = control_bytes (c # bs)"
      and bs: "list_ex unicode_IsControl (runes bs) = control_bytes bs" using IH xs by simp_all
    consider (ascii) "b < 0x80"
      | (two) "\<not> b < 0x80" "0xC2 \<le> b \<and> b \<le> 0xDF \<and> cont_byte c"
      | (more) "\<not> b < 0x80" "\<not> (0xC2 \<le> b \<and> b \<le> 0xDF \<and> cont_byte c)" by blast
    then show ?thesis
    proof cases
      case ascii
      then have "unicode_IsControl b = ascii_control b" by (auto simp: unicode_IsControl_def ascii_control_def)
      then show ?thesis using tail ascii unfolding xs by simp
    next
      case two
      then have "0x80 \<le> c" "c \<le> 0xBF" "c \<noteq> 0xC2" by (auto simp: cont_byte_def)
      then show ?thesis
        using two bs control_two_bytes [of b c] control_bytes_cont [of c bs] unfolding xs
        by (auto simp: ascii_control_def)
    next
      case more
      then have bad: "control_bytes (b # c # bs) = control_bytes (c # bs)" by (intro control_bytes_bad) auto
      consider (three) d ds where "0xE0 \<le> b \<and> b \<le> 0xEF \<and> second_ok b c" "bs = d # ds" "cont_byte d"
        | (four) d e es where "0xF0 \<le> b \<and> b \<le> 0xF4 \<and> second_ok b c" "bs = d # e # es" "cont_byte d" "cont_byte e"
        | (error) "runes (b # c # bs) = rune_error # runes (c # bs)"
        using more runes_shape by blast
      then show ?thesis
      proof cases
        case three
        have "list_ex unicode_IsControl (runes ds) = control_bytes ds" using IH xs three by simp
        moreover have "\<not> unicode_IsControl ((b - 0xE0) * 4096 + (c - 0x80) * 64 + (d - 0x80))" "cont_byte c"
          using three big_rune [of b c] not_control_big by blast+
        ultimately show ?thesis
          using more three bad unfolding xs by (simp add: control_bytes_skip del: control_bytes.simps)
      next
        case four
        have "list_ex unicode_IsControl (runes es) = control_bytes es" using IH xs four by simp
        moreover have "\<not> unicode_IsControl ((b - 0xF0) * 262144 + (c - 0x80) * 4096 + (d - 0x80) * 64 + (e - 0x80))" "cont_byte c"
          using four big_rune(2,3) [of b c] not_control_big by (simp_all add: add.assoc)
        ultimately show ?thesis
          using more four bad unfolding xs by (simp add: control_bytes_skip del: control_bytes.simps)
      next
        case error
        then show ?thesis using tail bad unfolding xs by simp
      qed
    qed
  qed (auto simp: unicode_IsControl_def ascii_control_def rune_error_def)
qed

lemma rune_chunks_ascii: "\<forall>c\<in>set w. (of_char c :: nat) < 0x80 \<Longrightarrow> rune_chunks w = map (\<lambda>c. [c]) w"
proof (induction w)
  case (Cons c w)
  then have "rune_width (map of_char (c # w)) = 1" by (auto simp: rune_width_def split: list.splits)
  then show ?case using Cons by (simp add: Let_def)
qed simp

lemma split_chunks_sep:
  "\<forall>c\<in>set xs. \<not> P c \<Longrightarrow> split_chunks P acc (xs @ ys) = split_chunks P (acc @ xs) ys"
  by (induction xs arbitrary: acc) auto

lemma space_ascii:
  "(of_char c :: nat) < 0x80 \<Longrightarrow> unicode_IsSpace [c] \<longleftrightarrow> (of_char c :: nat) \<in> {0x09, 0x0A, 0x0B, 0x0C, 0x0D, 0x20}"
  by (auto simp: unicode_IsSpace_def)

lemma rune_width_pos: "1 \<le> rune_width bs"
  by (auto simp: rune_width_def split: list.split)

text \<open>The width of a rune is decided by its own bytes.\<close>

lemma rune_width_local:
  assumes "rune_width (b # bs) = w" and "1 < w"
  shows "w \<le> Suc (length bs)" and "rune_width (b # take (w - 1) bs @ x) = w"
proof -
  consider c ds where "bs = c # ds" "0xC2 \<le> b \<and> b \<le> 0xDF \<and> cont_byte c" "w = 2"
    | c d ds where "bs = c # d # ds" "\<not> (0xC2 \<le> b \<and> b \<le> 0xDF \<and> cont_byte c)" "0xE0 \<le> b \<and> b \<le> 0xEF \<and> second_ok b c" "cont_byte d" "w = 3"
    | c d e ds where "bs = c # d # e # ds" "0xF0 \<le> b \<and> b \<le> 0xF4 \<and> second_ok b c" "cont_byte d" "cont_byte e" "w = 4"
    using assms by (cases bs rule: list.exhaust; cases "tl bs"; cases "tl (tl bs)") (auto simp: rune_width_def split: if_splits)
  then show "w \<le> Suc (length bs)" "rune_width (b # take (w - 1) bs @ x) = w"
    by (cases; auto simp: rune_width_def numeral_eq_Suc)+
qed

end
