(* ===== verification/Go_Json.thy ===== *)
theory Go_Json
  imports Go_Text
begin

text \<open>
  Package encoding/json as the daemon uses it: the text of a JSON value read into a value, and the
  encoding of a string. The reader is the scanner of the package, a tokenizer followed by an automaton
  with a stack of open arrays and objects; it takes a whole text and refuses anything after the value.
\<close>

datatype json =
    JNull | JBool bool | JNumber string | JString string | JArray "json list"
  | JObject "(string \<times> json) list"

section \<open>Encoding a string\<close>

text \<open>
  \<^verbatim>\<open>json.Marshal\<close> of a string, with the HTML escapes of its default mode. A byte that is not
  part of a well-formed rune is written as the replacement rune.
\<close>

definition quote_char :: char where "quote_char = CHR 0x22"
definition backslash :: char where "backslash = CHR 0x5C"

definition unicode_escape :: "nat \<Rightarrow> string" where
  "unicode_escape u = [backslash, CHR ''u'', hex_digit (u div 4096), hex_digit (u div 256), hex_digit (u div 16), hex_digit u]"

definition escape_ascii :: "char \<Rightarrow> string" where
  "escape_ascii c =
     (if c = quote_char \<or> c = backslash then [backslash, c]
      else if c = CHR 0x08 then [backslash, CHR ''b'']
      else if c = CHR 0x0C then [backslash, CHR ''f'']
      else if c = CHR 0x0A then [backslash, CHR ''n'']
      else if c = CHR 0x0D then [backslash, CHR ''r'']
      else if c = CHR 0x09 then [backslash, CHR ''t'']
      else if of_char c < (0x20 :: nat) \<or> c \<in> {CHR ''<'', CHR ''>'', CHR ''&''} then unicode_escape (of_char c)
      else [c])"

definition escape_chunk :: "string \<Rightarrow> string" where
  "escape_chunk chunk =
     (case chunk of
        [c] \<Rightarrow> if of_char c < (0x80 :: nat) then escape_ascii c else unicode_escape rune_error
      | _ \<Rightarrow> if map of_char chunk = [0xE2, 0x80, 0xA8 :: nat] then unicode_escape 0x2028
             else if map of_char chunk = [0xE2, 0x80, 0xA9 :: nat] then unicode_escape 0x2029
             else chunk)"

definition json_quote :: "string \<Rightarrow> string" where
  "json_quote s = quote_char # concat (map escape_chunk (rune_chunks s)) @ [quote_char]"

section \<open>Decoding a string\<close>

definition hex_value :: "char \<Rightarrow> nat option" where
  "hex_value c = (let n = of_char c :: nat in
     if 0x30 \<le> n \<and> n \<le> 0x39 then Some (n - 0x30)
     else if 0x61 \<le> n \<and> n \<le> 0x66 then Some (n - 0x61 + 10)
     else if 0x41 \<le> n \<and> n \<le> 0x46 then Some (n - 0x41 + 10)
     else None)"

fun hex4 :: "string \<Rightarrow> (nat \<times> string) option" where
  "hex4 (a # b # c # d # r) =
     (case (hex_value a, hex_value b, hex_value c, hex_value d) of
        (Some w, Some x, Some y, Some z) \<Rightarrow> Some (((w * 16 + x) * 16 + y) * 16 + z, r)
      | _ \<Rightarrow> None)"
| "hex4 _ = None"

lemma hex4_length: "hex4 s = Some (u, r) \<Longrightarrow> length r < length s"
  by (induction s rule: hex4.induct) (auto split: option.splits)

text \<open>\<^verbatim>\<open>utf8.AppendRune\<close>.\<close>

definition encode_rune :: "nat \<Rightarrow> string" where
  "encode_rune r = map char_of
     (if r < 0x80 then [r]
      else if r < 0x800 then [0xC0 + r div 64, 0x80 + r mod 64]
      else if 0xD800 \<le> r \<and> r \<le> 0xDFFF \<or> 0x10FFFF < r then [0xEF, 0xBF, 0xBD]
      else if r < 0x10000 then [0xE0 + r div 4096, 0x80 + r div 64 mod 64, 0x80 + r mod 64]
      else [0xF0 + r div 262144, 0x80 + r div 4096 mod 64, 0x80 + r div 64 mod 64, 0x80 + r mod 64])"

definition simple_escape :: "char \<Rightarrow> char option" where
  "simple_escape e =
     (if e = quote_char \<or> e = backslash \<or> e = CHR ''/'' then Some e
      else if e = CHR ''b'' then Some (CHR 0x08) else if e = CHR ''f'' then Some (CHR 0x0C)
      else if e = CHR ''n'' then Some (CHR 0x0A) else if e = CHR ''r'' then Some (CHR 0x0D)
      else if e = CHR ''t'' then Some (CHR 0x09) else None)"

definition before :: "string \<Rightarrow> (string \<times> string) option \<Rightarrow> (string \<times> string) option" where
  "before p q = map_option (\<lambda>(s, r). (p @ s, r)) q"

text \<open>
  The rest of a string literal after its opening quote: the decoded string and what follows the closing
  quote. A high surrogate escape followed by a low one is one rune, any other surrogate the replacement.
\<close>

function (sequential) unquote :: "string \<Rightarrow> (string \<times> string) option" where
  "unquote [] = None"
| "unquote (c # cs) =
     (if c = quote_char then Some ([], cs)
      else if c = backslash then
        (case cs of
           [] \<Rightarrow> None
         | e # es \<Rightarrow>
             if e = CHR ''u'' then
               (case hex4 es of
                  None \<Rightarrow> None
                | Some (u, r) \<Rightarrow>
                    if 0xD800 \<le> u \<and> u \<le> 0xDBFF \<and> take 2 r = [backslash, CHR ''u''] then
                      (case hex4 (drop 2 r) of
                         None \<Rightarrow> None
                       | Some (v, r') \<Rightarrow>
                           if 0xDC00 \<le> v \<and> v \<le> 0xDFFF
                           then before (encode_rune ((u - 0xD800) * 1024 + (v - 0xDC00) + 0x10000)) (unquote r')
                           else before (encode_rune rune_error) (unquote r))
                    else before (encode_rune u) (unquote r))
             else (case simple_escape e of None \<Rightarrow> None | Some x \<Rightarrow> before [x] (unquote es)))
      else if of_char c < (0x20 :: nat) then None
      else if of_char c < (0x80 :: nat) then before [c] (unquote cs)
      else (let w = rune_width (map of_char (c # cs)) in
        if w = 1 then before (encode_rune rune_error) (unquote cs)
        else before (c # take (w - 1) cs) (unquote (drop (w - 1) cs))))"
  by pat_completeness auto
termination
proof (relation "measure length")
  show "wf (measure (length :: string \<Rightarrow> nat))" by simp
next
  fix c :: char and cs e es p u r q v r'
  assume cs: "cs = e # es" and p: "hex4 es = Some p" "(u, r) = p" and q: "hex4 (drop 2 r) = Some q" "(v, r') = q"
  have "length r' < length r" using hex4_length [of "drop 2 r" v r'] q by simp
  moreover have "length r < length es" using hex4_length [of es u r] p by simp
  ultimately show "(r', c # cs) \<in> measure length" by (simp add: cs)
next
  fix c :: char and cs e es p u r q v r'
  assume cs: "cs = e # es" and p: "hex4 es = Some p" "(u, r) = p"
  have "length r < length es" using hex4_length [of es u r] p by simp
  then show "(r, c # cs) \<in> measure length" "(r, c # cs) \<in> measure length" by (simp_all add: cs)
qed auto

section \<open>Tokens\<close>

datatype json_token = TokOpenArray | TokCloseArray | TokOpenObject | TokCloseObject | TokColon | TokComma | TokString string | TokValue json

definition json_space :: "char \<Rightarrow> bool" where
  "json_space c \<longleftrightarrow> c \<in> {CHR '' '', CHR 0x09, CHR 0x0A, CHR 0x0D}"

definition digit :: "char \<Rightarrow> bool" where
  "digit c \<longleftrightarrow> 0x30 \<le> (of_char c :: nat) \<and> (of_char c :: nat) \<le> 0x39"

definition number_char :: "char \<Rightarrow> bool" where
  "number_char c \<longleftrightarrow> digit c \<or> c \<in> set ''+-.eE''"

text \<open>The number grammar: an integer part without leading zeros, a fraction, an exponent.\<close>

definition exponent_ok :: "string \<Rightarrow> bool" where
  "exponent_ok s \<longleftrightarrow> s = [] \<or> hd s \<in> set ''eE'' \<and>
     (let t = tl s; u = (if t \<noteq> [] \<and> hd t \<in> set ''+-'' then tl t else t) in u \<noteq> [] \<and> list_all digit u)"

definition fraction_ok :: "string \<Rightarrow> bool" where
  "fraction_ok s \<longleftrightarrow>
     (if s \<noteq> [] \<and> hd s = CHR ''.'' then takeWhile digit (tl s) \<noteq> [] \<and> exponent_ok (dropWhile digit (tl s)) else exponent_ok s)"

definition number_ok :: "string \<Rightarrow> bool" where
  "number_ok s \<longleftrightarrow>
     (let t = (if s \<noteq> [] \<and> hd s = CHR ''-'' then tl s else s); d = takeWhile digit t in
      d \<noteq> [] \<and> (hd d = CHR ''0'' \<longrightarrow> length d = 1) \<and> fraction_ok (dropWhile digit t))"

definition punctuation :: "char \<Rightarrow> json_token option" where
  "punctuation c =
     (if c = CHR ''['' then Some TokOpenArray else if c = CHR '']'' then Some TokCloseArray
      else if c = CHR ''{'' then Some TokOpenObject else if c = CHR ''}'' then Some TokCloseObject
      else if c = CHR '':'' then Some TokColon else if c = CHR '','' then Some TokComma else None)"

definition literal :: "string \<Rightarrow> (json \<times> string) option" where
  "literal s =
     (if take 4 s = ''null'' then Some (JNull, drop 4 s)
      else if take 4 s = ''true'' then Some (JBool True, drop 4 s)
      else if take 5 s = ''false'' then Some (JBool False, drop 5 s)
      else if s \<noteq> [] \<and> number_char (hd s) \<and> number_ok (takeWhile number_char s)
      then Some (JNumber (takeWhile number_char s), dropWhile number_char s)
      else None)"

lemma before_Some: "before p q = Some (s, r) \<longleftrightarrow> (\<exists>s'. q = Some (s', r) \<and> s = p @ s')"
  by (auto simp: before_def)

lemma unquote_length: "unquote s = Some (t, r) \<Longrightarrow> length r < length s"
proof (induction "length s" arbitrary: s t rule: less_induct)
  case less
  have IH: "length r < length s" if "before p (unquote x) = Some (t, r)" "length x < length s" for p x
    using less.hyps [OF that(2)] that by (auto simp: before_Some intro: less_trans)
  show ?case
  proof (cases s)
    case (Cons c cs)
    consider (close) "c = quote_char" | (esc) "c \<noteq> quote_char" "c = backslash" | (plain) "c \<noteq> quote_char" "c \<noteq> backslash" by blast
    then show ?thesis
    proof cases
      case esc0: esc
      then obtain e es where esc: "c = backslash" "cs = e # es" "c \<noteq> quote_char" using less.prems Cons by (cases cs) auto
      have u: "\<exists>x p. before p (unquote x) = Some (t, r) \<and> length x \<le> length es"
      proof (cases "e = CHR ''u''")
        case True
        then obtain u r1 where h: "hex4 es = Some (u, r1)" using less.prems Cons esc by (auto split: option.splits)
        note l = hex4_length [OF h]
        show ?thesis
        proof (cases "hex4 (drop 2 r1)")
          case None
          then show ?thesis using less.prems Cons esc True h l by (auto split: if_splits)
        next
          case (Some q)
          obtain v r2 where q: "q = (v, r2)" by (cases q)
          have "length r2 < length (drop 2 r1)" using hex4_length Some q by blast
          then show ?thesis using less.prems Cons esc True h l Some q by (auto split: if_splits)
        qed
      next
        case False
        then show ?thesis using less.prems Cons esc by (auto split: option.splits)
      qed
      then show ?thesis using IH Cons esc by force
    next
      case plain
      then obtain p n where "before p (unquote (drop n cs)) = Some (t, r)"
        using less.prems Cons by (fastforce simp: Let_def split: if_splits intro: that [of _ 0])
      then show ?thesis by (rule IH) (simp add: Cons)
    qed (use less.prems Cons in simp)
  qed (use less.prems in simp)
qed

lemma literal_length: "literal s = Some (v, r) \<Longrightarrow> length r < length s"
proof (cases "s \<noteq> [] \<and> number_char (hd s)")
  case True
  then have "takeWhile number_char s \<noteq> []" by (cases s) simp_all
  then have "length (dropWhile number_char s) < length s"
    by (metis add_diff_cancel_left' append_Nil2 length_append length_greater_0_conv less_add_same_cancel2 takeWhile_dropWhile_id)
  then show "literal s = Some (v, r) \<Longrightarrow> length r < length s"
    by (cases s) (auto simp: literal_def split: if_splits)
qed (cases s, auto simp: literal_def split: if_splits)

function (sequential) json_tokens :: "string \<Rightarrow> json_token list option" where
  "json_tokens [] = Some []"
| "json_tokens (c # cs) =
     (if json_space c then json_tokens cs
      else case punctuation c of
          Some t \<Rightarrow> map_option (Cons t) (json_tokens cs)
        | None \<Rightarrow>
            if c = quote_char then
              (case unquote cs of None \<Rightarrow> None | Some (s, r) \<Rightarrow> map_option (Cons (TokString s)) (json_tokens r))
            else (case literal (c # cs) of None \<Rightarrow> None | Some (v, r) \<Rightarrow> map_option (Cons (TokValue v)) (json_tokens r)))"
  by pat_completeness auto
termination
  by (relation "measure length") (auto dest!: unquote_length literal_length)

section \<open>The automaton\<close>

datatype json_frame = FrameArray "json list" | FrameObject "(string \<times> json) list" | FrameMember "(string \<times> json) list" string

datatype json_expect = ExpectValue | ExpectValueOrClose | ExpectKey | ExpectKeyOrClose | ExpectColon | ExpectMore | ExpectEnd json

type_synonym json_state = "json_expect \<times> json_frame list"

definition maxNestingDepth :: nat where "maxNestingDepth = 10000"

fun value_done :: "json \<Rightarrow> json_frame list \<Rightarrow> json_state option" where
  "value_done v [] = Some (ExpectEnd v, [])"
| "value_done v (FrameArray xs # st) = Some (ExpectMore, FrameArray (xs @ [v]) # st)"
| "value_done v (FrameMember ms k # st) = Some (ExpectMore, FrameObject (ms @ [(k, v)]) # st)"
| "value_done v (FrameObject ms # st) = None"

definition open_frame :: "json_expect \<Rightarrow> json_frame \<Rightarrow> json_frame list \<Rightarrow> json_state option" where
  "open_frame e f st = (if length st < maxNestingDepth then Some (e, f # st) else None)"

definition value_start :: "json_token \<Rightarrow> json_frame list \<Rightarrow> json_state option" where
  "value_start t st =
     (case t of
        TokOpenArray \<Rightarrow> open_frame ExpectValueOrClose (FrameArray []) st
      | TokOpenObject \<Rightarrow> open_frame ExpectKeyOrClose (FrameObject []) st
      | TokString s \<Rightarrow> value_done (JString s) st
      | TokValue v \<Rightarrow> value_done v st
      | _ \<Rightarrow> None)"

fun json_step :: "json_state \<Rightarrow> json_token \<Rightarrow> json_state option" where
  "json_step (ExpectValue, st) t = value_start t st"
| "json_step (ExpectValueOrClose, FrameArray xs # st) TokCloseArray = value_done (JArray xs) st"
| "json_step (ExpectValueOrClose, st) t = value_start t st"
| "json_step (ExpectKey, FrameObject ms # st) (TokString k) = Some (ExpectColon, FrameMember ms k # st)"
| "json_step (ExpectKeyOrClose, FrameObject ms # st) (TokString k) = Some (ExpectColon, FrameMember ms k # st)"
| "json_step (ExpectKeyOrClose, FrameObject ms # st) TokCloseObject = value_done (JObject ms) st"
| "json_step (ExpectColon, st) TokColon = Some (ExpectValue, st)"
| "json_step (ExpectMore, FrameArray xs # st) TokComma = Some (ExpectValue, FrameArray xs # st)"
| "json_step (ExpectMore, FrameObject ms # st) TokComma = Some (ExpectKey, FrameObject ms # st)"
| "json_step (ExpectMore, FrameArray xs # st) TokCloseArray = value_done (JArray xs) st"
| "json_step (ExpectMore, FrameObject ms # st) TokCloseObject = value_done (JObject ms) st"
| "json_step _ _ = None"

fun json_run :: "json_state \<Rightarrow> json_token list \<Rightarrow> json option" where
  "json_run (ExpectEnd v, _) [] = Some v"
| "json_run _ [] = None"
| "json_run s (t # ts) = (case json_step s t of None \<Rightarrow> None | Some s' \<Rightarrow> json_run s' ts)"

definition json_parse :: "string \<Rightarrow> json option" where
  "json_parse s = (case json_tokens s of None \<Rightarrow> None | Some ts \<Rightarrow> json_run (ExpectValue, []) ts)"

section \<open>Decoding into Go values\<close>

text \<open>
  The name of a struct member is matched exactly or by the simple case folding of Unicode, under which
  the Kelvin sign is a k and the long s is an s.
\<close>

definition fold_rune :: "nat \<Rightarrow> nat" where
  "fold_rune r = (if 0x61 \<le> r \<and> r \<le> 0x7A then r - 0x20 else if r = 0x212A then 0x4B else if r = 0x17F then 0x53 else r)"

definition member_is :: "string \<Rightarrow> string \<Rightarrow> bool" where
  "member_is field k \<longleftrightarrow> k = field \<or> map fold_rune (string_runes k) = map fold_rune (string_runes field)"

lemma member_is_refl [simp]: "member_is field field"
  by (simp add: member_is_def)

section \<open>Encoded strings decode\<close>

lemma hex_digit_value [simp]: "hex_value (hex_digit n) = Some (n mod 16)"
proof -
  have "\<forall>m<16. hex_value (''0123456789abcdef'' ! m) = Some m" by code_simp
  then show ?thesis by (simp add: hex_digit_def)
qed

lemma hex4_escape: "u < 65536 \<Longrightarrow> hex4 (hex_digit (u div 4096) # hex_digit (u div 256) # hex_digit (u div 16) # hex_digit u # r) = Some (u, r)"
proof -
  assume u: "u < 65536"
  have d: "u div 256 = u div 16 div 16" "u div 4096 = u div 16 div 16 div 16" by (simp_all add: div_mult2_eq [symmetric])
  have "u div 16 div 16 div 16 mod 16 = u div 16 div 16 div 16" using u by simp
  then show ?thesis by (simp add: d)
qed

lemma unquote_escape:
  assumes "u < 0xD800"
  shows "unquote (unicode_escape u @ r) = before (encode_rune u) (unquote r)"
  using assms hex4_escape [of u r] by (simp add: unicode_escape_def quote_char_def backslash_def)

lemma unquote_ascii:
  assumes "of_char c < (0x80 :: nat)"
  shows "unquote (escape_ascii c @ r) = before [c] (unquote r)"
proof -
  have enc: "encode_rune (of_char c) = [c]" using assms by (simp add: encode_rune_def)
  show ?thesis
  proof (cases "of_char c < (0x20 :: nat) \<or> c \<in> {CHR ''<'', CHR ''>'', CHR ''&''}")
    case True
    have "unquote (unicode_escape (of_char c) @ r) = before [c] (unquote r)"
      using unquote_escape [of "of_char c" r] assms enc by simp
    then show ?thesis using assms by (simp add: escape_ascii_def quote_char_def backslash_def simple_escape_def)
  next
    case False
    then show ?thesis using assms by (simp add: escape_ascii_def quote_char_def backslash_def simple_escape_def)
  qed
qed

lemma unquote_chunk:
  assumes "rune_width (map of_char (c # cs)) = w" and "1 < w"
  shows "unquote (escape_chunk (c # take (w - 1) cs) @ r) = before (c # take (w - 1) cs) (unquote r)"
proof -
  let ?ch = "c # take (w - 1) cs"
  note w = rune_width_local [of "of_char c" "map of_char cs" w] 
  have len: "length ?ch = w" "w \<le> Suc (length cs)" using w(1) assms by simp_all
  have same: "rune_width (map of_char (?ch @ r)) = w"
    using w(2) [of "map of_char r"] assms by (simp add: take_map)
  have big: "\<not> of_char c < (0x80 :: nat)"
    using assms by (auto simp: rune_width_def split: list.splits if_splits)
  then have c: "c \<noteq> quote_char" "c \<noteq> backslash" by (auto simp: quote_char_def backslash_def)
  have copy: "unquote (?ch @ r) = before ?ch (unquote r)"
  proof -
    obtain ds where ds: "take (w - 1) cs = ds" "length ds = w - 1" using len by simp
    have "rune_width (map of_char (c # ds @ r)) = w" using same ds(1) by simp
    then have "unquote (c # ds @ r) = before (c # take (w - 1) (ds @ r)) (unquote (drop (w - 1) (ds @ r)))"
      using c big assms(2) by (subst unquote.simps) (simp add: Let_def del: unquote.simps)
    moreover have "take (w - 1) (ds @ r) = ds" "drop (w - 1) (ds @ r) = r" unfolding ds(2) [symmetric] by simp_all
    ultimately show ?thesis unfolding ds(1) by (simp only: append_Cons)
  qed
  have ls: "encode_rune 0x2028 = map char_of [0xE2, 0x80, 0xA8 :: nat]" "encode_rune 0x2029 = map char_of [0xE2, 0x80, 0xA9 :: nat]"
    by (simp_all add: encode_rune_def)
  have eq: "?ch = map char_of (map of_char ?ch :: nat list)" by (simp add: map_idI)
  have ne: "?ch \<noteq> [a]" for a using len(1) assms(2) by (metis length_Cons list.size(3) One_nat_def less_irrefl)
  consider "map of_char ?ch = [0xE2, 0x80, 0xA8 :: nat]" | "map of_char ?ch = [0xE2, 0x80, 0xA9 :: nat]"
    | "map of_char ?ch \<noteq> [0xE2, 0x80, 0xA8 :: nat]" "map of_char ?ch \<noteq> [0xE2, 0x80, 0xA9 :: nat]" by blast
  then show ?thesis
  proof cases
    case 1
    then have "?ch = map char_of [0xE2, 0x80, 0xA8 :: nat]" using eq by (rule subst)
    then show ?thesis using 1 unquote_escape [of "0x2028" r] ls by (simp add: escape_chunk_def)
  next
    case 2
    then have "?ch = map char_of [0xE2, 0x80, 0xA9 :: nat]" using eq by (rule subst)
    then show ?thesis using 2 unquote_escape [of "0x2029" r] ls by (simp add: escape_chunk_def)
  next
    case 3
    then have "escape_chunk ?ch = ?ch" using ne by (auto simp: escape_chunk_def split: list.split)
    then show ?thesis using copy by simp
  qed
qed

lemma unquote_quoted:
  "utf8_ValidString s \<Longrightarrow> unquote (concat (map escape_chunk (rune_chunks s)) @ quote_char # r) = Some (s, r)"
proof (induction s rule: rune_chunks.induct)
  case (2 c cs)
  let ?w = "rune_width (map of_char (c # cs))"
  let ?ch = "c # take (?w - 1) cs" and ?rest = "drop (?w - 1) cs"
  let ?e = "concat (map escape_chunk (rune_chunks ?rest)) @ quote_char # r"
  have v: "utf8_ValidString ?rest" "length ?ch = 1 \<longrightarrow> of_char c < (0x80 :: nat)"
    using "2.prems" by (simp_all add: utf8_ValidString_def Let_def)
  then have IH: "unquote ?e = Some (?rest, r)" using "2.IH" [OF refl] by simp
  have "unquote (escape_chunk ?ch @ ?e) = before ?ch (unquote ?e)"
  proof (cases "?w = 1")
    case True
    then show ?thesis using v(2) unquote_ascii [of c ?e] by (simp add: escape_chunk_def)
  next
    case False
    then have "1 < ?w" using rune_width_pos [of "map of_char (c # cs)"] by linarith
    then show ?thesis by (rule unquote_chunk [OF refl])
  qed
  then show ?case using IH by (simp add: Let_def before_def)
qed simp

lemma tokens_quote:
  assumes "utf8_ValidString s"
  shows "json_tokens (json_quote s @ r) = map_option (Cons (TokString s)) (json_tokens r)"
proof -
  have "punctuation quote_char = None" "\<not> json_space quote_char" by code_simp+
  then show ?thesis using unquote_quoted [OF assms, of r] by (simp add: json_quote_def)
qed

lemma parse_quote: "utf8_ValidString s \<Longrightarrow> json_parse (json_quote s) = Some (JString s)"
  using tokens_quote [of s "[]"] by (simp add: json_parse_def value_start_def)

end
