(* ===== verification/Allowed_Root.thy ===== *)
theory Allowed_Root
  imports Paths Errors Go_Json
begin

text \<open>
  \<^verbatim>\<open>allowed_root.go\<close>: the access vocabulary, the allowed-root entry, its projections,
  its JSON forms on already parsed JSON values, and the stored-root identity a mutation targets.
\<close>

section \<open>Access modes and entries\<close>

type_synonym AllowedRootAccess = string

definition AllowedRootAccessReadWrite :: AllowedRootAccess where
  "AllowedRootAccessReadWrite = ''read_write''"

definition AllowedRootAccessReadOnly :: AllowedRootAccess where
  "AllowedRootAccessReadOnly = ''read_only''"

abbreviation RW :: AllowedRootAccess where "RW \<equiv> AllowedRootAccessReadWrite"
abbreviation RO :: AllowedRootAccess where "RO \<equiv> AllowedRootAccessReadOnly"

definition access_isValid :: "AllowedRootAccess \<Rightarrow> bool" where
  "access_isValid a = (a = RW \<or> a = RO)"

definition allowedRootAccessVocabulary :: "string list" where
  "allowedRootAccessVocabulary = [RW, RO]"

record AllowedRootEntry =
  Path :: string
  Access :: AllowedRootAccess

definition mk_entry :: "string \<Rightarrow> AllowedRootAccess \<Rightarrow> AllowedRootEntry" where
  "mk_entry p a = \<lparr>Path = p, Access = a\<rparr>"

definition allowedRootEntry :: "string \<Rightarrow> AllowedRootEntry" where
  "allowedRootEntry path = mk_entry path RW"

definition allowedRootPaths :: "AllowedRootEntry list \<Rightarrow> string list" where
  "allowedRootPaths entries = map Path entries"

definition allowedRootEntriesForPaths :: "string list \<Rightarrow> AllowedRootEntry list" where
  "allowedRootEntriesForPaths paths = map allowedRootEntry paths"

definition parseAllowedRootAccess :: "string \<Rightarrow> (go_error, AllowedRootAccess) result" where
  "parseAllowedRootAccess access =
     (if access_isValid access then Inr access else err ErrInvalidAllowedRootAccess)"

section \<open>JSON forms\<close>

text \<open>
  \<^verbatim>\<open>json.Unmarshal\<close> into a string leaves the target unchanged on null, sets it on a
  string and fails on every other value. Decoding an object into a struct visits the members in
  order, so the last member of a name wins; the name of a member is compared without regard to case
  and unknown members are ignored.
\<close>

definition unmarshal_string :: "string \<Rightarrow> json \<Rightarrow> string option" where
  "unmarshal_string old j = (case j of JNull \<Rightarrow> Some old | JString s \<Rightarrow> Some s | _ \<Rightarrow> None)"

fun unmarshal_members ::
    "(string \<times> json) list \<Rightarrow> AllowedRootEntry \<Rightarrow> AllowedRootEntry option" where
  "unmarshal_members [] e = Some e"
| "unmarshal_members ((k, v) # ms) e =
     (if member_is ''path'' k then
        (case unmarshal_string (Path e) v of None \<Rightarrow> None
         | Some s \<Rightarrow> unmarshal_members ms (e\<lparr>Path := s\<rparr>))
      else if member_is ''access'' k then
        (case unmarshal_string (Access e) v of None \<Rightarrow> None
         | Some s \<Rightarrow> unmarshal_members ms (e\<lparr>Access := s\<rparr>))
      else unmarshal_members ms e)"

definition entry_UnmarshalJSON :: "json \<Rightarrow> AllowedRootEntry option" where
  "entry_UnmarshalJSON data =
     (case unmarshal_string [] data of
        Some path \<Rightarrow> Some (allowedRootEntry path)
      | None \<Rightarrow>
         (case data of
            JObject ms \<Rightarrow>
              (case unmarshal_members ms (mk_entry [] []) of
                 None \<Rightarrow> None
               | Some raw \<Rightarrow> if access_isValid (Access raw) then Some raw else None)
          | _ \<Rightarrow> None))"

definition entry_MarshalJSON :: "AllowedRootEntry \<Rightarrow> json" where
  "entry_MarshalJSON e = JObject [(''path'', JString (Path e)), (''access'', JString (Access e))]"

text \<open>
  The presence-aware access field of the add requests: any occurrence counts as supplied, null
  included, which leaves the empty spelling that the vocabulary parser refuses.
\<close>

record allowedRootAccessInput =
  access_present :: bool
  access_value :: string

definition accessInput_UnmarshalJSON :: "json \<Rightarrow> allowedRootAccessInput option" where
  "accessInput_UnmarshalJSON data =
     (if data = JNull then Some \<lparr>access_present = True, access_value = []\<rparr>
      else (case unmarshal_string [] data of
              None \<Rightarrow> None
            | Some s \<Rightarrow> Some \<lparr>access_present = True, access_value = s\<rparr>))"

section \<open>Stored-root identity\<close>

definition resolveAllowedRootIdentity :: "host_fs \<Rightarrow> string \<Rightarrow> (go_error, string) result" where
  "resolveAllowedRootIdentity fs path =
     (case (if filepath_IsAbs path then Some (filepath_Clean path)
            else map_option (\<lambda>wd. filepath_Join [wd, path]) (fs_cwd fs)) of
        None \<Rightarrow> err ErrInvalidAllowedRoot
      | Some ab \<Rightarrow>
         (case fs_eval fs ab of
            Inr canonical \<Rightarrow> Inr canonical
          | Inl ProbeNotExist \<Rightarrow> Inr (filepath_Clean ab)
          | Inl _ \<Rightarrow> err ErrInvalidAllowedRoot))"

section \<open>Facts\<close>

lemma access_distinct [simp]: "RW \<noteq> RO" "RO \<noteq> RW"
  by (simp_all add: AllowedRootAccessReadWrite_def AllowedRootAccessReadOnly_def)

lemma access_isValid_vocabulary [simp]: "access_isValid RW" "access_isValid RO"
  by (simp_all add: access_isValid_def)

lemma mk_entry_simps [simp]: "Path (mk_entry p a) = p" "Access (mk_entry p a) = a"
  by (simp_all add: mk_entry_def)

lemma mk_entry_eta [simp]: "mk_entry (Path e) (Access e) = e"
  by (simp add: mk_entry_def)

lemma allowedRootPaths_simps [simp]:
  "allowedRootPaths [] = []"
  "allowedRootPaths (e # es) = Path e # allowedRootPaths es"
  "set (allowedRootPaths es) = Path ` set es"
  by (simp_all add: allowedRootPaths_def)

lemma allowedRootPaths_of_paths [simp]: "allowedRootPaths (allowedRootEntriesForPaths ps) = ps"
  by (induction ps) (auto simp: allowedRootEntriesForPaths_def allowedRootEntry_def)

lemma parseAllowedRootAccess_Inr [simp]:
  "parseAllowedRootAccess s = Inr a \<longleftrightarrow> a = s \<and> access_isValid s"
  by (auto simp: parseAllowedRootAccess_def)

lemma member_names [simp]: "\<not> member_is ''path'' ''access''" "\<not> member_is ''access'' ''path''"
  by code_simp+

text \<open>The canonical object form decodes to the entry it was written from.\<close>

lemma unmarshal_marshal:
  "access_isValid (Access e) \<Longrightarrow> entry_UnmarshalJSON (entry_MarshalJSON e) = Some e"
  by (simp add: entry_UnmarshalJSON_def entry_MarshalJSON_def unmarshal_string_def)

lemma unmarshal_valid: "entry_UnmarshalJSON j = Some e \<Longrightarrow> access_isValid (Access e)"
  by (cases j)
    (auto simp: entry_UnmarshalJSON_def allowedRootEntry_def unmarshal_string_def
      split: option.splits if_splits)

text \<open>
  The documented behaviour of the symlink resolver that the identity relies on: resolving an
  absolute clean path gives an absolute clean path.
\<close>

definition fs_resolves_canonical :: "host_fs \<Rightarrow> bool" where
  "fs_resolves_canonical fs \<longleftrightarrow>
     (\<forall>p q. canonical_path p \<longrightarrow> fs_eval fs p = Inr q \<longrightarrow> canonical_path q)"

lemma resolve_identity_canonical:
  assumes "fs_resolves_canonical fs" and "filepath_IsAbs p" and "resolveAllowedRootIdentity fs p = Inr q"
  shows "canonical_path q"
proof -
  have c: "canonical_path (filepath_Clean p)" using assms(2) by (rule canonical_path_Clean)
  from assms(2,3) consider "fs_eval fs (filepath_Clean p) = Inr q" | "q = filepath_Clean p"
    using c by (auto simp: resolveAllowedRootIdentity_def split: sum.splits probe_error.splits)
  then show ?thesis
    using assms(1) c unfolding fs_resolves_canonical_def by cases blast+
qed

end
