(* ===== verification/Root_Policy.thy ===== *)
theory Root_Policy
  imports Allowed_Root
begin

text \<open>
  \<^verbatim>\<open>allowed_root_policy.go\<close>: most-specific lookup in one scope, normalization,
  composition of scopes with the access meet, the issuance-time narrowing of a Session request, the
  three-level effective policy (lines 1 to 300 of the file). Lists stand for Go slices; \<^verbatim>\<open>nil\<close> and the
  empty slice are not distinguished, as no caller does.
\<close>

section \<open>Operations\<close>

definition meetAllowedRootAccess :: "AllowedRootAccess \<Rightarrow> AllowedRootAccess \<Rightarrow> AllowedRootAccess" where
  "meetAllowedRootAccess a b = (if a = RO \<or> b = RO then RO else RW)"

definition sortAllowedRootEntriesCanonical :: "AllowedRootEntry list \<Rightarrow> AllowedRootEntry list" where
  "sortAllowedRootEntriesCanonical entries = sort_key Path entries"

datatype entries_error =
    NotCanonical string | UnknownAccess string | ConflictingEntries string | DuplicateEntry string

fun validate_loop ::
    "(string \<rightharpoonup> AllowedRootAccess) \<Rightarrow> AllowedRootEntry list \<Rightarrow> entries_error option" where
  "validate_loop seen [] = None"
| "validate_loop seen (e # es) =
     (if \<not> filepath_IsAbs (Path e) \<or> filepath_Clean (Path e) \<noteq> Path e then Some (NotCanonical (Path e))
      else if \<not> access_isValid (Access e) then Some (UnknownAccess (Path e))
      else case seen (Path e) of
          Some prev \<Rightarrow> if prev \<noteq> Access e then Some (ConflictingEntries (Path e))
                       else Some (DuplicateEntry (Path e))
        | None \<Rightarrow> validate_loop (seen(Path e \<mapsto> Access e)) es)"

text \<open>\<^const>\<open>None\<close> is the nil error.\<close>

definition validateCanonicalAllowedRootEntries :: "AllowedRootEntry list \<Rightarrow> entries_error option" where
  "validateCanonicalAllowedRootEntries entries = validate_loop Map.empty entries"

fun lookup_loop :: "AllowedRootEntry option \<Rightarrow> AllowedRootEntry list \<Rightarrow> string \<Rightarrow> AllowedRootEntry option" where
  "lookup_loop best [] source = best"
| "lookup_loop best (e # es) source =
     (if \<not> pathWithin (Path e) source then lookup_loop best es source
      else case best of
          None \<Rightarrow> lookup_loop (Some e) es source
        | Some b \<Rightarrow> if pathWithin (Path b) (Path e) then lookup_loop (Some e) es source
                    else lookup_loop best es source)"

definition lookupAllowedRootAccess :: "AllowedRootEntry list \<Rightarrow> string \<Rightarrow> AllowedRootAccess option" where
  "lookupAllowedRootAccess entries source = map_option Access (lookup_loop None entries source)"

text \<open>The ancestor stack of the normalization pass, innermost first.\<close>

fun pop_ancestors :: "AllowedRootEntry list \<Rightarrow> AllowedRootEntry \<Rightarrow> AllowedRootEntry list" where
  "pop_ancestors [] e = []"
| "pop_ancestors (a # as) e = (if pathWithin (Path a) (Path e) then a # as else pop_ancestors as e)"

fun normalize_loop :: "AllowedRootEntry list \<Rightarrow> AllowedRootEntry list \<Rightarrow> AllowedRootEntry list" where
  "normalize_loop ancestors [] = []"
| "normalize_loop ancestors (e # es) =
     (case pop_ancestors ancestors e of
        [] \<Rightarrow> e # normalize_loop [e] es
      | a # as \<Rightarrow> if Access a = Access e then normalize_loop (a # as) es
                 else e # normalize_loop (e # a # as) es)"

definition normalizeAllowedRootEntries :: "AllowedRootEntry list \<Rightarrow> AllowedRootEntry list" where
  "normalizeAllowedRootEntries entries =
     (if entries = [] then [] else normalize_loop [] (sortAllowedRootEntriesCanonical entries))"

text \<open>
  The candidate set of the composition is a Go map iterated in an unspecified order; the result is
  sorted by the normalization, so one fixed order is taken here.
\<close>

definition compose_candidate ::
    "AllowedRootEntry list \<Rightarrow> AllowedRootEntry list \<Rightarrow> string \<Rightarrow> AllowedRootEntry list" where
  "compose_candidate ceiling narrow path =
     (case lookupAllowedRootAccess ceiling path of
        None \<Rightarrow> []
      | Some up \<Rightarrow>
         (case lookupAllowedRootAccess narrow path of
            None \<Rightarrow> []
          | Some down \<Rightarrow> [mk_entry path (meetAllowedRootAccess up down)]))"

definition composeAllowedRootScopes ::
    "AllowedRootEntry list \<Rightarrow> AllowedRootEntry list \<Rightarrow> AllowedRootEntry list" where
  "composeAllowedRootScopes ceiling narrow =
     (if validateCanonicalAllowedRootEntries ceiling \<noteq> None then []
      else if validateCanonicalAllowedRootEntries narrow \<noteq> None then []
      else if ceiling = [] \<or> narrow = [] then []
      else normalizeAllowedRootEntries
             (concat (map (compose_candidate ceiling narrow)
                (remdups (map Path ceiling @ map Path narrow)))))"

text \<open>
  The requested scope of an issuance: the implicit workspace grant first, replaced by an explicit
  root at the workspace, then the other requested roots.
\<close>

fun narrow_scope :: "string \<Rightarrow> AllowedRootEntry list \<Rightarrow> AllowedRootEntry list \<Rightarrow> AllowedRootEntry list" where
  "narrow_scope workspace [] scope = scope"
| "narrow_scope workspace (e # es) scope =
     (if Path e = workspace then narrow_scope workspace es (scope[0 := e])
      else narrow_scope workspace es (scope @ [e]))"

definition requested_root_ok :: "AllowedRootEntry list \<Rightarrow> AllowedRootEntry \<Rightarrow> bool" where
  "requested_root_ok ceiling e =
     (case lookupAllowedRootAccess ceiling (Path e) of
        None \<Rightarrow> False
      | Some up \<Rightarrow> \<not> (Access e = RW \<and> up = RO))"

definition narrowSessionFilesystemPolicy ::
    "AllowedRootEntry list \<Rightarrow> string \<Rightarrow> AllowedRootEntry list \<Rightarrow> (go_error, AllowedRootEntry list) result" where
  "narrowSessionFilesystemPolicy ceiling workspace requested =
     (if requested = [] then err ErrInvalidSessionFilesystemPolicy
      else if validateCanonicalAllowedRootEntries requested \<noteq> None then err ErrInvalidSessionFilesystemPolicy
      else if \<not> list_all (requested_root_ok ceiling) requested then err ErrInvalidSessionFilesystemPolicy
      else (case lookupAllowedRootAccess ceiling workspace of
              None \<Rightarrow> err ErrInvalidSessionFilesystemPolicy
            | Some implicit \<Rightarrow>
               (let composed = composeAllowedRootScopes ceiling
                      (narrow_scope workspace requested [mk_entry workspace implicit])
                in if composed = [] then err ErrInvalidSessionFilesystemPolicy else Inr composed)))"

definition effectivePrincipalAllowedRoots ::
    "AllowedRootEntry list \<Rightarrow> AllowedRootEntry list \<Rightarrow> AllowedRootEntry list" where
  "effectivePrincipalAllowedRoots globalEntries storedPrincipalEntries =
     composeAllowedRootScopes globalEntries storedPrincipalEntries"

type_synonym LauncherScopeMode = string

definition LauncherScopeInherit :: LauncherScopeMode where
  "LauncherScopeInherit = ''inherit''"

definition LauncherScopeRestricted :: LauncherScopeMode where
  "LauncherScopeRestricted = ''restricted''"

text \<open>The ownership snapshot of session\_control.go that the effective policy consumes.\<close>

record sessionOwnershipSnapshot =
  snap_launcherID :: string
  snap_launcherName :: string
  snap_launcherEnabled :: bool
  snap_launcherScope :: LauncherScopeMode
  snap_launcherRoots :: "AllowedRootEntry list"
  snap_principalID :: int
  snap_principalName :: string
  snap_principalEnabled :: bool
  snap_principalRoots :: "AllowedRootEntry list"

definition effectiveLauncherAllowedRoots ::
    "AllowedRootEntry list \<Rightarrow> sessionOwnershipSnapshot \<Rightarrow> (go_error, AllowedRootEntry list) result" where
  "effectiveLauncherAllowedRoots globalEntries snap =
     (let principalCeiling = effectivePrincipalAllowedRoots globalEntries (snap_principalRoots snap)
      in if snap_launcherScope snap = LauncherScopeInherit then Inr principalCeiling
         else if snap_launcherScope snap \<noteq> LauncherScopeRestricted then err ErrLauncherUnavailable
         else if \<not> list_all (\<lambda>stored. isWithinAnyAllowedRoot (Path stored) (allowedRootPaths principalCeiling))
                    (snap_launcherRoots snap) then err ErrLauncherUnavailable
         else Inr (composeAllowedRootScopes principalCeiling (snap_launcherRoots snap)))"

section \<open>Validated scopes\<close>

definition scope_ok :: "AllowedRootEntry list \<Rightarrow> bool" where
  "scope_ok es \<longleftrightarrow> (\<forall>e\<in>set es. canonical_path (Path e) \<and> access_isValid (Access e)) \<and>
     distinct (map Path es)"

lemma validate_loop_None:
  "validate_loop seen es = None \<longleftrightarrow>
     scope_ok es \<and> (\<forall>e\<in>set es. seen (Path e) = None)"
proof (induction es arbitrary: seen)
  case Nil
  then show ?case by (simp add: scope_ok_def)
next
  case (Cons e es)
  show ?case
  proof (cases "canonical_path (Path e) \<and> access_isValid (Access e) \<and> seen (Path e) = None")
    case True
    then have facts: "filepath_IsAbs (Path e)" "filepath_Clean (Path e) = Path e" "access_isValid (Access e)"
      "seen (Path e) = None" by (simp_all only: canonical_path_def)
    have eq: "validate_loop seen (e # es) = validate_loop (seen(Path e \<mapsto> Access e)) es"
      by (simp only: validate_loop.simps facts simp_thms if_False option.case)
    have scope: "scope_ok (e # es) \<longleftrightarrow> scope_ok es \<and> (\<forall>x\<in>set es. Path x \<noteq> Path e)"
      using True by (auto simp: scope_ok_def) (metis image_eqI)
    have upd: "(seen(Path e \<mapsto> Access e)) (Path x) = None \<longleftrightarrow> Path x \<noteq> Path e \<and> seen (Path x) = None" for x
      by simp
    have "seen (Path e) = None" using True by blast
    then show ?thesis unfolding eq Cons.IH scope upd set_simps ball_simps by blast
  next
    case False
    then consider "\<not> filepath_IsAbs (Path e) \<or> filepath_Clean (Path e) \<noteq> Path e" | "\<not> access_isValid (Access e)"
      | p where "seen (Path e) = Some p" unfolding canonical_path_def using option.exhaust by metis
    then have "validate_loop seen (e # es) \<noteq> None"
      by cases (simp_all only: validate_loop.simps simp_thms if_True option.case option.distinct split: if_splits)
    moreover have "\<not> (scope_ok (e # es) \<and> (\<forall>e\<in>set (e # es). seen (Path e) = None))"
      using False by (auto simp: scope_ok_def)
    ultimately show ?thesis by blast
  qed
qed

lemma validate_None_iff [policy_simps]:
  "validateCanonicalAllowedRootEntries es = None \<longleftrightarrow> scope_ok es"
  by (simp add: validateCanonicalAllowedRootEntries_def validate_loop_None)

lemma scope_okD:
  assumes "scope_ok es"
  shows "e \<in> set es \<Longrightarrow> canonical_path (Path e)" and "e \<in> set es \<Longrightarrow> access_isValid (Access e)"
    and "distinct (map Path es)" and "inj_on Path (set es)"
  using assms by (auto simp: scope_ok_def distinct_map)

lemma scope_ok_subset: "scope_ok es \<Longrightarrow> set ks \<subseteq> set es \<Longrightarrow> distinct ks \<Longrightarrow> scope_ok ks"
  by (auto simp: scope_ok_def distinct_map inj_on_def)

lemma scope_ok_Nil [simp]: "scope_ok []"
  by (simp add: scope_ok_def)

section \<open>Most-specific lookup\<close>

abbreviation deepest :: "AllowedRootEntry set \<Rightarrow> string \<Rightarrow> AllowedRootEntry \<Rightarrow> bool" where
  "deepest \<equiv> deepest_in pathWithin Path"

lemma lookup_loop_deepest:
  assumes "\<forall>e\<in>set es \<union> B. canonical_path (Path e)" and "canonical_path s"
    and "case best of None \<Rightarrow> \<forall>e\<in>B. \<not> pathWithin (Path e) s | Some b \<Rightarrow> deepest B s b"
  shows "case lookup_loop best es s of
           None \<Rightarrow> \<forall>e\<in>B \<union> set es. \<not> pathWithin (Path e) s
         | Some d \<Rightarrow> deepest (B \<union> set es) s d"
  using assms
proof (induction es arbitrary: best B)
  case Nil
  then show ?case by (simp split: option.splits)
next
  case (Cons e es)
  let ?best = "if \<not> pathWithin (Path e) s then best
     else (case best of None \<Rightarrow> Some e | Some b \<Rightarrow> if pathWithin (Path b) (Path e) then Some e else best)"
  have step: "lookup_loop best (e # es) s = lookup_loop ?best es s"
    by (auto split: option.splits)
  have canon: "canonical_path (Path e)" "\<forall>x\<in>B. canonical_path (Path x)" using Cons.prems by auto
  have "case ?best of None \<Rightarrow> \<forall>x\<in>insert e B. \<not> pathWithin (Path x) s | Some b \<Rightarrow> deepest (insert e B) s b"
  proof (cases best)
    case None
    with Cons.prems(3) show ?thesis by (auto simp: deepest_in_def pw.inside_refl)
  next
    case (Some b)
    with Cons.prems(3) have b: "deepest B s b" by simp
    then have cb: "canonical_path (Path b)" using canon by (auto simp: deepest_in_def)
    consider (out) "\<not> pathWithin (Path e) s"
      | (up) "pathWithin (Path e) s" "pathWithin (Path b) (Path e)"
      | (keep) "pathWithin (Path e) s" "\<not> pathWithin (Path b) (Path e)" by blast
    then show ?thesis
    proof cases
      case out
      with Some b show ?thesis by (auto simp: deepest_in_def)
    next
      case up
      with Some b canon cb show ?thesis
        by (auto simp: deepest_in_def pw.inside_refl intro: pw.inside_trans [OF _ cb])
    next
      case keep
      with pw.inside_chain [OF cb canon(1) Cons.prems(2)] b
      have "pathWithin (Path e) (Path b)" by (auto simp: deepest_in_def)
      with keep Some b show ?thesis by (auto simp: deepest_in_def)
    qed
  qed
  then have "case lookup_loop ?best es s of
       None \<Rightarrow> \<forall>x\<in>insert e B \<union> set es. \<not> pathWithin (Path x) s
     | Some d \<Rightarrow> deepest (insert e B \<union> set es) s d"
    by (intro Cons.IH) (use Cons.prems in auto)
  moreover have sets: "insert e B \<union> set es = B \<union> set (e # es)" by auto
  ultimately show ?case unfolding step sets by blast
qed

lemma lookup_Some_deepest:
  assumes "scope_ok es" and "canonical_path s" and "lookupAllowedRootAccess es s = Some a"
  obtains d where "deepest (set es) s d" and "a = Access d"
proof -
  from assms(3) obtain d where "lookup_loop None es s = Some d" and "a = Access d"
    by (auto simp: lookupAllowedRootAccess_def)
  with lookup_loop_deepest [of es "{}" s None] assms that show thesis by (auto dest: scope_okD)
qed

lemma lookup_deepest:
  assumes "scope_ok es" and "canonical_path s" and "deepest (set es) s d"
  shows "lookupAllowedRootAccess es s = Some (Access d)"
proof (cases "lookup_loop None es s")
  case None
  with lookup_loop_deepest [of es "{}" s None] assms show ?thesis
    by (auto simp: deepest_in_def dest: scope_okD)
next
  case (Some d')
  with lookup_loop_deepest [of es "{}" s None] assms(1,2) have "deepest (set es) s d'"
    by (auto dest: scope_okD)
  with assms have "d' = d" by (intro pw.deepest_unique [of Path "set es" s]) (auto dest: scope_okD)
  with Some show ?thesis by (simp add: lookupAllowedRootAccess_def)
qed

lemma lookup_None_iff:
  assumes "scope_ok es" and "canonical_path s"
  shows "lookupAllowedRootAccess es s = None \<longleftrightarrow> (\<forall>e\<in>set es. \<not> pathWithin (Path e) s)"
  using lookup_loop_deepest [of es "{}" s None] assms
  by (cases "lookup_loop None es s")
    (auto simp: lookupAllowedRootAccess_def deepest_in_def dest: scope_okD)

lemma lookup_valid:
  assumes "scope_ok es" and "canonical_path s" and "lookupAllowedRootAccess es s = Some a"
  shows "a = RW \<or> a = RO"
proof -
  from assms obtain d where "deepest (set es) s d" and "a = Access d" by (rule lookup_Some_deepest)
  then show ?thesis using scope_okD(2) [OF assms(1), of d] by (simp add: deepest_in_def access_isValid_def)
qed

lemma lookup_set_cong:
  assumes "scope_ok es" and "scope_ok fs" and "set es = set fs" and "canonical_path s"
  shows "lookupAllowedRootAccess es s = lookupAllowedRootAccess fs s"
proof (cases "lookupAllowedRootAccess es s")
  case None
  with assms have "lookupAllowedRootAccess fs s = None" by (simp add: lookup_None_iff)
  with None show ?thesis by simp
next
  case (Some a)
  with assms show ?thesis by (metis lookup_Some_deepest lookup_deepest)
qed

section \<open>Normalization\<close>

text \<open>
  The pass visits the entries in byte order of their paths and keeps a stack of enclosing entries.
  Byte order is not tree order: a path such as \<^verbatim>\<open>/a-x\<close> sorts between
  \<^verbatim>\<open>/a\<close> and \<^verbatim>\<open>/a/b\<close> and pops \<^verbatim>\<open>/a\<close> off
  the stack. The scopes on which this does not happen are those where the entries below an entry
  follow it without a gap.
\<close>

definition ancestor_contiguous :: "string list \<Rightarrow> bool" where
  "ancestor_contiguous ps \<longleftrightarrow>
     list_all (\<lambda>a. list_all (\<lambda>b. list_all (\<lambda>c.
       a < b \<and> b < c \<and> pathWithin a c \<longrightarrow> pathWithin a b) ps) ps) ps"

lemma ancestor_contiguousD:
  "ancestor_contiguous ps \<Longrightarrow> a \<in> set ps \<Longrightarrow> b \<in> set ps \<Longrightarrow> c \<in> set ps \<Longrightarrow>
   a < b \<Longrightarrow> b < c \<Longrightarrow> pathWithin a c \<Longrightarrow> pathWithin a b"
  unfolding ancestor_contiguous_def list_all_iff by blast

lemma ancestor_contiguous_mono: "ancestor_contiguous ps \<Longrightarrow> set qs \<subseteq> set ps \<Longrightarrow> ancestor_contiguous qs"
  unfolding ancestor_contiguous_def list_all_iff by blast

definition nested :: "AllowedRootEntry list \<Rightarrow> bool" where
  "nested st \<longleftrightarrow> sorted_wrt (\<lambda>a b. pathWithin (Path b) (Path a)) st"

lemma nested_simps [simp]:
  "nested []" "nested (a # st) \<longleftrightarrow> (\<forall>b\<in>set st. pathWithin (Path b) (Path a)) \<and> nested st"
  by (simp_all add: nested_def)

lemma pop_ancestors_filter:
  assumes "nested st" and "\<forall>a\<in>set st. canonical_path (Path a)" and "canonical_path (Path e)"
  shows "pop_ancestors st e = filter (\<lambda>a. pathWithin (Path a) (Path e)) st"
  using assms
proof (induction st)
  case Nil
  then show ?case by simp
next
  case (Cons a st)
  show ?case
  proof (cases "pathWithin (Path a) (Path e)")
    case True
    have "pathWithin (Path b) (Path e)" if "b \<in> set st" for b
      using Cons.prems that True by (auto intro: pw.inside_trans [of "Path b" "Path a" "Path e"])
    with True show ?thesis by (simp add: filter_id_conv)
  next
    case False
    with Cons show ?thesis by simp
  qed
qed

lemma pop_ancestors_props:
  "set (pop_ancestors st e) \<subseteq> set st" "nested st \<Longrightarrow> nested (pop_ancestors st e)"
  "nested st \<Longrightarrow> pop_ancestors st e = a # as \<Longrightarrow> pathWithin (Path a) (Path e)"
  by (induction st) (auto split: if_splits)

lemma normalize_loop_subset: "set (normalize_loop st es) \<subseteq> set es"
proof (induction es arbitrary: st)
  case Nil
  then show ?case by simp
next
  case (Cons e es)
  then show ?case by (cases "pop_ancestors st e") (force split: if_splits)+
qed

lemma normalize_loop_sorted:
  assumes "sorted_wrt (<) (map Path es)"
  shows "sorted_wrt (<) (map Path (normalize_loop st es))"
  using assms
proof (induction es arbitrary: st)
  case Nil
  then show ?case by simp
next
  case (Cons e es)
  have "\<forall>x\<in>set (normalize_loop st' es). Path e < Path x" for st'
    using Cons.prems normalize_loop_subset [of st' es] by auto
  with Cons show ?case by (cases "pop_ancestors st e") auto
qed

lemma nested_push:
  assumes "nested st" and "\<forall>a\<in>set st. canonical_path (Path a)" and "canonical_path (Path e)"
  shows "nested (e # pop_ancestors st e)"
proof -
  have "pathWithin (Path b) (Path e)" if "b \<in> set (pop_ancestors st e)" for b
    using that pop_ancestors_filter [OF assms] by simp
  with pop_ancestors_props(2) [OF assms(1)] show ?thesis by simp
qed

text \<open>Every entry keeps an enclosing entry, whatever the order of the paths.\<close>

lemma normalize_loop_covers:
  assumes "nested st" and "\<forall>a\<in>set st \<union> set es. canonical_path (Path a)" and "e \<in> set es"
  shows "\<exists>k\<in>set st \<union> set (normalize_loop st es). pathWithin (Path k) (Path e)"
  using assms
proof (induction es arbitrary: st)
  case Nil
  then show ?case by simp
next
  case (Cons x es)
  have refl: "pathWithin p p" for p by (simp add: pathWithin_def)
  have push: "nested (x # pop_ancestors st x)" using Cons.prems(1,2) by (intro nested_push) auto
  show ?case
  proof (cases "pop_ancestors st x")
    case st: Nil
    then show ?thesis using Cons.IH [of "[x]"] Cons.prems(2,3) refl by (cases "e = x") auto
  next
    case st: (Cons a as)
    then have nest: "nested (x # a # as)" and sub: "insert a (set as) \<subseteq> set st"
      using push pop_ancestors_props(1) [of st x] by simp_all
    have IH: "\<exists>k\<in>set st' \<union> set (normalize_loop st' es). pathWithin (Path k) (Path e)"
      if "e \<in> set es" "st' = a # as \<or> st' = x # a # as" for st'
    proof (rule Cons.IH [OF _ _ that(1)])
      show "nested st'" using nest that(2) by auto
      have "set st' \<union> set es \<subseteq> set st \<union> set (x # es)" using sub that(2) by auto
      then show "\<forall>a\<in>set st' \<union> set es. canonical_path (Path a)" using Cons.prems(2) by blast
    qed
    show ?thesis
      using IH [of "a # as"] IH [of "x # a # as"] nest sub st Cons.prems(3) refl
      by (cases "Access a = Access x"; cases "e = x") auto
  qed
qed

text \<open>
  The invariant of the pass on a contiguous scope: \<^term>\<open>K\<close> are the entries kept so far and
  those that enclose a remaining entry are on the stack.
\<close>

definition normalize_inv :: "AllowedRootEntry list \<Rightarrow> AllowedRootEntry set \<Rightarrow> AllowedRootEntry list \<Rightarrow> bool" where
  "normalize_inv st K es \<longleftrightarrow> nested st \<and> set st \<subseteq> K \<and> sorted_wrt (<) (map Path es) \<and>
     (\<forall>a\<in>K \<union> set es. canonical_path (Path a)) \<and>
     (\<forall>k\<in>K. \<forall>f\<in>set es. Path k < Path f \<and> (pathWithin (Path k) (Path f) \<longrightarrow> k \<in> set st)) \<and>
     (\<forall>a\<in>K \<union> set es. \<forall>b\<in>set es. \<forall>c\<in>set es. Path a < Path b \<longrightarrow> Path b < Path c \<longrightarrow>
        pathWithin (Path a) (Path c) \<longrightarrow> pathWithin (Path a) (Path b))"

lemma normalize_inv_pop:
  assumes "normalize_inv st K (x # es)"
  shows "pop_ancestors st x = filter (\<lambda>a. pathWithin (Path a) (Path x)) st"
    and "nested (x # pop_ancestors st x)"
    and "{k \<in> K. pathWithin (Path k) (Path x)} = set (pop_ancestors st x)"
    and "\<forall>f\<in>set es. \<not> pathWithin (Path f) (Path x)"
proof -
  have inv: "nested st" "\<forall>a\<in>set st. canonical_path (Path a)" "canonical_path (Path x)"
    using assms by (auto simp: normalize_inv_def)
  show pop: "pop_ancestors st x = filter (\<lambda>a. pathWithin (Path a) (Path x)) st"
    by (rule pop_ancestors_filter [OF inv])
  show "nested (x # pop_ancestors st x)" by (rule nested_push [OF inv])
  show "{k \<in> K. pathWithin (Path k) (Path x)} = set (pop_ancestors st x)"
    using assms unfolding pop by (auto simp: normalize_inv_def)
  show "\<forall>f\<in>set es. \<not> pathWithin (Path f) (Path x)"
  proof
    fix f assume "f \<in> set es"
    then have "canonical_path (Path f)" "Path x < Path f" using assms by (auto simp: normalize_inv_def)
    then show "\<not> pathWithin (Path f) (Path x)" using pw.inside_le inv(3) by fastforce
  qed
qed

lemma normalize_inv_step:
  assumes inv: "normalize_inv st K (x # es)"
  shows "normalize_inv (pop_ancestors st x) K es" and "normalize_inv (x # pop_ancestors st x) (insert x K) es"
proof -
  note pop = normalize_inv_pop [OF inv]
  have above: "k \<in> set (pop_ancestors st x)" if k: "k \<in> K" and f: "f \<in> set es" and kf: "pathWithin (Path k) (Path f)" for k f
  proof -
    have "Path k < Path x" "Path x < Path f" using inv k f by (auto simp: normalize_inv_def)
    then have "pathWithin (Path k) (Path x)" using inv k f kf unfolding normalize_inv_def
      by (meson UnI1 list.set_intros)
    then show ?thesis using k pop(3) by blast
  qed
  have "set (pop_ancestors st x) \<subseteq> K" using pop(3) by blast
  with pop(2) above inv show "normalize_inv (pop_ancestors st x) K es"
    unfolding normalize_inv_def by simp
  then show "normalize_inv (x # pop_ancestors st x) (insert x K) es"
    using pop(2) inv unfolding normalize_inv_def by (simp add: subset_insertI2)
qed

lemma normalize_loop_access:
  assumes "normalize_inv st K es" and "e \<in> set es"
  shows "\<exists>k. deepest (K \<union> set (normalize_loop st es)) (Path e) k \<and> Access k = Access e"
  using assms
proof (induction es arbitrary: st K)
  case Nil
  then show ?case by simp
next
  case (Cons x es)
  let ?st = "pop_ancestors st x"
  note pop = normalize_inv_pop [OF Cons.prems(1)] and inv = normalize_inv_step [OF Cons.prems(1)]
  have here: "\<exists>k. deepest (K' \<union> set (normalize_loop st' es)) (Path e) k \<and> Access k = Access e"
    if "normalize_inv st' K' es" "k \<in> K'" "pathWithin (Path k) (Path x)"
      "\<forall>k'\<in>K'. pathWithin (Path k') (Path x) \<longrightarrow> pathWithin (Path k') (Path k)" "Access k = Access x" for K' st' k
  proof (cases "e = x")
    case True
    have "\<not> pathWithin (Path f) (Path x)" if "f \<in> set (normalize_loop st' es)" for f
      using pop(4) normalize_loop_subset [of st' es] that by blast
    then have "deepest (K' \<union> set (normalize_loop st' es)) (Path x) k"
      using that unfolding deepest_in_def by blast
    then show ?thesis using True that(5) by auto
  next
    case False
    then show ?thesis using Cons.IH that(1) Cons.prems(2) by simp
  qed
  have refl: "pathWithin p p" for p by (simp add: pathWithin_def)
  have keep: "\<exists>k. deepest (insert x K \<union> set (normalize_loop (x # ?st) es)) (Path e) k \<and> Access k = Access e"
    by (rule here [OF inv(2), of x]) (use refl pop(2,3) in auto)
  show ?case
  proof (cases ?st)
    case Nil
    then show ?thesis using keep by simp
  next
    case st: (Cons a as)
    show ?thesis
    proof (cases "Access a = Access x")
      case True
      have "\<exists>k. deepest (K \<union> set (normalize_loop ?st es)) (Path e) k \<and> Access k = Access e"
      proof (rule here [OF inv(1), of a])
        have up: "{k \<in> K. pathWithin (Path k) (Path x)} = insert a (set as)" using pop(3) st by simp
        then show "a \<in> K" "pathWithin (Path a) (Path x)" by blast+
        have "\<forall>b\<in>insert a (set as). pathWithin (Path b) (Path a)" using pop(2) st refl by simp
        with up show "\<forall>k'\<in>K. pathWithin (Path k') (Path x) \<longrightarrow> pathWithin (Path k') (Path a)" by blast
      qed (rule True)
      then show ?thesis using st True by simp
    next
      case False
      then show ?thesis using keep st by simp
    qed
  qed
qed

text \<open>A second pass over the output changes nothing, on a contiguous scope.\<close>

lemma normalize_loop_pop:
  assumes "\<forall>f\<in>set fs. pop_ancestors st f = pop_ancestors st' f"
  shows "normalize_loop st fs = normalize_loop st' fs"
proof (cases fs)
  case (Cons f fs')
  then have "pop_ancestors st f = pop_ancestors st' f" using assms by simp
  with Cons show ?thesis by simp
qed simp

lemma normalize_loop_idem:
  assumes "normalize_inv st K es"
  shows "normalize_loop st (normalize_loop st es) = normalize_loop st es"
  using assms
proof (induction es arbitrary: st K)
  case Nil
  then show ?case by simp
next
  case (Cons x es)
  let ?st = "pop_ancestors st x"
  note pop = normalize_inv_pop [OF Cons.prems] and inv = normalize_inv_step [OF Cons.prems]
  note IH = Cons.IH [OF inv(1)] Cons.IH [OF inv(2)]
  show ?case
  proof (cases "?st \<noteq> [] \<and> Access (hd ?st) = Access x")
    case True
    then obtain a as where st: "?st = a # as" "Access a = Access x" by (cases ?st) auto
    then have eq: "normalize_loop st (x # es) = normalize_loop ?st es" by simp
    have "normalize_loop st (normalize_loop ?st es) = normalize_loop ?st (normalize_loop ?st es)"
    proof (rule normalize_loop_pop, rule ballI)
      fix f assume "f \<in> set (normalize_loop ?st es)"
      then have f: "f \<in> set es" using normalize_loop_subset by blast
      have nest: "nested st" "nested ?st" "\<forall>a\<in>set st. canonical_path (Path a)" "canonical_path (Path f)"
        using Cons.prems pop(2) f by (auto simp: normalize_inv_def)
      have "pathWithin (Path b) (Path x)" if "b \<in> set st" "pathWithin (Path b) (Path f)" for b
      proof -
        have "b \<in> set ?st" using inv(1) that f Cons.prems unfolding normalize_inv_def by blast
        then show ?thesis using pop(2) by simp
      qed
      then have "filter (\<lambda>a. pathWithin (Path a) (Path f)) st = filter (\<lambda>a. pathWithin (Path a) (Path f)) ?st"
        unfolding pop(1) filter_filter by (intro filter_cong) auto
      moreover have "\<forall>a\<in>set ?st. canonical_path (Path a)"
        using nest(3) pop_ancestors_props(1) by blast
      ultimately show "pop_ancestors st f = pop_ancestors ?st f"
        using pop_ancestors_filter [OF nest(1,3,4)] pop_ancestors_filter [OF nest(2) _ nest(4)] by metis
    qed
    then show ?thesis unfolding eq IH(1) .
  next
    case False
    have eq: "normalize_loop st (x # fs) = x # normalize_loop (x # ?st) fs" for fs
      using False by (cases ?st) simp_all
    show ?thesis unfolding eq IH(2) ..
  qed
qed

text \<open>The operation on a validated scope.\<close>

lemma normalize_eq: "normalizeAllowedRootEntries es = normalize_loop [] (sort_key Path es)"
  by (simp add: normalizeAllowedRootEntries_def sortAllowedRootEntriesCanonical_def)

lemma sorted_strict_scope:
  assumes "scope_ok es"
  shows "sorted_wrt (<) (map Path (sort_key Path es))"
proof -
  have "sorted_wrt (\<le>) (map Path (sort_key Path es))" "distinct (map Path (sort_key Path es))"
    using scope_okD(3) [OF assms] by (simp_all add: sort_key_distinct)
  then show ?thesis by (simp add: strict_sorted_iff)
qed

lemma normalize_inv_init:
  assumes "scope_ok es" and "ancestor_contiguous (map Path es)"
  shows "normalize_inv [] {} (sort_key Path es)"
proof -
  have "pathWithin (Path a) (Path b)" if "a \<in> set es" "b \<in> set es" "c \<in> set es"
    "Path a < Path b" "Path b < Path c" "pathWithin (Path a) (Path c)" for a b c
    by (rule ancestor_contiguousD [OF assms(2)]) (use that in auto)
  then show ?thesis
    using sorted_strict_scope [OF assms(1)] scope_okD(1) [OF assms(1)]
    unfolding normalize_inv_def by simp
qed

lemma normalize_sorted:
  "scope_ok es \<Longrightarrow> sorted_wrt (<) (map Path (normalizeAllowedRootEntries es))"
  unfolding normalize_eq by (rule normalize_loop_sorted [OF sorted_strict_scope])

lemma normalize_subset: "set (normalizeAllowedRootEntries es) \<subseteq> set es"
  unfolding normalize_eq using normalize_loop_subset [of "[]" "sort_key Path es"] by simp

lemma normalize_scope_ok:
  assumes "scope_ok es"
  shows "scope_ok (normalizeAllowedRootEntries es)"
proof (rule scope_ok_subset [OF assms normalize_subset])
  have "distinct (map Path (normalizeAllowedRootEntries es))"
    using normalize_sorted [OF assms] unfolding strict_sorted_iff by blast
  then show "distinct (normalizeAllowedRootEntries es)" unfolding distinct_map by blast
qed

lemma normalize_covers:
  assumes "scope_ok es" and "e \<in> set es"
  shows "\<exists>k\<in>set (normalizeAllowedRootEntries es). pathWithin (Path k) (Path e)"
  unfolding normalize_eq using normalize_loop_covers [of "[]" "sort_key Path es" e] assms scope_okD(1)
  by simp

lemma normalize_authority:
  assumes "scope_ok es" and "canonical_path s"
  shows "lookupAllowedRootAccess (normalizeAllowedRootEntries es) s = None \<longleftrightarrow>
     lookupAllowedRootAccess es s = None"
proof -
  have "(\<exists>k\<in>set (normalizeAllowedRootEntries es). pathWithin (Path k) s) \<longleftrightarrow> (\<exists>e\<in>set es. pathWithin (Path e) s)"
  proof
    assume "\<exists>e\<in>set es. pathWithin (Path e) s"
    then obtain e where e: "e \<in> set es" "pathWithin (Path e) s" by blast
    then obtain k where k: "k \<in> set (normalizeAllowedRootEntries es)" "pathWithin (Path k) (Path e)"
      using normalize_covers [OF assms(1)] by blast
    then have "k \<in> set es" using normalize_subset by blast
    then have "pathWithin (Path k) s"
      using pw.inside_trans [OF _ _ assms(2) k(2) e(2)] scope_okD(1) [OF assms(1)] e(1) by blast
    with k(1) show "\<exists>k\<in>set (normalizeAllowedRootEntries es). pathWithin (Path k) s" by blast
  qed (use normalize_subset in blast)
  then show ?thesis
    using lookup_None_iff [OF assms] lookup_None_iff [OF normalize_scope_ok [OF assms(1)] assms(2)] by blast
qed

lemma normalize_lookup:
  assumes "scope_ok es" and "ancestor_contiguous (map Path es)" and "canonical_path s"
  shows "lookupAllowedRootAccess (normalizeAllowedRootEntries es) s = lookupAllowedRootAccess es s"
proof (cases "lookupAllowedRootAccess es s")
  case None
  then show ?thesis using normalize_authority [OF assms(1,3)] by simp
next
  case (Some a)
  let ?N = "normalizeAllowedRootEntries es"
  from Some obtain d where d: "deepest (set es) s d" "a = Access d"
    by (rule lookup_Some_deepest [OF assms(1,3)])
  then have ds: "d \<in> set es" "pathWithin (Path d) s" by (auto simp: deepest_in_def)
  have "\<exists>k. deepest ({} \<union> set ?N) (Path d) k \<and> Access k = Access d"
    unfolding normalize_eq by (rule normalize_loop_access [OF normalize_inv_init [OF assms(1,2)]]) (simp add: ds)
  then obtain k where k: "deepest (set ?N) (Path d) k" "Access k = Access d" by auto
  then have "pathWithin (Path k) s"
    using pw.inside_trans [of "Path k" "Path d" s] ds assms(3) scope_okD(1) [OF assms(1)] normalize_subset
    unfolding deepest_in_def by blast
  moreover have "pathWithin (Path e) (Path k)" if "e \<in> set ?N" "pathWithin (Path e) s" for e
    using that d(1) k(1) normalize_subset unfolding deepest_in_def by blast
  ultimately have "deepest (set ?N) s k" using k(1) by (simp add: deepest_in_def)
  then show ?thesis using lookup_deepest normalize_scope_ok assms(1,3) Some d(2) k(2) by metis
qed

lemma normalize_idem:
  assumes "scope_ok es" and "ancestor_contiguous (map Path es)"
  shows "normalizeAllowedRootEntries (normalizeAllowedRootEntries es) = normalizeAllowedRootEntries es"
proof -
  have "sort_key Path (normalizeAllowedRootEntries es) = normalizeAllowedRootEntries es"
    using normalize_sorted [OF assms(1)] by (intro sort_key_id) (simp add: strict_sorted_iff)
  then show ?thesis
    using normalize_loop_idem [OF normalize_inv_init [OF assms]] unfolding normalize_eq by simp
qed

lemma normalize_order_irrelevant:
  "scope_ok es \<Longrightarrow> scope_ok fs \<Longrightarrow> set es = set fs \<Longrightarrow>
   normalizeAllowedRootEntries es = normalizeAllowedRootEntries fs"
  unfolding normalize_eq using sort_key_set_eq [of es fs Path] scope_okD(3) by simp

section \<open>Composition\<close>

lemma meet_simps [simp]:
  "meetAllowedRootAccess a RO = RO" "meetAllowedRootAccess RO a = RO" "meetAllowedRootAccess RW RW = RW"
  "access_isValid (meetAllowedRootAccess a b)" "meetAllowedRootAccess a b = RW \<longleftrightarrow> a \<noteq> RO \<and> b \<noteq> RO"
  by (simp_all add: meetAllowedRootAccess_def access_isValid_def)

definition compose_candidates ::
    "AllowedRootEntry list \<Rightarrow> AllowedRootEntry list \<Rightarrow> AllowedRootEntry list" where
  "compose_candidates c n = concat (map (compose_candidate c n) (remdups (map Path c @ map Path n)))"

lemma compose_eq:
  assumes "scope_ok c" and "scope_ok n"
  shows "composeAllowedRootScopes c n = normalizeAllowedRootEntries (compose_candidates c n)"
proof (cases "c = [] \<or> n = []")
  case True
  then have "compose_candidate c n p = []" for p
    by (auto simp: compose_candidate_def lookupAllowedRootAccess_def split: option.splits)
  then have "compose_candidates c n = []" by (simp add: compose_candidates_def)
  with True show ?thesis
    by (simp add: composeAllowedRootScopes_def normalizeAllowedRootEntries_def)
next
  case False
  then show ?thesis
    using assms by (simp add: composeAllowedRootScopes_def compose_candidates_def validate_None_iff)
qed

lemma mk_entry_eq_iff: "e = mk_entry p a \<longleftrightarrow> Path e = p \<and> Access e = a"
  by (cases e) (auto simp: mk_entry_def)

lemma compose_candidates_iff:
  "e \<in> set (compose_candidates c n) \<longleftrightarrow>
     Path e \<in> Path ` set c \<union> Path ` set n \<and>
     (\<exists>a b. lookupAllowedRootAccess c (Path e) = Some a \<and> lookupAllowedRootAccess n (Path e) = Some b \<and>
        Access e = meetAllowedRootAccess a b)"
proof -
  have one: "e \<in> set (compose_candidate c n p) \<longleftrightarrow> Path e = p \<and>
     (\<exists>a b. lookupAllowedRootAccess c p = Some a \<and> lookupAllowedRootAccess n p = Some b \<and>
        Access e = meetAllowedRootAccess a b)" for p
    by (cases "lookupAllowedRootAccess c p"; cases "lookupAllowedRootAccess n p")
      (simp_all add: compose_candidate_def mk_entry_eq_iff)
  have "e \<in> set (compose_candidates c n) \<longleftrightarrow>
      (\<exists>p\<in>Path ` set c \<union> Path ` set n. e \<in> set (compose_candidate c n p))"
    by (simp only: compose_candidates_def set_concat set_map set_remdups set_append UN_iff image_iff bex_simps)
  then show ?thesis unfolding one bex_one_point2 .
qed

lemma compose_candidates_paths:
  "map Path (compose_candidates c n) = filter (\<lambda>p. lookupAllowedRootAccess c p \<noteq> None \<and>
     lookupAllowedRootAccess n p \<noteq> None) (remdups (map Path c @ map Path n))"
proof -
  have "map Path (concat (map (compose_candidate c n) ps)) =
      filter (\<lambda>p. lookupAllowedRootAccess c p \<noteq> None \<and> lookupAllowedRootAccess n p \<noteq> None) ps" for ps
    by (induction ps) (auto simp: compose_candidate_def split: option.splits)
  then show ?thesis unfolding compose_candidates_def .
qed

lemma compose_candidates_ok:
  assumes "scope_ok c" and "scope_ok n"
  shows "scope_ok (compose_candidates c n)"
proof -
  have "distinct (map Path (compose_candidates c n))"
    unfolding compose_candidates_paths by (intro distinct_filter distinct_remdups)
  moreover have "canonical_path (Path e) \<and> access_isValid (Access e)" if "e \<in> set (compose_candidates c n)" for e
    using that scope_okD(1) [OF assms(1)] scope_okD(1) [OF assms(2)] unfolding compose_candidates_iff
    by (metis UnE imageE meet_simps(4))
  ultimately show ?thesis unfolding scope_ok_def by blast
qed

text \<open>The candidates already carry the pointwise meet of the two scopes.\<close>

lemma lookup_below_deepest:
  assumes "scope_ok c" and "canonical_path s" and "canonical_path p"
    and "deepest (set c) s d" and "pathWithin (Path d) p" and "pathWithin p s"
  shows "lookupAllowedRootAccess c p = Some (Access d)"
proof (rule lookup_deepest [OF assms(1,3)])
  have "pathWithin (Path e) (Path d)" if "e \<in> set c" "pathWithin (Path e) p" for e
    using that assms(4) pw.inside_trans [OF scope_okD(1) [OF assms(1) that(1)] assms(3,2) that(2) assms(6)]
    unfolding deepest_in_def by blast
  then show "deepest (set c) p d" using assms(4,5) unfolding deepest_in_def by blast
qed

definition meet_opt :: "AllowedRootAccess option \<Rightarrow> AllowedRootAccess option \<Rightarrow> AllowedRootAccess option" where
  "meet_opt x y = (case x of None \<Rightarrow> None | Some a \<Rightarrow> map_option (meetAllowedRootAccess a) y)"

lemma candidates_deeper:
  assumes ok: "scope_ok c" "scope_ok n" "canonical_path s"
    and d: "deepest (set c) s d" and f: "deepest (set n) s f" and df: "pathWithin (Path d) (Path f)"
  shows "lookupAllowedRootAccess (compose_candidates c n) s = Some (meetAllowedRootAccess (Access d) (Access f))"
    and "lookupAllowedRootAccess (compose_candidates n c) s = Some (meetAllowedRootAccess (Access f) (Access d))"
proof -
  have mem: "d \<in> set c" "pathWithin (Path d) s" "f \<in> set n" "pathWithin (Path f) s"
    using d f by (auto simp: deepest_in_def)
  have can: "canonical_path (Path d)" "canonical_path (Path f)"
    using scope_okD(1) ok(1,2) mem by blast+
  have at: "lookupAllowedRootAccess c (Path f) = Some (Access d)" "lookupAllowedRootAccess n (Path f) = Some (Access f)"
    using lookup_below_deepest [OF ok(1,3) can(2) d df mem(4)] lookup_below_deepest [OF ok(2,3) can(2) f _ mem(4)]
      pw.inside_refl by blast+
  have up: "pathWithin p (Path f)" if "p \<in> Path ` set c \<union> Path ` set n" "pathWithin p s" for p
    using that d f df pw.inside_trans [of p "Path d" "Path f"] can scope_okD(1) [OF ok(1)]
    unfolding deepest_in_def by blast
  have deep: "deepest (set C) s (mk_entry (Path f) a)"
    if "mk_entry (Path f) a \<in> set C" "Path ` set C \<subseteq> Path ` set c \<union> Path ` set n" for C a
  proof -
    have "pathWithin (Path e) (Path f)" if "e \<in> set C" "pathWithin (Path e) s" for e
      using up [of "Path e"] that \<open>Path ` set C \<subseteq> _\<close> by blast
    then show ?thesis using that(1) mem(4) unfolding deepest_in_def by simp
  qed
  have sub: "Path ` set (compose_candidates x y) \<subseteq> Path ` set x \<union> Path ` set y" for x y
    using compose_candidates_iff by blast
  have "deepest (set (compose_candidates c n)) s (mk_entry (Path f) (meetAllowedRootAccess (Access d) (Access f)))"
    using at mem(3) sub [of c n] by (intro deep) (auto simp: compose_candidates_iff)
  from lookup_deepest [OF compose_candidates_ok [OF ok(1,2)] ok(3) this]
  show "lookupAllowedRootAccess (compose_candidates c n) s = Some (meetAllowedRootAccess (Access d) (Access f))"
    by simp
  have "deepest (set (compose_candidates n c)) s (mk_entry (Path f) (meetAllowedRootAccess (Access f) (Access d)))"
    using at mem(3) sub [of n c] by (intro deep) (auto simp: compose_candidates_iff)
  from lookup_deepest [OF compose_candidates_ok [OF ok(2,1)] ok(3) this]
  show "lookupAllowedRootAccess (compose_candidates n c) s = Some (meetAllowedRootAccess (Access f) (Access d))"
    by simp
qed

lemma candidates_lookup:
  assumes ok: "scope_ok c" "scope_ok n" "canonical_path s"
  shows "lookupAllowedRootAccess (compose_candidates c n) s =
     meet_opt (lookupAllowedRootAccess c s) (lookupAllowedRootAccess n s)"
proof (cases "lookupAllowedRootAccess c s = None \<or> lookupAllowedRootAccess n s = None")
  case True
  have "\<not> pathWithin (Path e) s" if e: "e \<in> set (compose_candidates c n)" for e
  proof
    assume es: "pathWithin (Path e) s"
    have ce: "canonical_path (Path e)" using scope_okD(1) compose_candidates_ok ok(1,2) e by blast
    have "lookupAllowedRootAccess c (Path e) \<noteq> None" "lookupAllowedRootAccess n (Path e) \<noteq> None"
      using e unfolding compose_candidates_iff by blast+
    then obtain x y where "x \<in> set c" "pathWithin (Path x) (Path e)" "y \<in> set n" "pathWithin (Path y) (Path e)"
      unfolding lookup_None_iff [OF ok(1) ce] lookup_None_iff [OF ok(2) ce] by blast
    then have "pathWithin (Path x) s" "pathWithin (Path y) s"
      using pw.inside_trans [OF _ ce ok(3) _ es] scope_okD(1) ok(1,2) by blast+
    with True show False
      using lookup_None_iff [OF ok(1,3)] lookup_None_iff [OF ok(2,3)] \<open>x \<in> set c\<close> \<open>y \<in> set n\<close> by blast
  qed
  then have "lookupAllowedRootAccess (compose_candidates c n) s = None"
    using lookup_None_iff [OF compose_candidates_ok [OF ok(1,2)] ok(3)] by blast
  with True show ?thesis by (auto simp: meet_opt_def split: option.splits)
next
  case False
  then obtain a b where ab: "lookupAllowedRootAccess c s = Some a" "lookupAllowedRootAccess n s = Some b" by auto
  obtain d where d: "deepest (set c) s d" "a = Access d" by (rule lookup_Some_deepest [OF ok(1,3) ab(1)])
  obtain f where f: "deepest (set n) s f" "b = Access f" by (rule lookup_Some_deepest [OF ok(2,3) ab(2)])
  have "canonical_path (Path d)" "canonical_path (Path f)" "pathWithin (Path d) s" "pathWithin (Path f) s"
    using d f scope_okD(1) ok(1,2) unfolding deepest_in_def by blast+
  then have "pathWithin (Path d) (Path f) \<or> pathWithin (Path f) (Path d)"
    using pw.inside_chain ok(3) by blast
  then have "lookupAllowedRootAccess (compose_candidates c n) s = Some (meetAllowedRootAccess a b)"
    using candidates_deeper(1) [OF ok d(1) f(1)] candidates_deeper(2) [OF ok(2,1,3) f(1) d(1)] d(2) f(2) by blast
  with ab show ?thesis by (simp add: meet_opt_def)
qed

lemma compose_invalid:
  "\<not> (scope_ok c \<and> scope_ok n) \<Longrightarrow> composeAllowedRootScopes c n = []"
  unfolding composeAllowedRootScopes_def validate_None_iff by auto

lemma compose_scope_ok: "scope_ok (composeAllowedRootScopes c n)"
proof (cases "scope_ok c \<and> scope_ok n")
  case True
  then show ?thesis using compose_eq normalize_scope_ok compose_candidates_ok by metis
next
  case False
  then show ?thesis by (simp add: compose_invalid)
qed

lemma compose_paths: "Path ` set (composeAllowedRootScopes c n) \<subseteq> Path ` set c \<union> Path ` set n"
proof (cases "scope_ok c \<and> scope_ok n")
  case True
  then have "set (composeAllowedRootScopes c n) \<subseteq> set (compose_candidates c n)"
    using compose_eq normalize_subset by metis
  then show ?thesis using compose_candidates_iff by blast
next
  case False
  then show ?thesis by (simp add: compose_invalid)
qed

lemma compose_authority:
  assumes "scope_ok c" and "scope_ok n" and "canonical_path s"
  shows "lookupAllowedRootAccess (composeAllowedRootScopes c n) s \<noteq> None \<longleftrightarrow>
     lookupAllowedRootAccess c s \<noteq> None \<and> lookupAllowedRootAccess n s \<noteq> None"
  using normalize_authority [OF compose_candidates_ok [OF assms(1,2)] assms(3)] candidates_lookup [OF assms]
  unfolding compose_eq [OF assms(1,2)] by (simp add: meet_opt_def split: option.splits)

lemma compose_lookup:
  assumes "scope_ok c" and "scope_ok n" and "canonical_path s"
    and "ancestor_contiguous (map Path c @ map Path n)"
  shows "lookupAllowedRootAccess (composeAllowedRootScopes c n) s =
     meet_opt (lookupAllowedRootAccess c s) (lookupAllowedRootAccess n s)"
proof -
  have "ancestor_contiguous (map Path (compose_candidates c n))"
    by (rule ancestor_contiguous_mono [OF assms(4)]) (auto simp: compose_candidates_paths)
  then show ?thesis
    using normalize_lookup [OF compose_candidates_ok [OF assms(1,2)] _ assms(3)] candidates_lookup [OF assms(1-3)]
    unfolding compose_eq [OF assms(1,2)] by simp
qed

lemma compose_order_irrelevant:
  assumes "scope_ok c" "scope_ok c'" "scope_ok n" "scope_ok n'" "set c = set c'" "set n = set n'"
  shows "composeAllowedRootScopes c n = composeAllowedRootScopes c' n'"
proof -
  have "set (compose_candidates c n) = set (compose_candidates c' n')"
  proof (rule set_eqI)
    fix e :: AllowedRootEntry
    have "canonical_path (Path e)" if "Path e \<in> Path ` set c \<union> Path ` set n"
      using that scope_okD(1) assms(1,3) by fastforce
    then show "e \<in> set (compose_candidates c n) \<longleftrightarrow> e \<in> set (compose_candidates c' n')"
      using lookup_set_cong [OF assms(1,2,5)] lookup_set_cong [OF assms(3,4,6)] assms(5,6)
      unfolding compose_candidates_iff by metis
  qed
  then show ?thesis
    unfolding compose_eq [OF assms(1,3)] compose_eq [OF assms(2,4)]
    by (intro normalize_order_irrelevant compose_candidates_ok assms)
qed

section \<open>Scopes without bytes below the separator\<close>

text \<open>
  A sufficient condition for contiguity that can be read off the paths: no byte sorts before the
  separator (no space, \<^verbatim>\<open>-\<close> or \<^verbatim>\<open>.\<close>, for instance).
\<close>

lemma between_prefix:
  fixes a b c :: string
  assumes "prefix a c" and "a < b" and "b < c"
  shows "prefix a b"
  using assms
proof (induction a arbitrary: b c)
  case Nil
  then show ?case by simp
next
  case (Cons x a)
  then obtain c' where c: "c = x # c'" "prefix a c'" by (auto simp: prefix_def)
  from Cons.prems(2) obtain y b' where b: "b = y # b'" by (cases b) auto
  with Cons.prems c have "y = x" "a < b'" "b' < c'" by auto
  with Cons.IH [OF c(2)] b show ?case by simp
qed

lemma append_less_same:
  fixes a b c :: string
  shows "a @ b < a @ c \<longleftrightarrow> b < c"
  by (induction a) auto

lemma plain_bytes_contiguous:
  assumes "\<forall>p\<in>set ps. canonical_path p \<and> (\<forall>ch\<in>set p. sep \<le> ch)"
  shows "ancestor_contiguous ps"
  unfolding ancestor_contiguous_def list_all_iff
proof (intro ballI impI, elim conjE)
  fix a b c assume mem: "a \<in> set ps" "b \<in> set ps" "c \<in> set ps"
    and ab: "a < b" and bc: "b < c" and ac: "pathWithin a c"
  have can: "canonical_path a" "canonical_path b" "canonical_path c" using assms mem by blast+
  show "pathWithin a b"
  proof (cases "path_comps a = []")
    case True
    then show ?thesis using can by (simp add: pathWithin_iff)
  next
    case False
    then have "c = a \<or> prefix (a @ [sep]) c" using canonical_tree_prefix [OF can(1,3)] ac by blast
    then obtain z where c: "c = a @ sep # z" using ab bc by (auto simp: prefix_def)
    then have "prefix a b" using between_prefix [OF _ ab bc] by simp
    then obtain y ys where b: "b = a @ y # ys" using ab by (metis prefix_def append_Nil2 less_irrefl neq_Nil_conv)
    have "y # ys < sep # z" using bc unfolding b c append_less_same .
    moreover have "sep \<le> y" using assms mem(2) b by simp
    ultimately have "y = sep" by auto
    then show ?thesis using canonical_tree_prefix [OF can(1,2) False] b by (simp add: prefix_def)
  qed
qed

section \<open>Narrowing and the effective scopes\<close>

lemma narrow_scope_eq:
  "narrow_scope w es (h # t) =
     fold (\<lambda>e h. if Path e = w then e else h) es h # t @ filter (\<lambda>e. Path e \<noteq> w) es"
  by (induction es arbitrary: h t) auto

lemma narrow_scope_head:
  assumes "Path h = w"
  shows "fold (\<lambda>e h. if Path e = w then e else h) es h \<in> insert h (set es)"
    and "Path (fold (\<lambda>e h. if Path e = w then e else h) es h) = w"
  using assms
proof (induction es arbitrary: h)
  case (Cons e es)
  { case 1
    then show ?case using Cons.IH(1) [of "if Path e = w then e else h"] by auto
  next
    case 2
    then show ?case using Cons.IH(2) [of "if Path e = w then e else h"] by auto
  }
qed simp_all

lemma narrow_scope_ok:
  assumes "scope_ok es" and "canonical_path w" and "access_isValid a"
  shows "scope_ok (narrow_scope w es [mk_entry w a])"
    and "Path ` set (narrow_scope w es [mk_entry w a]) = insert w (Path ` set es)"
proof -
  let ?h = "fold (\<lambda>e h. if Path e = w then e else h) es (mk_entry w a)"
  have h: "?h \<in> insert (mk_entry w a) (set es)" "Path ?h = w" using narrow_scope_head [of "mk_entry w a" w es] by simp_all
  have eq: "narrow_scope w es [mk_entry w a] = ?h # filter (\<lambda>e. Path e \<noteq> w) es" by (simp add: narrow_scope_eq)
  have "distinct (map Path (?h # filter (\<lambda>e. Path e \<noteq> w) es))"
    using h(2) scope_okD(3) [OF assms(1)] by (auto simp: distinct_map_filter)
  moreover have "canonical_path (Path e) \<and> access_isValid (Access e)" if "e \<in> insert (mk_entry w a) (set es)" for e
    using that assms(2,3) scope_okD(1,2) [OF assms(1)] by auto
  ultimately show "scope_ok (narrow_scope w es [mk_entry w a])"
    unfolding eq scope_ok_def using h(1) by auto
  show "Path ` set (narrow_scope w es [mk_entry w a]) = insert w (Path ` set es)"
    unfolding eq using h(2) by auto
qed

lemma narrow_Inr_iff:
  "narrowSessionFilesystemPolicy ceiling w req = Inr r \<longleftrightarrow>
     req \<noteq> [] \<and> scope_ok req \<and> list_all (requested_root_ok ceiling) req \<and>
     (\<exists>a. lookupAllowedRootAccess ceiling w = Some a \<and>
        r = composeAllowedRootScopes ceiling (narrow_scope w req [mk_entry w a])) \<and> r \<noteq> []"
proof (cases "lookupAllowedRootAccess ceiling w")
  case None
  then show ?thesis unfolding narrowSessionFilesystemPolicy_def validate_None_iff by simp
next
  case (Some a)
  then show ?thesis unfolding narrowSessionFilesystemPolicy_def validate_None_iff Let_def
    by (auto split: if_splits)
qed

lemma effective_launcher_Inr:
  assumes "effectiveLauncherAllowedRoots g snap = Inr r"
  shows "scope_ok r"
    and "snap_launcherScope snap = LauncherScopeInherit \<or> snap_launcherScope snap = LauncherScopeRestricted"
    and "r = effectivePrincipalAllowedRoots g (snap_principalRoots snap) \<or>
         r = composeAllowedRootScopes (effectivePrincipalAllowedRoots g (snap_principalRoots snap)) (snap_launcherRoots snap)"
  using assms compose_scope_ok
  by (auto simp: effectiveLauncherAllowedRoots_def effectivePrincipalAllowedRoots_def Let_def split: if_splits)

section \<open>Properties\<close>

text \<open>
  C1: In a validated scope, \<^verbatim>\<open>lookupAllowedRootAccess\<close> authorizes a path with a given
  access exactly when some entry encloses the path, has that access, and is itself enclosed by every
  other entry that encloses the path: the most specific rule wins and no other rule is consulted.
\<close>

theorem lookup_most_specific:
  assumes "validateCanonicalAllowedRootEntries es = None" and "canonical_path s"
  shows "lookupAllowedRootAccess es s = Some a \<longleftrightarrow>
     (\<exists>d\<in>set es. pathWithin (Path d) s \<and> Access d = a \<and>
        (\<forall>e\<in>set es. pathWithin (Path e) s \<longrightarrow> pathWithin (Path e) (Path d)))"
proof -
  have ok: "scope_ok es" using assms(1) by (simp add: validate_None_iff)
  have "lookupAllowedRootAccess es s = Some a \<longleftrightarrow> (\<exists>d. deepest (set es) s d \<and> Access d = a)"
    using lookup_deepest [OF ok assms(2)] lookup_Some_deepest [OF ok assms(2), of a] by metis
  then show ?thesis unfolding deepest_in_def by blast
qed

theorem lookup_most_specific_witness:
  "(lookupAllowedRootAccess [mk_entry ''/srv'' RW, mk_entry ''/srv/ref'' RO] ''/srv/ref/x'' = Some RO) =
   (\<exists>d\<in>set [mk_entry ''/srv'' RW, mk_entry ''/srv/ref'' RO]. pathWithin (Path d) ''/srv/ref/x'' \<and> Access d = RO \<and>
      (\<forall>e\<in>set [mk_entry ''/srv'' RW, mk_entry ''/srv/ref'' RO].
         pathWithin (Path e) ''/srv/ref/x'' \<longrightarrow> pathWithin (Path e) (Path d)))"
  by (rule lookup_most_specific; code_simp)

text \<open>
  C23: Normalizing a validated scope whose subtrees are contiguous in byte order changes no answer of
  the lookup, yields a strictly sorted sublist, and is idempotent.
\<close>

theorem normalize_preserves_policy:
  assumes "validateCanonicalAllowedRootEntries es = None" and "ancestor_contiguous (map Path es)"
    and "canonical_path s"
  shows "lookupAllowedRootAccess (normalizeAllowedRootEntries es) s = lookupAllowedRootAccess es s \<and>
     sorted_wrt (<) (map Path (normalizeAllowedRootEntries es)) \<and>
     set (normalizeAllowedRootEntries es) \<subseteq> set es \<and>
     normalizeAllowedRootEntries (normalizeAllowedRootEntries es) = normalizeAllowedRootEntries es"
  using assms normalize_lookup normalize_sorted normalize_subset normalize_idem
  unfolding validate_None_iff by blast

theorem normalize_preserves_policy_witness:
  "(let es = [mk_entry ''/srv/ref'' RO, mk_entry ''/srv'' RW, mk_entry ''/srv/a'' RW]; s = ''/srv/ref/x'' in
     lookupAllowedRootAccess (normalizeAllowedRootEntries es) s = lookupAllowedRootAccess es s \<and>
     sorted_wrt (<) (map Path (normalizeAllowedRootEntries es)) \<and>
     set (normalizeAllowedRootEntries es) \<subseteq> set es \<and>
     normalizeAllowedRootEntries (normalizeAllowedRootEntries es) = normalizeAllowedRootEntries es)"
  unfolding Let_def by (rule normalize_preserves_policy; code_simp)

text \<open>
  Without the contiguity condition normalization still never gains or loses a path: a path is
  authorized after normalization exactly when it was before.
\<close>

theorem normalize_preserves_authority:
  assumes "validateCanonicalAllowedRootEntries es = None" and "canonical_path s"
  shows "lookupAllowedRootAccess (normalizeAllowedRootEntries es) s = None \<longleftrightarrow>
     lookupAllowedRootAccess es s = None"
  using assms normalize_authority unfolding validate_None_iff by blast

theorem normalize_preserves_authority_witness:
  "(lookupAllowedRootAccess (normalizeAllowedRootEntries [mk_entry ''/a'' RO, mk_entry ''/a-x'' RW]) ''/b'' = None) =
   (lookupAllowedRootAccess [mk_entry ''/a'' RO, mk_entry ''/a-x'' RW] ''/b'' = None)"
  by (rule normalize_preserves_authority; code_simp)


text \<open>
  C17: The composition of two validated scopes is the pointwise meet of their policies: where the
  paths of both are contiguous in byte order, a path is authorized by the composition exactly when
  both scopes authorize it, and is writable exactly when both make it writable.
\<close>

theorem compose_is_meet:
  assumes "validateCanonicalAllowedRootEntries ceiling = None"
    and "validateCanonicalAllowedRootEntries narrow = None"
    and "ancestor_contiguous (map Path ceiling @ map Path narrow)" and "canonical_path s"
  shows "lookupAllowedRootAccess (composeAllowedRootScopes ceiling narrow) s =
     (case (lookupAllowedRootAccess ceiling s, lookupAllowedRootAccess narrow s) of
        (Some up, Some down) \<Rightarrow> Some (if up = RW \<and> down = RW then RW else RO)
      | _ \<Rightarrow> None)"
proof -
  have ok: "scope_ok ceiling" "scope_ok narrow" using assms by (simp_all add: validate_None_iff)
  show ?thesis
    unfolding compose_lookup [OF ok assms(4,3)] meet_opt_def
    using lookup_valid [OF ok(1) assms(4)] lookup_valid [OF ok(2) assms(4)]
    by (auto simp: meetAllowedRootAccess_def split: option.splits)
qed

theorem compose_is_meet_witness:
  "lookupAllowedRootAccess
     (composeAllowedRootScopes [mk_entry ''/srv'' RW, mk_entry ''/srv/ref'' RO] [mk_entry ''/srv/ref'' RW]) ''/srv/ref/x'' =
   (case (lookupAllowedRootAccess [mk_entry ''/srv'' RW, mk_entry ''/srv/ref'' RO] ''/srv/ref/x'',
          lookupAllowedRootAccess [mk_entry ''/srv/ref'' RW] ''/srv/ref/x'') of
        (Some up, Some down) \<Rightarrow> Some (if up = RW \<and> down = RW then RW else RO)
      | _ \<Rightarrow> None)"
  by (rule compose_is_meet; code_simp)

text \<open>
  On all scopes, contiguous or not, valid or not, the composition never authorizes a path that
  one of its two scopes does not authorize, its result is a validated scope, and it does not depend
  on the order in which either scope lists its entries.
\<close>

theorem compose_stays_inside:
  assumes "canonical_path s"
  shows "validateCanonicalAllowedRootEntries (composeAllowedRootScopes ceiling narrow) = None \<and>
     (lookupAllowedRootAccess (composeAllowedRootScopes ceiling narrow) s \<noteq> None \<longrightarrow>
        lookupAllowedRootAccess ceiling s \<noteq> None \<and> lookupAllowedRootAccess narrow s \<noteq> None) \<and>
     (\<forall>c n. distinct c \<longrightarrow> distinct n \<longrightarrow> set c = set ceiling \<longrightarrow> set n = set narrow \<longrightarrow>
        validateCanonicalAllowedRootEntries ceiling = None \<longrightarrow> validateCanonicalAllowedRootEntries narrow = None \<longrightarrow>
        composeAllowedRootScopes c n = composeAllowedRootScopes ceiling narrow)"
proof (intro conjI)
  show "lookupAllowedRootAccess (composeAllowedRootScopes ceiling narrow) s \<noteq> None \<longrightarrow>
     lookupAllowedRootAccess ceiling s \<noteq> None \<and> lookupAllowedRootAccess narrow s \<noteq> None"
  proof (cases "scope_ok ceiling \<and> scope_ok narrow")
    case True
    then show ?thesis using compose_authority assms by blast
  next
    case False
    then show ?thesis by (simp add: compose_invalid lookupAllowedRootAccess_def)
  qed
  show "\<forall>c n. distinct c \<longrightarrow> distinct n \<longrightarrow> set c = set ceiling \<longrightarrow> set n = set narrow \<longrightarrow>
        validateCanonicalAllowedRootEntries ceiling = None \<longrightarrow> validateCanonicalAllowedRootEntries narrow = None \<longrightarrow>
        composeAllowedRootScopes c n = composeAllowedRootScopes ceiling narrow"
    unfolding validate_None_iff using scope_ok_subset compose_order_irrelevant by (metis order_refl)
qed (simp add: validate_None_iff compose_scope_ok)

theorem compose_stays_inside_witness:
  "composeAllowedRootScopes [mk_entry ''/b'' RO, mk_entry ''/a'' RW] [mk_entry ''/'' RW] =
   composeAllowedRootScopes [mk_entry ''/a'' RW, mk_entry ''/b'' RO] [mk_entry ''/'' RW]"
proof -
  have "canonical_path ''/a''"
    "validateCanonicalAllowedRootEntries [mk_entry ''/a'' RW, mk_entry ''/b'' RO] = None"
    "validateCanonicalAllowedRootEntries [mk_entry ''/'' RW] = None"
    "distinct [mk_entry ''/b'' RO, mk_entry ''/a'' RW]" "distinct [mk_entry ''/'' RW]" by code_simp+
  moreover have "set [mk_entry ''/b'' RO, mk_entry ''/a'' RW] = set [mk_entry ''/a'' RW, mk_entry ''/b'' RO]"
    by (simp only: list.set insert_commute)
  ultimately show ?thesis
    using compose_stays_inside [of "''/a''" "[mk_entry ''/a'' RW, mk_entry ''/b'' RO]" "[mk_entry ''/'' RW]"]
    by blast
qed

text \<open>
  An accepted Session filesystem request only narrows the ceiling. Every requested root was
  authorized by the ceiling and none asked for write access the ceiling denies there; the result
  authorizes exactly the ceiling's paths at or below the workspace or a requested root; and where the
  paths involved are contiguous in byte order, a path the result makes writable is writable in the
  ceiling.
\<close>

theorem narrow_only_narrows:
  assumes "narrowSessionFilesystemPolicy ceiling workspace requested = Inr r"
    and "validateCanonicalAllowedRootEntries ceiling = None" and "canonical_path workspace" and "canonical_path s"
  shows "(\<forall>e\<in>set requested. lookupAllowedRootAccess ceiling (Path e) = Some RW \<or>
            lookupAllowedRootAccess ceiling (Path e) = Some RO \<and> Access e = RO) \<and>
     (lookupAllowedRootAccess r s \<noteq> None \<longleftrightarrow>
        lookupAllowedRootAccess ceiling s \<noteq> None \<and> (\<exists>p\<in>insert workspace (Path ` set requested). pathWithin p s)) \<and>
     (ancestor_contiguous (map Path ceiling @ workspace # map Path requested) \<longrightarrow>
        lookupAllowedRootAccess r s = Some RW \<longrightarrow> lookupAllowedRootAccess ceiling s = Some RW)"
proof -
  have cok: "scope_ok ceiling" using assms(2) by (simp add: validate_None_iff)
  obtain a where a: "lookupAllowedRootAccess ceiling workspace = Some a"
    and r: "r = composeAllowedRootScopes ceiling (narrow_scope workspace requested [mk_entry workspace a])"
    and req: "scope_ok requested" "list_all (requested_root_ok ceiling) requested"
    using assms(1) unfolding narrow_Inr_iff by blast
  let ?n = "narrow_scope workspace requested [mk_entry workspace a]"
  have "access_isValid a" using lookup_valid [OF cok assms(3) a] by (auto simp: access_isValid_def)
  note n = narrow_scope_ok [OF req(1) assms(3) this]
  have roots: "lookupAllowedRootAccess ceiling (Path e) = Some RW \<or>
      lookupAllowedRootAccess ceiling (Path e) = Some RO \<and> Access e = RO" if e: "e \<in> set requested" for e
  proof -
    have "requested_root_ok ceiling e" using req(2) e by (simp add: list_all_iff)
    then show ?thesis
      using lookup_valid [OF cok scope_okD(1) [OF req(1) e]] scope_okD(2) [OF req(1) e]
      by (auto simp: requested_root_ok_def access_isValid_def split: option.splits)
  qed
  have dom: "lookupAllowedRootAccess ?n s \<noteq> None \<longleftrightarrow> (\<exists>p\<in>insert workspace (Path ` set requested). pathWithin p s)"
    unfolding lookup_None_iff [OF n(1) assms(4)] n(2) [symmetric] by blast
  have contig: "lookupAllowedRootAccess ceiling s = Some RW"
    if "ancestor_contiguous (map Path ceiling @ workspace # map Path requested)" "lookupAllowedRootAccess r s = Some RW"
  proof -
    have "ancestor_contiguous (map Path ceiling @ map Path ?n)"
      by (rule ancestor_contiguous_mono [OF that(1)]) (use n(2) in auto)
    then show ?thesis
      using that(2) lookup_valid [OF cok assms(4)] compose_lookup [OF cok n(1) assms(4)] unfolding r meet_opt_def
      by (auto split: option.splits)
  qed
  have "lookupAllowedRootAccess r s \<noteq> None \<longleftrightarrow> lookupAllowedRootAccess ceiling s \<noteq> None \<and>
      (\<exists>p\<in>insert workspace (Path ` set requested). pathWithin p s)"
    unfolding r compose_authority [OF cok n(1) assms(4)] dom ..
  then show ?thesis using roots contig by blast
qed

theorem narrow_only_narrows_witness:
  "\<exists>r. narrowSessionFilesystemPolicy [mk_entry ''/srv'' RW] ''/srv/ws'' [mk_entry ''/srv/ref'' RO] = Inr r \<and>
     (lookupAllowedRootAccess r ''/srv/ref/x'' \<noteq> None \<longleftrightarrow>
        lookupAllowedRootAccess [mk_entry ''/srv'' RW] ''/srv/ref/x'' \<noteq> None \<and>
        (\<exists>p\<in>insert ''/srv/ws'' (Path ` set [mk_entry ''/srv/ref'' RO]). pathWithin p ''/srv/ref/x''))"
proof -
  have "narrowSessionFilesystemPolicy [mk_entry ''/srv'' RW] ''/srv/ws'' [mk_entry ''/srv/ref'' RO] =
      Inr [mk_entry ''/srv/ref'' RO, mk_entry ''/srv/ws'' RW]" by code_simp
  moreover have "validateCanonicalAllowedRootEntries [mk_entry ''/srv'' RW] = None"
    "canonical_path ''/srv/ws''" "canonical_path ''/srv/ref/x''" by code_simp+
  ultimately show ?thesis using narrow_only_narrows by blast
qed

text \<open>
  The effective policy of a Launcher never reaches outside the global or the Principal scope, nor
  outside the stored Launcher scope when the Launcher is restricted, and a Launcher of an unknown
  scope mode gets no policy at all.
\<close>

theorem effective_launcher_within_ceilings:
  assumes "effectiveLauncherAllowedRoots globalEntries snap = Inr r" and "canonical_path s"
    and "lookupAllowedRootAccess r s \<noteq> None"
  shows "lookupAllowedRootAccess globalEntries s \<noteq> None \<and>
     lookupAllowedRootAccess (snap_principalRoots snap) s \<noteq> None \<and>
     (snap_launcherScope snap = LauncherScopeInherit \<or>
      snap_launcherScope snap = LauncherScopeRestricted \<and> lookupAllowedRootAccess (snap_launcherRoots snap) s \<noteq> None)"
proof -
  have in_both: "lookupAllowedRootAccess c s \<noteq> None \<and> lookupAllowedRootAccess n s \<noteq> None"
    if "lookupAllowedRootAccess (composeAllowedRootScopes c n) s \<noteq> None" for c n
  proof (cases "scope_ok c \<and> scope_ok n")
    case True
    then show ?thesis using compose_authority assms(2) that by blast
  next
    case False
    then show ?thesis using that by (simp add: compose_invalid lookupAllowedRootAccess_def)
  qed
  show ?thesis
  proof (cases "snap_launcherScope snap = LauncherScopeInherit")
    case True
    then have "r = composeAllowedRootScopes globalEntries (snap_principalRoots snap)"
      using assms(1) by (simp add: effectiveLauncherAllowedRoots_def effectivePrincipalAllowedRoots_def)
    with True show ?thesis using assms(3) in_both by blast
  next
    case False
    then have "snap_launcherScope snap = LauncherScopeRestricted"
      "r = composeAllowedRootScopes (composeAllowedRootScopes globalEntries (snap_principalRoots snap)) (snap_launcherRoots snap)"
      using assms(1)
      by (simp_all add: effectiveLauncherAllowedRoots_def effectivePrincipalAllowedRoots_def Let_def split: if_splits)
    then show ?thesis using assms(3) in_both by blast
  qed
qed

definition demo_ownership :: sessionOwnershipSnapshot where
  "demo_ownership = \<lparr>snap_launcherID = ''l'', snap_launcherName = ''dev'', snap_launcherEnabled = True,
     snap_launcherScope = LauncherScopeRestricted, snap_launcherRoots = [mk_entry ''/home/u/p'' RO],
     snap_principalID = 1, snap_principalName = ''u'', snap_principalEnabled = True,
     snap_principalRoots = [mk_entry ''/home/u'' RW]\<rparr>"

theorem effective_launcher_within_ceilings_witness:
  "lookupAllowedRootAccess [mk_entry ''/home'' RW] ''/home/u/p/x'' \<noteq> None \<and>
   lookupAllowedRootAccess (snap_principalRoots demo_ownership) ''/home/u/p/x'' \<noteq> None \<and>
   (snap_launcherScope demo_ownership = LauncherScopeInherit \<or>
    snap_launcherScope demo_ownership = LauncherScopeRestricted \<and>
      lookupAllowedRootAccess (snap_launcherRoots demo_ownership) ''/home/u/p/x'' \<noteq> None)"
  by (rule effective_launcher_within_ceilings [of "[mk_entry ''/home'' RW]" demo_ownership "[mk_entry ''/home/u/p'' RO]"];
      code_simp)


end
