(* ===== verification/Store.thy ===== *)
theory Store
  imports Root_Policy
begin

text \<open>
  The SQLite store of database.go: the ownership tables with the constraints of their DDL, and the
  statements the daemon runs on them. A table is the list of its rows; a statement that violates a
  UNIQUE constraint is told apart from one that violates a foreign key or CHECK, as
  \<^verbatim>\<open>isSQLiteUniqueError\<close> does. A transaction either commits its final store or leaves
  the store as it was; which database calls fail for reasons outside the program (a full disk, a locked
  file) is a parameter of every operation. The theory proves that every statement keeps the schema's
  integrity, and gives the rules by which the operations built from them inherit it.
\<close>

section \<open>Tables\<close>

record principal_row =
  pr_id :: int
  pr_username :: string
  pr_uid :: int
  pr_gid :: int
  pr_home :: string
  pr_enabled :: bool

record 'k root_row =
  rr_owner :: 'k
  rr_entry :: AllowedRootEntry

record launcher_row =
  la_id :: string
  la_principal :: int
  la_name :: string
  la_enabled :: bool
  la_scope :: LauncherScopeMode
  la_created :: int

record credential_row =
  cr_id :: string
  cr_principal :: "int option"
  cr_launcher :: "string option"
  cr_name :: "string option"
  cr_hash :: string
  cr_created :: int
  cr_revoked :: "int option"

record session_row =
  se_id :: string
  se_hash :: string
  se_workspace :: string
  se_created :: int
  se_expires :: int
  se_launcher :: string

text \<open>The issued snapshot of a Session: its entries by position, and its integrity metadata.\<close>

record snapshot_row =
  sn_session :: string
  sn_position :: int
  sn_entry :: AllowedRootEntry

record snapshot_meta_row =
  sm_session :: string
  sm_entry_count :: int
  sm_digest :: string

text \<open>\<^verbatim>\<open>AUTOINCREMENT\<close> never reuses an identifier: the sequence is part of the store.\<close>

record store =
  principals :: "principal_row list"
  principal_seq :: int
  principal_allowed_roots :: "int root_row list"
  launchers :: "launcher_row list"
  launcher_allowed_roots :: "string root_row list"
  credentials :: "credential_row list"
  sessions :: "session_row list"
  snapshot_entries :: "snapshot_row list"
  snapshot_meta :: "snapshot_meta_row list"

definition empty_store :: store where
  "empty_store = \<lparr>principals = [], principal_seq = 0, principal_allowed_roots = [], launchers = [],
     launcher_allowed_roots = [], credentials = [], sessions = [],
     snapshot_entries = [], snapshot_meta = []\<rparr>"

section \<open>Statements\<close>

datatype stmt_error = UniqueFailed | CheckFailed | ForeignKeyFailed

definition has_principal :: "int \<Rightarrow> store \<Rightarrow> bool" where
  "has_principal i s = list_ex (\<lambda>p. pr_id p = i) (principals s)"

definition has_launcher :: "string \<Rightarrow> store \<Rightarrow> bool" where
  "has_launcher i s = list_ex (\<lambda>l. la_id l = i) (launchers s)"

text \<open>The CHECK on launcher names: \<^verbatim>\<open>GLOB\<close> patterns over lowercase letters, digits and hyphen.\<close>

definition name_char :: "char \<Rightarrow> bool" where
  "name_char c = (CHR ''a'' \<le> c \<and> c \<le> CHR ''z'' \<or> CHR ''0'' \<le> c \<and> c \<le> CHR ''9'')"

definition launcher_name_check :: "string \<Rightarrow> bool" where
  "launcher_name_check n \<longleftrightarrow> 1 \<le> length n \<and> length n \<le> 63 \<and>
     list_all (\<lambda>c. name_char c \<or> c = CHR ''-'') n \<and> hd n \<noteq> CHR ''-'' \<and> last n \<noteq> CHR ''-''"

definition scope_check :: "string \<Rightarrow> bool" where
  "scope_check m = (m = LauncherScopeInherit \<or> m = LauncherScopeRestricted)"

definition insert_principal :: "string \<Rightarrow> int \<Rightarrow> int \<Rightarrow> string \<Rightarrow> store \<Rightarrow> (stmt_error, store \<times> int) result" where
  "insert_principal name u g h s =
     (if list_ex (\<lambda>p. pr_username p = name) (principals s) then Inl UniqueFailed
      else let i = principal_seq s + 1 in
        Inr (s\<lparr>principals := principals s @ [\<lparr>pr_id = i, pr_username = name, pr_uid = u, pr_gid = g,
                pr_home = h, pr_enabled = True\<rparr>], principal_seq := i\<rparr>, i))"

definition insert_principal_root :: "int \<Rightarrow> AllowedRootEntry \<Rightarrow> store \<Rightarrow> (stmt_error, store) result" where
  "insert_principal_root i e s =
     (if \<not> access_isValid (Access e) then Inl CheckFailed
      else if list_ex (\<lambda>r. rr_owner r = i \<and> Path (rr_entry r) = Path e) (principal_allowed_roots s) then Inl UniqueFailed
      else if \<not> has_principal i s then Inl ForeignKeyFailed
      else Inr (s\<lparr>principal_allowed_roots := principal_allowed_roots s @ [\<lparr>rr_owner = i, rr_entry = e\<rparr>]\<rparr>))"

definition insert_launcher :: "launcher_row \<Rightarrow> store \<Rightarrow> (stmt_error, store) result" where
  "insert_launcher l s =
     (if \<not> scope_check (la_scope l) \<or> \<not> launcher_name_check (la_name l) then Inl CheckFailed
      else if list_ex (\<lambda>x. la_id x = la_id l \<or> la_principal x = la_principal l \<and> la_name x = la_name l) (launchers s)
      then Inl UniqueFailed
      else if \<not> has_principal (la_principal l) s then Inl ForeignKeyFailed
      else Inr (s\<lparr>launchers := launchers s @ [l]\<rparr>))"

definition insert_launcher_root :: "string \<Rightarrow> AllowedRootEntry \<Rightarrow> store \<Rightarrow> (stmt_error, store) result" where
  "insert_launcher_root i e s =
     (if \<not> access_isValid (Access e) then Inl CheckFailed
      else if list_ex (\<lambda>r. rr_owner r = i \<and> Path (rr_entry r) = Path e) (launcher_allowed_roots s) then Inl UniqueFailed
      else if \<not> has_launcher i s then Inl ForeignKeyFailed
      else Inr (s\<lparr>launcher_allowed_roots := launcher_allowed_roots s @ [\<lparr>rr_owner = i, rr_entry = e\<rparr>]\<rparr>))"

text \<open>
  Two credentials clash on their identifier or hash, on the Launcher (nulls never clash), or on the
  name of one Principal while both are active (the partial unique index).
\<close>

definition credentials_clash :: "credential_row \<Rightarrow> credential_row \<Rightarrow> bool" where
  "credentials_clash a b \<longleftrightarrow> cr_id a = cr_id b \<or> cr_hash a = cr_hash b \<or>
     cr_launcher a \<noteq> None \<and> cr_launcher a = cr_launcher b \<or>
     cr_revoked a = None \<and> cr_revoked b = None \<and> cr_principal a \<noteq> None \<and> cr_principal a = cr_principal b \<and>
       cr_name a \<noteq> None \<and> cr_name a = cr_name b"

definition credential_check :: "credential_row \<Rightarrow> bool" where
  "credential_check c \<longleftrightarrow>
     cr_principal c \<noteq> None \<and> cr_launcher c = None \<and> cr_name c \<noteq> None \<or>
     cr_principal c = None \<and> cr_launcher c \<noteq> None \<and> cr_name c = None"

definition credential_owner_exists :: "credential_row \<Rightarrow> store \<Rightarrow> bool" where
  "credential_owner_exists c s \<longleftrightarrow>
     (case cr_principal c of None \<Rightarrow> True | Some p \<Rightarrow> has_principal p s) \<and>
     (case cr_launcher c of None \<Rightarrow> True | Some l \<Rightarrow> has_launcher l s)"

definition insert_credential :: "credential_row \<Rightarrow> store \<Rightarrow> (stmt_error, store) result" where
  "insert_credential c s =
     (if \<not> credential_check c then Inl CheckFailed
      else if list_ex (credentials_clash c) (credentials s) then Inl UniqueFailed
      else if \<not> credential_owner_exists c s then Inl ForeignKeyFailed
      else Inr (s\<lparr>credentials := credentials s @ [c]\<rparr>))"

definition insert_session :: "session_row \<Rightarrow> store \<Rightarrow> (stmt_error, store) result" where
  "insert_session x s =
     (if list_ex (\<lambda>y. se_id y = se_id x \<or> se_hash y = se_hash x) (sessions s) then Inl UniqueFailed
      else if \<not> has_launcher (se_launcher x) s then Inl ForeignKeyFailed
      else Inr (s\<lparr>sessions := sessions s @ [x]\<rparr>))"

definition has_session :: "string \<Rightarrow> store \<Rightarrow> bool" where
  "has_session i s = list_ex (\<lambda>x. se_id x = i) (sessions s)"

definition insert_snapshot_entry :: "snapshot_row \<Rightarrow> store \<Rightarrow> (stmt_error, store) result" where
  "insert_snapshot_entry r s =
     (if sn_position r < 0 \<or> \<not> access_isValid (Access (sn_entry r)) then Inl CheckFailed
      else if list_ex (\<lambda>q. sn_session q = sn_session r \<and>
                (sn_position q = sn_position r \<or> Path (sn_entry q) = Path (sn_entry r))) (snapshot_entries s)
      then Inl UniqueFailed
      else if \<not> has_session (sn_session r) s then Inl ForeignKeyFailed
      else Inr (s\<lparr>snapshot_entries := snapshot_entries s @ [r]\<rparr>))"

definition insert_snapshot_meta :: "snapshot_meta_row \<Rightarrow> store \<Rightarrow> (stmt_error, store) result" where
  "insert_snapshot_meta m s =
     (if list_ex (\<lambda>q. sm_session q = sm_session m) (snapshot_meta s) then Inl UniqueFailed
      else if \<not> has_session (sm_session m) s then Inl ForeignKeyFailed
      else Inr (s\<lparr>snapshot_meta := snapshot_meta s @ [m]\<rparr>))"

text \<open>
  Deletion of a Launcher row: its roots and credential follow by ON DELETE CASCADE; a remaining
  Session row of it refuses the statement (no cascade from Launcher to Session).
\<close>

definition launcher_not_in :: "string set \<Rightarrow> credential_row \<Rightarrow> bool" where
  "launcher_not_in D c = (case cr_launcher c of None \<Rightarrow> True | Some l \<Rightarrow> l \<notin> D)"

definition delete_launcher :: "string \<Rightarrow> store \<Rightarrow> (stmt_error, store) result" where
  "delete_launcher i s =
     (if list_ex (\<lambda>x. se_launcher x = i) (sessions s) then Inl ForeignKeyFailed
      else Inr (s\<lparr>launchers := filter (\<lambda>l. la_id l \<noteq> i) (launchers s),
                  launcher_allowed_roots := filter (\<lambda>r. rr_owner r \<noteq> i) (launcher_allowed_roots s),
                  credentials := filter (launcher_not_in {i}) (credentials s)\<rparr>))"

definition launcher_ids_of :: "int \<Rightarrow> store \<Rightarrow> string list" where
  "launcher_ids_of i s = map la_id (filter (\<lambda>l. la_principal l = i) (launchers s))"

definition delete_principal_row :: "int \<Rightarrow> store \<Rightarrow> (stmt_error, store) result" where
  "delete_principal_row i s =
     (let ls = launcher_ids_of i s in
      if list_ex (\<lambda>x. se_launcher x \<in> set ls) (sessions s) then Inl ForeignKeyFailed
      else Inr (s\<lparr>principals := filter (\<lambda>p. pr_id p \<noteq> i) (principals s),
                  principal_allowed_roots := filter (\<lambda>r. rr_owner r \<noteq> i) (principal_allowed_roots s),
                  launchers := filter (\<lambda>l. la_principal l \<noteq> i) (launchers s),
                  launcher_allowed_roots := filter (\<lambda>r. rr_owner r \<notin> set ls) (launcher_allowed_roots s),
                  credentials := filter (\<lambda>c. launcher_not_in (set ls) c \<and> cr_principal c \<noteq> Some i) (credentials s)\<rparr>))"

text \<open>
  \<^verbatim>\<open>DELETE FROM sessions WHERE ...\<close>, with the identifiers it removes; the snapshot rows of
  a deleted Session follow by ON DELETE CASCADE.
\<close>

definition session_ids_of :: "(session_row \<Rightarrow> bool) \<Rightarrow> store \<Rightarrow> string list" where
  "session_ids_of P s = map se_id (filter P (sessions s))"

definition delete_sessions :: "(session_row \<Rightarrow> bool) \<Rightarrow> store \<Rightarrow> store" where
  "delete_sessions P s = s\<lparr>sessions := filter (\<lambda>x. \<not> P x) (sessions s),
     snapshot_entries := filter (\<lambda>r. sn_session r \<notin> set (session_ids_of P s)) (snapshot_entries s),
     snapshot_meta := filter (\<lambda>m. sm_session m \<notin> set (session_ids_of P s)) (snapshot_meta s)\<rparr>"

definition update_rows :: "('r \<Rightarrow> bool) \<Rightarrow> ('r \<Rightarrow> 'r) \<Rightarrow> 'r list \<Rightarrow> 'r list" where
  "update_rows P f rows = map (\<lambda>r. if P r then f r else r) rows"

text \<open>\<^verbatim>\<open>UPDATE launchers SET name = ? WHERE id = ?\<close>.\<close>

definition rename_launcher :: "string \<Rightarrow> string \<Rightarrow> store \<Rightarrow> (stmt_error, store) result" where
  "rename_launcher i n s =
     (if list_ex (\<lambda>l. la_id l = i) (launchers s) \<and> \<not> launcher_name_check n then Inl CheckFailed
      else if list_ex (\<lambda>l. la_id l = i \<and>
                list_ex (\<lambda>x. la_id x \<noteq> i \<and> la_principal x = la_principal l \<and> la_name x = n) (launchers s)) (launchers s)
      then Inl UniqueFailed
      else Inr (s\<lparr>launchers := update_rows (\<lambda>l. la_id l = i) (\<lambda>l. l\<lparr>la_name := n\<rparr>) (launchers s)\<rparr>))"

text \<open>
  \<^verbatim>\<open>UPDATE credentials SET token_hash = ? WHERE ...\<close> with the number of rows it changed; the
  identifier of a credential selects at most one row, and a hash of another row refuses the statement.
\<close>

definition update_credential_hash ::
    "(credential_row \<Rightarrow> bool) \<Rightarrow> string \<Rightarrow> store \<Rightarrow> (stmt_error, store \<times> nat) result" where
  "update_credential_hash P h s =
     (if list_ex P (credentials s) \<and> list_ex (\<lambda>c. \<not> P c \<and> cr_hash c = h) (credentials s) then Inl UniqueFailed
      else Inr (s\<lparr>credentials := update_rows P (\<lambda>c. c\<lparr>cr_hash := h\<rparr>) (credentials s)\<rparr>,
                length (filter P (credentials s))))"

section \<open>Database calls\<close>

text \<open>
  The n-th call to the database (a begin, a statement or a commit) is carried out, fails, or is
  carried out without its success being reported.
\<close>

datatype db_outcome = Performed | Failed | Unreported

type_synonym db_io = "nat \<Rightarrow> db_outcome"

text \<open>A program over the store: the store and call number before, those after, and its result.\<close>

type_synonym 'a db = "store \<Rightarrow> nat \<Rightarrow> store \<times> nat \<times> (go_error, 'a) result"

definition db_result :: "(go_error, 'a) result \<Rightarrow> 'a db" where
  "db_result r s n = (s, n, r)"

abbreviation db_return :: "'a \<Rightarrow> 'a db" where "db_return a \<equiv> db_result (Inr a)"

abbreviation db_fail :: "sentinel \<Rightarrow> 'a db" where "db_fail e \<equiv> db_result (err e)"

definition db_then :: "'a db \<Rightarrow> ('a \<Rightarrow> 'b db) \<Rightarrow> 'b db" where
  "db_then m f s n = (case m s n of (s', n', Inl e) \<Rightarrow> (s', n', Inl e) | (s', n', Inr a) \<Rightarrow> f a s' n')"

text \<open>A read, with the error its answer stands for (\<^verbatim>\<open>sql.ErrNoRows\<close> mapped by the caller).\<close>

definition query :: "db_io \<Rightarrow> (store \<Rightarrow> (go_error, 'a) result) \<Rightarrow> 'a db" where
  "query io f s n = (s, Suc n, if io n = Performed then f s else io_err)"

definition exec :: "db_io \<Rightarrow> (store \<Rightarrow> (go_error, store \<times> 'a) result) \<Rightarrow> 'a db" where
  "exec io f s n =
     (case io n of
        Failed \<Rightarrow> (s, Suc n, io_err)
      | Performed \<Rightarrow> (case f s of Inl e \<Rightarrow> (s, Suc n, Inl e) | Inr (s', a) \<Rightarrow> (s', Suc n, Inr a))
      | Unreported \<Rightarrow> (case f s of Inl e \<Rightarrow> (s, Suc n, Inl e) | Inr (s', a) \<Rightarrow> (s', Suc n, io_err)))"

definition db_when :: "bool \<Rightarrow> unit db \<Rightarrow> unit db" where
  "db_when b m = (if b then m else db_return ())"

fun db_each :: "('a \<Rightarrow> unit db) \<Rightarrow> 'a list \<Rightarrow> unit db" where
  "db_each f [] = db_return ()"
| "db_each f (x # xs) = db_then (f x) (\<lambda>_. db_each f xs)"

text \<open>A loop over rows that accumulates a list.\<close>

fun db_collect :: "('a \<Rightarrow> 'b list db) \<Rightarrow> 'a list \<Rightarrow> 'b list db" where
  "db_collect f [] = db_return []"
| "db_collect f (x # xs) = db_then (f x) (\<lambda>a. db_then (db_collect f xs) (\<lambda>b. db_return (a @ b)))"

text \<open>A statement's constraint violation, with the sentinel the caller maps a UNIQUE failure to.\<close>

definition or_exists :: "sentinel \<Rightarrow> (stmt_error, 'a) result \<Rightarrow> (go_error, 'a) result" where
  "or_exists e r = (case r of Inl UniqueFailed \<Rightarrow> err e | Inl _ \<Rightarrow> io_err | Inr a \<Rightarrow> Inr a)"

definition or_fail :: "(stmt_error, 'a) result \<Rightarrow> (go_error, 'a) result" where
  "or_fail r = (case r of Inl _ \<Rightarrow> io_err | Inr a \<Rightarrow> Inr a)"

text \<open>\<^verbatim>\<open>INSERT OR IGNORE\<close>: whether a row was inserted.\<close>

definition or_ignore :: "(store \<Rightarrow> (stmt_error, store) result) \<Rightarrow> store \<Rightarrow> (go_error, store \<times> bool) result" where
  "or_ignore f s =
     (case f s of Inl ForeignKeyFailed \<Rightarrow> io_err | Inl _ \<Rightarrow> Inr (s, False) | Inr s' \<Rightarrow> Inr (s', True))"

definition no_result :: "(go_error, store) result \<Rightarrow> (go_error, store \<times> unit) result" where
  "no_result r = (case r of Inl e \<Rightarrow> Inl e | Inr s \<Rightarrow> Inr (s, ()))"

text \<open>
  A transaction: an error of its body or of the commit leaves the store as it was, unless the commit
  took effect unreported.
\<close>

definition with_tx_err :: "go_error \<Rightarrow> db_io \<Rightarrow> 'a db \<Rightarrow> 'a db" where
  "with_tx_err commit_error io body s n =
     (if io n \<noteq> Performed then (s, Suc n, io_err)
      else case body s (Suc n) of
          (s', m, Inl e) \<Rightarrow> (s, m, Inl e)
        | (s', m, Inr a) \<Rightarrow>
           (case io m of
              Performed \<Rightarrow> (s', Suc m, Inr a)
            | Failed \<Rightarrow> (s, Suc m, Inl commit_error)
            | Unreported \<Rightarrow> (s', Suc m, Inl commit_error)))"

text \<open>A transaction that some branch of its body ends with a rollback although it succeeds.\<close>

definition with_tx_rollback :: "db_io \<Rightarrow> ('a \<times> bool) db \<Rightarrow> 'a db" where
  "with_tx_rollback io body s n =
     (if io n \<noteq> Performed then (s, Suc n, io_err)
      else case body s (Suc n) of
          (s', m, Inl e) \<Rightarrow> (s, m, Inl e)
        | (s', m, Inr (a, commit)) \<Rightarrow>
           if \<not> commit then (s, m, Inr a)
           else (case io m of
              Performed \<Rightarrow> (s', Suc m, Inr a)
            | Failed \<Rightarrow> (s, Suc m, io_err)
            | Unreported \<Rightarrow> (s', Suc m, io_err)))"

abbreviation with_tx :: "db_io \<Rightarrow> 'a db \<Rightarrow> 'a db" where
  "with_tx \<equiv> with_tx_err []"

section \<open>Integrity\<close>

text \<open>What the schema guarantees of every committed store.\<close>

definition principals_ok :: "store \<Rightarrow> bool" where
  "principals_ok s \<longleftrightarrow> distinct (map pr_id (principals s)) \<and> distinct (map pr_username (principals s)) \<and>
     (\<forall>p\<in>set (principals s). 0 < pr_id p \<and> pr_id p \<le> principal_seq s) \<and> 0 \<le> principal_seq s"

definition principal_roots_ok :: "store \<Rightarrow> bool" where
  "principal_roots_ok s \<longleftrightarrow>
     distinct (map (\<lambda>r. (rr_owner r, Path (rr_entry r))) (principal_allowed_roots s)) \<and>
     (\<forall>r\<in>set (principal_allowed_roots s). has_principal (rr_owner r) s \<and> access_isValid (Access (rr_entry r)))"

definition launchers_ok :: "store \<Rightarrow> bool" where
  "launchers_ok s \<longleftrightarrow>
     distinct (map la_id (launchers s)) \<and> distinct (map (\<lambda>l. (la_principal l, la_name l)) (launchers s)) \<and>
     (\<forall>l\<in>set (launchers s). has_principal (la_principal l) s \<and> scope_check (la_scope l) \<and> launcher_name_check (la_name l))"

definition launcher_roots_ok :: "store \<Rightarrow> bool" where
  "launcher_roots_ok s \<longleftrightarrow>
     distinct (map (\<lambda>r. (rr_owner r, Path (rr_entry r))) (launcher_allowed_roots s)) \<and>
     (\<forall>r\<in>set (launcher_allowed_roots s). has_launcher (rr_owner r) s \<and> access_isValid (Access (rr_entry r)))"

definition credentials_ok :: "store \<Rightarrow> bool" where
  "credentials_ok s \<longleftrightarrow> distinct (map cr_id (credentials s)) \<and>
     (\<forall>a\<in>set (credentials s). \<forall>b\<in>set (credentials s). a \<noteq> b \<longrightarrow> \<not> credentials_clash a b) \<and>
     (\<forall>c\<in>set (credentials s). credential_check c \<and> credential_owner_exists c s)"

definition sessions_ok :: "store \<Rightarrow> bool" where
  "sessions_ok s \<longleftrightarrow> distinct (map se_id (sessions s)) \<and> distinct (map se_hash (sessions s)) \<and>
     (\<forall>x\<in>set (sessions s). has_launcher (se_launcher x) s)"

definition snapshots_ok :: "store \<Rightarrow> bool" where
  "snapshots_ok s \<longleftrightarrow>
     distinct (map (\<lambda>r. (sn_session r, sn_position r)) (snapshot_entries s)) \<and>
     distinct (map (\<lambda>r. (sn_session r, Path (sn_entry r))) (snapshot_entries s)) \<and>
     distinct (map sm_session (snapshot_meta s)) \<and>
     (\<forall>r\<in>set (snapshot_entries s). 0 \<le> sn_position r \<and> access_isValid (Access (sn_entry r)) \<and> has_session (sn_session r) s) \<and>
     (\<forall>m\<in>set (snapshot_meta s). has_session (sm_session m) s)"

definition store_ok :: "store \<Rightarrow> bool" where
  "store_ok s \<longleftrightarrow> principals_ok s \<and> principal_roots_ok s \<and> launchers_ok s \<and> launcher_roots_ok s \<and>
     credentials_ok s \<and> sessions_ok s \<and> snapshots_ok s"

section \<open>Programs and invariants\<close>

text \<open>
  \<^term>\<open>keeps I m\<close>: whatever fails, the program leaves a store in which the invariant holds.
  \<^term>\<open>reads m\<close>: it never changes the store. \<^term>\<open>undone m\<close>: an error means an unchanged store.
\<close>

definition keeps :: "(store \<Rightarrow> bool) \<Rightarrow> 'a db \<Rightarrow> bool" where
  "keeps I m \<longleftrightarrow> (\<forall>s n. I s \<longrightarrow> I (fst (m s n)))"

definition reads :: "'a db \<Rightarrow> bool" where
  "reads m \<longleftrightarrow> (\<forall>s n. fst (m s n) = s)"

definition undone :: "'a db \<Rightarrow> bool" where
  "undone m \<longleftrightarrow> (\<forall>s n s' n' e. m s n = (s', n', Inl e) \<longrightarrow> s' = s)"

text \<open>No call takes effect without reporting success.\<close>

definition reported :: "db_io \<Rightarrow> bool" where
  "reported io \<longleftrightarrow> (\<forall>n. io n \<noteq> Unreported)"

named_theorems db_intros \<open>closure of the program predicates under the program combinators\<close>

lemma keepsD: "keeps I m \<Longrightarrow> I s \<Longrightarrow> m s n = (s', n', r) \<Longrightarrow> I s'"
  by (metis fst_conv keeps_def)

lemma undoneD: "undone m \<Longrightarrow> m s n = (s', n', Inl e) \<Longrightarrow> s' = s"
  unfolding undone_def by blast

lemma readsD: "reads m \<Longrightarrow> m s n = (s', n', r) \<Longrightarrow> s' = s"
  by (metis fst_conv reads_def)

lemma db_then_cases:
  assumes "db_then m f s n = (s', n', r)"
  obtains (failed) e where "m s n = (s', n', Inl e)" and "r = Inl e"
    | (continued) t k a where "m s n = (t, k, Inr a)" and "f a t k = (s', n', r)"
  using assms by (auto simp: db_then_def split: prod.splits sum.splits)

lemma db_then_Inr:
  "db_then m f s n = (s', n', Inr b) \<longleftrightarrow> (\<exists>t k a. m s n = (t, k, Inr a) \<and> f a t k = (s', n', Inr b))"
  by (auto simp: db_then_def split: prod.splits sum.splits)

lemma db_thenE:
  assumes "db_then m f s n = (s', n', Inr b)"
  obtains t k a where "m s n = (t, k, Inr a)" and "f a t k = (s', n', Inr b)"
  using assms by (auto simp: db_then_Inr)

lemma db_then_result: "db_then (db_result r) f s n = (case r of Inl e \<Rightarrow> (s, n, Inl e) | Inr a \<Rightarrow> f a s n)"
  by (simp add: db_then_def db_result_def split: sum.split)

lemma db_result_eq [simp]: "db_result r s n = (s', n', r') \<longleftrightarrow> s' = s \<and> n' = n \<and> r' = r"
  by (auto simp: db_result_def)

lemma keeps_result [db_intros]: "keeps I (db_result r)"
  by (simp add: keeps_def db_result_def)

lemma keeps_then [db_intros]:
  assumes "keeps I m" and "\<And>a. keeps I (f a)"
  shows "keeps I (db_then m f)"
  unfolding keeps_def
proof (intro allI impI)
  fix s n
  assume I: "I s"
  obtain t k r where m: "m s n = (t, k, r)" by (metis prod_cases3)
  then have "I t" using keepsD [OF assms(1) I] by blast
  then show "I (fst (db_then m f s n))"
    using m assms(2) by (auto simp: db_then_def keeps_def split: sum.splits)
qed

lemma keeps_query [db_intros]: "keeps I (query io f)"
  by (simp add: keeps_def query_def)

lemma keeps_exec:
  assumes "\<And>s s' a. I s \<Longrightarrow> f s = Inr (s', a) \<Longrightarrow> I s'"
  shows "keeps I (exec io f)"
  using assms by (auto simp: keeps_def exec_def split: db_outcome.splits sum.splits prod.splits)

lemma keeps_when [db_intros]: "(b \<Longrightarrow> keeps I m) \<Longrightarrow> keeps I (db_when b m)"
  by (simp add: db_when_def keeps_result)

lemma keeps_each [db_intros]: "(\<And>x. x \<in> set xs \<Longrightarrow> keeps I (f x)) \<Longrightarrow> keeps I (db_each f xs)"
  by (induction xs) (auto intro: db_intros)

lemma keeps_collect [db_intros]: "(\<And>x. x \<in> set xs \<Longrightarrow> keeps I (f x)) \<Longrightarrow> keeps I (db_collect f xs)"
  by (induction xs) (auto intro: db_intros)

lemma keeps_tx [db_intros]: "keeps I body \<Longrightarrow> keeps I (with_tx_err ce io body)"
  unfolding keeps_def with_tx_err_def
  by (auto split: prod.splits sum.splits db_outcome.splits dest: spec) (metis fst_conv)+

lemma keeps_tx_rollback [db_intros]: "keeps I body \<Longrightarrow> keeps I (with_tx_rollback io body)"
  unfolding keeps_def with_tx_rollback_def
  by (auto split: prod.splits sum.splits db_outcome.splits dest: spec) (metis fst_conv)+

lemma reads_intros [db_intros]:
  "reads (db_result r)" "reads (query io f)"
  "reads m \<Longrightarrow> (\<And>a. reads (g a)) \<Longrightarrow> reads (db_then m g)"
  by (auto simp: reads_def db_result_def query_def db_then_def split: prod.splits sum.splits)
    (metis fst_conv)+

lemma reads_keeps: "reads m \<Longrightarrow> keeps I m"
  by (simp add: reads_def keeps_def)

lemma reads_undone: "reads m \<Longrightarrow> undone m"
  by (metis fst_conv reads_def undone_def)

lemma undone_result [db_intros]: "undone (db_result r)" "undone (query io f)"
  by (intro reads_undone db_intros)+

lemma undone_exec [db_intros]: "reported io \<Longrightarrow> undone (exec io f)"
  by (auto simp: undone_def exec_def reported_def split: db_outcome.splits sum.splits)

lemma undone_then [db_intros]:
  assumes "reads m" and "\<And>a. undone (f a)"
  shows "undone (db_then m f)"
  unfolding undone_def
proof (intro allI impI)
  fix s n s' n' e
  assume "db_then m f s n = (s', n', Inl e)"
  then show "s' = s"
    using readsD [OF assms(1)] undoneD [OF assms(2)] by (cases rule: db_then_cases) metis+
qed

lemma undone_tx [db_intros]: "reported io \<Longrightarrow> undone (with_tx_err ce io body)"
  by (auto simp: undone_def with_tx_err_def reported_def split: prod.splits sum.splits db_outcome.splits if_splits)

lemma undone_tx_rollback [db_intros]: "reported io \<Longrightarrow> undone (with_tx_rollback io body)"
  by (auto simp: undone_def with_tx_rollback_def reported_def split: prod.splits sum.splits db_outcome.splits if_splits)

text \<open>The branches of a program.\<close>

lemma keeps_split [db_intros]:
  "(b \<Longrightarrow> keeps I m) \<Longrightarrow> (\<not> b \<Longrightarrow> keeps I m') \<Longrightarrow> keeps I (if b then m else m')"
  "(o' = None \<Longrightarrow> keeps I m) \<Longrightarrow> (\<And>a. o' = Some a \<Longrightarrow> keeps I (f a)) \<Longrightarrow> keeps I (case o' of None \<Rightarrow> m | Some a \<Rightarrow> f a)"
  "(\<And>a b. p = (a, b) \<Longrightarrow> keeps I (g a b)) \<Longrightarrow> keeps I (case p of (a, b) \<Rightarrow> g a b)"
  by (auto split: option.split prod.split)

lemma reads_split [db_intros]:
  "(b \<Longrightarrow> reads m) \<Longrightarrow> (\<not> b \<Longrightarrow> reads m') \<Longrightarrow> reads (if b then m else m')"
  "(o' = None \<Longrightarrow> reads m) \<Longrightarrow> (\<And>a. o' = Some a \<Longrightarrow> reads (f a)) \<Longrightarrow> reads (case o' of None \<Rightarrow> m | Some a \<Rightarrow> f a)"
  "(\<And>a b. p = (a, b) \<Longrightarrow> reads (g a b)) \<Longrightarrow> reads (case p of (a, b) \<Rightarrow> g a b)"
  by (auto split: option.split prod.split)

lemma undone_split [db_intros]:
  "(b \<Longrightarrow> undone m) \<Longrightarrow> (\<not> b \<Longrightarrow> undone m') \<Longrightarrow> undone (if b then m else m')"
  "(o' = None \<Longrightarrow> undone m) \<Longrightarrow> (\<And>a. o' = Some a \<Longrightarrow> undone (f a)) \<Longrightarrow> undone (case o' of None \<Rightarrow> m | Some a \<Rightarrow> f a)"
  "(\<And>a b. p = (a, b) \<Longrightarrow> undone (g a b)) \<Longrightarrow> undone (case p of (a, b) \<Rightarrow> g a b)"
  by (auto split: option.split prod.split)

text \<open>A write whose continuation does not fail is undone by its own error.\<close>

lemma undone_then_total:
  assumes "undone m" and "\<And>a s n s' n' e. f a s n \<noteq> (s', n', Inl e)"
  shows "undone (db_then m f)"
  unfolding undone_def using assms(2) undoneD [OF assms(1)] by (metis db_then_cases sum.inject(1))

abbreviation db_store :: "'a db \<Rightarrow> store \<Rightarrow> nat \<Rightarrow> store" where "db_store m s n \<equiv> fst (m s n)"
abbreviation db_value :: "'a db \<Rightarrow> store \<Rightarrow> nat \<Rightarrow> (go_error, 'a) result" where "db_value m s n \<equiv> snd (snd (m s n))"

text \<open>A transaction that reports success has run its body and committed it.\<close>

lemma with_tx_Inr:
  "with_tx_err ce io body s n = (s', n', Inr a) \<longleftrightarrow>
   io n = Performed \<and> (\<exists>m. body s (Suc n) = (s', m, Inr a) \<and> io m = Performed \<and> n' = Suc m)"
  by (auto simp: with_tx_err_def split: prod.splits sum.splits db_outcome.splits)

lemma with_tx_rollback_Inr:
  "with_tx_rollback io body s n = (s', n', Inr a) \<longleftrightarrow>
   io n = Performed \<and> (\<exists>m t b. body s (Suc n) = (t, m, Inr (a, b)) \<and>
     (if b then s' = t \<and> io m = Performed \<and> n' = Suc m else s' = s \<and> n' = m))"
  by (auto simp: with_tx_rollback_def split: prod.splits sum.splits db_outcome.splits)

lemma query_Inr [db_simps]:
  "query io f s n = (s', n', Inr a) \<longleftrightarrow> s' = s \<and> n' = Suc n \<and> io n = Performed \<and> f s = Inr a"
  by (auto simp: query_def)

lemma exec_Inr [db_simps]:
  "exec io f s n = (s', n', Inr a) \<longleftrightarrow> n' = Suc n \<and> io n = Performed \<and> f s = Inr (s', a)"
  by (auto simp: exec_def split: db_outcome.splits sum.splits prod.splits)

lemma or_Inr [simp]:
  "or_exists e r = Inr a \<longleftrightarrow> r = Inr a" "or_fail r = Inr a \<longleftrightarrow> r = Inr a"
  "no_result q = Inr (s, u) \<longleftrightarrow> q = Inr s"
  by (auto simp: or_exists_def or_fail_def no_result_def split: sum.splits stmt_error.splits)

lemma or_ignore_Inr:
  "or_ignore f s = Inr (s', b) \<longleftrightarrow>
   (if b then f s = Inr s' else s' = s \<and> (\<exists>e. f s = Inl e \<and> e \<noteq> ForeignKeyFailed))"
  by (auto simp: or_ignore_def split: sum.splits stmt_error.splits)

text \<open>When every call is performed the call number does not matter.\<close>

definition fault_free :: db_io where
  "fault_free = (\<lambda>_. Performed)"

lemma fault_free_simps [simp]: "fault_free n = Performed"
  by (simp add: fault_free_def)

lemma reported_fault_free [simp]: "reported fault_free"
  by (simp add: reported_def)

section \<open>Statements keep the integrity of the store\<close>

lemma has_principal_iff: "has_principal i s \<longleftrightarrow> i \<in> pr_id ` set (principals s)"
  by (auto simp: has_principal_def list_ex_iff)

lemma has_launcher_iff: "has_launcher i s \<longleftrightarrow> i \<in> la_id ` set (launchers s)"
  by (auto simp: has_launcher_def list_ex_iff)

lemma has_session_iff: "has_session i s \<longleftrightarrow> i \<in> se_id ` set (sessions s)"
  by (auto simp: has_session_def list_ex_iff)

lemmas store_parts = store_ok_def principals_ok_def principal_roots_ok_def launchers_ok_def
  launcher_roots_ok_def credentials_ok_def sessions_ok_def snapshots_ok_def

lemma set_update_rows: "set (update_rows P f rows) = (\<lambda>r. if P r then f r else r) ` set rows"
  by (simp add: update_rows_def)

lemma map_update_rows [simp]: "(\<And>r. g (f r) = g r) \<Longrightarrow> map g (update_rows P f rows) = map g rows"
  by (simp add: update_rows_def)

lemma image_update_rows [simp]: "(\<And>r. g (f r) = g r) \<Longrightarrow> g ` set (update_rows P f rows) = g ` set rows"
  by (metis list.set_map map_update_rows)

lemma store_ok_empty [simp]: "store_ok empty_store"
  by (simp add: store_parts empty_store_def)

lemma credential_owner_exists_iff:
  "credential_owner_exists c s \<longleftrightarrow>
     (\<forall>p. cr_principal c = Some p \<longrightarrow> p \<in> pr_id ` set (principals s)) \<and>
     (\<forall>l. cr_launcher c = Some l \<longrightarrow> l \<in> la_id ` set (launchers s))"
  by (auto simp: credential_owner_exists_def has_principal_iff has_launcher_iff split: option.splits)

lemmas owner_simps = has_principal_iff has_launcher_iff has_session_iff credential_owner_exists_iff

lemma store_okD:
  assumes "store_ok s"
  shows "principals_ok s" "principal_roots_ok s" "launchers_ok s" "launcher_roots_ok s" "credentials_ok s" "sessions_ok s"
    "snapshots_ok s"
  using assms by (simp_all add: store_ok_def)

text \<open>
  What a statement that removes no Principal and no Launcher has to establish: the constraints of the
  tables it changes.
\<close>

lemma store_ok_frame:
  assumes "store_ok s"
    and "pr_id ` set (principals s) \<subseteq> pr_id ` set (principals s')"
    and "la_id ` set (launchers s) \<subseteq> la_id ` set (launchers s')"
    and "principals s' = principals s \<and> principal_seq s' = principal_seq s \<or> principals_ok s'"
    and "principal_allowed_roots s' = principal_allowed_roots s \<or> principal_roots_ok s'"
    and "launchers s' = launchers s \<or> launchers_ok s'"
    and "launcher_allowed_roots s' = launcher_allowed_roots s \<or> launcher_roots_ok s'"
    and "credentials s' = credentials s \<or> credentials_ok s'"
    and "sessions s' = sessions s \<or> sessions_ok s'"
    and "snapshot_entries s' = snapshot_entries s \<and> snapshot_meta s' = snapshot_meta s \<and>
      se_id ` set (sessions s) \<subseteq> se_id ` set (sessions s') \<or> snapshots_ok s'"
  shows "store_ok s'"
proof -
  have pr: "has_principal i s \<Longrightarrow> has_principal i s'" for i using assms(2) by (auto simp: owner_simps)
  have la: "has_launcher i s \<Longrightarrow> has_launcher i s'" for i using assms(3) by (auto simp: owner_simps)
  have cr: "credential_owner_exists c s \<Longrightarrow> credential_owner_exists c s'" for c
    unfolding credential_owner_exists_def by (auto simp: pr la split: option.splits)
  have "principals_ok s'" using assms(4) store_okD(1) [OF assms(1)] by (auto simp: principals_ok_def)
  moreover have "principal_roots_ok s'"
    using assms(5) store_okD(2) [OF assms(1)] by (elim disjE) (simp_all add: principal_roots_ok_def pr)
  moreover have "launchers_ok s'"
    using assms(6) store_okD(3) [OF assms(1)] by (elim disjE) (simp_all add: launchers_ok_def pr)
  moreover have "launcher_roots_ok s'"
    using assms(7) store_okD(4) [OF assms(1)] by (elim disjE) (simp_all add: launcher_roots_ok_def la)
  moreover have "credentials_ok s'"
    using assms(8) store_okD(5) [OF assms(1)] by (elim disjE) (simp_all add: credentials_ok_def cr)
  moreover have "sessions_ok s'"
    using assms(9) store_okD(6) [OF assms(1)] by (elim disjE) (simp_all add: sessions_ok_def la)
  moreover have "snapshots_ok s'"
    using assms(10) store_okD(7) [OF assms(1)] by (elim disjE conjE) (auto simp: snapshots_ok_def owner_simps)
  ultimately show ?thesis by (simp add: store_ok_def)
qed

lemma insert_principal_ok:
  assumes "store_ok s" and "insert_principal name u g h s = Inr (s', i)"
  shows "store_ok s'"
proof -
  have "principals_ok s'"
    using store_okD(1) [OF assms(1)] assms(2)
    by (auto simp: principals_ok_def insert_principal_def list_ex_iff Let_def split: if_splits) force+
  then show ?thesis
    using assms(2) by (intro store_ok_frame [OF assms(1)]) (auto simp: insert_principal_def Let_def split: if_splits)
qed

lemma insert_principal_root_ok:
  assumes "store_ok s" and "insert_principal_root i e s = Inr s'"
  shows "store_ok s'"
proof -
  have "principal_roots_ok s'"
    using store_okD(2) [OF assms(1)] assms(2)
    by (auto simp: principal_roots_ok_def insert_principal_root_def list_ex_iff owner_simps split: if_splits) metis
  then show ?thesis
    using assms(2) by (intro store_ok_frame [OF assms(1)]) (auto simp: insert_principal_root_def split: if_splits)
qed

lemma insert_launcher_ok:
  assumes "store_ok s" and "insert_launcher l s = Inr s'"
  shows "store_ok s'"
proof -
  have "launchers_ok s'"
    using store_okD(3) [OF assms(1)] assms(2)
    by (auto simp: launchers_ok_def insert_launcher_def list_ex_iff owner_simps split: if_splits) metis+
  then show ?thesis
    using assms(2) by (intro store_ok_frame [OF assms(1)]) (auto simp: insert_launcher_def split: if_splits)
qed

lemma insert_launcher_root_ok:
  assumes "store_ok s" and "insert_launcher_root i e s = Inr s'"
  shows "store_ok s'"
proof -
  have "launcher_roots_ok s'"
    using store_okD(4) [OF assms(1)] assms(2)
    by (auto simp: launcher_roots_ok_def insert_launcher_root_def list_ex_iff owner_simps split: if_splits) metis
  then show ?thesis
    using assms(2) by (intro store_ok_frame [OF assms(1)]) (auto simp: insert_launcher_root_def split: if_splits)
qed

lemma credentials_clash_sym: "credentials_clash a b = credentials_clash b a"
  unfolding credentials_clash_def by metis

lemma insert_credential_ok:
  assumes "store_ok s" and "insert_credential c s = Inr s'"
  shows "store_ok s'"
proof -
  have s': "s' = s\<lparr>credentials := credentials s @ [c]\<rparr>" and chk: "credential_check c" "credential_owner_exists c s"
    and new: "\<forall>b\<in>set (credentials s). \<not> credentials_clash c b"
    using assms(2) by (auto simp: insert_credential_def list_ex_iff split: if_splits)
  from new have "\<forall>b\<in>set (credentials s). cr_id b \<noteq> cr_id c" unfolding credentials_clash_def by metis
  moreover from new have "\<forall>b\<in>set (credentials s). \<not> credentials_clash b c"
    by (simp add: credentials_clash_sym)
  ultimately have "credentials_ok s'"
    using store_okD(5) [OF assms(1)] new chk unfolding s' credentials_ok_def by (auto simp: owner_simps)
  then show ?thesis by (intro store_ok_frame [OF assms(1)]) (simp_all add: s')
qed

lemma insert_session_ok:
  assumes "store_ok s" and "insert_session x s = Inr s'"
  shows "store_ok s'"
proof -
  have "sessions_ok s'"
    using store_okD(6) [OF assms(1)] assms(2)
    by (auto simp: sessions_ok_def insert_session_def list_ex_iff owner_simps split: if_splits) metis+
  then show ?thesis
    using assms(2) by (intro store_ok_frame [OF assms(1)]) (auto simp: insert_session_def split: if_splits)
qed

lemma insert_snapshot_entry_ok:
  assumes "store_ok s" and "insert_snapshot_entry r s = Inr s'"
  shows "store_ok s'"
proof -
  have "snapshots_ok s'"
    using store_okD(7) [OF assms(1)] assms(2)
    by (auto simp: snapshots_ok_def insert_snapshot_entry_def list_ex_iff owner_simps split: if_splits) metis+
  then show ?thesis
    using assms(2) by (intro store_ok_frame [OF assms(1)]) (auto simp: insert_snapshot_entry_def split: if_splits)
qed

lemma insert_snapshot_meta_ok:
  assumes "store_ok s" and "insert_snapshot_meta m s = Inr s'"
  shows "store_ok s'"
proof -
  have "snapshots_ok s'"
    using store_okD(7) [OF assms(1)] assms(2)
    by (auto simp: snapshots_ok_def insert_snapshot_meta_def list_ex_iff owner_simps split: if_splits) metis
  then show ?thesis
    using assms(2) by (intro store_ok_frame [OF assms(1)]) (auto simp: insert_snapshot_meta_def split: if_splits)
qed

text \<open>Updates that keep the keys of their table, and deletions of rows nothing refers to.\<close>

lemma update_principals_ok:
  assumes "store_ok s" and "\<And>p. pr_id (f p) = pr_id p \<and> pr_username (f p) = pr_username p"
  shows "store_ok (s\<lparr>principals := update_rows P f (principals s)\<rparr>)"
proof -
  have "principals_ok (s\<lparr>principals := update_rows P f (principals s)\<rparr>)"
    using store_okD(1) [OF assms(1)] assms(2) by (auto simp: principals_ok_def set_update_rows)
  then show ?thesis using assms by (intro store_ok_frame [OF assms(1)]) auto
qed

lemma update_launchers_ok:
  assumes "store_ok s"
    and "\<And>l. la_id (f l) = la_id l \<and> la_principal (f l) = la_principal l \<and> la_name (f l) = la_name l"
    and "\<And>l. scope_check (la_scope l) \<Longrightarrow> scope_check (la_scope (f l))"
  shows "store_ok (s\<lparr>launchers := update_rows P f (launchers s)\<rparr>)"
proof -
  have "launchers_ok (s\<lparr>launchers := update_rows P f (launchers s)\<rparr>)"
    using store_okD(3) [OF assms(1)] assms(2,3) by (auto simp: launchers_ok_def owner_simps set_update_rows)
  then show ?thesis using assms by (intro store_ok_frame [OF assms(1)]) auto
qed

lemma update_principal_roots_ok:
  assumes "store_ok s" and "access_isValid a"
  shows "store_ok (s\<lparr>principal_allowed_roots :=
     update_rows P (\<lambda>r. r\<lparr>rr_entry := (rr_entry r)\<lparr>Access := a\<rparr>\<rparr>) (principal_allowed_roots s)\<rparr>)"
    (is "store_ok ?t")
proof -
  have "principal_roots_ok ?t"
    using store_okD(2) [OF assms(1)] assms(2) by (auto simp: principal_roots_ok_def owner_simps set_update_rows)
  then show ?thesis by (intro store_ok_frame [OF assms(1)]) auto
qed

lemma update_launcher_roots_ok:
  assumes "store_ok s" and "access_isValid a"
  shows "store_ok (s\<lparr>launcher_allowed_roots :=
     update_rows P (\<lambda>r. r\<lparr>rr_entry := (rr_entry r)\<lparr>Access := a\<rparr>\<rparr>) (launcher_allowed_roots s)\<rparr>)"
    (is "store_ok ?t")
proof -
  have "launcher_roots_ok ?t"
    using store_okD(4) [OF assms(1)] assms(2) by (auto simp: launcher_roots_ok_def owner_simps set_update_rows)
  then show ?thesis by (intro store_ok_frame [OF assms(1)]) auto
qed

lemma delete_principal_roots_ok:
  assumes "store_ok s"
  shows "store_ok (s\<lparr>principal_allowed_roots := filter P (principal_allowed_roots s)\<rparr>)" (is "store_ok ?t")
proof -
  have "principal_roots_ok ?t"
    using store_okD(2) [OF assms] by (auto simp: principal_roots_ok_def owner_simps distinct_map_filter)
  then show ?thesis by (intro store_ok_frame [OF assms]) auto
qed

lemma delete_launcher_roots_ok:
  assumes "store_ok s"
  shows "store_ok (s\<lparr>launcher_allowed_roots := filter P (launcher_allowed_roots s)\<rparr>)" (is "store_ok ?t")
proof -
  have "launcher_roots_ok ?t"
    using store_okD(4) [OF assms] by (auto simp: launcher_roots_ok_def owner_simps distinct_map_filter)
  then show ?thesis by (intro store_ok_frame [OF assms]) auto
qed

lemma credentials_ok_filter: "credentials_ok s \<Longrightarrow> credentials_ok (s\<lparr>credentials := filter P (credentials s)\<rparr>)"
  by (auto simp: credentials_ok_def owner_simps distinct_map_filter)

lemma delete_credentials_ok:
  assumes "store_ok s"
  shows "store_ok (s\<lparr>credentials := filter P (credentials s)\<rparr>)"
  using credentials_ok_filter [OF store_okD(5) [OF assms], of P]
  by (intro store_ok_frame [OF assms]) auto

lemma session_ids_of_frame [simp]:
  "session_ids_of P (s\<lparr>principals := ps\<rparr>) = session_ids_of P s"
  "session_ids_of P (s\<lparr>launchers := ls\<rparr>) = session_ids_of P s"
  by (simp_all add: session_ids_of_def)

lemma delete_sessions_sel [simp]:
  "principals (delete_sessions P s) = principals s" "principal_seq (delete_sessions P s) = principal_seq s"
  "principal_allowed_roots (delete_sessions P s) = principal_allowed_roots s"
  "launchers (delete_sessions P s) = launchers s"
  "launcher_allowed_roots (delete_sessions P s) = launcher_allowed_roots s"
  "credentials (delete_sessions P s) = credentials s"
  "sessions (delete_sessions P s) = filter (\<lambda>x. \<not> P x) (sessions s)"
  by (simp_all add: delete_sessions_def)

lemma delete_sessions_commute:
  "delete_sessions P (s\<lparr>principals := ps\<rparr>) = (delete_sessions P s)\<lparr>principals := ps\<rparr>"
  "delete_sessions P (s\<lparr>launchers := ls\<rparr>) = (delete_sessions P s)\<lparr>launchers := ls\<rparr>"
  by (simp_all add: delete_sessions_def)

lemma delete_sessions_ok:
  assumes "store_ok s"
  shows "store_ok (delete_sessions P s)"
proof -
  have "sessions_ok (delete_sessions P s)"
    using store_okD(6) [OF assms] by (auto simp: sessions_ok_def owner_simps distinct_map_filter delete_sessions_def)
  moreover have "snapshots_ok (delete_sessions P s)"
    using store_okD(7) [OF assms]
    by (auto simp: snapshots_ok_def owner_simps distinct_map_filter delete_sessions_def session_ids_of_def) blast+
  ultimately show ?thesis by (intro store_ok_frame [OF assms]) (auto simp: delete_sessions_def)
qed

lemma rename_launcher_ok:
  assumes "store_ok s" and "rename_launcher i n s = Inr s'"
  shows "store_ok s'"
proof -
  let ?f = "\<lambda>l :: launcher_row. if la_id l = i then l\<lparr>la_name := n\<rparr> else l"
  have s': "s' = s\<lparr>launchers := map ?f (launchers s)\<rparr>"
    and chk: "l \<in> set (launchers s) \<Longrightarrow> la_id l = i \<Longrightarrow> launcher_name_check n"
    and free: "l \<in> set (launchers s) \<Longrightarrow> la_id l = i \<Longrightarrow> x \<in> set (launchers s) \<Longrightarrow> la_id x \<noteq> i \<Longrightarrow>
      la_principal x = la_principal l \<Longrightarrow> la_name x \<noteq> n" for l x
    using assms(2) by (auto simp: rename_launcher_def update_rows_def list_ex_iff split: if_splits)
  have ids: "map la_id (launchers s') = map la_id (launchers s)" by (simp add: s')
  have L: "launchers_ok s" using assms(1) by (rule store_okD)
  have "inj_on (\<lambda>l. (la_principal (?f l), la_name (?f l))) (set (launchers s))"
  proof (rule inj_onI)
    fix x y
    assume xy: "x \<in> set (launchers s)" "y \<in> set (launchers s)"
      and eq: "(la_principal (?f x), la_name (?f x)) = (la_principal (?f y), la_name (?f y))"
    have "la_id x = la_id y \<Longrightarrow> x = y" "(la_principal x, la_name x) = (la_principal y, la_name y) \<Longrightarrow> x = y"
      using L xy distinct_map_eqD unfolding launchers_ok_def by metis+
    with xy eq free [of x y] free [of y x] show "x = y" by (auto split: if_splits)
  qed
  moreover have "distinct (launchers s)" using L by (simp add: launchers_ok_def distinct_map)
  ultimately have "launchers_ok s'"
    using L chk unfolding launchers_ok_def ids
    by (auto simp: s' owner_simps distinct_map comp_def)
  moreover have "la_id ` set (launchers s') = la_id ` set (launchers s)" using ids by (metis list.set_map)
  ultimately show ?thesis by (intro store_ok_frame [OF assms(1)]) (simp_all add: s')
qed

lemma launcher_ids_of_iff: "i \<in> set (launcher_ids_of p s) \<longleftrightarrow> (\<exists>l\<in>set (launchers s). la_id l = i \<and> la_principal l = p)"
  by (auto simp: launcher_ids_of_def)

text \<open>
  Deleting a set of Launchers with what hangs off them; the remaining Sessions, roots and credentials
  refer to the remaining Launchers.
\<close>

lemma delete_launcher_rows_ok:
  assumes ok: "store_ok s" and free: "\<forall>x\<in>set (sessions s). se_launcher x \<notin> D"
    and ids: "\<forall>l\<in>set (launchers s). Q l \<longleftrightarrow> la_id l \<notin> D"
  shows "store_ok (s\<lparr>launchers := filter Q (launchers s),
      launcher_allowed_roots := filter (\<lambda>r. rr_owner r \<notin> D) (launcher_allowed_roots s),
      credentials := filter (launcher_not_in D) (credentials s)\<rparr>)" (is "store_ok ?t")
proof -
  have la: "la_id ` set (launchers ?t) = la_id ` set (launchers s) - D" using ids by auto
  have pr: "principals ?t = principals s" "principal_seq ?t = principal_seq s" by simp_all
  have "launchers_ok ?t" using store_okD(3) [OF ok] by (auto simp: launchers_ok_def owner_simps distinct_map_filter)
  moreover have "launcher_roots_ok ?t"
    using store_okD(4) [OF ok] unfolding launcher_roots_ok_def owner_simps la by (auto simp: distinct_map_filter)
  moreover have "credentials_ok ?t"
    using store_okD(5) [OF ok] unfolding credentials_ok_def owner_simps la pr
    by (auto simp: distinct_map_filter launcher_not_in_def)
  moreover have "sessions_ok ?t"
    using store_okD(6) [OF ok] free unfolding sessions_ok_def owner_simps la by auto
  moreover have "snapshots_ok ?t" using store_okD(7) [OF ok] by (simp add: snapshots_ok_def owner_simps)
  moreover have "principals_ok ?t" "principal_roots_ok ?t"
    using store_okD(1,2) [OF ok] by (simp_all add: principals_ok_def principal_roots_ok_def owner_simps)
  ultimately show ?thesis by (simp add: store_ok_def)
qed

lemma delete_launcher_ok:
  assumes "store_ok s" and "delete_launcher i s = Inr s'"
  shows "store_ok s'"
proof -
  have "s' = s\<lparr>launchers := filter (\<lambda>l. la_id l \<noteq> i) (launchers s),
      launcher_allowed_roots := filter (\<lambda>r. rr_owner r \<notin> {i}) (launcher_allowed_roots s),
      credentials := filter (launcher_not_in {i}) (credentials s)\<rparr>"
    and "\<forall>x\<in>set (sessions s). se_launcher x \<notin> {i}"
    using assms(2) by (auto simp: delete_launcher_def list_ex_iff split: if_splits)
  then show ?thesis using delete_launcher_rows_ok [OF assms(1), of "{i}" "\<lambda>l. la_id l \<noteq> i"] by simp
qed

lemma delete_principal_row_ok:
  assumes "store_ok s" and "delete_principal_row i s = Inr s'"
  shows "store_ok s'"
proof -
  let ?D = "set (launcher_ids_of i s)"
  define u where "u = s\<lparr>launchers := filter (\<lambda>l. la_principal l \<noteq> i) (launchers s),
      launcher_allowed_roots := filter (\<lambda>r. rr_owner r \<notin> ?D) (launcher_allowed_roots s),
      credentials := filter (launcher_not_in ?D) (credentials s)\<rparr>"
  have s': "s' = u\<lparr>principals := filter (\<lambda>p. pr_id p \<noteq> i) (principals u),
      principal_allowed_roots := filter (\<lambda>r. rr_owner r \<noteq> i) (principal_allowed_roots u),
      credentials := filter (\<lambda>c. cr_principal c \<noteq> Some i) (credentials u)\<rparr>"
    and free: "\<forall>x\<in>set (sessions s). se_launcher x \<notin> ?D"
    using assms(2) by (auto simp: delete_principal_row_def list_ex_iff u_def Let_def split: if_splits)
  have ids: "la_principal l \<noteq> i \<longleftrightarrow> la_id l \<notin> ?D" if "l \<in> set (launchers s)" for l
  proof -
    have "x = l" if "x \<in> set (launchers s)" "la_id x = la_id l" for x
      using store_okD(3) [OF assms(1)] distinct_map_eqD that \<open>l \<in> set (launchers s)\<close> unfolding launchers_ok_def by metis
    then show ?thesis using that unfolding launcher_ids_of_iff by blast
  qed
  have u: "store_ok u" unfolding u_def by (rule delete_launcher_rows_ok [OF assms(1) free]) (simp add: ids)
  have gone: "\<forall>l\<in>set (launchers u). la_principal l \<noteq> i" by (simp add: u_def)
  have pr: "pr_id ` set (principals s') = pr_id ` set (principals u) - {i}" by (auto simp: s')
  have la: "launchers s' = launchers u" by (simp add: s')
  have "principals_ok s'" using store_okD(1) [OF u] by (auto simp: principals_ok_def s' distinct_map_filter)
  moreover have "principal_roots_ok s'"
    using store_okD(2) [OF u] unfolding principal_roots_ok_def owner_simps pr by (auto simp: s' distinct_map_filter)
  moreover have "launchers_ok s'"
    using store_okD(3) [OF u] gone unfolding launchers_ok_def owner_simps pr la by auto
  moreover have "launcher_roots_ok s'"
    using store_okD(4) [OF u] unfolding launcher_roots_ok_def owner_simps la by (simp add: s')
  moreover have "credentials_ok s'"
    using store_okD(5) [OF u] unfolding credentials_ok_def owner_simps pr la by (auto simp: s' distinct_map_filter)
  moreover have "sessions_ok s'"
    using store_okD(6) [OF u] unfolding sessions_ok_def owner_simps la by (simp add: s')
  moreover have "snapshots_ok s'" using store_okD(7) [OF u] by (simp add: snapshots_ok_def owner_simps s')
  ultimately show ?thesis by (simp add: store_ok_def)
qed

text \<open>Rewriting the hash of one credential, and revoking one.\<close>

lemma update_credentials_ok:
  assumes ok: "store_ok s" and s': "s' = s\<lparr>credentials := map f (credentials s)\<rparr>"
    and keys: "\<And>c. cr_id (f c) = cr_id c \<and> cr_principal (f c) = cr_principal c \<and> cr_launcher (f c) = cr_launcher c \<and>
      cr_name (f c) = cr_name c"
    and clash: "\<And>a b. a \<in> set (credentials s) \<Longrightarrow> b \<in> set (credentials s) \<Longrightarrow> a \<noteq> b \<Longrightarrow> \<not> credentials_clash a b \<Longrightarrow>
      \<not> credentials_clash (f a) (f b)"
  shows "store_ok s'"
proof -
  have C: "credentials_ok s" using ok by (rule store_okD)
  have "map cr_id (credentials s') = map cr_id (credentials s)" by (simp add: s' keys)
  moreover have "\<not> credentials_clash x y" if xy: "x \<in> set (credentials s')" "y \<in> set (credentials s')" "x \<noteq> y" for x y
  proof -
    obtain a b where ab: "a \<in> set (credentials s)" "b \<in> set (credentials s)" "x = f a" "y = f b"
      using xy(1,2) by (auto simp: s')
    then have "a \<noteq> b" using xy(3) by blast
    then show ?thesis using C ab clash unfolding credentials_ok_def by blast
  qed
  moreover have "credential_check x \<and> credential_owner_exists x s'" if x: "x \<in> set (credentials s')" for x
    using C x unfolding credentials_ok_def by (auto simp: s' keys owner_simps credential_check_def)
  ultimately have "credentials_ok s'" using C unfolding credentials_ok_def by metis
  then show ?thesis by (intro store_ok_frame [OF ok]) (simp_all add: s')
qed

lemma update_credential_hash_ok:
  assumes "store_ok s" and "update_credential_hash P h s = Inr (s', k)" and "\<And>a b. P a \<Longrightarrow> P b \<Longrightarrow> cr_id a = cr_id b"
  shows "store_ok s'"
proof (rule update_credentials_ok [OF assms(1)])
  let ?f = "\<lambda>c. if P c then c\<lparr>cr_hash := h\<rparr> else c"
  show "s' = s\<lparr>credentials := map ?f (credentials s)\<rparr>"
    using assms(2) by (auto simp: update_credential_hash_def update_rows_def split: if_splits)
  have new: "cr_hash c \<noteq> h" if "a \<in> set (credentials s)" "P a" "c \<in> set (credentials s)" "\<not> P c" for a c
    using assms(2) that by (auto simp: update_credential_hash_def list_ex_iff split: if_splits)
  fix a b
  assume ab: "a \<in> set (credentials s)" "b \<in> set (credentials s)" and old: "\<not> credentials_clash a b"
  then have "\<not> (P a \<and> P b)" using assms(3) unfolding credentials_clash_def by metis
  then consider "\<not> P a" "\<not> P b" | "P a" "\<not> P b" "cr_hash b \<noteq> h" | "\<not> P a" "P b" "cr_hash a \<noteq> h"
    using new ab by blast
  then show "\<not> credentials_clash (?f a) (?f b)"
    using old unfolding credentials_clash_def by cases simp_all
qed simp

lemma revoke_credentials_ok:
  assumes "store_ok s"
  shows "store_ok (s\<lparr>credentials := update_rows P (\<lambda>c. c\<lparr>cr_revoked := Some now\<rparr>) (credentials s)\<rparr>)"
  unfolding update_rows_def
proof (rule update_credentials_ok [OF assms refl])
  fix a b :: credential_row
  assume "\<not> credentials_clash a b"
  then show "\<not> credentials_clash (if P a then a\<lparr>cr_revoked := Some now\<rparr> else a)
      (if P b then b\<lparr>cr_revoked := Some now\<rparr> else b)"
    unfolding credentials_clash_def by (cases "P a"; cases "P b") simp_all
qed simp

end
