(* ===== verification/Credentials.thy ===== *)
theory Credentials
  imports Store
begin

text \<open>
  credential.go, credential\_rotation.go and launcher\_credential.go: issue, revocation, rotation and
  authentication of Principal and Launcher bearer credentials, with the Principal lookups of
  principal.go they use. SHA-256 is the parameter \<^term>\<open>hash\<close>; the random bytes and the clock are the
  parameter \<^term>\<open>ent\<close>, where \<^const>\<open>None\<close> is a failed read of the random source.
\<close>

record entropy =
  rnd_launcher :: "nat list option"
  rnd_token :: "nat list option"
  rnd_credential :: "nat list option"
  clock :: int

section \<open>Principal lookups\<close>

definition principal_by_username :: "string \<Rightarrow> store \<Rightarrow> principal_row option" where
  "principal_by_username username s = find (\<lambda>p. pr_username p = username) (principals s)"

definition principal_by_id :: "int \<Rightarrow> store \<Rightarrow> principal_row option" where
  "principal_by_id i s = find (\<lambda>p. pr_id p = i) (principals s)"

definition findPrincipalByID :: "db_io \<Rightarrow> int \<Rightarrow> principal_row db" where
  "findPrincipalByID io i =
     query io (\<lambda>s. case principal_by_id i s of None \<Rightarrow> err ErrPrincipalNotFound | Some p \<Rightarrow> Inr p)"

definition findPrincipalIDByUsername :: "db_io \<Rightarrow> string \<Rightarrow> int db" where
  "findPrincipalIDByUsername io username =
     (if username = [] then db_fail ErrPrincipalNotFound
      else query io (\<lambda>s. case principal_by_username username s of
          None \<Rightarrow> err ErrPrincipalNotFound | Some p \<Rightarrow> Inr (pr_id p)))"

definition findPrincipalIDByUsernameInTx :: "db_io \<Rightarrow> string \<Rightarrow> int db" where
  "findPrincipalIDByUsernameInTx io username =
     query io (\<lambda>s. case principal_by_username username s of
       None \<Rightarrow> err ErrPrincipalNotFound | Some p \<Rightarrow> Inr (pr_id p))"

section \<open>Issue\<close>

record PrincipalCredential =
  pc_ID :: string
  pc_PrincipalName :: string
  pc_Name :: string
  pc_CreatedAt :: int
  pc_RevokedAt :: "int option"

record launcherCredential =
  lc_ID :: string
  lc_CreatedAt :: int
  lc_RevokedAt :: "int option"

definition credentialTokenPrefix :: string where "credentialTokenPrefix = ''dhc_''"

definition from_random :: "string \<Rightarrow> nat list option \<Rightarrow> (go_error, string) result" where
  "from_random pre r = (case r of None \<Rightarrow> io_err | Some bs \<Rightarrow> Inr (pre @ hex_encode bs))"

definition generateCredentialToken :: "nat list option \<Rightarrow> (go_error, string) result" where
  "generateCredentialToken r = from_random credentialTokenPrefix r"

definition generateCredentialID :: "nat list option \<Rightarrow> (go_error, string) result" where
  "generateCredentialID r = from_random ''dhcr_'' r"

definition insertPrincipalCredentialInTx ::
    "(string \<Rightarrow> string) \<Rightarrow> entropy \<Rightarrow> db_io \<Rightarrow> int \<Rightarrow> string \<Rightarrow> string \<Rightarrow> (PrincipalCredential \<times> string) db" where
  "insertPrincipalCredentialInTx hash ent io principalID principalName name =
     (if name = [] then db_fail ErrInvalidPrincipalCredentialName
      else db_then (db_result (generateCredentialToken (rnd_token ent))) (\<lambda>token.
        db_then (db_result (generateCredentialID (rnd_credential ent))) (\<lambda>credID.
          db_then (exec io (\<lambda>s. no_result (or_exists ErrPrincipalCredentialExists
              (insert_credential \<lparr>cr_id = credID, cr_principal = Some principalID, cr_launcher = None,
                 cr_name = Some name, cr_hash = hash token, cr_created = clock ent, cr_revoked = None\<rparr> s)))) (\<lambda>_.
            db_return (\<lparr>pc_ID = credID, pc_PrincipalName = principalName, pc_Name = name,
                pc_CreatedAt = clock ent, pc_RevokedAt = None\<rparr>, token)))))"

definition createPrincipalCredential ::
    "(string \<Rightarrow> string) \<Rightarrow> entropy \<Rightarrow> db_io \<Rightarrow> string \<Rightarrow> string \<Rightarrow> (PrincipalCredential \<times> string) db" where
  "createPrincipalCredential hash ent io username name =
     with_tx io (db_then (findPrincipalIDByUsernameInTx io username) (\<lambda>principalID.
       insertPrincipalCredentialInTx hash ent io principalID username name))"

definition credential_projection :: "credential_row \<Rightarrow> principal_row \<Rightarrow> PrincipalCredential" where
  "credential_projection c p =
     \<lparr>pc_ID = cr_id c, pc_PrincipalName = pr_username p, pc_Name = (case cr_name c of None \<Rightarrow> [] | Some n \<Rightarrow> n),
      pc_CreatedAt = cr_created c, pc_RevokedAt = cr_revoked c\<rparr>"

text \<open>\<^verbatim>\<open>credentials c JOIN principals p ON p.id = c.principal_id\<close>.\<close>

definition credentials_join_principals :: "store \<Rightarrow> (credential_row \<times> principal_row) list" where
  "credentials_join_principals s =
     concat (map (\<lambda>c. map (Pair c) (filter (\<lambda>p. cr_principal c = Some (pr_id p)) (principals s))) (credentials s))"

text \<open>
  The list is ordered by owning Principal name and then creation time; sorting is stable, so the inner
  key is sorted first.
\<close>

definition listPrincipalCredentialsForScope :: "db_io \<Rightarrow> int option \<Rightarrow> PrincipalCredential list db" where
  "listPrincipalCredentialsForScope io principalID =
     query io (\<lambda>s. Inr (sort_key pc_PrincipalName (sort_key pc_CreatedAt
       (map (\<lambda>(c, p). credential_projection c p)
         (filter (\<lambda>(c, p). principalID = None \<or> cr_principal c = principalID) (credentials_join_principals s))))))"

definition findPrincipalCredentialByID :: "db_io \<Rightarrow> string \<Rightarrow> PrincipalCredential db" where
  "findPrincipalCredentialByID io i =
     (if i = [] then db_fail ErrCredentialNotFound
      else query io (\<lambda>s. case find (\<lambda>(c, p). cr_id c = i) (credentials_join_principals s) of
          None \<Rightarrow> err ErrCredentialNotFound | Some (c, p) \<Rightarrow> Inr (credential_projection c p)))"

definition revokePrincipalCredential :: "db_io \<Rightarrow> int \<Rightarrow> string \<Rightarrow> bool db" where
  "revokePrincipalCredential io now i =
     (if i = [] then db_fail ErrCredentialNotFound
      else db_then (exec io (\<lambda>s. let hit = (\<lambda>c. cr_id c = i \<and> cr_revoked c = None \<and> cr_principal c \<noteq> None) in
          Inr (s\<lparr>credentials := update_rows hit (\<lambda>c. c\<lparr>cr_revoked := Some now\<rparr>) (credentials s)\<rparr>,
               length (filter hit (credentials s))))) (\<lambda>affected.
        if affected = 0 then
          query io (\<lambda>s. if list_ex (\<lambda>c. cr_id c = i \<and> cr_principal c \<noteq> None) (credentials s)
                       then Inr False else err ErrCredentialNotFound)
        else db_return True))"

section \<open>Rotation\<close>

definition preparePrincipalCredentialRotation ::
    "(string \<Rightarrow> string) \<Rightarrow> entropy \<Rightarrow> db_io \<Rightarrow> int \<Rightarrow> string \<Rightarrow>
     (PrincipalCredential \<times> string \<times> string \<times> string) db" where
  "preparePrincipalCredentialRotation hash ent io principalID name =
     db_then (query io (\<lambda>s. Inr (find (\<lambda>(c, p). cr_principal c = Some principalID \<and> cr_name c = Some name \<and>
         cr_launcher c = None \<and> cr_revoked c = None) (credentials_join_principals s)))) (\<lambda>row.
       case row of
         None \<Rightarrow> query io (\<lambda>s.
           if list_ex (\<lambda>(c, p). cr_principal c = Some principalID \<and> cr_name c = Some name \<and> cr_launcher c = None)
                (credentials_join_principals s)
           then err ErrCredentialRevoked else err ErrCredentialNotFound)
       | Some (c, p) \<Rightarrow>
           db_then (db_result (generateCredentialToken (rnd_token ent))) (\<lambda>token.
             db_return (\<lparr>pc_ID = cr_id c, pc_PrincipalName = pr_username p, pc_Name = name,
               pc_CreatedAt = cr_created c, pc_RevokedAt = None\<rparr>, cr_hash c, token, hash token)))"

definition replacePrincipalCredentialTokenHashInTx ::
    "db_io \<Rightarrow> string \<Rightarrow> int \<Rightarrow> string \<Rightarrow> string \<Rightarrow> unit db" where
  "replacePrincipalCredentialTokenHashInTx io credentialID principalID expectedHash newHash =
     db_then (exec io (\<lambda>s. or_fail (update_credential_hash
         (\<lambda>c. cr_id c = credentialID \<and> cr_principal c = Some principalID \<and> cr_launcher c = None \<and>
              cr_revoked c = None \<and> cr_hash c = expectedHash) newHash s))) (\<lambda>affected.
       if affected = 0 then db_fail ErrCredentialRotationConflict else db_return ())"

text \<open>
  The replacement is tentative until the response has been delivered; a commit error after delivery
  is the deliberately ambiguous outcome.
\<close>

definition commitCredentialRotationAfterDelivery :: "db_io \<Rightarrow> unit db \<Rightarrow> bool \<Rightarrow> unit db" where
  "commitCredentialRotationAfterDelivery io replace delivered =
     with_tx_err [ErrCredentialRotationCommitUnknown] io (db_then replace (\<lambda>_.
       if delivered then db_return () else db_fail ErrCredentialRotationDelivery))"

definition commitPrincipalCredentialRotationAfterDelivery ::
    "db_io \<Rightarrow> string \<Rightarrow> int \<Rightarrow> string \<Rightarrow> string \<Rightarrow> bool \<Rightarrow> unit db" where
  "commitPrincipalCredentialRotationAfterDelivery io credentialID principalID expectedHash newHash delivered =
     commitCredentialRotationAfterDelivery io
       (replacePrincipalCredentialTokenHashInTx io credentialID principalID expectedHash newHash) delivered"

definition rotatePrincipalCredential ::
    "(string \<Rightarrow> string) \<Rightarrow> entropy \<Rightarrow> db_io \<Rightarrow> int \<Rightarrow> string \<Rightarrow> (PrincipalCredential \<times> string) db" where
  "rotatePrincipalCredential hash ent io principalID name =
     db_then (preparePrincipalCredentialRotation hash ent io principalID name) (\<lambda>(cred, expectedHash, token, newHash).
       db_then (commitPrincipalCredentialRotationAfterDelivery io (pc_ID cred) principalID expectedHash newHash True) (\<lambda>_.
         db_return (cred, token)))"

section \<open>Launcher credentials\<close>

definition issueLauncherCredentialInTx ::
    "(string \<Rightarrow> string) \<Rightarrow> entropy \<Rightarrow> db_io \<Rightarrow> string \<Rightarrow> (launcherCredential \<times> string) db" where
  "issueLauncherCredentialInTx hash ent io launcherID =
     db_then (db_result (generateCredentialToken (rnd_token ent))) (\<lambda>token.
       db_then (db_result (generateCredentialID (rnd_credential ent))) (\<lambda>credID.
         db_then (exec io (\<lambda>s. no_result (or_exists ErrLauncherCredentialExists
             (insert_credential \<lparr>cr_id = credID, cr_principal = None, cr_launcher = Some launcherID, cr_name = None,
                cr_hash = hash token, cr_created = clock ent, cr_revoked = None\<rparr> s)))) (\<lambda>_.
           db_return (\<lparr>lc_ID = credID, lc_CreatedAt = clock ent, lc_RevokedAt = None\<rparr>, token))))"

definition issueLauncherCredential ::
    "(string \<Rightarrow> string) \<Rightarrow> entropy \<Rightarrow> db_io \<Rightarrow> string \<Rightarrow> (launcherCredential \<times> string) db" where
  "issueLauncherCredential hash ent io launcherID =
     with_tx io (db_then (query io (\<lambda>s. if has_launcher launcherID s then Inr () else err ErrLauncherNotFound)) (\<lambda>_.
       issueLauncherCredentialInTx hash ent io launcherID))"

definition scanLauncherCredential :: "credential_row option \<Rightarrow> (go_error, launcherCredential) result" where
  "scanLauncherCredential row =
     (case row of
        None \<Rightarrow> err ErrLauncherCredentialNotFound
      | Some c \<Rightarrow> Inr \<lparr>lc_ID = cr_id c, lc_CreatedAt = cr_created c, lc_RevokedAt = cr_revoked c\<rparr>)"

definition findLauncherCredential :: "db_io \<Rightarrow> string \<Rightarrow> launcherCredential db" where
  "findLauncherCredential io launcherID =
     query io (\<lambda>s. scanLauncherCredential (find (\<lambda>c. cr_launcher c = Some launcherID) (credentials s)))"

definition prepareLauncherCredentialRotation ::
    "(string \<Rightarrow> string) \<Rightarrow> entropy \<Rightarrow> db_io \<Rightarrow> string \<Rightarrow> string \<Rightarrow>
     (launcherCredential \<times> string \<times> string \<times> string) db" where
  "prepareLauncherCredentialRotation hash ent io launcherID expectedCredentialID =
     db_then (query io (\<lambda>s.
       case find (\<lambda>c. (expectedCredentialID = [] \<or> cr_id c = expectedCredentialID) \<and> cr_launcher c = Some launcherID)
              (credentials s) of
         None \<Rightarrow> err ErrLauncherCredentialNotFound | Some c \<Rightarrow> Inr c)) (\<lambda>c.
       db_then (db_result (generateCredentialToken (rnd_token ent))) (\<lambda>token.
         db_return (\<lparr>lc_ID = cr_id c, lc_CreatedAt = cr_created c, lc_RevokedAt = cr_revoked c\<rparr>,
           cr_hash c, token, hash token)))"

definition replaceLauncherCredentialTokenHashInTx ::
    "db_io \<Rightarrow> string \<Rightarrow> string \<Rightarrow> string \<Rightarrow> string \<Rightarrow> unit db" where
  "replaceLauncherCredentialTokenHashInTx io launcherID credentialID expectedHash newHash =
     db_then (exec io (\<lambda>s. or_fail (update_credential_hash
         (\<lambda>c. cr_id c = credentialID \<and> cr_launcher c = Some launcherID \<and> cr_revoked c = None \<and>
              cr_hash c = expectedHash) newHash s))) (\<lambda>affected.
       if affected = 0 then db_fail ErrCredentialRotationConflict else db_return ())"

definition commitLauncherCredentialRotationAfterDelivery ::
    "db_io \<Rightarrow> string \<Rightarrow> string \<Rightarrow> string \<Rightarrow> string \<Rightarrow> bool \<Rightarrow> unit db" where
  "commitLauncherCredentialRotationAfterDelivery io launcherID credentialID expectedHash newHash delivered =
     commitCredentialRotationAfterDelivery io
       (replaceLauncherCredentialTokenHashInTx io launcherID credentialID expectedHash newHash) delivered"

definition rotateLauncherCredentialTargeted ::
    "(string \<Rightarrow> string) \<Rightarrow> entropy \<Rightarrow> db_io \<Rightarrow> string \<Rightarrow> string \<Rightarrow> (launcherCredential \<times> string) db" where
  "rotateLauncherCredentialTargeted hash ent io launcherID expectedCredentialID =
     db_then (prepareLauncherCredentialRotation hash ent io launcherID expectedCredentialID)
       (\<lambda>(cred, expectedHash, token, newHash).
         db_then (commitLauncherCredentialRotationAfterDelivery io launcherID (lc_ID cred) expectedHash newHash True) (\<lambda>_.
           db_return (cred, token)))"

definition rotateLauncherCredential ::
    "(string \<Rightarrow> string) \<Rightarrow> entropy \<Rightarrow> db_io \<Rightarrow> string \<Rightarrow> (launcherCredential \<times> string) db" where
  "rotateLauncherCredential hash ent io launcherID = rotateLauncherCredentialTargeted hash ent io launcherID []"

definition rotateLauncherCredentialExact ::
    "(string \<Rightarrow> string) \<Rightarrow> entropy \<Rightarrow> db_io \<Rightarrow> string \<Rightarrow> string \<Rightarrow> (launcherCredential \<times> string) db" where
  "rotateLauncherCredentialExact hash ent io launcherID expectedCredentialID =
     rotateLauncherCredentialTargeted hash ent io launcherID expectedCredentialID"

definition deleteLauncherCredential :: "db_io \<Rightarrow> string \<Rightarrow> launcherCredential db" where
  "deleteLauncherCredential io launcherID =
     with_tx io (db_then (findLauncherCredential io launcherID) (\<lambda>cred.
       db_then (exec io (\<lambda>s. Inr (s\<lparr>credentials := filter (\<lambda>c. cr_launcher c \<noteq> Some launcherID) (credentials s)\<rparr>,
           length (filter (\<lambda>c. cr_launcher c = Some launcherID) (credentials s))))) (\<lambda>affected.
         if affected = 0 then db_fail ErrLauncherCredentialNotFound else db_return cred)))"

section \<open>Authentication\<close>

record PrincipalCredentialAuth =
  pa_PrincipalID :: int
  pa_PrincipalName :: string
  pa_CredentialID :: string

record LauncherCredentialAuth =
  ha_LauncherID :: string
  ha_CredentialID :: string
  ha_PrincipalID :: int
  ha_PrincipalName :: string
  ha_LauncherName :: string

datatype credentialAuthResult = AuthPrincipal PrincipalCredentialAuth | AuthLauncher LauncherCredentialAuth

definition authenticatePrincipalCredentialOwner :: "db_io \<Rightarrow> string \<Rightarrow> int \<Rightarrow> credentialAuthResult db" where
  "authenticatePrincipalCredentialOwner io credID principalID =
     query io (\<lambda>s. case principal_by_id principalID s of
         None \<Rightarrow> err ErrCredentialNotFound
       | Some p \<Rightarrow>
           if \<not> pr_enabled p then err ErrPrincipalDisabled
           else Inr (AuthPrincipal \<lparr>pa_PrincipalID = principalID, pa_PrincipalName = pr_username p, pa_CredentialID = credID\<rparr>))"

definition launcher_by_id :: "string \<Rightarrow> store \<Rightarrow> launcher_row option" where
  "launcher_by_id i s = find (\<lambda>l. la_id l = i) (launchers s)"

text \<open>\<^verbatim>\<open>launchers l JOIN principals p ON p.id = l.principal_id WHERE l.id = ?\<close>.\<close>

definition launcher_with_owner :: "string \<Rightarrow> store \<Rightarrow> (launcher_row \<times> principal_row) option" where
  "launcher_with_owner i s =
     (case launcher_by_id i s of
        None \<Rightarrow> None
      | Some l \<Rightarrow> map_option (Pair l) (principal_by_id (la_principal l) s))"

definition authenticateLauncherCredentialOwner :: "db_io \<Rightarrow> string \<Rightarrow> string \<Rightarrow> credentialAuthResult db" where
  "authenticateLauncherCredentialOwner io credID launcherID =
     query io (\<lambda>s. case launcher_with_owner launcherID s of
         None \<Rightarrow> err ErrCredentialNotFound
       | Some (l, p) \<Rightarrow>
           if \<not> la_enabled l then err ErrLauncherDisabled
           else if \<not> pr_enabled p then err ErrPrincipalDisabled
           else Inr (AuthLauncher \<lparr>ha_LauncherID = launcherID, ha_CredentialID = credID,
             ha_PrincipalID = la_principal l, ha_PrincipalName = pr_username p, ha_LauncherName = la_name l\<rparr>))"

definition authenticateCredential :: "(string \<Rightarrow> string) \<Rightarrow> db_io \<Rightarrow> string \<Rightarrow> credentialAuthResult db" where
  "authenticateCredential hash io token =
     db_then (query io (\<lambda>s. case find (\<lambda>c. cr_hash c = hash token) (credentials s) of
         None \<Rightarrow> err ErrCredentialNotFound | Some c \<Rightarrow> Inr c)) (\<lambda>c.
       if cr_revoked c \<noteq> None then db_fail ErrCredentialRevoked
       else case cr_launcher c of
           Some launcherID \<Rightarrow> authenticateLauncherCredentialOwner io (cr_id c) launcherID
         | None \<Rightarrow>
            (case cr_principal c of
               None \<Rightarrow> db_fail ErrCredentialNotFound
             | Some principalID \<Rightarrow> authenticatePrincipalCredentialOwner io (cr_id c) principalID))"

section \<open>Integrity and atomicity\<close>

lemma keeps_insert_credential [db_intros]:
  "keeps store_ok (exec io (\<lambda>s. no_result (or_exists e (insert_credential c s))))"
  by (rule keeps_exec) (auto intro: insert_credential_ok)

lemma keeps_update_hash:
  assumes "\<And>a b. P a \<Longrightarrow> P b \<Longrightarrow> cr_id a = cr_id b"
  shows "keeps store_ok (exec io (\<lambda>s. or_fail (update_credential_hash P h s)))"
  by (rule keeps_exec) (auto intro: update_credential_hash_ok assms)

lemma keeps_replace_hash [db_intros]:
  "keeps store_ok (replacePrincipalCredentialTokenHashInTx io cid pid old new)"
  "keeps store_ok (replaceLauncherCredentialTokenHashInTx io lid cid old new)"
  unfolding replacePrincipalCredentialTokenHashInTx_def replaceLauncherCredentialTokenHashInTx_def
  by (intro db_intros keeps_update_hash; simp)+

lemma credential_reads [db_intros]:
  "reads (findPrincipalByID io i)" "reads (findPrincipalIDByUsername io u)" "reads (findPrincipalIDByUsernameInTx io u)"
  "reads (listPrincipalCredentialsForScope io scope)" "reads (findPrincipalCredentialByID io c)"
  "reads (preparePrincipalCredentialRotation hash ent io pid name)" "reads (findLauncherCredential io l)"
  "reads (prepareLauncherCredentialRotation hash ent io l c)" "reads (authenticateCredential hash io token)"
  unfolding findPrincipalByID_def findPrincipalIDByUsername_def findPrincipalIDByUsernameInTx_def
    listPrincipalCredentialsForScope_def findPrincipalCredentialByID_def preparePrincipalCredentialRotation_def
    findLauncherCredential_def prepareLauncherCredentialRotation_def authenticateCredential_def
    authenticateLauncherCredentialOwner_def authenticatePrincipalCredentialOwner_def
  by (intro db_intros)+

lemmas credential_reads_keep [db_intros] = credential_reads [THEN reads_keeps]

lemma credential_ops_keep [db_intros]:
  "keeps store_ok (insertPrincipalCredentialInTx hash ent io pid pn name)"
  "keeps store_ok (issueLauncherCredentialInTx hash ent io l)"
  "keeps store_ok (createPrincipalCredential hash ent io u name)"
  "keeps store_ok (issueLauncherCredential hash ent io l)"
  unfolding insertPrincipalCredentialInTx_def issueLauncherCredentialInTx_def createPrincipalCredential_def
    issueLauncherCredential_def
  by (intro db_intros)+

lemma revoke_keeps [db_intros]: "keeps store_ok (revokePrincipalCredential io now i)"
  unfolding revokePrincipalCredential_def
  by (intro db_intros keeps_exec) (auto simp: Let_def intro: revoke_credentials_ok)

lemma delete_launcher_credential_keeps [db_intros]: "keeps store_ok (deleteLauncherCredential io l)"
  unfolding deleteLauncherCredential_def
  by (intro db_intros keeps_exec) (auto intro: delete_credentials_ok)

lemma rotation_keeps [db_intros]:
  "keeps store_ok (commitPrincipalCredentialRotationAfterDelivery io cid pid old new d)"
  "keeps store_ok (commitLauncherCredentialRotationAfterDelivery io lid cid old new d)"
  "keeps store_ok (rotatePrincipalCredential hash ent io pid name)"
  "keeps store_ok (rotateLauncherCredentialTargeted hash ent io lid ecid)"
  unfolding commitPrincipalCredentialRotationAfterDelivery_def commitLauncherCredentialRotationAfterDelivery_def
    commitCredentialRotationAfterDelivery_def rotatePrincipalCredential_def rotateLauncherCredentialTargeted_def
  by (intro db_intros)+

lemma credential_ops_undone:
  assumes "reported io"
  shows "undone (createPrincipalCredential hash ent io u name)"
    "undone (issueLauncherCredential hash ent io l)" "undone (deleteLauncherCredential io l)"
    "undone (commitPrincipalCredentialRotationAfterDelivery io cid pid old new d)"
    "undone (commitLauncherCredentialRotationAfterDelivery io l cid old new d)"
  unfolding createPrincipalCredential_def issueLauncherCredential_def deleteLauncherCredential_def
    commitPrincipalCredentialRotationAfterDelivery_def commitLauncherCredentialRotationAfterDelivery_def
    commitCredentialRotationAfterDelivery_def
  using assms by (intro db_intros; assumption)+

section \<open>Keyed lookups\<close>

lemma find_key_iff:
  assumes "distinct (map f xs)"
  shows "find (\<lambda>x. f x = k) xs = Some x \<longleftrightarrow> x \<in> set xs \<and> f x = k"
proof
  assume "find (\<lambda>x. f x = k) xs = Some x"
  then show "x \<in> set xs \<and> f x = k" by (rule find_Some_in)
next
  assume "x \<in> set xs \<and> f x = k"
  then show "find (\<lambda>x. f x = k) xs = Some x"
    using assms by (intro find_unique) (auto dest: distinct_map_eqD)
qed

lemma principal_lookup_iff:
  assumes "store_ok s"
  shows "principal_by_id i s = Some p \<longleftrightarrow> p \<in> set (principals s) \<and> pr_id p = i"
    and "principal_by_username u s = Some p \<longleftrightarrow> p \<in> set (principals s) \<and> pr_username p = u"
  using store_okD(1) [OF assms] unfolding principal_by_id_def principal_by_username_def principals_ok_def
  by (auto simp: find_key_iff)

lemma launcher_by_id_iff:
  assumes "store_ok s"
  shows "launcher_by_id i s = Some l \<longleftrightarrow> l \<in> set (launchers s) \<and> la_id l = i"
  using store_okD(3) [OF assms] unfolding launcher_by_id_def launchers_ok_def by (auto simp: find_key_iff)

lemma launcher_with_owner_iff:
  assumes "store_ok s"
  shows "launcher_with_owner i s = Some (l, p) \<longleftrightarrow>
    l \<in> set (launchers s) \<and> la_id l = i \<and> p \<in> set (principals s) \<and> pr_id p = la_principal l"
proof -
  have "launcher_with_owner i s = Some (l, p) \<longleftrightarrow> launcher_by_id i s = Some l \<and> principal_by_id (la_principal l) s = Some p"
    by (auto simp: launcher_with_owner_def split: option.split)
  then show ?thesis unfolding principal_lookup_iff [OF assms] launcher_by_id_iff [OF assms] by blast
qed

lemma launcher_has_owner:
  assumes "store_ok s" and "l \<in> set (launchers s)"
  obtains p where "launcher_with_owner (la_id l) s = Some (l, p)"
proof -
  have "has_principal (la_principal l) s" using store_okD(3) [OF assms(1)] assms(2) by (simp add: launchers_ok_def)
  then obtain p where "p \<in> set (principals s)" "pr_id p = la_principal l" by (auto simp: has_principal_iff)
  then show ?thesis using that launcher_with_owner_iff [OF assms(1)] assms(2) by blast
qed

lemma credential_hashes_distinct:
  assumes "store_ok s"
  shows "distinct (map cr_hash (credentials s))"
proof -
  have C: "credentials_ok s" using assms by (rule store_okD)
  have "distinct (credentials s)" using C by (simp add: credentials_ok_def distinct_map)
  moreover have "inj_on cr_hash (set (credentials s))"
    using C unfolding credentials_ok_def credentials_clash_def inj_on_def by metis
  ultimately show ?thesis by (simp add: distinct_map)
qed

lemma credential_by_hash:
  assumes "store_ok s"
  shows "find (\<lambda>c. cr_hash c = h) (credentials s) = Some c \<longleftrightarrow> c \<in> set (credentials s) \<and> cr_hash c = h"
  by (rule find_key_iff) (rule credential_hashes_distinct [OF assms])

section \<open>Authentication as a function of the store\<close>

definition auth_of_row :: "store \<Rightarrow> credential_row \<Rightarrow> (go_error, credentialAuthResult) result" where
  "auth_of_row s c =
     (if cr_revoked c \<noteq> None then err ErrCredentialRevoked
      else case cr_launcher c of
          Some l \<Rightarrow> db_value (authenticateLauncherCredentialOwner fault_free (cr_id c) l) s 0
        | None \<Rightarrow>
           (case cr_principal c of
              None \<Rightarrow> err ErrCredentialNotFound
            | Some p \<Rightarrow> db_value (authenticatePrincipalCredentialOwner fault_free (cr_id c) p) s 0))"

lemma authenticate_value:
  "db_value (authenticateCredential hash fault_free token) s n =
     (case find (\<lambda>c. cr_hash c = hash token) (credentials s) of
        None \<Rightarrow> err ErrCredentialNotFound | Some c \<Rightarrow> auth_of_row s c)"
  by (auto simp: authenticateCredential_def db_then_def query_def db_result_def auth_of_row_def
      authenticateLauncherCredentialOwner_def authenticatePrincipalCredentialOwner_def split: option.split)

lemma auth_of_row_Inr:
  assumes "store_ok s" and "c \<in> set (credentials s)"
  shows "auth_of_row s c = Inr (AuthPrincipal a) \<longleftrightarrow>
      (\<exists>p\<in>set (principals s). cr_revoked c = None \<and> cr_principal c = Some (pr_id p) \<and> pr_enabled p \<and>
         a = \<lparr>pa_PrincipalID = pr_id p, pa_PrincipalName = pr_username p, pa_CredentialID = cr_id c\<rparr>)" (is ?P)
    and "auth_of_row s c = Inr (AuthLauncher b) \<longleftrightarrow>
      (\<exists>l\<in>set (launchers s). \<exists>p\<in>set (principals s). cr_revoked c = None \<and> cr_launcher c = Some (la_id l) \<and>
         pr_id p = la_principal l \<and> la_enabled l \<and> pr_enabled p \<and>
         b = \<lparr>ha_LauncherID = la_id l, ha_CredentialID = cr_id c, ha_PrincipalID = pr_id p,
              ha_PrincipalName = pr_username p, ha_LauncherName = la_name l\<rparr>)" (is ?L)
proof -
  have chk: "credential_check c" using store_okD(5) [OF assms(1)] assms(2) by (simp add: credentials_ok_def)
  note rows = principal_lookup_iff(1) [OF assms(1)] launcher_with_owner_iff [OF assms(1)]
  have PF: "db_value (authenticatePrincipalCredentialOwner fault_free cid i) s 0 = Inr r \<longleftrightarrow>
      (\<exists>p. principal_by_id i s = Some p \<and> pr_enabled p \<and>
         r = AuthPrincipal \<lparr>pa_PrincipalID = i, pa_PrincipalName = pr_username p, pa_CredentialID = cid\<rparr>)" for cid i r
    by (auto simp: authenticatePrincipalCredentialOwner_def query_def split: option.split)
  have LF: "db_value (authenticateLauncherCredentialOwner fault_free cid i) s 0 = Inr r \<longleftrightarrow>
      (\<exists>l p. launcher_with_owner i s = Some (l, p) \<and> la_enabled l \<and> pr_enabled p \<and>
         r = AuthLauncher \<lparr>ha_LauncherID = i, ha_CredentialID = cid, ha_PrincipalID = la_principal l,
           ha_PrincipalName = pr_username p, ha_LauncherName = la_name l\<rparr>)" for cid i r
    by (auto simp: authenticateLauncherCredentialOwner_def query_def split: option.split)
  show ?P ?L
    using chk unfolding auth_of_row_def credential_check_def
    by (auto simp: PF LF rows split: option.split if_splits) metis
qed

section \<open>Replacing a hash\<close>

text \<open>What a compare-and-swap of one credential's hash does to the lookup by hash.\<close>

lemma hash_swap:
  assumes ok: "store_ok s" and upd: "update_credential_hash P new s = Inr (s', k)" and "k \<noteq> 0"
    and P: "\<And>c. P c \<Longrightarrow> cr_id c = cid \<and> cr_hash c = old" and "new \<noteq> old"
  obtains c where "find (\<lambda>c. cr_hash c = old) (credentials s) = Some c" and "P c"
    and "find (\<lambda>c. cr_hash c = new) (credentials s') = Some (c\<lparr>cr_hash := new\<rparr>)"
    and "find (\<lambda>c. cr_hash c = old) (credentials s') = None"
    and "\<And>h. h \<noteq> old \<Longrightarrow> h \<noteq> new \<Longrightarrow> find (\<lambda>c. cr_hash c = h) (credentials s') = find (\<lambda>c. cr_hash c = h) (credentials s)"
    and "principals s' = principals s" and "launchers s' = launchers s"
proof -
  have s': "s' = s\<lparr>credentials := map (\<lambda>c. if P c then c\<lparr>cr_hash := new\<rparr> else c) (credentials s)\<rparr>"
    and k: "k = length (filter P (credentials s))"
    using upd by (auto simp: update_credential_hash_def update_rows_def split: if_splits)
  from k \<open>k \<noteq> 0\<close> obtain c where c: "c \<in> set (credentials s)" "P c"
    by (metis filter_empty_conv length_0_conv)
  have only: "x = c" if "x \<in> set (credentials s)" "cr_hash x = old" for x
    using credential_hashes_distinct [OF ok] that c P distinct_map_eqD by metis
  have ok': "store_ok s'" using update_credential_hash_ok [OF ok upd] P by metis
  have new: "c\<lparr>cr_hash := new\<rparr> \<in> set (credentials s')" using c by (auto simp: s')
  show thesis
  proof (rule that)
    show "find (\<lambda>c. cr_hash c = old) (credentials s) = Some c" using credential_by_hash [OF ok] c P by blast
    show "find (\<lambda>c. cr_hash c = new) (credentials s') = Some (c\<lparr>cr_hash := new\<rparr>)"
      using credential_by_hash [OF ok'] new by simp
    show "find (\<lambda>c. cr_hash c = old) (credentials s') = None"
      using only c \<open>new \<noteq> old\<close> unfolding find_None_none s' by auto
    fix h
    assume h: "h \<noteq> old" "h \<noteq> new"
    have "x \<in> set (credentials s') \<and> cr_hash x = h \<longleftrightarrow> x \<in> set (credentials s) \<and> cr_hash x = h" for x
      using h P by (auto simp: s' image_iff split: if_splits)
    then show "find (\<lambda>c. cr_hash c = h) (credentials s') = find (\<lambda>c. cr_hash c = h) (credentials s)"
      using credential_by_hash [OF ok, of h] credential_by_hash [OF ok', of h] by (metis option.exhaust)
  qed (use c in \<open>simp_all add: s'\<close>)
qed

lemma auth_of_row_cong:
  assumes "principals s' = principals s" and "launchers s' = launchers s"
  shows "auth_of_row s' (c\<lparr>cr_hash := h\<rparr>) = auth_of_row s c"
  by (simp add: auth_of_row_def authenticateLauncherCredentialOwner_def authenticatePrincipalCredentialOwner_def
      query_def launcher_with_owner_def launcher_by_id_def principal_by_id_def assms cong: option.case_cong)

text \<open>The two exact replacements of the rotation protocol.\<close>

definition exact_replacement :: "db_io \<Rightarrow> string \<Rightarrow> string \<Rightarrow> unit db \<Rightarrow> bool" where
  "exact_replacement io old new replace \<longleftrightarrow>
     (\<exists>cid pid. replace = replacePrincipalCredentialTokenHashInTx io cid pid old new) \<or>
     (\<exists>lid cid. replace = replaceLauncherCredentialTokenHashInTx io lid cid old new)"

lemma exact_replacement_Inr:
  assumes "exact_replacement io old new replace" and "replace s n = (s', n', Inr u)"
  obtains P cid k where "update_credential_hash P new s = Inr (s', k)" and "k \<noteq> 0"
    and "\<And>c. P c \<Longrightarrow> cr_id c = cid \<and> cr_hash c = old"
  using assms unfolding exact_replacement_def replacePrincipalCredentialTokenHashInTx_def
    replaceLauncherCredentialTokenHashInTx_def
  by (auto simp: db_then_Inr db_simps split: if_splits)

lemma commit_rotation_Inr:
  "commitCredentialRotationAfterDelivery io replace d s n = (s', n', Inr u) \<longleftrightarrow>
   d \<and> io n = Performed \<and> (\<exists>m. replace s (Suc n) = (s', m, Inr ()) \<and> io m = Performed \<and> n' = Suc m)"
  by (auto simp: commitCredentialRotationAfterDelivery_def with_tx_Inr db_then_Inr split: if_splits)

lemma commit_rotation_Inl:
  assumes "commitCredentialRotationAfterDelivery io replace d s n = (s', n', Inl e)"
  shows "e \<noteq> [ErrCredentialRotationCommitUnknown] \<Longrightarrow> s' = s"
    and "s' \<noteq> s \<Longrightarrow> d \<and> (\<exists>m. replace s (Suc n) = (s', m, Inr ()))"
  using assms
  by (auto simp: commitCredentialRotationAfterDelivery_def with_tx_err_def db_then_def
      split: if_splits prod.splits sum.splits db_outcome.splits)

section \<open>Properties\<close>


definition demo_principal :: principal_row where
  "demo_principal = \<lparr>pr_id = 1, pr_username = ''alice'', pr_uid = 1000, pr_gid = 1000, pr_home = ''/home/alice'', pr_enabled = True\<rparr>"

definition demo_credential :: credential_row where
  "demo_credential = \<lparr>cr_id = ''dhcr_1'', cr_principal = Some 1, cr_launcher = None, cr_name = Some ''ci'', cr_hash = ''dhc_old'',
     cr_created = 5, cr_revoked = None\<rparr>"

definition demo_store :: store where
  "demo_store = empty_store\<lparr>principals := [demo_principal], principal_seq := 1, credentials := [demo_credential]\<rparr>"

lemma demo_store_ok: "store_ok demo_store"
  by (simp add: store_parts demo_store_def demo_credential_def demo_principal_def empty_store_def owner_simps
      credential_check_def)


text \<open>
  C22: rotation delivers and commits exactly one replacement. If the commit after delivery reports
  success, the response was delivered, the new bearer authenticates exactly as the old one did
  (same credential, same owner, same refusals), the old bearer is unknown, and every other bearer is
  unaffected. On any other outcome than the ambiguous commit error the store is unchanged; a changed
  store after an error means that the response had been delivered and the same replacement took effect.
\<close>

theorem rotation_switches_bearer:
  assumes "store_ok s" and "exact_replacement io (hash old) (hash new) replace" and "hash new \<noteq> hash old"
    and "commitCredentialRotationAfterDelivery io replace delivered s n = (s', n', r)"
  shows "((r = Inr () \<or> s' \<noteq> s) \<longrightarrow> delivered \<and>
      db_value (authenticateCredential hash fault_free new) s' k = db_value (authenticateCredential hash fault_free old) s k \<and>
      db_value (authenticateCredential hash fault_free old) s' k = err ErrCredentialNotFound \<and>
      (\<forall>t. hash t \<noteq> hash old \<longrightarrow> hash t \<noteq> hash new \<longrightarrow>
         db_value (authenticateCredential hash fault_free t) s' k = db_value (authenticateCredential hash fault_free t) s k)) \<and>
    (r \<noteq> Inr () \<longrightarrow> r \<noteq> Inl [ErrCredentialRotationCommitUnknown] \<longrightarrow> s' = s)"
proof (intro conjI)
  show "r \<noteq> Inr () \<longrightarrow> r \<noteq> Inl [ErrCredentialRotationCommitUnknown] \<longrightarrow> s' = s"
    using commit_rotation_Inl(1) [of io replace delivered s n s' n'] assms(4) by (cases r) auto
  show "(r = Inr () \<or> s' \<noteq> s) \<longrightarrow> delivered \<and>
      db_value (authenticateCredential hash fault_free new) s' k = db_value (authenticateCredential hash fault_free old) s k \<and>
      db_value (authenticateCredential hash fault_free old) s' k = err ErrCredentialNotFound \<and>
      (\<forall>t. hash t \<noteq> hash old \<longrightarrow> hash t \<noteq> hash new \<longrightarrow>
         db_value (authenticateCredential hash fault_free t) s' k = db_value (authenticateCredential hash fault_free t) s k)"
  proof
    assume "r = Inr () \<or> s' \<noteq> s"
    then have "delivered \<and> (\<exists>m. replace s (Suc n) = (s', m, Inr ()))"
    proof (cases r)
      case (Inl e)
      then show ?thesis using commit_rotation_Inl(2) [of io replace delivered s n s' n' e] assms(4) \<open>r = Inr () \<or> s' \<noteq> s\<close> by simp
    next
      case (Inr u)
      then show ?thesis using commit_rotation_Inr [of io replace delivered s n s' n' u] assms(4) by blast
    qed
    then obtain m where d: delivered and run: "replace s (Suc n) = (s', m, Inr ())" by blast
    obtain P cid j where upd: "update_credential_hash P (hash new) s = Inr (s', j)" and "j \<noteq> 0"
      and P: "\<And>c. P c \<Longrightarrow> cr_id c = cid \<and> cr_hash c = hash old"
      using exact_replacement_Inr [OF assms(2) run] by metis
    obtain c where "find (\<lambda>c. cr_hash c = hash old) (credentials s) = Some c"
      "find (\<lambda>c. cr_hash c = hash new) (credentials s') = Some (c\<lparr>cr_hash := hash new\<rparr>)"
      "find (\<lambda>c. cr_hash c = hash old) (credentials s') = None"
      and other: "\<And>h. h \<noteq> hash old \<Longrightarrow> h \<noteq> hash new \<Longrightarrow>
        find (\<lambda>c. cr_hash c = h) (credentials s') = find (\<lambda>c. cr_hash c = h) (credentials s)"
      and same: "principals s' = principals s" "launchers s' = launchers s"
      using hash_swap [OF assms(1) upd \<open>j \<noteq> 0\<close> P assms(3)] by metis
    moreover have "auth_of_row s' x = auth_of_row s x" for x
      using auth_of_row_cong [OF same, where c = x and h = "cr_hash x"] by simp
    ultimately show "delivered \<and>
      db_value (authenticateCredential hash fault_free new) s' k = db_value (authenticateCredential hash fault_free old) s k \<and>
      db_value (authenticateCredential hash fault_free old) s' k = err ErrCredentialNotFound \<and>
      (\<forall>t. hash t \<noteq> hash old \<longrightarrow> hash t \<noteq> hash new \<longrightarrow>
         db_value (authenticateCredential hash fault_free t) s' k = db_value (authenticateCredential hash fault_free t) s k)"
      unfolding authenticate_value using d auth_of_row_cong [OF same, where c = c and h = "hash new"] by (simp cong: option.case_cong)
  qed
qed

definition demo_replacement :: "string \<Rightarrow> unit db" where
  "demo_replacement new = replacePrincipalCredentialTokenHashInTx fault_free ''dhcr_1'' 1 ''dhc_old'' new"

theorem rotation_switches_bearer_witness:
  "snd (snd (commitCredentialRotationAfterDelivery fault_free (demo_replacement ''dhc_new'') True demo_store 0)) = Inr () \<and>
   db_value (authenticateCredential (\<lambda>t. t) fault_free ''dhc_new'')
      (fst (commitCredentialRotationAfterDelivery fault_free (demo_replacement ''dhc_new'') True demo_store 0)) 0 =
     db_value (authenticateCredential (\<lambda>t. t) fault_free ''dhc_old'') demo_store 0 \<and>
   db_value (authenticateCredential (\<lambda>t. t) fault_free ''dhc_old'')
      (fst (commitCredentialRotationAfterDelivery fault_free (demo_replacement ''dhc_new'') True demo_store 0)) 0 =
     err ErrCredentialNotFound"
proof -
  obtain s' n' r where run: "commitCredentialRotationAfterDelivery fault_free (demo_replacement ''dhc_new'') True demo_store 0 = (s', n', r)"
    by (metis prod_cases3)
  have r: "snd (snd (commitCredentialRotationAfterDelivery fault_free (demo_replacement ''dhc_new'') True demo_store 0)) = Inr ()"
    by code_simp
  have "exact_replacement fault_free ''dhc_old'' ''dhc_new'' (demo_replacement ''dhc_new'')"
    unfolding exact_replacement_def demo_replacement_def by blast
  from rotation_switches_bearer [OF demo_store_ok, where hash = "\<lambda>t. t", OF this _ run, of 0] r run
  show ?thesis by simp
qed

text \<open>
  rotations of one credential are serialized by compare-and-swap. Of two rotations prepared
  against the same bearer, once the first has taken effect the second, run without I/O faults, is
  refused with the rotation conflict and changes nothing; a credential that was revoked or belongs to
  another owner is refused the same way.
\<close>

theorem rotation_conflict_detected:
  assumes "store_ok s" and "new1 \<noteq> old" and "exact_replacement io old new1 replace1"
    and "commitCredentialRotationAfterDelivery io replace1 d1 s n = (s1, n1, Inr ())"
    and "exact_replacement fault_free old new2 replace2"
  shows "\<exists>m. commitCredentialRotationAfterDelivery fault_free replace2 d2 s1 k = (s1, m, err ErrCredentialRotationConflict)"
proof -
  obtain m where run: "replace1 s (Suc n) = (s1, m, Inr ())" using assms(4) commit_rotation_Inr by blast
  obtain P cid j where upd: "update_credential_hash P new1 s = Inr (s1, j)" and "j \<noteq> 0"
    and P: "\<And>c. P c \<Longrightarrow> cr_id c = cid \<and> cr_hash c = old"
    using exact_replacement_Inr [OF assms(3) run] by metis
  have gone: "find (\<lambda>c. cr_hash c = old) (credentials s1) = None"
    using hash_swap [OF assms(1) upd \<open>j \<noteq> 0\<close> P assms(2)] by metis
  have none: "update_credential_hash Q new2 s1 = Inr (s1, 0)" if "\<And>c. Q c \<Longrightarrow> cr_hash c = old" for Q
  proof -
    have Q: "\<forall>c\<in>set (credentials s1). \<not> Q c" using gone that unfolding find_None_none by blast
    then have "update_rows Q (\<lambda>c. c\<lparr>cr_hash := new2\<rparr>) (credentials s1) = credentials s1"
      unfolding update_rows_def by (simp add: map_idI)
    moreover have "filter Q (credentials s1) = []" using Q by (simp add: filter_empty_conv)
    ultimately show ?thesis using Q by (simp add: update_credential_hash_def list_ex_iff)
  qed
  have conflict: "db_then (exec fault_free (\<lambda>s. or_fail (update_credential_hash Q new2 s))) (\<lambda>affected.
        if affected = 0 then db_fail ErrCredentialRotationConflict else db_return ()) s1 (Suc k) =
      (s1, Suc (Suc k), err ErrCredentialRotationConflict)" if "\<And>c. Q c \<Longrightarrow> cr_hash c = old" for Q
    using none [OF that] by (simp add: db_then_def exec_def or_fail_def db_result_def)
  have "replace2 s1 (Suc k) = (s1, Suc (Suc k), err ErrCredentialRotationConflict)"
    using assms(5) unfolding exact_replacement_def replacePrincipalCredentialTokenHashInTx_def
      replaceLauncherCredentialTokenHashInTx_def
    by (elim disjE exE; simp only:; intro conflict; simp)
  then show ?thesis
    by (simp add: commitCredentialRotationAfterDelivery_def with_tx_err_def db_then_def)
qed

theorem rotation_conflict_detected_witness:
  "\<exists>m. commitCredentialRotationAfterDelivery fault_free (demo_replacement ''dhc_third'') True
     (fst (commitCredentialRotationAfterDelivery fault_free (demo_replacement ''dhc_new'') True demo_store 0)) 7 =
     (fst (commitCredentialRotationAfterDelivery fault_free (demo_replacement ''dhc_new'') True demo_store 0), m,
      err ErrCredentialRotationConflict)"
proof -
  obtain s' n' r where run: "commitCredentialRotationAfterDelivery fault_free (demo_replacement ''dhc_new'') True demo_store 0 = (s', n', r)"
    by (metis prod_cases3)
  have "snd (snd (commitCredentialRotationAfterDelivery fault_free (demo_replacement ''dhc_new'') True demo_store 0)) = Inr ()"
    by code_simp
  then have ok: "commitCredentialRotationAfterDelivery fault_free (demo_replacement ''dhc_new'') True demo_store 0 = (s', n', Inr ())"
    using run by simp
  have ex: "exact_replacement fault_free ''dhc_old'' t (demo_replacement t)" for t
    unfolding exact_replacement_def demo_replacement_def by blast
  show ?thesis unfolding ok fst_conv
    by (rule rotation_conflict_detected [OF demo_store_ok _ ex ok ex]) simp
qed

end
