(* ===== verification/Workspace_Policy.thy ===== *)
theory Workspace_Policy
  imports Allowed_Root
begin

text \<open>
  workspace\_path\_policy.go: the text grammar of host paths, the workspace path safety policy and
  the canonicalization of a path that is added as an allowed root or issued as a Session tree, with
  the username grammar of principal.go that uses the same rune test. The host filesystem and the
  effective user id of the process are parameters.
\<close>

definition validatePrincipalUsername :: "string \<Rightarrow> (go_error, unit) result" where
  "validatePrincipalUsername username =
     (if username = [] then err ErrInvalidPrincipalUsername
      else if list_ex unicode_IsControl (string_runes username) then err ErrInvalidPrincipalUsername
      else Inr ())"

section \<open>The workspace path policy\<close>

datatype admittedPathDiagnosis = admittedPathDoesNotExist | admittedPathDenied | admittedPathUnresolvable

fun diagnoseAdmittedPath :: "probe_error \<Rightarrow> admittedPathDiagnosis" where
  "diagnoseAdmittedPath ProbeNotExist = admittedPathDoesNotExist"
| "diagnoseAdmittedPath ProbePermission = admittedPathDenied"
| "diagnoseAdmittedPath ProbeOther = admittedPathUnresolvable"

definition validateHostPathText :: "string \<Rightarrow> (go_error, unit) result" where
  "validateHostPathText path =
     (if 0 \<in> set (string_runes path) then io_err
      else if list_ex unicode_IsControl (string_runes path) then io_err
      else Inr ())"

definition forbiddenSystemTrees :: "string list" where
  "forbiddenSystemTrees =
     [''/bin'', ''/boot'', ''/dev'', ''/etc'', ''/lib'', ''/lib32'', ''/lib64'', ''/libx32'', ''/proc'', ''/root'',
      ''/run'', ''/sbin'', ''/sys'', ''/usr'', ''/var'']"

definition forbiddenWideNamespaces :: "string list" where
  "forbiddenWideNamespaces = [''/home'', ''/opt'', ''/srv'', ''/mnt'', ''/media'', ''/tmp'']"

definition adminWideNamespaceOverrides :: "string list" where
  "adminWideNamespaceOverrides = [''/home'', ''/opt'']"

definition isAdminWideNamespaceOverride :: "string \<Rightarrow> bool" where
  "isAdminWideNamespaceOverride ns = list_ex (\<lambda>allowed. ns = allowed) adminWideNamespaceOverrides"

definition validateWorkspacePathSafety :: "int \<Rightarrow> string \<Rightarrow> (go_error, unit) result" where
  "validateWorkspacePathSafety euid canonical =
     and_then (validateHostPathText canonical) (\<lambda>_.
       if canonical = ''/'' then io_err
       else if list_ex (\<lambda>tree. canonical = tree \<or> prefix (tree @ ''/'') canonical) forbiddenSystemTrees then io_err
       else if list_ex (\<lambda>ns. canonical = ns \<and> \<not> (euid = 0 \<and> isAdminWideNamespaceOverride ns)) forbiddenWideNamespaces
       then io_err
       else Inr ())"

definition expandTilde :: "host_fs \<Rightarrow> string \<Rightarrow> string" where
  "expandTilde fs path =
     (if \<not> prefix ''~/'' path \<and> path \<noteq> ''~'' then path
      else case fs_home fs of
          None \<Rightarrow> path
        | Some home \<Rightarrow> if path = ''~'' then home else filepath_Join [home, drop 2 path])"

definition canonicalizeWorkspacePathForAdd :: "host_fs \<Rightarrow> int \<Rightarrow> string \<Rightarrow> (go_error, string) result" where
  "canonicalizeWorkspacePathForAdd fs euid path0 =
     (if path0 = [] then io_err
      else and_then (validateHostPathText path0) (\<lambda>_.
        let path = expandTilde fs path0 in
        case (if filepath_IsAbs path then Some (filepath_Clean path)
              else map_option (\<lambda>wd. filepath_Join [wd, path]) (fs_cwd fs)) of
          None \<Rightarrow> io_err
        | Some ab \<Rightarrow>
           (case fs_stat fs ab of
              Inl _ \<Rightarrow> io_err
            | Inr k \<Rightarrow>
               if k \<noteq> KindDir then io_err
               else (case fs_eval fs ab of
                  Inl _ \<Rightarrow> io_err
                | Inr canonical \<Rightarrow>
                    and_then (validateWorkspacePathSafety euid canonical) (\<lambda>_. Inr canonical)))))"

definition canonicalizeIssuedTreePathForAdd :: "host_fs \<Rightarrow> int \<Rightarrow> string \<Rightarrow> (go_error, string) result" where
  "canonicalizeIssuedTreePathForAdd fs euid path =
     (if path = [] then io_err
      else and_then (validateHostPathText path) (\<lambda>_.
        if \<not> filepath_IsAbs path then io_err
        else (case fs_stat fs path of
            Inl _ \<Rightarrow> io_err
          | Inr k \<Rightarrow>
             if k \<noteq> KindDir \<and> k \<noteq> KindRegular then io_err
             else (case fs_eval fs path of
                Inl _ \<Rightarrow> io_err
              | Inr canonical \<Rightarrow>
                  and_then (validateWorkspacePathSafety euid canonical) (\<lambda>_. Inr canonical)))))"

definition validateWorkspacePathPolicy :: "int \<Rightarrow> string \<Rightarrow> (go_error, unit) result" where
  "validateWorkspacePathPolicy euid canonical =
     (if canonical = [] then io_err
      else and_then (validateHostPathText canonical) (\<lambda>_.
        if \<not> filepath_IsAbs canonical then io_err else validateWorkspacePathSafety euid canonical))"

text \<open>The add of an allowed root (principal.go): every failure is the invalid-root refusal.\<close>

definition validatePrincipalAllowedRootForAdd :: "host_fs \<Rightarrow> int \<Rightarrow> string \<Rightarrow> (go_error, string) result" where
  "validatePrincipalAllowedRootForAdd fs euid path =
     (if path = [] then err ErrInvalidAllowedRoot
      else if \<not> filepath_IsAbs path then err ErrInvalidAllowedRoot
      else if 1 < length path \<and> hd path = CHR ''~'' then err ErrInvalidAllowedRoot
      else case canonicalizeWorkspacePathForAdd fs euid path of
          Inl _ \<Rightarrow> err ErrInvalidAllowedRoot
        | Inr cleaned \<Rightarrow> Inr cleaned)"

section \<open>Facts\<close>

lemma validateHostPathText_Inr [simp]:
  "validateHostPathText p = Inr u \<longleftrightarrow> (\<forall>r\<in>set (string_runes p). \<not> unicode_IsControl r)"
proof -
  have "unicode_IsControl 0" by (simp add: unicode_IsControl_def)
  then show ?thesis unfolding validateHostPathText_def by (auto simp: list_ex_iff)
qed

lemma safety_Inr:
  "validateWorkspacePathSafety euid p = Inr u \<longleftrightarrow>
     (\<forall>r\<in>set (string_runes p). \<not> unicode_IsControl r) \<and> p \<noteq> ''/'' \<and>
     (\<forall>t\<in>set forbiddenSystemTrees. p \<noteq> t \<and> \<not> prefix (t @ ''/'') p) \<and>
     (\<forall>ns\<in>set forbiddenWideNamespaces. p = ns \<longrightarrow> euid = 0 \<and> ns \<in> set adminWideNamespaceOverrides)"
  unfolding validateWorkspacePathSafety_def and_then_Inr_iff validateHostPathText_Inr isAdminWideNamespaceOverride_def
  by (auto simp: list_ex_iff)

text \<open>An accepted allowed root: what was resolved, and what it satisfies.\<close>

lemma root_for_add_Inr:
  assumes "validatePrincipalAllowedRootForAdd fs euid p = Inr q"
  shows "validateWorkspacePathSafety euid q = Inr ()" and "filepath_IsAbs p"
    and "fs_eval fs (filepath_Clean p) = Inr q" and "fs_stat fs (filepath_Clean p) = Inr KindDir"
proof -
  have p: "filepath_IsAbs p" and c: "canonicalizeWorkspacePathForAdd fs euid p = Inr q"
    using assms by (auto simp: validatePrincipalAllowedRootForAdd_def split: if_splits sum.splits)
  from p have "expandTilde fs p = p" by (cases p) (auto simp: expandTilde_def filepath_IsAbs_def)
  with c p show "validateWorkspacePathSafety euid q = Inr ()" "filepath_IsAbs p"
    "fs_eval fs (filepath_Clean p) = Inr q" "fs_stat fs (filepath_Clean p) = Inr KindDir"
    by (auto simp: canonicalizeWorkspacePathForAdd_def split: if_splits sum.splits)
qed

lemma canonicalize_abs:
  assumes "filepath_IsAbs p" and "canonicalizeWorkspacePathForAdd fs euid p = Inr q"
  shows "validatePrincipalAllowedRootForAdd fs euid p = Inr q"
  using assms by (cases p) (auto simp: validatePrincipalAllowedRootForAdd_def filepath_IsAbs_def)

lemma root_for_add_canonical:
  assumes "fs_resolves_canonical fs" and "validatePrincipalAllowedRootForAdd fs euid p = Inr q"
  shows "canonical_path q"
  using assms(1) root_for_add_Inr(2,3) [OF assms(2)] canonical_path_Clean
  unfolding fs_resolves_canonical_def by blast

lemma system_trees_canonical: "list_all (\<lambda>t. canonical_path t \<and> path_comps t \<noteq> []) forbiddenSystemTrees"
  by code_simp

lemma outside_system_trees:
  assumes "canonical_path q"
  shows "(\<forall>t\<in>set forbiddenSystemTrees. q \<noteq> t \<and> \<not> prefix (t @ ''/'') q) \<longleftrightarrow>
    (\<forall>t\<in>set forbiddenSystemTrees. \<not> pathWithin t q)"
proof -
  have "pathWithin t q \<longleftrightarrow> q = t \<or> prefix (t @ ''/'') q" if "t \<in> set forbiddenSystemTrees" for t
    using canonical_tree_prefix [OF _ assms, of t] that system_trees_canonical by (simp add: list_all_iff)
  then show ?thesis by blast
qed

lemma text_bytes: "(\<forall>r\<in>set (string_runes p). \<not> unicode_IsControl r) \<longleftrightarrow> \<not> control_bytes (map of_char p)"
  using runes_control [of "map of_char p"] unfolding string_runes_def list_ex_iff by blast

section \<open>Properties\<close>

text \<open>
  C35: a requested allowed root is accepted, and as which canonical path, exactly when the request is
  an absolute path that is an existing directory, neither its spelling nor its symlink resolution
  carries a byte sequence of a control rune, and the resolution is not the filesystem root, is inside
  no forbidden system tree by path containment (not only by string prefix), and is a wide namespace
  only where root's override allows it. Every refusal is the one invalid-root error.
\<close>

theorem added_root_accepted_iff:
  assumes "fs_resolves_canonical fs"
  shows "(validatePrincipalAllowedRootForAdd fs euid p = Inr q \<longleftrightarrow>
      filepath_IsAbs p \<and> \<not> control_bytes (map of_char p) \<and>
      fs_stat fs (filepath_Clean p) = Inr KindDir \<and> fs_eval fs (filepath_Clean p) = Inr q \<and>
      \<not> control_bytes (map of_char q) \<and> q \<noteq> ''/'' \<and> (\<forall>t\<in>set forbiddenSystemTrees. \<not> pathWithin t q) \<and>
      (q \<in> set forbiddenWideNamespaces \<longrightarrow> euid = 0 \<and> q \<in> set adminWideNamespaceOverrides)) \<and>
    (validatePrincipalAllowedRootForAdd fs euid p = Inl e \<longrightarrow> e = [ErrInvalidAllowedRoot])"
proof (intro conjI impI)
  show "validatePrincipalAllowedRootForAdd fs euid p = Inl e \<Longrightarrow> e = [ErrInvalidAllowedRoot]"
    by (auto simp: validatePrincipalAllowedRootForAdd_def split: if_splits sum.splits)
  show "validatePrincipalAllowedRootForAdd fs euid p = Inr q \<longleftrightarrow>
      filepath_IsAbs p \<and> \<not> control_bytes (map of_char p) \<and>
      fs_stat fs (filepath_Clean p) = Inr KindDir \<and> fs_eval fs (filepath_Clean p) = Inr q \<and>
      \<not> control_bytes (map of_char q) \<and> q \<noteq> ''/'' \<and> (\<forall>t\<in>set forbiddenSystemTrees. \<not> pathWithin t q) \<and>
      (q \<in> set forbiddenWideNamespaces \<longrightarrow> euid = 0 \<and> q \<in> set adminWideNamespaceOverrides)"
  proof (cases "filepath_IsAbs p \<and> fs_eval fs (filepath_Clean p) = Inr q")
    case True
    then have "canonical_path q" using assms canonical_path_Clean unfolding fs_resolves_canonical_def by blast
    note outside = outside_system_trees [OF this]
    have "p \<noteq> []" "hd p \<noteq> CHR ''~''" "expandTilde fs p = p"
      using True by (cases p; auto simp: filepath_IsAbs_def expandTilde_def)+
    then have "validatePrincipalAllowedRootForAdd fs euid p = Inr q \<longleftrightarrow>
        validateHostPathText p = Inr () \<and> fs_stat fs (filepath_Clean p) = Inr KindDir \<and>
        validateWorkspacePathSafety euid q = Inr ()"
      using True
      by (auto simp: validatePrincipalAllowedRootForAdd_def canonicalizeWorkspacePathForAdd_def
          simp del: validateHostPathText_Inr split: sum.splits)
    then show ?thesis using True outside unfolding safety_Inr validateHostPathText_Inr text_bytes by auto
  next
    case False
    then show ?thesis using root_for_add_Inr(2,3) by blast
  qed
qed

definition demo_fs :: host_fs where
  "demo_fs = \<lparr>fs_eval = (\<lambda>p. Inr p), fs_stat = (\<lambda>p. Inr KindDir), fs_cwd = None, fs_home = None\<rparr>"

lemma demo_fs_canonical [simp]: "fs_resolves_canonical demo_fs"
  by (simp add: fs_resolves_canonical_def demo_fs_def)

theorem added_root_accepted_iff_witness:
  "validatePrincipalAllowedRootForAdd demo_fs 1000 ''/home/alice/./src'' = Inr ''/home/alice/src'' \<and>
   \<not> pathWithin ''/etc'' ''/home/alice/src'' \<and>
   validatePrincipalAllowedRootForAdd demo_fs 1000 ''/etc/ssh'' = Inl [ErrInvalidAllowedRoot]"
proof -
  have a: "validatePrincipalAllowedRootForAdd demo_fs 1000 ''/home/alice/./src'' = Inr ''/home/alice/src''" by code_simp
  then have "\<forall>t\<in>set forbiddenSystemTrees. \<not> pathWithin t ''/home/alice/src''"
    using added_root_accepted_iff [OF demo_fs_canonical, of 1000 "''/home/alice/./src''" "''/home/alice/src''"] by blast
  moreover have "''/etc'' \<in> set forbiddenSystemTrees" by code_simp
  moreover have "validatePrincipalAllowedRootForAdd demo_fs 1000 ''/etc/ssh'' = Inl [ErrInvalidAllowedRoot]" by code_simp
  ultimately show ?thesis using a by blast
qed

end
