(* ===== verification/Launchers.thy ===== *)
theory Launchers
  imports Credentials Workspace_Policy
begin

text \<open>
  launcher.go and the default-Launcher part of ownership.go: Launcher identifiers, names and
  selectors, lookups and listings, creation, scope replacement and the stored allowed-root mutations
  of a Launcher, the resolution of the effective Principal ceiling, and the provisioning of default
  Launchers.
\<close>

section \<open>Identifiers and names\<close>

definition launcherIDPrefix :: string where "launcherIDPrefix = ''dhl_''"
definition launcherIDEntropyBytes :: nat where "launcherIDEntropyBytes = 16"

definition generateLauncherID :: "nat list option \<Rightarrow> (go_error, string) result" where
  "generateLauncherID r = from_random launcherIDPrefix r"

definition isLauncherIDSelector :: "string \<Rightarrow> bool" where
  "isLauncherIDSelector selector =
     (if \<not> prefix launcherIDPrefix selector then False
      else let rest = drop (length launcherIDPrefix) selector in
        length rest = launcherIDEntropyBytes * 2 \<and>
        list_all (\<lambda>c. CHR ''0'' \<le> c \<and> c \<le> CHR ''9'' \<or> CHR ''a'' \<le> c \<and> c \<le> CHR ''f'') rest)"

definition defaultLauncherName :: string where "defaultLauncherName = ''default''"
definition launcherNameMaxLength :: nat where "launcherNameMaxLength = 63"

fun launcher_name_loop :: "nat \<Rightarrow> nat \<Rightarrow> string \<Rightarrow> bool" where
  "launcher_name_loop i len [] = True"
| "launcher_name_loop i len (c # cs) =
     (if CHR ''a'' \<le> c \<and> c \<le> CHR ''z'' \<or> CHR ''0'' \<le> c \<and> c \<le> CHR ''9'' then launcher_name_loop (Suc i) len cs
      else if c = CHR ''-'' then
        (if i = 0 \<or> i = len - 1 then False else launcher_name_loop (Suc i) len cs)
      else False)"

definition validateLauncherName :: "string \<Rightarrow> (go_error, string) result" where
  "validateLauncherName name =
     (if length name = 0 \<or> launcherNameMaxLength < length name then err ErrInvalidLauncherName
      else if launcher_name_loop 0 (length name) name then Inr name
      else err ErrInvalidLauncherName)"

section \<open>Lookups\<close>

record LauncherWithPrincipal =
  lw_ID :: string
  lw_PrincipalID :: int
  lw_PrincipalName :: string
  lw_Name :: string
  lw_Enabled :: bool
  lw_ScopeMode :: LauncherScopeMode
  lw_AllowedRoots :: "AllowedRootEntry list"
  lw_CreatedAt :: int

definition stored_roots :: "'k \<Rightarrow> 'k root_row list \<Rightarrow> AllowedRootEntry list" where
  "stored_roots i rows = sort_key Path (map rr_entry (filter (\<lambda>r. rr_owner r = i) rows))"

definition readLauncherAllowedRoots :: "db_io \<Rightarrow> string \<Rightarrow> AllowedRootEntry list db" where
  "readLauncherAllowedRoots io launcherID = query io (\<lambda>s. Inr (stored_roots launcherID (launcher_allowed_roots s)))"

definition readPrincipalAllowedRoots :: "db_io \<Rightarrow> int \<Rightarrow> AllowedRootEntry list db" where
  "readPrincipalAllowedRoots io principalID = query io (\<lambda>s. Inr (stored_roots principalID (principal_allowed_roots s)))"

definition scanLauncherBase :: "launcher_row \<Rightarrow> principal_row \<Rightarrow> LauncherWithPrincipal" where
  "scanLauncherBase l p =
     \<lparr>lw_ID = la_id l, lw_PrincipalID = la_principal l, lw_PrincipalName = pr_username p, lw_Name = la_name l,
      lw_Enabled = la_enabled l, lw_ScopeMode = la_scope l, lw_AllowedRoots = [], lw_CreatedAt = la_created l\<rparr>"

definition launcherFromRow ::
    "db_io \<Rightarrow> (store \<Rightarrow> (launcher_row \<times> principal_row) option) \<Rightarrow> LauncherWithPrincipal db" where
  "launcherFromRow io row =
     db_then (query io (\<lambda>s. case row s of None \<Rightarrow> err ErrLauncherNotFound | Some (l, p) \<Rightarrow> Inr (scanLauncherBase l p))) (\<lambda>l.
       db_then (readLauncherAllowedRoots io (lw_ID l)) (\<lambda>roots. db_return (l\<lparr>lw_AllowedRoots := roots\<rparr>)))"

definition findLauncherByID :: "db_io \<Rightarrow> string \<Rightarrow> LauncherWithPrincipal db" where
  "findLauncherByID io i =
     (if i = [] then db_fail ErrLauncherNotFound else launcherFromRow io (launcher_with_owner i))"

text \<open>The rows of \<^verbatim>\<open>launcherSelect\<close> that satisfy a WHERE clause on the Launcher columns.\<close>

definition launcher_where :: "(launcher_row \<Rightarrow> bool) \<Rightarrow> store \<Rightarrow> (launcher_row \<times> principal_row) option" where
  "launcher_where Q s =
     (case find (\<lambda>l. Q l \<and> has_principal (la_principal l) s) (launchers s) of
        None \<Rightarrow> None
      | Some l \<Rightarrow> map_option (Pair l) (principal_by_id (la_principal l) s))"

definition findLauncherByIDUnderPrincipal :: "db_io \<Rightarrow> int \<Rightarrow> string \<Rightarrow> LauncherWithPrincipal db" where
  "findLauncherByIDUnderPrincipal io principalID i =
     launcherFromRow io (launcher_where (\<lambda>l. la_id l = i \<and> la_principal l = principalID))"

definition findLauncherByNameUnderPrincipal :: "db_io \<Rightarrow> int \<Rightarrow> string \<Rightarrow> LauncherWithPrincipal db" where
  "findLauncherByNameUnderPrincipal io principalID name =
     launcherFromRow io (launcher_where (\<lambda>l. la_principal l = principalID \<and> la_name l = name))"

definition findLauncherForPrincipal :: "db_io \<Rightarrow> int \<Rightarrow> string \<Rightarrow> LauncherWithPrincipal db" where
  "findLauncherForPrincipal io principalID selector =
     (if isLauncherIDSelector selector then findLauncherByIDUnderPrincipal io principalID selector
      else case validateLauncherName selector of
          Inl _ \<Rightarrow> db_fail ErrLauncherNotFound
        | Inr _ \<Rightarrow> findLauncherByNameUnderPrincipal io principalID selector)"

definition resolveLauncherSelector :: "db_io \<Rightarrow> int option \<Rightarrow> string \<Rightarrow> LauncherWithPrincipal db" where
  "resolveLauncherSelector io principalID selector =
     (case principalID of
        Some p \<Rightarrow> findLauncherForPrincipal io p selector
      | None \<Rightarrow>
         if isLauncherIDSelector selector then findLauncherByID io selector
         else db_fail ErrLauncherNameRequiresPrincipal)"

definition listLaunchersForScope :: "db_io \<Rightarrow> int option \<Rightarrow> LauncherWithPrincipal list db" where
  "listLaunchersForScope io principalID =
     db_then (query io (\<lambda>s. Inr (sort_key lw_PrincipalName (sort_key lw_Name
         (concat (map (\<lambda>l. map (scanLauncherBase l) (filter (\<lambda>p. pr_id p = la_principal l) (principals s)))
            (filter (\<lambda>l. principalID = None \<or> Some (la_principal l) = principalID) (launchers s)))))))) (\<lambda>rows.
       db_collect (\<lambda>l. db_then (readLauncherAllowedRoots io (lw_ID l)) (\<lambda>roots.
         db_return [l\<lparr>lw_AllowedRoots := roots\<rparr>])) rows)"

definition queryLaunchersForScope :: "db_io \<Rightarrow> int option \<Rightarrow> string \<Rightarrow> LauncherWithPrincipal list db" where
  "queryLaunchersForScope io principalID launcherSelector =
     (if launcherSelector = [] then listLaunchersForScope io principalID
      else db_then (resolveLauncherSelector io principalID launcherSelector) (\<lambda>l. db_return [l]))"

section \<open>The effective Principal ceiling\<close>

fun resolveAllowedRootEntries :: "host_fs \<Rightarrow> AllowedRootEntry list \<Rightarrow> (go_error, AllowedRootEntry list) result" where
  "resolveAllowedRootEntries fs [] = Inr []"
| "resolveAllowedRootEntries fs (e # es) =
     (case fs_eval fs (Path e) of
        Inl _ \<Rightarrow> err ErrSystem
      | Inr resolved \<Rightarrow> and_then (resolveAllowedRootEntries fs es) (\<lambda>out. Inr (mk_entry resolved (Access e) # out)))"

definition resolveEffectivePrincipalRootEntries ::
    "db_io \<Rightarrow> host_fs \<Rightarrow> AllowedRootEntry list \<Rightarrow> int \<Rightarrow> AllowedRootEntry list db" where
  "resolveEffectivePrincipalRootEntries io fs config_roots principalID =
     db_then (db_result (resolveAllowedRootEntries fs config_roots)) (\<lambda>globalRoots.
       db_then (readPrincipalAllowedRoots io principalID) (\<lambda>stored.
         db_return (effectivePrincipalAllowedRoots globalRoots stored)))"

definition resolveEffectivePrincipalRoots ::
    "db_io \<Rightarrow> host_fs \<Rightarrow> AllowedRootEntry list \<Rightarrow> int \<Rightarrow> string list db" where
  "resolveEffectivePrincipalRoots io fs config_roots principalID =
     db_then (resolveEffectivePrincipalRootEntries io fs config_roots principalID) (\<lambda>entries.
       db_return (allowedRootPaths entries))"

section \<open>Validation of requested roots\<close>

fun launcher_roots_loop ::
    "host_fs \<Rightarrow> int \<Rightarrow> string list \<Rightarrow> (string \<rightharpoonup> AllowedRootAccess) \<Rightarrow> AllowedRootEntry list \<Rightarrow> AllowedRootEntry list \<Rightarrow>
     (go_error, AllowedRootEntry list) result" where
  "launcher_roots_loop fs euid ceiling seen canonical [] = Inr canonical"
| "launcher_roots_loop fs euid ceiling seen canonical (e # es) =
     (if \<not> access_isValid (Access e) then err ErrInvalidAllowedRootAccess
      else and_then (validatePrincipalAllowedRootForAdd fs euid (Path e)) (\<lambda>resolved.
        if \<not> isWithinAnyAllowedRoot resolved ceiling then err ErrLauncherRootOutsidePrincipal
        else case seen resolved of
            Some prev \<Rightarrow>
              if prev \<noteq> Access e then err ErrInvalidAllowedRoots
              else launcher_roots_loop fs euid ceiling seen canonical es
          | None \<Rightarrow>
              launcher_roots_loop fs euid ceiling (seen(resolved \<mapsto> Access e))
                (canonical @ [mk_entry resolved (Access e)]) es))"

definition validateLauncherAllowedRootEntries ::
    "host_fs \<Rightarrow> int \<Rightarrow> AllowedRootEntry list \<Rightarrow> string list \<Rightarrow> (go_error, AllowedRootEntry list) result" where
  "validateLauncherAllowedRootEntries fs euid entries ceiling =
     (if entries = [] then err ErrInvalidAllowedRoots
      else and_then (launcher_roots_loop fs euid ceiling Map.empty [] entries) (\<lambda>canonical.
        Inr (sort_key Path canonical)))"

definition validateLauncherAllowedRoots ::
    "host_fs \<Rightarrow> int \<Rightarrow> string list \<Rightarrow> string list \<Rightarrow> (go_error, AllowedRootEntry list) result" where
  "validateLauncherAllowedRoots fs euid roots ceiling =
     validateLauncherAllowedRootEntries fs euid (allowedRootEntriesForPaths roots) ceiling"

section \<open>Creation and scope replacement\<close>

definition insert_roots :: "db_io \<Rightarrow> string \<Rightarrow> AllowedRootEntry list \<Rightarrow> unit db" where
  "insert_roots io i roots = db_each (\<lambda>root. exec io (\<lambda>s. no_result (or_fail (insert_launcher_root i root s)))) roots"

definition createLauncher ::
    "(string \<Rightarrow> string) \<Rightarrow> entropy \<Rightarrow> db_io \<Rightarrow> host_fs \<Rightarrow> int \<Rightarrow> int \<Rightarrow> string \<Rightarrow> LauncherScopeMode \<Rightarrow> string list \<Rightarrow>
     string list \<Rightarrow> bool \<Rightarrow> (LauncherWithPrincipal \<times> (launcherCredential \<times> string) option) db" where
  "createLauncher hash ent io fs euid principalID name0 scope allowedRoots ceiling issueCredential =
     db_then (db_result (validateLauncherName name0)) (\<lambda>name.
       if scope \<noteq> LauncherScopeInherit \<and> scope \<noteq> LauncherScopeRestricted then db_fail ErrInvalidScope
       else db_then (findPrincipalByID io principalID) (\<lambda>owner.
         db_then (db_result
           (if scope = LauncherScopeRestricted then
              (if allowedRoots = [] then err ErrInvalidAllowedRoots
               else validateLauncherAllowedRoots fs euid allowedRoots ceiling)
            else if allowedRoots \<noteq> [] then err ErrInvalidAllowedRoots else Inr [])) (\<lambda>canonicalRoots.
           db_then (db_result (generateLauncherID (rnd_launcher ent))) (\<lambda>i.
             with_tx io
               (db_then (exec io (\<lambda>s. no_result (or_exists ErrLauncherExists (insert_launcher
                   \<lparr>la_id = i, la_principal = principalID, la_name = name, la_enabled = True, la_scope = scope,
                    la_created = clock ent\<rparr> s)))) (\<lambda>_.
                 db_then (db_when (scope = LauncherScopeRestricted) (insert_roots io i canonicalRoots)) (\<lambda>_.
                   db_then (if issueCredential
                            then db_then (issueLauncherCredentialInTx hash ent io i) (\<lambda>c. db_return (Some c))
                            else db_return None) (\<lambda>cred.
                     db_return (\<lparr>lw_ID = i, lw_PrincipalID = principalID, lw_PrincipalName = pr_username owner,
                       lw_Name = name, lw_Enabled = True, lw_ScopeMode = scope, lw_AllowedRoots = canonicalRoots,
                       lw_CreatedAt = clock ent\<rparr>, cred)))))))))"

definition replaceLauncherScope ::
    "db_io \<Rightarrow> host_fs \<Rightarrow> int \<Rightarrow> LauncherWithPrincipal option \<Rightarrow> LauncherScopeMode \<Rightarrow> AllowedRootEntry list \<Rightarrow> string list \<Rightarrow>
     LauncherWithPrincipal db" where
  "replaceLauncherScope io fs euid current0 scope entries ceiling =
     (case current0 of
        None \<Rightarrow> db_fail ErrLauncherNotFound
      | Some current \<Rightarrow>
         if scope \<noteq> LauncherScopeInherit \<and> scope \<noteq> LauncherScopeRestricted then db_fail ErrInvalidScope
         else db_then (db_result
           (if scope = LauncherScopeRestricted then
              (if entries = [] then err ErrInvalidAllowedRoots
               else validateLauncherAllowedRootEntries fs euid entries ceiling)
            else if entries \<noteq> [] then err ErrInvalidAllowedRoots else Inr [])) (\<lambda>canonicalRoots.
           with_tx io
             (db_then (exec io (\<lambda>s. Inr (s\<lparr>launchers := update_rows (\<lambda>l. la_id l = lw_ID current)
                 (\<lambda>l. l\<lparr>la_scope := scope\<rparr>) (launchers s)\<rparr>, ()))) (\<lambda>_.
               db_then (exec io (\<lambda>s. Inr (s\<lparr>launcher_allowed_roots :=
                   filter (\<lambda>r. rr_owner r \<noteq> lw_ID current) (launcher_allowed_roots s)\<rparr>, ()))) (\<lambda>_.
                 db_then (insert_roots io (lw_ID current) canonicalRoots) (\<lambda>_.
                   db_return (current\<lparr>lw_ScopeMode := scope, lw_AllowedRoots := canonicalRoots\<rparr>)))))))"

section \<open>Stored-root mutations\<close>

definition stored_access :: "'k \<Rightarrow> string \<Rightarrow> 'k root_row list \<Rightarrow> AllowedRootAccess option" where
  "stored_access i path rows =
     map_option (\<lambda>r. Access (rr_entry r)) (find (\<lambda>r. rr_owner r = i \<and> Path (rr_entry r) = path) rows)"

definition addLauncherAllowedRoot ::
    "db_io \<Rightarrow> host_fs \<Rightarrow> int \<Rightarrow> LauncherWithPrincipal \<Rightarrow> string \<Rightarrow> AllowedRootAccess \<Rightarrow> string list \<Rightarrow>
     (LauncherWithPrincipal \<times> bool \<times> AllowedRootEntry) db" where
  "addLauncherAllowedRoot io fs euid current rootPath access ceiling =
     (if \<not> access_isValid access then db_fail ErrInvalidAllowedRootAccess
      else db_then (db_result (validatePrincipalAllowedRootForAdd fs euid rootPath)) (\<lambda>resolved.
        if \<not> isWithinAnyAllowedRoot resolved ceiling then db_fail ErrLauncherRootOutsidePrincipal
        else db_then (with_tx io
            (db_then (exec io (or_ignore (insert_launcher_root (lw_ID current) (mk_entry resolved access)))) (\<lambda>affected.
              db_then (db_when affected (exec io (\<lambda>s. Inr (s\<lparr>launchers := update_rows (\<lambda>l. la_id l = lw_ID current)
                  (\<lambda>l. l\<lparr>la_scope := LauncherScopeRestricted\<rparr>) (launchers s)\<rparr>, ())))) (\<lambda>_.
                db_return affected)))) (\<lambda>affected.
          if \<not> affected then
            db_then (query io (\<lambda>s. case stored_access (lw_ID current) resolved (launcher_allowed_roots s) of
                None \<Rightarrow> Inl [SqlErrNoRows] | Some a \<Rightarrow> Inr a)) (\<lambda>stored.
              db_return (current, False, mk_entry resolved stored))
          else db_return (current\<lparr>lw_ScopeMode := LauncherScopeRestricted,
              lw_AllowedRoots := sort_key Path (lw_AllowedRoots current @ [mk_entry resolved access])\<rparr>,
              True, mk_entry resolved access))))"

definition removeLauncherAllowedRoot :: "db_io \<Rightarrow> host_fs \<Rightarrow> string \<Rightarrow> string \<Rightarrow> (bool \<times> string) db" where
  "removeLauncherAllowedRoot io fs launcherID rootPath =
     (if rootPath = [] then db_fail ErrInvalidAllowedRoot
      else if \<not> filepath_IsAbs rootPath then db_fail ErrInvalidAllowedRoot
      else db_then (db_result (resolveAllowedRootIdentity fs rootPath)) (\<lambda>resolved.
        exec io (\<lambda>s. let hit = (\<lambda>r. rr_owner r = launcherID \<and> Path (rr_entry r) = resolved) in
          Inr (s\<lparr>launcher_allowed_roots := filter (\<lambda>r. \<not> hit r) (launcher_allowed_roots s)\<rparr>,
               (list_ex hit (launcher_allowed_roots s), resolved)))))"

definition setLauncherAllowedRootAccess ::
    "db_io \<Rightarrow> host_fs \<Rightarrow> string \<Rightarrow> string \<Rightarrow> AllowedRootAccess \<Rightarrow> (bool \<times> AllowedRootEntry) db" where
  "setLauncherAllowedRootAccess io fs launcherID rootPath access =
     (if \<not> access_isValid access then db_fail ErrInvalidAllowedRootAccess
      else if rootPath = [] then db_fail ErrInvalidAllowedRoot
      else if \<not> filepath_IsAbs rootPath then db_fail ErrInvalidAllowedRoot
      else db_then (db_result (resolveAllowedRootIdentity fs rootPath)) (\<lambda>resolved.
        db_then (query io (\<lambda>s. case stored_access launcherID resolved (launcher_allowed_roots s) of
            None \<Rightarrow> err ErrAllowedRootNotFound | Some a \<Rightarrow> Inr a)) (\<lambda>stored.
          if stored = access then db_return (False, mk_entry resolved stored)
          else db_then (exec io (\<lambda>s. let hit = (\<lambda>r. rr_owner r = launcherID \<and> Path (rr_entry r) = resolved) in
              Inr (s\<lparr>launcher_allowed_roots := update_rows hit
                     (\<lambda>r. r\<lparr>rr_entry := (rr_entry r)\<lparr>Access := access\<rparr>\<rparr>) (launcher_allowed_roots s)\<rparr>,
                   list_ex hit (launcher_allowed_roots s)))) (\<lambda>affected.
            if \<not> affected then db_fail ErrAllowedRootNotFound
            else db_return (True, mk_entry resolved access)))))"

section \<open>Default Launchers (ownership.go)\<close>

definition default_launcher :: "int \<Rightarrow> store \<Rightarrow> launcher_row option" where
  "default_launcher principalID s =
     find (\<lambda>l. la_principal l = principalID \<and> la_name l = ''default'') (launchers s)"

definition findDefaultLauncher :: "db_io \<Rightarrow> int \<Rightarrow> string db" where
  "findDefaultLauncher io principalID =
     query io (\<lambda>s. case default_launcher principalID s of None \<Rightarrow> err ErrLauncherNotFound | Some l \<Rightarrow> Inr (la_id l))"

definition ensureDefaultLauncher :: "entropy \<Rightarrow> db_io \<Rightarrow> int \<Rightarrow> string db" where
  "ensureDefaultLauncher ent io principalID =
     db_then (query io (\<lambda>s. Inr (default_launcher principalID s))) (\<lambda>row.
       case row of
         Some l \<Rightarrow> db_return (la_id l)
       | None \<Rightarrow>
           db_then (db_result (validateLauncherName defaultLauncherName)) (\<lambda>_.
             db_then (db_result (generateLauncherID (rnd_launcher ent))) (\<lambda>newID.
               db_then (exec io (or_ignore (insert_launcher \<lparr>la_id = newID, la_principal = principalID,
                   la_name = ''default'', la_enabled = True, la_scope = ''inherit'', la_created = clock ent\<rparr>))) (\<lambda>_.
                 query io (\<lambda>s. case default_launcher principalID s of
                   None \<Rightarrow> Inl [SqlErrNoRows] | Some l \<Rightarrow> Inr (la_id l))))))"

text \<open>Each iteration draws its own identifier: \<^term>\<open>ents\<close> gives the entropy of one Principal.\<close>

definition migrateDefaultLaunchers :: "(int \<Rightarrow> entropy) \<Rightarrow> db_io \<Rightarrow> nat db" where
  "migrateDefaultLaunchers ents io =
     db_then (query io (\<lambda>s. Inr (map pr_id (principals s)))) (\<lambda>principalIDs.
       db_then (db_collect (\<lambda>pid.
           db_then (query io (\<lambda>s. Inr (default_launcher pid s))) (\<lambda>row.
             if row \<noteq> None then db_return []
             else db_then (ensureDefaultLauncher (ents pid) io pid) (\<lambda>i. db_return [i]))) principalIDs) (\<lambda>created.
         db_return (length created)))"

section \<open>Integrity and atomicity\<close>

lemma launcher_reads [db_intros]:
  "reads (readLauncherAllowedRoots io i)" "reads (readPrincipalAllowedRoots io p)" "reads (launcherFromRow io row)"
  "reads (findLauncherByID io i)" "reads (findLauncherForPrincipal io p sel)" "reads (resolveLauncherSelector io scope sel)"
  "reads (findDefaultLauncher io p)" "reads (resolveEffectivePrincipalRootEntries io fs g p)"
  "reads (resolveEffectivePrincipalRoots io fs g p)"
proof -
  show row: "reads (readLauncherAllowedRoots io i)" "reads (readPrincipalAllowedRoots io p)" "reads (launcherFromRow io row)"
    for i p row
    unfolding readLauncherAllowedRoots_def readPrincipalAllowedRoots_def launcherFromRow_def by (intro db_intros)+
  show "reads (findLauncherByID io i)" "reads (findDefaultLauncher io p)" for i p
    unfolding findLauncherByID_def findDefaultLauncher_def by (intro db_intros row)+
  show sel: "reads (findLauncherForPrincipal io p sel)" for p sel
    unfolding findLauncherForPrincipal_def findLauncherByIDUnderPrincipal_def findLauncherByNameUnderPrincipal_def
    by (auto intro: db_intros row split: sum.split)
  show "reads (resolveLauncherSelector io scope sel)"
    unfolding resolveLauncherSelector_def findLauncherByID_def by (intro db_intros row sel)
  show "reads (resolveEffectivePrincipalRootEntries io fs g p)" "reads (resolveEffectivePrincipalRoots io fs g p)"
    unfolding resolveEffectivePrincipalRoots_def resolveEffectivePrincipalRootEntries_def by (intro db_intros row)+
qed

lemmas launcher_reads_keep [db_intros] = launcher_reads [THEN reads_keeps]

lemma keeps_insert_roots [db_intros]: "keeps store_ok (insert_roots io i roots)"
  unfolding insert_roots_def by (intro db_intros keeps_exec) (auto intro: insert_launcher_root_ok)

lemma scope_check_modes [simp]: "scope_check LauncherScopeInherit" "scope_check LauncherScopeRestricted"
  by (simp_all add: scope_check_def)

lemma keeps_set_scope [db_intros]:
  "scope = LauncherScopeInherit \<or> scope = LauncherScopeRestricted \<Longrightarrow>
   keeps store_ok (exec io (\<lambda>s. Inr (s\<lparr>launchers := update_rows P (\<lambda>l. l\<lparr>la_scope := scope\<rparr>) (launchers s)\<rparr>, ())))"
  by (rule keeps_exec) (auto intro!: update_launchers_ok)

lemma keeps_or_ignore:
  assumes "\<And>s s'. store_ok s \<Longrightarrow> f s = Inr s' \<Longrightarrow> store_ok s'"
  shows "keeps store_ok (exec io (or_ignore f))"
  using assms by (intro keeps_exec) (auto simp: or_ignore_Inr split: if_splits)

lemma ensure_default_keeps [db_intros]: "keeps store_ok (ensureDefaultLauncher ent io p)"
  unfolding ensureDefaultLauncher_def by (intro db_intros keeps_or_ignore) (auto intro: insert_launcher_ok)

lemma migrate_default_keeps [db_intros]: "keeps store_ok (migrateDefaultLaunchers ents io)"
  unfolding migrateDefaultLaunchers_def by (intro db_intros)

lemma create_launcher_keeps [db_intros]:
  "keeps store_ok (createLauncher hash ent io fs euid p name scope roots ceiling issue)"
  unfolding createLauncher_def by (intro db_intros keeps_exec) (auto intro: insert_launcher_ok)

lemma replace_scope_keeps [db_intros]: "keeps store_ok (replaceLauncherScope io fs euid cur scope entries ceiling)"
  unfolding replaceLauncherScope_def
proof (intro db_intros)
  fix cur io
  show "keeps store_ok (exec io (\<lambda>s. Inr (s\<lparr>launcher_allowed_roots :=
      filter (\<lambda>r. rr_owner r \<noteq> lw_ID cur) (launcher_allowed_roots s)\<rparr>, ())))"
    by (rule keeps_exec) (auto intro: delete_launcher_roots_ok)
qed auto

lemma launcher_root_ops_keep [db_intros]:
  "keeps store_ok (addLauncherAllowedRoot io fs euid cur path access ceiling)"
  "keeps store_ok (removeLauncherAllowedRoot io fs i path)"
  "keeps store_ok (setLauncherAllowedRootAccess io fs i path access)"
proof -
  show "keeps store_ok (addLauncherAllowedRoot io fs euid cur path access ceiling)"
    unfolding addLauncherAllowedRoot_def by (intro db_intros keeps_or_ignore) (auto intro: insert_launcher_root_ok)
  show "keeps store_ok (removeLauncherAllowedRoot io fs i path)"
    unfolding removeLauncherAllowedRoot_def Let_def
    by (intro db_intros keeps_exec) (auto intro: delete_launcher_roots_ok)
  show "keeps store_ok (setLauncherAllowedRootAccess io fs i path access)"
    unfolding setLauncherAllowedRootAccess_def Let_def
    by (intro db_intros keeps_exec) (auto intro: update_launcher_roots_ok)
qed

lemma launcher_ops_undone:
  assumes "reported io"
  shows "undone (createLauncher hash ent io fs euid p name scope roots ceiling issue)"
    "undone (replaceLauncherScope io fs euid cur scope entries ceiling)"
    "undone (removeLauncherAllowedRoot io fs i path)"
  unfolding createLauncher_def replaceLauncherScope_def removeLauncherAllowedRoot_def
  by (intro db_intros assms)+

section \<open>Names and selectors\<close>

lemma name_char_simps: "CHR ''a'' \<le> c \<and> c \<le> CHR ''z'' \<or> CHR ''0'' \<le> c \<and> c \<le> CHR ''9'' \<longleftrightarrow> name_char c"
  by (simp add: name_char_def)

lemma name_char_hyphen [simp]: "\<not> name_char CHR ''-''" "\<not> name_char CHR ''_''"
  by (simp_all add: name_char_def less_eq_char_def)

lemma launcher_name_loop_iff:
  "launcher_name_loop i len cs \<longleftrightarrow>
     (\<forall>j<length cs. name_char (cs ! j) \<or> cs ! j = CHR ''-'' \<and> i + j \<noteq> 0 \<and> i + j \<noteq> len - 1)"
proof (induction cs arbitrary: i)
  case Nil
  then show ?case by simp
next
  case (Cons c cs)
  have "launcher_name_loop i len (c # cs) \<longleftrightarrow>
      (name_char c \<or> c = CHR ''-'' \<and> i \<noteq> 0 \<and> i \<noteq> len - 1) \<and> launcher_name_loop (Suc i) len cs"
    unfolding launcher_name_loop.simps name_char_simps by auto
  then show ?case unfolding Cons.IH by (simp add: All_less_Suc2)
qed

lemma validateLauncherName_iff: "validateLauncherName n = Inr m \<longleftrightarrow> m = n \<and> launcher_name_check n"
proof (cases "n = []")
  case True
  then show ?thesis by (simp add: validateLauncherName_def launcher_name_check_def)
next
  case False
  have "launcher_name_loop 0 (length n) n \<longleftrightarrow>
      list_all (\<lambda>c. name_char c \<or> c = CHR ''-'') n \<and> hd n \<noteq> CHR ''-'' \<and> last n \<noteq> CHR ''-''"
    (is "?loop \<longleftrightarrow> ?check")
  proof
    assume loop: ?loop
    have "name_char (n ! 0)" "name_char (n ! (length n - 1))"
      using loop False unfolding launcher_name_loop_iff by (metis add_0 length_greater_0_conv diff_less zero_less_one)+
    then have "hd n \<noteq> CHR ''-''" "last n \<noteq> CHR ''-''"
      using False by (auto simp: hd_conv_nth last_conv_nth)
    then show ?check using loop unfolding launcher_name_loop_iff by (auto simp: list_all_length)
  next
    assume ?check
    then show ?loop using False unfolding launcher_name_loop_iff
      by (auto simp: list_all_length hd_conv_nth last_conv_nth intro!: gr0I)
  qed
  then show ?thesis using False
    by (auto simp: validateLauncherName_def launcher_name_check_def launcherNameMaxLength_def Suc_le_eq)
qed

lemma id_selector_not_name: "isLauncherIDSelector n \<Longrightarrow> \<not> launcher_name_check n"
proof
  assume "isLauncherIDSelector n" and chk: "launcher_name_check n"
  then obtain r where "n = ''dhl_'' @ r"
    by (auto simp: isLauncherIDSelector_def launcherIDPrefix_def prefix_def split: if_splits)
  then have "CHR ''_'' \<in> set n" by simp
  then show False using chk by (auto simp: launcher_name_check_def list_all_iff)
qed

lemma hex_digit_range: "CHR ''0'' \<le> hex_digit k \<and> hex_digit k \<le> CHR ''9'' \<or> CHR ''a'' \<le> hex_digit k \<and> hex_digit k \<le> CHR ''f''"
proof -
  have "\<forall>j<16. let c = ''0123456789abcdef'' ! j in CHR ''0'' \<le> c \<and> c \<le> CHR ''9'' \<or> CHR ''a'' \<le> c \<and> c \<le> CHR ''f''"
    by (simp add: All_less_Suc2 numeral_eq_Suc less_eq_char_def)
  then show ?thesis unfolding hex_digit_def Let_def by simp
qed

lemma hex_encode_range:
  "list_all (\<lambda>c. CHR ''0'' \<le> c \<and> c \<le> CHR ''9'' \<or> CHR ''a'' \<le> c \<and> c \<le> CHR ''f'') (hex_encode bs)"
  "length (hex_encode bs) = 2 * length bs"
  by (induction bs) (use hex_digit_range in auto)

lemma generated_id_selector:
  "length bs = launcherIDEntropyBytes \<Longrightarrow> isLauncherIDSelector (launcherIDPrefix @ hex_encode bs)"
  using hex_encode_range [of bs] by (simp add: isLauncherIDSelector_def launcherIDPrefix_def launcherIDEntropyBytes_def)

lemma launcher_key:
  assumes "store_ok s" and "l \<in> set (launchers s)" and "l' \<in> set (launchers s)"
  shows "la_id l = la_id l' \<Longrightarrow> l = l'"
    and "la_principal l = la_principal l' \<Longrightarrow> la_name l = la_name l' \<Longrightarrow> l = l'"
proof -
  have d: "distinct (map la_id (launchers s))" "distinct (map (\<lambda>l. (la_principal l, la_name l)) (launchers s))"
    using store_okD(3) [OF assms(1)] by (simp_all add: launchers_ok_def)
  show "la_id l = la_id l' \<Longrightarrow> l = l'" using distinct_map_eqD [OF d(1) assms(2,3)] .
  show "la_principal l = la_principal l' \<Longrightarrow> la_name l = la_name l' \<Longrightarrow> l = l'"
    using distinct_map_eqD [OF d(2) assms(2,3)] by simp
qed

lemma launcher_where_iff:
  assumes "store_ok s" and "\<And>l l'. l \<in> set (launchers s) \<Longrightarrow> l' \<in> set (launchers s) \<Longrightarrow> Q l \<Longrightarrow> Q l' \<Longrightarrow> l = l'"
  shows "launcher_where Q s = Some (l, p) \<longleftrightarrow>
    l \<in> set (launchers s) \<and> Q l \<and> p \<in> set (principals s) \<and> pr_id p = la_principal l"
proof -
  have owner: "has_principal (la_principal l) s" if "l \<in> set (launchers s)" for l
    using store_okD(3) [OF assms(1)] that by (simp add: launchers_ok_def)
  have "find (\<lambda>l. Q l \<and> has_principal (la_principal l) s) (launchers s) = Some l \<longleftrightarrow> l \<in> set (launchers s) \<and> Q l" for l
  proof
    assume "l \<in> set (launchers s) \<and> Q l"
    then show "find (\<lambda>l. Q l \<and> has_principal (la_principal l) s) (launchers s) = Some l"
      using owner assms(2) by (intro find_unique) auto
  qed (auto dest: find_Some_in)
  moreover have "launcher_where Q s = Some (l, p) \<longleftrightarrow>
      find (\<lambda>l. Q l \<and> has_principal (la_principal l) s) (launchers s) = Some l \<and> principal_by_id (la_principal l) s = Some p"
    unfolding launcher_where_def by (auto split: option.split)
  ultimately show ?thesis unfolding principal_lookup_iff [OF assms(1)] by blast
qed

definition launcher_view :: "store \<Rightarrow> launcher_row \<Rightarrow> principal_row \<Rightarrow> LauncherWithPrincipal" where
  "launcher_view s l p = (scanLauncherBase l p)\<lparr>lw_AllowedRoots := stored_roots (la_id l) (launcher_allowed_roots s)\<rparr>"

lemma launcherFromRow_value:
  "db_value (launcherFromRow fault_free row) s n =
     (case row s of None \<Rightarrow> err ErrLauncherNotFound | Some (l, p) \<Rightarrow> Inr (launcher_view s l p))"
  by (auto simp: launcherFromRow_def db_then_def query_def readLauncherAllowedRoots_def db_result_def launcher_view_def
      scanLauncherBase_def split: option.split)

section \<open>Properties\<close>

text \<open>
  Launcher names and Launcher identifiers are disjoint selector spaces. The Go grammar accepts
  exactly the names that the CHECK constraint of the launchers table accepts and returns them
  unchanged; an identifier-shaped selector is never a valid name; and every generated identifier is
  identifier-shaped.
\<close>

theorem selectors_unambiguous:
  shows "validateLauncherName n = (if launcher_name_check n then Inr n else err ErrInvalidLauncherName) \<and>
    \<not> (isLauncherIDSelector n \<and> launcher_name_check n) \<and>
    (length bs = launcherIDEntropyBytes \<longrightarrow>
      (\<exists>i. generateLauncherID (Some bs) = Inr i \<and> isLauncherIDSelector i \<and> validateLauncherName i = err ErrInvalidLauncherName))"
proof (intro conjI impI)
  show name: "validateLauncherName n = (if launcher_name_check n then Inr n else err ErrInvalidLauncherName)" for n
  proof (cases "launcher_name_check n")
    case True
    then show ?thesis using validateLauncherName_iff by simp
  next
    case False
    then have "\<nexists>m. validateLauncherName n = Inr m" using validateLauncherName_iff by blast
    then show ?thesis using False by (auto simp: validateLauncherName_def split: if_splits)
  qed
  show "\<not> (isLauncherIDSelector n \<and> launcher_name_check n)" using id_selector_not_name by blast
  show "\<exists>i. generateLauncherID (Some bs) = Inr i \<and> isLauncherIDSelector i \<and> validateLauncherName i = err ErrInvalidLauncherName"
    if "length bs = launcherIDEntropyBytes"
    using generated_id_selector [OF that] id_selector_not_name name
    by (auto simp: generateLauncherID_def from_random_def)
qed

theorem selectors_unambiguous_witness:
  "\<exists>i. generateLauncherID (Some (replicate 16 171)) = Inr i \<and> isLauncherIDSelector i \<and>
     validateLauncherName i = err ErrInvalidLauncherName"
  using selectors_unambiguous [of "''ci''" "replicate 16 171"] by (simp add: launcherIDEntropyBytes_def)

text \<open>
  C33: selector resolution is exact and does not disclose foreign Launchers. In the scope of a
  Principal a selector resolves to the Launcher of that Principal whose identifier it is when it is
  identifier-shaped, and otherwise to the one whose name it is; without a Principal only identifiers
  resolve. Every refusal is the same not-found error, except the name without a Principal context.
\<close>

theorem resolve_selector_exact:
  assumes "store_ok s"
  shows "(db_value (resolveLauncherSelector fault_free scope sel) s n = Inr r \<longleftrightarrow>
      (\<exists>l\<in>set (launchers s). \<exists>p\<in>set (principals s). pr_id p = la_principal l \<and>
         (scope = None \<or> scope = Some (la_principal l)) \<and>
         (if isLauncherIDSelector sel then la_id l = sel else scope \<noteq> None \<and> la_name l = sel) \<and>
         r = launcher_view s l p)) \<and>
    (db_value (resolveLauncherSelector fault_free scope sel) s n = Inl e \<longrightarrow>
      e = (if scope = None \<and> \<not> isLauncherIDSelector sel then [ErrLauncherNameRequiresPrincipal] else [ErrLauncherNotFound]))"
proof (intro conjI impI)
  have names: "launcher_name_check (la_name l)" if "l \<in> set (launchers s)" for l
    using store_okD(3) [OF assms] that by (simp add: launchers_ok_def)
  have by_id: "launcher_where (\<lambda>l. la_id l = sel \<and> la_principal l = i) s = Some (l, p) \<longleftrightarrow>
      l \<in> set (launchers s) \<and> (la_id l = sel \<and> la_principal l = i) \<and> p \<in> set (principals s) \<and> pr_id p = la_principal l" for i l p
    by (rule launcher_where_iff [OF assms]) (metis launcher_key(1) [OF assms])
  have by_name: "launcher_where (\<lambda>l. la_principal l = i \<and> la_name l = sel) s = Some (l, p) \<longleftrightarrow>
      l \<in> set (launchers s) \<and> (la_principal l = i \<and> la_name l = sel) \<and> p \<in> set (principals s) \<and> pr_id p = la_principal l" for i l p
    by (rule launcher_where_iff [OF assms]) (metis launcher_key(2) [OF assms])
  have row: "db_value (launcherFromRow fault_free row) s n = Inr r \<longleftrightarrow>
      (\<exists>l p. row s = Some (l, p) \<and> r = launcher_view s l p)" for row
    unfolding launcherFromRow_value by (auto split: option.split)
  have nonempty: "sel \<noteq> []" if "isLauncherIDSelector sel"
    using that by (auto simp: isLauncherIDSelector_def launcherIDPrefix_def)
  show "db_value (resolveLauncherSelector fault_free scope sel) s n = Inr r \<longleftrightarrow>
      (\<exists>l\<in>set (launchers s). \<exists>p\<in>set (principals s). pr_id p = la_principal l \<and>
         (scope = None \<or> scope = Some (la_principal l)) \<and>
         (if isLauncherIDSelector sel then la_id l = sel else scope \<noteq> None \<and> la_name l = sel) \<and>
         r = launcher_view s l p)"
  proof (cases "isLauncherIDSelector sel")
    case True
    then show ?thesis
      using nonempty
      by (cases scope)
        (auto simp: resolveLauncherSelector_def findLauncherForPrincipal_def findLauncherByID_def
          findLauncherByIDUnderPrincipal_def row by_id launcher_with_owner_iff [OF assms])
  next
    case False
    show ?thesis
    proof (cases scope)
      case None
      then show ?thesis using False by (simp add: resolveLauncherSelector_def db_result_def)
    next
      case (Some i)
      show ?thesis
      proof (cases "launcher_name_check sel")
        case True
        then have "validateLauncherName sel = Inr sel" by (simp add: validateLauncherName_iff)
        then show ?thesis using False Some
          by (auto simp: resolveLauncherSelector_def findLauncherForPrincipal_def findLauncherByNameUnderPrincipal_def
              row by_name)
      next
        case bad: False
        then obtain e where "validateLauncherName sel = Inl e"
          using validateLauncherName_iff by (metis old.sum.exhaust)
        then show ?thesis using False Some bad names
          by (auto simp: resolveLauncherSelector_def findLauncherForPrincipal_def db_result_def)
      qed
    qed
  qed
  show "e = (if scope = None \<and> \<not> isLauncherIDSelector sel then [ErrLauncherNameRequiresPrincipal] else [ErrLauncherNotFound])"
    if "db_value (resolveLauncherSelector fault_free scope sel) s n = Inl e"
    using that
    by (auto simp: resolveLauncherSelector_def findLauncherForPrincipal_def findLauncherByID_def
        findLauncherByIDUnderPrincipal_def findLauncherByNameUnderPrincipal_def launcherFromRow_value db_result_def
        split: if_splits option.splits sum.splits)
qed

definition demo_launcher :: launcher_row where
  "demo_launcher = \<lparr>la_id = ''dhl_00000000000000000000000000000001'', la_principal = 1, la_name = ''ci'', la_enabled = True,
     la_scope = LauncherScopeInherit, la_created = 7\<rparr>"

definition demo_owned :: store where
  "demo_owned = demo_store\<lparr>launchers := [demo_launcher]\<rparr>"

lemma demo_owned_ok: "store_ok demo_owned"
proof -
  have name: "launcher_name_check ''ci''" by code_simp
  have "launchers_ok demo_owned"
    by (simp add: launchers_ok_def demo_owned_def demo_launcher_def demo_store_def demo_principal_def owner_simps name)
  then show ?thesis
    by (intro store_ok_frame [OF demo_store_ok]) (simp_all add: demo_owned_def demo_store_def empty_store_def)
qed

theorem resolve_selector_exact_witness:
  "db_value (resolveLauncherSelector fault_free (Some 1) ''ci'') demo_owned 0 =
     Inr (launcher_view demo_owned demo_launcher demo_principal) \<and>
   db_value (resolveLauncherSelector fault_free None ''ci'') demo_owned 0 = err ErrLauncherNameRequiresPrincipal"
proof -
  have "\<not> isLauncherIDSelector ''ci''" by code_simp
  then have "db_value (resolveLauncherSelector fault_free (Some 1) ''ci'') demo_owned 0 =
      Inr (launcher_view demo_owned demo_launcher demo_principal)"
    unfolding resolve_selector_exact [OF demo_owned_ok, THEN conjunct1]
    by (simp add: demo_owned_def demo_store_def demo_launcher_def demo_principal_def)
  moreover have "db_value (resolveLauncherSelector fault_free None ''ci'') demo_owned 0 = err ErrLauncherNameRequiresPrincipal"
    by code_simp
  ultimately show ?thesis by blast
qed

end
