(* ===== verification/Operator_Auth.thy ===== *)
theory Operator_Auth
  imports Launchers
begin

text \<open>
  operator\_auth.go, principal\_control\_auth.go, session\_control.go and the bearer parsing of
  response.go: how a request's bearer token becomes an operator authority, and how an authority and
  the selectors of a request become the scope the request may act on. A pointer is an option; a
  dereference of nil is the panic branch. The text of log lines is not modelled, the audit result and
  the error answer of a request are.
\<close>

section \<open>Answers and audit records\<close>

text \<open>
  An error answer with its status and code (its message is not modelled); the 401 answers, which
  also carry the \<^verbatim>\<open>WWW-Authenticate\<close> header and the code \<^verbatim>\<open>unauthorized\<close>; a JSON body; 204.
\<close>

datatype 'b http_response =
    HttpError nat string | HttpUnauthorized | HttpBody nat 'b | HttpNoContent

abbreviation internal_error :: "'b http_response" where
  "internal_error \<equiv> HttpError 500 ''internal_error''"

record request_audit =
  ra_Event :: string
  ra_Result :: string
  ra_SelfType :: string
  ra_SessionID :: string
  ra_Workspace :: string
  ra_PrincipalName :: string
  ra_LauncherID :: string
  ra_LauncherName :: string
  ra_CredentialID :: string

definition audit_event :: "string \<Rightarrow> string \<Rightarrow> request_audit" where
  "audit_event event result = \<lparr>ra_Event = event, ra_Result = result, ra_SelfType = [], ra_SessionID = [], ra_Workspace = [],
     ra_PrincipalName = [], ra_LauncherID = [], ra_LauncherName = [], ra_CredentialID = []\<rparr>"

definition writeAuthFailure :: "string \<Rightarrow> request_audit" where
  "writeAuthFailure result = audit_event ''auth.failure'' result"

text \<open>What a handler answers, with the audit records it writes.\<close>

type_synonym 'b reply = "'b http_response \<times> request_audit list"

text \<open>A step of a handler: it goes on with a value, or the request is answered.\<close>

type_synonym ('b, 'a) handler = "('b reply, 'a) result"

text \<open>\<^verbatim>\<open>r, err := ...\<close> whose error the caller inspects.\<close>

definition db_try :: "'a db \<Rightarrow> (go_error, 'a) result db" where
  "db_try m s n = (case m s n of (s', n', r) \<Rightarrow> (s', n', Inr r))"

text \<open>\<^verbatim>\<open>if err != nil || authCtx == nil { return }\<close> after a step that answers the request itself.\<close>

definition db_handle :: "('b, 'a) handler db \<Rightarrow> ('a \<Rightarrow> ('b, 'c) handler db) \<Rightarrow> ('b, 'c) handler db" where
  "db_handle m f = db_then m (\<lambda>r. case r of Inl reply \<Rightarrow> db_return (Inl reply) | Inr a \<Rightarrow> f a)"

definition parseBearerToken :: "string \<Rightarrow> string option" where
  "parseBearerToken auth =
     (if auth = [] then None
      else if length auth < 8 \<or> take 7 auth \<noteq> ''Bearer '' then None
      else let token = drop 7 auth in
        if token = [] \<or> CHR '' '' \<in> set token \<or> CHR 0x09 \<in> set token then None else Some token)"

section \<open>Operator authorities\<close>

type_synonym operatorAuthorityClass = int

definition operatorAuthorityInvalid :: operatorAuthorityClass where "operatorAuthorityInvalid = 0"
definition operatorAuthorityAdmin :: operatorAuthorityClass where "operatorAuthorityAdmin = 1"
definition operatorAuthorityPrincipal :: operatorAuthorityClass where "operatorAuthorityPrincipal = 2"
definition operatorAuthorityLauncher :: operatorAuthorityClass where "operatorAuthorityLauncher = 3"

lemmas class_defs = operatorAuthorityInvalid_def operatorAuthorityAdmin_def operatorAuthorityPrincipal_def
  operatorAuthorityLauncher_def

record operatorAuthority =
  oa_class :: operatorAuthorityClass
  oa_principal :: "PrincipalCredentialAuth option"
  oa_launcher :: "LauncherCredentialAuth option"

definition validate_authority :: "operatorAuthority option \<Rightarrow> (go_error, unit) result" where
  "validate_authority a =
     (case a of
        None \<Rightarrow> io_err
      | Some a \<Rightarrow>
          if oa_class a = operatorAuthorityAdmin then
            if oa_principal a \<noteq> None \<or> oa_launcher a \<noteq> None then io_err else Inr ()
          else if oa_class a = operatorAuthorityPrincipal then
            if oa_principal a = None then io_err else if oa_launcher a \<noteq> None then io_err else Inr ()
          else if oa_class a = operatorAuthorityLauncher then
            if oa_launcher a = None then io_err else if oa_principal a \<noteq> None then io_err else Inr ()
          else io_err)"

definition matchAdminToken :: "(string \<Rightarrow> string) \<Rightarrow> string \<Rightarrow> string \<Rightarrow> string \<times> bool" where
  "matchAdminToken hash adminHash token = (hash token, hash token = adminHash)"

datatype credentialAuthFailure =
    credentialAuthNotFound | credentialAuthRevoked | credentialAuthPrincipalDisabled
  | credentialAuthLauncherDisabled | credentialAuthDatabaseError

definition classifyCredentialAuthFailure :: "go_error \<Rightarrow> credentialAuthFailure" where
  "classifyCredentialAuthFailure e =
     (if errors_Is e ErrCredentialNotFound then credentialAuthNotFound
      else if errors_Is e ErrCredentialRevoked then credentialAuthRevoked
      else if errors_Is e ErrPrincipalDisabled then credentialAuthPrincipalDisabled
      else if errors_Is e ErrLauncherDisabled then credentialAuthLauncherDisabled
      else credentialAuthDatabaseError)"

definition isExpectedAuthFailure :: "credentialAuthFailure \<Rightarrow> bool" where
  "isExpectedAuthFailure f = (f \<noteq> credentialAuthDatabaseError)"

text \<open>
  The fall-through branch of the code, a credential without an owner, has no counterpart: the result
  of \<^const>\<open>authenticateCredential\<close> always names one.
\<close>

definition authenticateOperatorToken :: "(string \<Rightarrow> string) \<Rightarrow> string \<Rightarrow> db_io \<Rightarrow> string \<Rightarrow> operatorAuthority db" where
  "authenticateOperatorToken hash adminHash io token =
     (let checked = (\<lambda>auth. db_result (map_sum id (\<lambda>_. auth) (validate_authority (Some auth)))) in
      if snd (matchAdminToken hash adminHash token) then
        checked \<lparr>oa_class = operatorAuthorityAdmin, oa_principal = None, oa_launcher = None\<rparr>
      else db_then (authenticateCredential hash io token) (\<lambda>result.
        case result of
          AuthPrincipal p \<Rightarrow> checked \<lparr>oa_class = operatorAuthorityPrincipal, oa_principal = Some p, oa_launcher = None\<rparr>
        | AuthLauncher l \<Rightarrow> checked \<lparr>oa_class = operatorAuthorityLauncher, oa_principal = None, oa_launcher = Some l\<rparr>))"

section \<open>Request wrappers\<close>

definition writeInvalidOperatorAuthority :: "string \<Rightarrow> 'b reply" where
  "writeInvalidOperatorAuthority auditScope = (internal_error, [writeAuthFailure (auditScope @ ''.database_error'')])"

definition requireAdminWithHash :: "(string \<Rightarrow> string) \<Rightarrow> string \<Rightarrow> string \<Rightarrow> ('b, string) handler" where
  "requireAdminWithHash hash adminHash header =
     (let refuse = (\<lambda>result. Inl (HttpUnauthorized, [writeAuthFailure result])) in
      case parseBearerToken header of
        None \<Rightarrow> refuse ''admin.parse_failed''
      | Some token \<Rightarrow>
         (case matchAdminToken hash adminHash token of
            (tokenHash, matched) \<Rightarrow> if \<not> matched then refuse ''admin.wrong_token'' else Inr tokenHash))"

definition authenticatePrincipalControlRequest ::
    "(string \<Rightarrow> string) \<Rightarrow> string \<Rightarrow> db_io \<Rightarrow> string \<Rightarrow> string \<Rightarrow> ('b, operatorAuthority) handler db" where
  "authenticatePrincipalControlRequest hash adminHash io auditScope header =
     (let refuse = (\<lambda>result. db_return (Inl (HttpUnauthorized,
            [writeAuthFailure (auditScope @ result)]))) in
      case parseBearerToken header of
        None \<Rightarrow> refuse ''.parse_failed''
      | Some token \<Rightarrow>
          db_then (db_try (authenticateOperatorToken hash adminHash io token)) (\<lambda>r.
            case r of
              Inr authority \<Rightarrow>
                if oa_class authority = operatorAuthorityAdmin \<or> oa_class authority = operatorAuthorityPrincipal
                then db_return (Inr authority)
                else if oa_class authority = operatorAuthorityLauncher then refuse ''.unauthorized''
                else db_return (Inl (writeInvalidOperatorAuthority auditScope))
            | Inl e \<Rightarrow>
                if \<not> isExpectedAuthFailure (classifyCredentialAuthFailure e)
                then db_return (Inl (internal_error, [writeAuthFailure (auditScope @ ''.database_error'')]))
                else refuse ''.unauthorized''))"

text \<open>The wrapper of the Session handlers (sessions.go) accepts all three authorities.\<close>

definition authenticateSessionControlRequest ::
    "(string \<Rightarrow> string) \<Rightarrow> string \<Rightarrow> db_io \<Rightarrow> string \<Rightarrow> ('b, operatorAuthority) handler db" where
  "authenticateSessionControlRequest hash adminHash io header =
     (let refuse = (\<lambda>result. db_return (Inl (HttpUnauthorized,
            [writeAuthFailure result]))) in
      case parseBearerToken header of
        None \<Rightarrow> refuse ''parse_failed''
      | Some token \<Rightarrow>
          db_then (db_try (authenticateOperatorToken hash adminHash io token)) (\<lambda>r.
            case r of
              Inr authority \<Rightarrow>
                if oa_class authority \<in> {operatorAuthorityAdmin, operatorAuthorityPrincipal, operatorAuthorityLauncher}
                then db_return (Inr authority)
                else db_return (Inl (writeInvalidOperatorAuthority ''credential''))
            | Inl e \<Rightarrow>
                (case classifyCredentialAuthFailure e of
                   credentialAuthDatabaseError \<Rightarrow>
                     db_return (Inl (internal_error, [writeAuthFailure ''credential.database_error'']))
                 | credentialAuthRevoked \<Rightarrow> refuse ''credential.revoked''
                 | credentialAuthPrincipalDisabled \<Rightarrow> refuse ''principal.disabled''
                 | credentialAuthLauncherDisabled \<Rightarrow> refuse ''launcher.disabled''
                 | credentialAuthNotFound \<Rightarrow> refuse ''credential.not_found'')))"

section \<open>Principal-control targets\<close>

record principalControlTarget =
  ct_ID :: int
  ct_Name :: string

definition resolvePrincipalControlTarget ::
    "db_io \<Rightarrow> operatorAuthority option \<Rightarrow> string \<Rightarrow> principalControlTarget db" where
  "resolvePrincipalControlTarget io auth username =
     (if username = [] then db_fail ErrPrincipalNotFound
      else case auth of
          None \<Rightarrow> db_fail ErrInvalidControlAuthority
        | Some a \<Rightarrow>
            if oa_class a = operatorAuthorityAdmin then
              db_then (findPrincipalIDByUsername io username) (\<lambda>i. db_return \<lparr>ct_ID = i, ct_Name = username\<rparr>)
            else if oa_class a = operatorAuthorityPrincipal then
              (case oa_principal a of
                 None \<Rightarrow> db_fail GoPanic
               | Some p \<Rightarrow>
                  if username \<noteq> pa_PrincipalName p then db_fail ErrPrincipalNotFound
                  else db_then (query io (\<lambda>s. case principal_by_id (pa_PrincipalID p) s of
                      None \<Rightarrow> err ErrPrincipalNotFound | Some row \<Rightarrow> Inr (pr_username row))) (\<lambda>name.
                    if name \<noteq> pa_PrincipalName p then db_fail ErrPrincipalNotFound
                    else db_return \<lparr>ct_ID = pa_PrincipalID p, ct_Name = name\<rparr>))
            else db_fail ErrInvalidControlAuthority)"

definition writePrincipalControlLookupError :: "go_error \<Rightarrow> 'b http_response" where
  "writePrincipalControlLookupError e =
     (if errors_Is e ErrInvalidControlAuthority then internal_error
      else if errors_Is e ErrPrincipalNotFound then HttpError 404 ''principal_not_found''
      else internal_error)"

record listQueryScope =
  lq_allPrincipals :: bool
  lq_principal :: "principalControlTarget option"

definition resolveListScope :: "db_io \<Rightarrow> operatorAuthority option \<Rightarrow> string \<Rightarrow> ('b, listQueryScope) handler db" where
  "resolveListScope io auth selector =
     (let target = (\<lambda>username. db_then (db_try (resolvePrincipalControlTarget io auth username)) (\<lambda>r. db_return (
            case r of Inl e \<Rightarrow> Inl (writePrincipalControlLookupError e, [])
                    | Inr t \<Rightarrow> Inr \<lparr>lq_allPrincipals = False, lq_principal = Some t\<rparr>))) in
      case auth of
        None \<Rightarrow> db_return (Inl (internal_error, []))
      | Some a \<Rightarrow>
          if oa_class a = operatorAuthorityAdmin then
            if selector = [] then db_return (Inr \<lparr>lq_allPrincipals = True, lq_principal = None\<rparr>) else target selector
          else if oa_class a = operatorAuthorityPrincipal then
            (case oa_principal a of
               None \<Rightarrow> db_fail GoPanic
             | Some p \<Rightarrow>
                if selector \<noteq> [] \<and> selector \<noteq> pa_PrincipalName p
                then db_return (Inl (HttpError 404 ''principal_not_found'', []))
                else target (pa_PrincipalName p))
          else db_return (Inl (internal_error, [])))"

section \<open>Session-control scopes\<close>

record sessionControlScope =
  sc_admin :: bool
  sc_principalID :: int
  sc_launcherID :: string

definition emptySessionScope :: sessionControlScope where
  "emptySessionScope = \<lparr>sc_admin = False, sc_principalID = 0, sc_launcherID = []\<rparr>"

definition resolveSessionControlScope :: "operatorAuthority option \<Rightarrow> (go_error, sessionControlScope) result" where
  "resolveSessionControlScope auth =
     (case auth of
        None \<Rightarrow> io_err
      | Some a \<Rightarrow>
          if oa_class a = operatorAuthorityAdmin then Inr (emptySessionScope\<lparr>sc_admin := True\<rparr>)
          else if oa_class a = operatorAuthorityLauncher then
            (case oa_launcher a of None \<Rightarrow> err GoPanic | Some l \<Rightarrow> Inr (emptySessionScope\<lparr>sc_launcherID := ha_LauncherID l\<rparr>))
          else if oa_class a = operatorAuthorityPrincipal then
            (case oa_principal a of None \<Rightarrow> err GoPanic | Some p \<Rightarrow> Inr (emptySessionScope\<lparr>sc_principalID := pa_PrincipalID p\<rparr>))
          else io_err)"

definition narrowSessionScopeToLauncher :: "db_io \<Rightarrow> int \<Rightarrow> string \<Rightarrow> sessionControlScope db" where
  "narrowSessionScopeToLauncher io principalID launcherSel =
     db_then (resolveLauncherSelector io (if principalID \<noteq> 0 then Some principalID else None) launcherSel) (\<lambda>l.
       db_return (emptySessionScope\<lparr>sc_launcherID := lw_ID l\<rparr>))"

definition resolveSessionListScope ::
    "db_io \<Rightarrow> operatorAuthority option \<Rightarrow> string \<Rightarrow> string \<Rightarrow> sessionControlScope db" where
  "resolveSessionListScope io auth principalSel launcherSel =
     db_then (db_result (resolveSessionControlScope auth)) (\<lambda>base.
       if sc_launcherID base \<noteq> [] then
         if principalSel \<noteq> [] \<or> launcherSel \<noteq> [] then db_fail ErrInvalidSelector else db_return base
       else if sc_principalID base \<noteq> 0 then
         if principalSel \<noteq> [] then db_fail ErrInvalidSelector
         else if launcherSel = [] then db_return base
         else narrowSessionScopeToLauncher io (sc_principalID base) launcherSel
       else if sc_admin base then
         db_then (if principalSel = [] then db_return 0
                  else db_then (resolvePrincipalControlTarget io auth principalSel) (\<lambda>target. db_return (ct_ID target))) (\<lambda>principalID.
           if launcherSel = [] then
             if principalID \<noteq> 0 then db_return (emptySessionScope\<lparr>sc_principalID := principalID\<rparr>) else db_return base
           else narrowSessionScopeToLauncher io principalID launcherSel)
       else db_result io_err)"

section \<open>Create targets\<close>

record createSelector =
  sel_launcherID :: string
  sel_principal :: string

definition resolveLauncherWithinPrincipal :: "db_io \<Rightarrow> string \<Rightarrow> int \<Rightarrow> string db" where
  "resolveLauncherWithinPrincipal io launcherID principalID =
     db_then (query io (\<lambda>s. case launcher_by_id launcherID s of
         None \<Rightarrow> err ErrLauncherNotFound | Some l \<Rightarrow> Inr (la_principal l))) (\<lambda>ownerID.
       if ownerID \<noteq> principalID then db_fail ErrLauncherNotFound else db_return launcherID)"

definition resolveCreateLauncher :: "db_io \<Rightarrow> operatorAuthority option \<Rightarrow> createSelector \<Rightarrow> string db" where
  "resolveCreateLauncher io auth sel =
     (if sel_launcherID sel \<noteq> [] \<and> sel_principal sel \<noteq> [] then db_fail ErrConflictingSelectors
      else case auth of
          None \<Rightarrow> db_fail ErrInvalidSelector
        | Some a \<Rightarrow>
            if oa_class a = operatorAuthorityAdmin then
              if sel_launcherID sel \<noteq> [] then db_return (sel_launcherID sel)
              else if sel_principal sel \<noteq> [] then
                db_then (db_try (findPrincipalIDByUsername io (sel_principal sel))) (\<lambda>r.
                  case r of
                    Inl e \<Rightarrow> if errors_Is e ErrPrincipalNotFound then db_fail ErrLauncherNotFound else db_result (Inl e)
                  | Inr pid \<Rightarrow> findDefaultLauncher io pid)
              else db_fail ErrMissingLauncherSelector
            else if oa_class a = operatorAuthorityLauncher then
              if sel_principal sel \<noteq> [] then db_fail ErrInvalidSelector
              else (case oa_launcher a of
                  None \<Rightarrow> db_fail GoPanic
                | Some l \<Rightarrow>
                   if sel_launcherID sel \<noteq> [] \<and> sel_launcherID sel \<noteq> ha_LauncherID l then db_fail ErrLauncherNotFound
                   else db_return (ha_LauncherID l))
            else if oa_class a = operatorAuthorityPrincipal then
              if sel_principal sel \<noteq> [] then db_fail ErrInvalidSelector
              else (case oa_principal a of
                  None \<Rightarrow> db_fail GoPanic
                | Some p \<Rightarrow>
                   if sel_launcherID sel \<noteq> [] then resolveLauncherWithinPrincipal io (sel_launcherID sel) (pa_PrincipalID p)
                   else findDefaultLauncher io (pa_PrincipalID p))
            else db_fail ErrInvalidSelector)"

end
