(* ===== verification/Session_Snapshot.thy ===== *)
theory Session_Snapshot
  imports Root_Policy
begin

text \<open>
  The second half of \<^verbatim>\<open>allowed_root_policy.go\<close>: the immutable Session filesystem
  snapshot and its constructors, the writable-parent query, the exposure decision of the data plane,
  and the projection of a snapshot to the minimal MAC boundary roots.
\<close>

section \<open>Operations\<close>

record sessionFilesystemSnapshot =
  Workspace :: string
  Entries :: "AllowedRootEntry list"

datatype snapshot_error =
    SnapshotEntries entries_error | SnapshotWorkspace | SnapshotEmpty | SnapshotUnauthorized
  | SnapshotNotNormalized | SnapshotLostAuthority

definition newSessionFilesystemSnapshot ::
    "string \<Rightarrow> AllowedRootEntry list \<Rightarrow> (snapshot_error, sessionFilesystemSnapshot) result" where
  "newSessionFilesystemSnapshot workspace entries =
     (case validateCanonicalAllowedRootEntries entries of
        Some e \<Rightarrow> Inl (SnapshotEntries e)
      | None \<Rightarrow>
         if \<not> filepath_IsAbs workspace \<or> filepath_Clean workspace \<noteq> workspace then Inl SnapshotWorkspace
         else if entries = [] then Inl SnapshotEmpty
         else if lookupAllowedRootAccess entries workspace = None then Inl SnapshotUnauthorized
         else if entries \<noteq> normalizeAllowedRootEntries entries then Inl SnapshotNotNormalized
         else Inr \<lparr>Workspace = workspace, Entries = entries\<rparr>)"

fun derive_candidates ::
    "AllowedRootEntry list \<Rightarrow> string \<Rightarrow> AllowedRootEntry list \<Rightarrow> (snapshot_error, AllowedRootEntry list) result" where
  "derive_candidates effective workspace [] = Inr []"
| "derive_candidates effective workspace (e # es) =
     (if pathStrictlyWithin workspace (Path e) then
        (case lookupAllowedRootAccess effective (Path e) of
           None \<Rightarrow> Inl SnapshotLostAuthority
         | Some access \<Rightarrow>
             and_then (derive_candidates effective workspace es)
               (\<lambda>rest. Inr (mk_entry (Path e) access # rest)))
      else derive_candidates effective workspace es)"

definition deriveSessionFilesystemSnapshot ::
    "AllowedRootEntry list \<Rightarrow> string \<Rightarrow> (snapshot_error, sessionFilesystemSnapshot) result" where
  "deriveSessionFilesystemSnapshot effective workspace =
     (case validateCanonicalAllowedRootEntries effective of
        Some e \<Rightarrow> Inl (SnapshotEntries e)
      | None \<Rightarrow>
         if \<not> filepath_IsAbs workspace \<or> filepath_Clean workspace \<noteq> workspace then Inl SnapshotWorkspace
         else (case lookupAllowedRootAccess effective workspace of
                 None \<Rightarrow> Inl SnapshotUnauthorized
               | Some mode \<Rightarrow>
                   and_then (derive_candidates effective workspace effective)
                     (\<lambda>below. newSessionFilesystemSnapshot workspace
                        (normalizeAllowedRootEntries (mk_entry workspace mode # below)))))"

definition LookupAccess :: "sessionFilesystemSnapshot \<Rightarrow> string \<Rightarrow> AllowedRootAccess option" where
  "LookupAccess s source = lookupAllowedRootAccess (Entries s) source"

definition CanExposeWritable :: "sessionFilesystemSnapshot \<Rightarrow> string \<Rightarrow> bool" where
  "CanExposeWritable s source =
     (LookupAccess s source = Some RW \<and>
      list_all (\<lambda>e. \<not> (pathStrictlyWithin source (Path e) \<and> Access e = RO)) (Entries s))"

record sessionFilesystemExposure =
  SourcePath :: string
  exposureTarget :: string
  RequestedReadOnly :: bool
  exposureAccess :: AllowedRootAccess
  WritableAllowed :: bool

definition resolveSessionFilesystemExposure ::
    "sessionFilesystemSnapshot \<Rightarrow> string \<Rightarrow> string \<Rightarrow> bool \<Rightarrow> (go_error, sessionFilesystemExposure) result" where
  "resolveSessionFilesystemExposure snapshot sourcePath target requestedReadOnly =
     (case LookupAccess snapshot sourcePath of
        None \<Rightarrow> err ErrOutsideSessionSnapshot
      | Some access \<Rightarrow>
         (let exposure = \<lparr>SourcePath = sourcePath, exposureTarget = target,
                RequestedReadOnly = requestedReadOnly, exposureAccess = access,
                WritableAllowed = CanExposeWritable snapshot sourcePath\<rparr>
          in if requestedReadOnly then Inr exposure
             else if \<not> CanExposeWritable snapshot sourcePath then err ErrReadOnlyRoot
             else Inr exposure))"

text \<open>\<^verbatim>\<open>boundaryCoversTree\<close> of mac\_lifecycle.go and the canonical boundary projection.\<close>

definition boundaryCoversTree :: "string \<Rightarrow> string \<Rightarrow> bool" where
  "boundaryCoversTree boundary tree = pathWithin boundary tree"

fun mac_boundaries_loop :: "string list \<Rightarrow> AllowedRootEntry list \<Rightarrow> string list" where
  "mac_boundaries_loop kept [] = kept"
| "mac_boundaries_loop kept (e # es) =
     (if list_ex (\<lambda>b. boundaryCoversTree b (Path e)) kept then mac_boundaries_loop kept es
      else mac_boundaries_loop (kept @ [Path e]) es)"

definition sessionMACBoundaries :: "sessionFilesystemSnapshot \<Rightarrow> string list" where
  "sessionMACBoundaries snapshot = mac_boundaries_loop [] (Entries snapshot)"

section \<open>Accepted snapshots\<close>

text \<open>What every constructed snapshot satisfies.\<close>

definition snapshot_ok :: "sessionFilesystemSnapshot \<Rightarrow> bool" where
  "snapshot_ok s \<longleftrightarrow> canonical_path (Workspace s) \<and> scope_ok (Entries s) \<and> Entries s \<noteq> [] \<and>
     lookupAllowedRootAccess (Entries s) (Workspace s) \<noteq> None \<and>
     normalizeAllowedRootEntries (Entries s) = Entries s"

lemma newSnapshot_Inr_iff:
  "newSessionFilesystemSnapshot w es = Inr s \<longleftrightarrow> snapshot_ok s \<and> Workspace s = w \<and> Entries s = es"
proof (cases "validateCanonicalAllowedRootEntries es")
  case None
  then have ok: "scope_ok es" by (simp add: validate_None_iff)
  define N where "N = normalizeAllowedRootEntries es"
  have "newSessionFilesystemSnapshot w es = Inr s \<longleftrightarrow>
      canonical_path w \<and> es \<noteq> [] \<and> lookupAllowedRootAccess es w \<noteq> None \<and> N = es \<and>
      s = \<lparr>Workspace = w, Entries = es\<rparr>"
    unfolding newSessionFilesystemSnapshot_def None N_def [symmetric] canonical_path_def
    by (simp only: option.case sum.inject sum.distinct de_Morgan_conj not_not split: if_split) blast
  also have "\<dots> \<longleftrightarrow> snapshot_ok s \<and> Workspace s = w \<and> Entries s = es"
    unfolding N_def snapshot_ok_def using ok by (cases s) auto
  finally show ?thesis .
next
  case (Some e)
  then have "\<not> scope_ok es" using validate_None_iff by force
  then show ?thesis unfolding newSessionFilesystemSnapshot_def Some snapshot_ok_def by auto
qed

lemma snapshot_sorted: "snapshot_ok s \<Longrightarrow> sorted_wrt (<) (map Path (Entries s))"
  using normalize_sorted unfolding snapshot_ok_def by metis

section \<open>The inherited derivation\<close>

definition below_entries :: "string \<Rightarrow> AllowedRootEntry list \<Rightarrow> AllowedRootEntry list" where
  "below_entries w es = filter (\<lambda>e. pathStrictlyWithin w (Path e)) es"

lemma lookup_self:
  assumes "scope_ok es" and "e \<in> set es"
  shows "lookupAllowedRootAccess es (Path e) = Some (Access e)"
  by (rule lookup_deepest [OF assms(1) scope_okD(1) [OF assms]])
    (simp add: deepest_in_def assms(2) pw.inside_refl)

lemma derive_candidates_eq:
  assumes "scope_ok eff" and "set es \<subseteq> set eff"
  shows "derive_candidates eff w es = Inr (below_entries w es)"
  using assms(2)
proof (induction es)
  case Nil
  then show ?case by (simp add: below_entries_def)
next
  case (Cons e es)
  then have "lookupAllowedRootAccess eff (Path e) = Some (Access e)" using lookup_self [OF assms(1)] by simp
  with Cons show ?case by (simp add: below_entries_def)
qed

lemma inherited_scope_ok:
  assumes "scope_ok eff" and "canonical_path w" and "access_isValid mode"
  shows "scope_ok (mk_entry w mode # below_entries w eff)"
proof -
  have "scope_ok (below_entries w eff)"
    by (rule scope_ok_subset [OF assms(1)])
      (use scope_okD(3) [OF assms(1)] in \<open>auto simp: below_entries_def distinct_map\<close>)
  moreover have "w \<notin> Path ` set (below_entries w eff)"
    by (auto simp: below_entries_def pathStrictlyWithin_def)
  ultimately show ?thesis using assms(2,3) by (simp add: scope_ok_def)
qed

text \<open>Before normalization, the candidates answer as the effective policy does at and below the workspace.\<close>

lemma inherited_lookup:
  assumes ok: "scope_ok eff" and w: "canonical_path w" and mode: "lookupAllowedRootAccess eff w = Some mode"
    and p: "canonical_path p"
  shows "lookupAllowedRootAccess (mk_entry w mode # below_entries w eff) p =
     (if pathWithin w p then lookupAllowedRootAccess eff p else None)"
proof -
  let ?C = "mk_entry w mode # below_entries w eff"
  have valid: "access_isValid mode" using lookup_valid [OF ok w mode] by (auto simp: access_isValid_def)
  note cok = inherited_scope_ok [OF ok w valid]
  have strict: "pathStrictlyWithin w x \<longleftrightarrow> pathWithin w x \<and> x \<noteq> w" for x
    by (auto simp: pathStrictlyWithin_def pathWithin_def)
  have mem: "e \<in> set ?C \<longleftrightarrow> e = mk_entry w mode \<or> e \<in> set eff \<and> pathWithin w (Path e) \<and> Path e \<noteq> w" for e
    by (simp add: below_entries_def strict)
  show ?thesis
  proof (cases "pathWithin w p")
    case False
    have "\<not> pathWithin (Path e) p" if "e \<in> set ?C" for e
    proof
      assume "pathWithin (Path e) p"
      moreover have "pathWithin w (Path e)" using that pw.inside_refl unfolding mem by auto
      ultimately show False
        using False pw.inside_trans [OF w scope_okD(1) [OF cok that] p] by blast
    qed
    with False show ?thesis using lookup_None_iff [OF cok p] by simp
  next
    case True
    obtain d where d: "deepest (set eff) w d" "mode = Access d" by (rule lookup_Some_deepest [OF ok w mode])
    have dmem: "d \<in> set eff" "pathWithin (Path d) w" using d(1) by (auto simp: deepest_in_def)
    have "pathWithin (Path d) p" using pw.inside_trans [OF scope_okD(1) [OF ok dmem(1)] w p dmem(2) True] .
    then have "lookupAllowedRootAccess eff p \<noteq> None" using lookup_None_iff [OF ok p] dmem(1) by blast
    then obtain a where a: "lookupAllowedRootAccess eff p = Some a" by blast
    obtain f where f: "deepest (set eff) p f" "a = Access f" by (rule lookup_Some_deepest [OF ok p a])
    have fmem: "f \<in> set eff" "pathWithin (Path f) p" using f(1) by (auto simp: deepest_in_def)
    have cf: "canonical_path (Path f)" using scope_okD(1) [OF ok fmem(1)] .
    have up: "pathWithin (Path e) (Path f)" if "e \<in> set eff" "pathWithin (Path e) p" for e
      using f(1) that unfolding deepest_in_def by blast
    show ?thesis
    proof (cases "pathWithin w (Path f) \<and> Path f \<noteq> w")
      case below: True
      have "deepest (set ?C) p f" unfolding deepest_in_def
        using up below fmem mem mk_entry_simps(1) by (metis (no_types, lifting))
      with lookup_deepest [OF cok p] True a f(2) show ?thesis by simp
    next
      case False
      then have fw: "pathWithin (Path f) w"
        using pw.inside_chain [OF w cf p True fmem(2)] pw.inside_refl by blast
      have "lookupAllowedRootAccess eff w = Some (Access f)"
        by (rule lookup_below_deepest [OF ok p w f(1) fw True])
      moreover have "deepest (set ?C) p (mk_entry w mode)"
      proof -
        have "pathWithin (Path e) w" if "e \<in> set ?C" "pathWithin (Path e) p" for e
        proof (cases "e = mk_entry w mode")
          case True
          then show ?thesis using pw.inside_refl by simp
        next
          case ne: False
          then have e: "e \<in> set eff" using that(1) mem by blast
          show ?thesis using pw.inside_trans [OF scope_okD(1) [OF ok e] cf w up [OF e that(2)] fw] .
        qed
        then show ?thesis using True mem unfolding deepest_in_def by simp
      qed
      ultimately show ?thesis using lookup_deepest [OF cok p] True a f(2) mode by simp
    qed
  qed
qed

lemma derive_eq:
  assumes "scope_ok eff" and "canonical_path w" and "lookupAllowedRootAccess eff w = Some mode"
  shows "deriveSessionFilesystemSnapshot eff w =
     newSessionFilesystemSnapshot w (normalizeAllowedRootEntries (mk_entry w mode # below_entries w eff))"
proof -
  have "validateCanonicalAllowedRootEntries eff = None" using assms(1) by (simp add: validate_None_iff)
  then show ?thesis
    using assms(2,3) unfolding deriveSessionFilesystemSnapshot_def canonical_path_def
    by (simp add: derive_candidates_eq [OF assms(1) order_refl])
qed

section \<open>Writable exposure\<close>

lemma expose_writable_iff:
  assumes "snapshot_ok s" and "canonical_path source"
  shows "CanExposeWritable s source \<longleftrightarrow>
     (\<forall>p. canonical_path p \<longrightarrow> pathWithin source p \<longrightarrow> LookupAccess s p = Some RW)"
proof
  have ok: "scope_ok (Entries s)" using assms(1) by (simp add: snapshot_ok_def)
  show "\<forall>p. canonical_path p \<longrightarrow> pathWithin source p \<longrightarrow> LookupAccess s p = Some RW"
    if can: "CanExposeWritable s source"
  proof (intro allI impI)
    fix p assume p: "canonical_path p" and sp: "pathWithin source p"
    have look: "lookupAllowedRootAccess (Entries s) source = Some RW"
      using can by (simp add: CanExposeWritable_def LookupAccess_def)
    obtain d where d: "deepest (set (Entries s)) source d" "RW = Access d"
      by (rule lookup_Some_deepest [OF ok assms(2) look])
    have dmem: "d \<in> set (Entries s)" "pathWithin (Path d) source" using d(1) by (auto simp: deepest_in_def)
    have "pathWithin (Path d) p" using pw.inside_trans [OF scope_okD(1) [OF ok dmem(1)] assms(2) p dmem(2) sp] .
    then obtain a where a: "lookupAllowedRootAccess (Entries s) p = Some a"
      using lookup_None_iff [OF ok p] dmem(1) by blast
    obtain f where f: "deepest (set (Entries s)) p f" "a = Access f" by (rule lookup_Some_deepest [OF ok p a])
    have fmem: "f \<in> set (Entries s)" "pathWithin (Path f) p" using f(1) by (auto simp: deepest_in_def)
    have "a = RW"
    proof (cases "pathStrictlyWithin source (Path f)")
      case True
      then have "Access f \<noteq> RO" using can fmem(1) by (auto simp: CanExposeWritable_def list_all_iff)
      then show ?thesis using f(2) scope_okD(2) [OF ok fmem(1)] by (simp add: access_isValid_def)
    next
      case False
      then have "pathWithin (Path f) source"
        using pw.inside_chain [OF assms(2) scope_okD(1) [OF ok fmem(1)] p sp fmem(2)] pw.inside_refl
        by (auto simp: pathStrictlyWithin_def pathWithin_def)
      then show ?thesis using lookup_below_deepest [OF ok p assms(2) f(1) _ sp] look f(2) by simp
    qed
    then show "LookupAccess s p = Some RW" using a by (simp add: LookupAccess_def)
  qed
  show "CanExposeWritable s source"
    if all: "\<forall>p. canonical_path p \<longrightarrow> pathWithin source p \<longrightarrow> LookupAccess s p = Some RW"
  proof -
    have "Access e \<noteq> RO" if e: "e \<in> set (Entries s)" "pathStrictlyWithin source (Path e)" for e
    proof -
      have "pathWithin source (Path e)" using e(2) by (auto simp: pathStrictlyWithin_def pathWithin_def)
      then have "LookupAccess s (Path e) = Some RW" using all scope_okD(1) [OF ok e(1)] by blast
      then show ?thesis using lookup_self [OF ok e(1)] by (simp add: LookupAccess_def)
    qed
    then show ?thesis using all assms(2) pw.inside_refl unfolding CanExposeWritable_def list_all_iff by blast
  qed
qed

lemma unexposable_has_read_only:
  assumes "snapshot_ok s" and "canonical_path source" and "LookupAccess s source = Some a"
    and "\<not> CanExposeWritable s source"
  shows "\<exists>p. canonical_path p \<and> pathWithin source p \<and> LookupAccess s p = Some RO"
proof -
  have ok: "scope_ok (Entries s)" using assms(1) by (simp add: snapshot_ok_def)
  from assms(3,4) consider "a \<noteq> RW"
    | e where "e \<in> set (Entries s)" "pathStrictlyWithin source (Path e)" "Access e = RO"
    by (auto simp: CanExposeWritable_def list_all_iff)
  then show ?thesis
  proof cases
    case 1
    then have "a = RO" using lookup_valid [OF ok assms(2)] assms(3) unfolding LookupAccess_def by blast
    then show ?thesis using assms(2,3) pw.inside_refl by blast
  next
    case 2
    then have "pathWithin source (Path e)" by (auto simp: pathStrictlyWithin_def pathWithin_def)
    moreover have "LookupAccess s (Path e) = Some RO"
      using lookup_self [OF ok 2(1)] 2(3) by (simp add: LookupAccess_def)
    ultimately show ?thesis using scope_okD(1) [OF ok 2(1)] by blast
  qed
qed

section \<open>MAC boundaries\<close>

lemma mac_loop_covers:
  assumes "x \<in> set kept \<union> Path ` set es"
  shows "\<exists>b\<in>set (mac_boundaries_loop kept es). pathWithin b x"
  using assms
proof (induction es arbitrary: kept)
  case Nil
  then show ?case using pw.inside_refl by auto
next
  case (Cons e es)
  have mono: "set k \<subseteq> set (mac_boundaries_loop k fs)" for k fs
    by (induction fs arbitrary: k) (auto, fastforce)
  show ?case
  proof (cases "list_ex (\<lambda>b. boundaryCoversTree b (Path e)) kept")
    case True
    then obtain b where "b \<in> set kept" "pathWithin b (Path e)"
      by (auto simp: list_ex_iff boundaryCoversTree_def)
    then show ?thesis using Cons.IH [of kept] Cons.prems mono [of kept es] True by auto
  next
    case False
    then show ?thesis using Cons.IH [of "kept @ [Path e]"] Cons.prems by auto
  qed
qed

lemma mac_loop_subset: "set (mac_boundaries_loop kept es) \<subseteq> set kept \<union> Path ` set es"
proof (induction es arbitrary: kept)
  case Nil
  then show ?case by simp
next
  case (Cons e es)
  then show ?case using Cons.IH [of kept] Cons.IH [of "kept @ [Path e]"] by auto
qed

lemma mac_loop_antichain:
  assumes "\<forall>x\<in>set kept. \<forall>y\<in>set kept. x \<noteq> y \<longrightarrow> \<not> pathWithin x y"
    and "sorted_wrt (<) (map Path es)" and "\<forall>x\<in>set kept. \<forall>e\<in>set es. x < Path e"
    and "\<forall>x\<in>set kept \<union> Path ` set es. canonical_path x"
  shows "\<forall>x\<in>set (mac_boundaries_loop kept es). \<forall>y\<in>set (mac_boundaries_loop kept es). x \<noteq> y \<longrightarrow> \<not> pathWithin x y"
  using assms
proof (induction es arbitrary: kept)
  case Nil
  then show ?case by simp
next
  case (Cons e es)
  show ?case
  proof (cases "list_ex (\<lambda>b. boundaryCoversTree b (Path e)) kept")
    case True
    then have eq: "mac_boundaries_loop kept (e # es) = mac_boundaries_loop kept es" by simp
    show ?thesis unfolding eq by (rule Cons.IH) (use Cons.prems in auto)
  next
    case False
    then have eq: "mac_boundaries_loop kept (e # es) = mac_boundaries_loop (kept @ [Path e]) es" by simp
    have up: "\<not> pathWithin x (Path e)" if "x \<in> set kept" for x
      using False that by (auto simp: list_ex_iff boundaryCoversTree_def)
    have down: "\<not> pathWithin (Path e) x" if x: "x \<in> set kept" for x
    proof
      assume "pathWithin (Path e) x"
      then have "Path e \<le> x" using pw.inside_le Cons.prems(4) x by simp
      then show False using Cons.prems(3) x by (meson list.set_intros(1) not_le)
    qed
    show ?thesis unfolding eq
    proof (rule Cons.IH)
      show "\<forall>x\<in>set (kept @ [Path e]). \<forall>y\<in>set (kept @ [Path e]). x \<noteq> y \<longrightarrow> \<not> pathWithin x y"
        using Cons.prems(1) up down by simp
    qed (use Cons.prems in auto)
  qed
qed

section \<open>Properties\<close>



text \<open>
  The derivation refuses a legitimate policy when byte order separates an entry from its
  descendants: one normalization of this policy is not a fixed point of normalization, so the
  constructor rejects its own input as not canonically normalized and no Session can be created in
  the authorized workspace.
\<close>

theorem derive_refuses_own_normalization:
  "\<exists>eff. validateCanonicalAllowedRootEntries eff = None \<and>
     lookupAllowedRootAccess eff ''/r'' = Some RW \<and>
     normalizeAllowedRootEntries (normalizeAllowedRootEntries eff) \<noteq> normalizeAllowedRootEntries eff \<and>
     deriveSessionFilesystemSnapshot eff ''/r'' = Inl SnapshotNotNormalized"
  by (rule exI [of _ "[mk_entry ''/r'' RW, mk_entry ''/r/b'' RO, mk_entry ''/r/b-x'' RW, mk_entry ''/r/b/c'' RO]"])
    code_simp

text \<open>
  C16: The writable-parent rule is exact: a snapshot allows a source to be exposed writable if and
  only if every path at or below the source resolves to \<^verbatim>\<open>read_write\<close> in it.
\<close>

theorem writable_exposure_exact:
  assumes "newSessionFilesystemSnapshot workspace entries = Inr s" and "canonical_path source"
  shows "CanExposeWritable s source \<longleftrightarrow>
     (\<forall>p. canonical_path p \<longrightarrow> pathWithin source p \<longrightarrow> LookupAccess s p = Some RW)"
proof -
  have "snapshot_ok s" using assms(1) unfolding newSnapshot_Inr_iff by blast
  then show ?thesis using expose_writable_iff assms(2) by blast
qed

theorem writable_exposure_exact_witness:
  "CanExposeWritable \<lparr>Workspace = ''/w'', Entries = [mk_entry ''/w'' RW, mk_entry ''/w/ref'' RO]\<rparr> ''/w/src'' \<longleftrightarrow>
     (\<forall>p. canonical_path p \<longrightarrow> pathWithin ''/w/src'' p \<longrightarrow>
        LookupAccess \<lparr>Workspace = ''/w'', Entries = [mk_entry ''/w'' RW, mk_entry ''/w/ref'' RO]\<rparr> p = Some RW)"
  by (rule writable_exposure_exact [of "''/w''" "[mk_entry ''/w'' RW, mk_entry ''/w/ref'' RO]"]; code_simp)

text \<open>
  A mount request on a constructed snapshot is accepted exactly when the source is inside the
  snapshot and, for a writable request, nothing at or below the source is read-only; the refusal
  outside the snapshot and the refusal inside a read-only region are told apart by their error.
\<close>

theorem exposure_decision:
  assumes "newSessionFilesystemSnapshot workspace entries = Inr s" and "canonical_path source"
  shows "(case resolveSessionFilesystemExposure s source target readOnly of
            Inr x \<Rightarrow> SourcePath x = source \<and> exposureTarget x = target \<and> RequestedReadOnly x = readOnly \<and>
              LookupAccess s source = Some (exposureAccess x) \<and> WritableAllowed x = CanExposeWritable s source \<and>
              (\<not> readOnly \<longrightarrow> (\<forall>p. canonical_path p \<longrightarrow> pathWithin source p \<longrightarrow> LookupAccess s p = Some RW))
          | Inl e \<Rightarrow> if errors_Is e ErrOutsideSessionSnapshot then LookupAccess s source = None
              else errors_Is e ErrReadOnlyRoot \<and> \<not> readOnly \<and>
                (\<exists>p. canonical_path p \<and> pathWithin source p \<and> LookupAccess s p = Some RO))"
proof -
  have sok: "snapshot_ok s" using assms(1) unfolding newSnapshot_Inr_iff by blast
  note exact = expose_writable_iff [OF sok assms(2)]
  show ?thesis
  proof (cases "LookupAccess s source")
    case None
    then show ?thesis by (simp add: resolveSessionFilesystemExposure_def errors_Is_def)
  next
    case (Some a)
    have "\<exists>p. canonical_path p \<and> pathWithin source p \<and> LookupAccess s p = Some RO" if "\<not> CanExposeWritable s source"
      using unexposable_has_read_only [OF sok assms(2) Some that] .
    with Some exact show ?thesis
      by (cases "readOnly"; cases "CanExposeWritable s source")
        (simp_all add: resolveSessionFilesystemExposure_def errors_Is_def)
  qed
qed

theorem exposure_decision_witness:
  "(case resolveSessionFilesystemExposure \<lparr>Workspace = ''/w'', Entries = [mk_entry ''/w'' RW, mk_entry ''/w/ref'' RO]\<rparr>
       ''/w'' ''/mnt'' False of
      Inr x \<Rightarrow> False
    | Inl e \<Rightarrow> errors_Is e ErrReadOnlyRoot \<and>
        (\<exists>p. canonical_path p \<and> pathWithin ''/w'' p \<and>
           LookupAccess \<lparr>Workspace = ''/w'', Entries = [mk_entry ''/w'' RW, mk_entry ''/w/ref'' RO]\<rparr> p = Some RO))"
proof -
  let ?s = "\<lparr>Workspace = ''/w'', Entries = [mk_entry ''/w'' RW, mk_entry ''/w/ref'' RO]\<rparr>"
  have new: "newSessionFilesystemSnapshot ''/w'' [mk_entry ''/w'' RW, mk_entry ''/w/ref'' RO] = Inr ?s"
    and can: "canonical_path ''/w''" by code_simp+
  have eq: "resolveSessionFilesystemExposure ?s ''/w'' ''/mnt'' False = Inl [ErrReadOnlyRoot]" by code_simp
  show ?thesis using exposure_decision [OF new can, of False "''/mnt''"] unfolding eq by (simp add: errors_Is_def)
qed

text \<open>
  The MAC boundary projection of a constructed snapshot is exact: the boundaries are paths of
  the snapshot, none lies inside another, and the union of their trees is precisely what the snapshot
  authorizes.
\<close>

theorem mac_boundaries_exact:
  assumes "newSessionFilesystemSnapshot workspace entries = Inr s" and "canonical_path p"
  shows "set (sessionMACBoundaries s) \<subseteq> Path ` set (Entries s) \<and>
     (\<forall>x\<in>set (sessionMACBoundaries s). \<forall>y\<in>set (sessionMACBoundaries s). x \<noteq> y \<longrightarrow> \<not> pathWithin x y) \<and>
     ((\<exists>b\<in>set (sessionMACBoundaries s). pathWithin b p) \<longleftrightarrow> LookupAccess s p \<noteq> None)"
proof -
  have sok: "snapshot_ok s" using assms(1) unfolding newSnapshot_Inr_iff by blast
  then have ok: "scope_ok (Entries s)" by (simp add: snapshot_ok_def)
  have sub: "set (sessionMACBoundaries s) \<subseteq> Path ` set (Entries s)"
    using mac_loop_subset [of "[]"] by (simp add: sessionMACBoundaries_def)
  have anti: "\<forall>x\<in>set (sessionMACBoundaries s). \<forall>y\<in>set (sessionMACBoundaries s). x \<noteq> y \<longrightarrow> \<not> pathWithin x y"
    unfolding sessionMACBoundaries_def
    by (rule mac_loop_antichain) (use snapshot_sorted [OF sok] scope_okD(1) [OF ok] in auto)
  have "(\<exists>b\<in>set (sessionMACBoundaries s). pathWithin b p) \<longleftrightarrow> (\<exists>e\<in>set (Entries s). pathWithin (Path e) p)"
  proof
    assume "\<exists>e\<in>set (Entries s). pathWithin (Path e) p"
    then obtain e where e: "e \<in> set (Entries s)" "pathWithin (Path e) p" by blast
    then obtain b where b: "b \<in> set (sessionMACBoundaries s)" "pathWithin b (Path e)"
      using mac_loop_covers [of "Path e" "[]" "Entries s"] unfolding sessionMACBoundaries_def by auto
    have "canonical_path b" using sub b(1) scope_okD(1) [OF ok] by blast
    then have "pathWithin b p" using pw.inside_trans [OF _ scope_okD(1) [OF ok e(1)] assms(2) b(2) e(2)] by blast
    with b(1) show "\<exists>b\<in>set (sessionMACBoundaries s). pathWithin b p" by blast
  qed (use sub in blast)
  then have "(\<exists>b\<in>set (sessionMACBoundaries s). pathWithin b p) \<longleftrightarrow> LookupAccess s p \<noteq> None"
    unfolding LookupAccess_def lookup_None_iff [OF ok assms(2)] by blast
  with sub anti show ?thesis by (intro conjI)
qed

theorem mac_boundaries_exact_witness:
  "(\<exists>b\<in>set (sessionMACBoundaries \<lparr>Workspace = ''/w'', Entries = [mk_entry ''/w'' RW, mk_entry ''/w/ref'' RO]\<rparr>).
      pathWithin b ''/w/x'') \<longleftrightarrow>
   LookupAccess \<lparr>Workspace = ''/w'', Entries = [mk_entry ''/w'' RW, mk_entry ''/w/ref'' RO]\<rparr> ''/w/x'' \<noteq> None"
proof -
  have new: "newSessionFilesystemSnapshot ''/w'' [mk_entry ''/w'' RW, mk_entry ''/w/ref'' RO] =
      Inr \<lparr>Workspace = ''/w'', Entries = [mk_entry ''/w'' RW, mk_entry ''/w/ref'' RO]\<rparr>"
    and can: "canonical_path ''/w/x''" by code_simp+
  show ?thesis using mac_boundaries_exact [OF new can] by (elim conjE)
qed

end
