(* ===== verification/Principals.thy ===== *)
theory Principals
  imports Launchers
begin

text \<open>
  principal.go: resolution of the OS account, creation of a Principal with its default Launcher and
  optional credential, lookups, the enabled-state transition, the stored allowed-root mutations of a
  Principal and its deletion. The account database is the parameter \<^term>\<open>lookup\<close>.
\<close>

section \<open>OS accounts\<close>

text \<open>\<^verbatim>\<open>strconv.ParseInt(s, 10, 64)\<close>: an optional sign, at least one digit, within int64.\<close>

definition digit_value :: "char \<Rightarrow> int option" where
  "digit_value c = (if CHR ''0'' \<le> c \<and> c \<le> CHR ''9'' then Some (int (of_char c) - 48) else None)"

fun digits_value :: "int \<Rightarrow> string \<Rightarrow> int option" where
  "digits_value acc [] = Some acc"
| "digits_value acc (c # cs) =
     (case digit_value c of None \<Rightarrow> None | Some d \<Rightarrow> digits_value (10 * acc + d) cs)"

definition strconv_ParseInt :: "string \<Rightarrow> int option" where
  "strconv_ParseInt s =
     (let neg = (s \<noteq> [] \<and> hd s = CHR ''-''); digits = (if s \<noteq> [] \<and> hd s \<in> {CHR ''-'', CHR ''+''} then tl s else s)
      in if digits = [] then None
         else case digits_value 0 digits of
             None \<Rightarrow> None
           | Some v \<Rightarrow>
               if neg then (if v \<le> 2 ^ 63 then Some (- v) else None)
               else (if v < 2 ^ 63 then Some v else None))"

type_synonym os_users = "string \<Rightarrow> (string \<times> string \<times> string) option"

definition resolveOSUser :: "os_users \<Rightarrow> string \<Rightarrow> (go_error, int \<times> int \<times> string) result" where
  "resolveOSUser lookup username =
     (case lookup username of
        None \<Rightarrow> err ErrOSUserNotFound
      | Some (uStr, gStr, homeDir) \<Rightarrow>
         (case strconv_ParseInt uStr of
            None \<Rightarrow> err ErrOSUserNotFound
          | Some uid \<Rightarrow>
             (case strconv_ParseInt gStr of
                None \<Rightarrow> err ErrOSUserNotFound
              | Some gid \<Rightarrow> Inr (uid, gid, homeDir))))"

section \<open>Creation and lookup\<close>

record PrincipalWithRoots = principal_row +
  pw_AllowedRoots :: "AllowedRootEntry list"

definition with_roots :: "principal_row \<Rightarrow> AllowedRootEntry list \<Rightarrow> PrincipalWithRoots" where
  "with_roots p roots = \<lparr>pr_id = pr_id p, pr_username = pr_username p, pr_uid = pr_uid p, pr_gid = pr_gid p,
     pr_home = pr_home p, pr_enabled = pr_enabled p, pw_AllowedRoots = roots\<rparr>"

definition createPrincipalWithOptionalCredential ::
    "(string \<Rightarrow> string) \<Rightarrow> entropy \<Rightarrow> db_io \<Rightarrow> host_fs \<Rightarrow> int \<Rightarrow> os_users \<Rightarrow> string \<Rightarrow> AllowedRootEntry list \<Rightarrow> bool \<Rightarrow>
     (PrincipalWithRoots \<times> (PrincipalCredential \<times> string) option) db" where
  "createPrincipalWithOptionalCredential hash ent io fs euid lookup username globalAllowedRoots issueCredential =
     db_then (db_result (validatePrincipalUsername username)) (\<lambda>_.
       db_then (db_result (resolveOSUser lookup username)) (\<lambda>(uid, gid, home).
         if home = [] \<or> \<not> filepath_IsAbs home then db_result io_err
         else case canonicalizeWorkspacePathForAdd fs euid home of
             Inl _ \<Rightarrow> db_result io_err
           | Inr canonicalHome \<Rightarrow>
               if \<not> isWithinAnyAllowedRoot canonicalHome (allowedRootPaths globalAllowedRoots)
               then db_fail ErrPrincipalRootOutsideGlobal
               else with_tx io
                 (db_then (exec io (\<lambda>s. or_exists ErrPrincipalExists (insert_principal username uid gid home s))) (\<lambda>principalID.
                   db_then (exec io (\<lambda>s. no_result (or_fail
                       (insert_principal_root principalID (mk_entry canonicalHome AllowedRootAccessReadWrite) s)))) (\<lambda>_.
                     db_then (ensureDefaultLauncher ent io principalID) (\<lambda>_.
                       db_then (if issueCredential
                                then db_then (insertPrincipalCredentialInTx hash ent io principalID username ''default'')
                                       (\<lambda>c. db_return (Some c))
                                else db_return None) (\<lambda>cred.
                         db_return (\<lparr>pr_id = principalID, pr_username = username, pr_uid = uid, pr_gid = gid,
                           pr_home = home, pr_enabled = True, pw_AllowedRoots = [allowedRootEntry canonicalHome]\<rparr>, cred))))))))"

definition createPrincipal ::
    "entropy \<Rightarrow> db_io \<Rightarrow> host_fs \<Rightarrow> int \<Rightarrow> os_users \<Rightarrow> string \<Rightarrow> AllowedRootEntry list \<Rightarrow> PrincipalWithRoots db" where
  "createPrincipal ent io fs euid lookup username globalAllowedRoots =
     db_then (createPrincipalWithOptionalCredential (\<lambda>t. t) ent io fs euid lookup username globalAllowedRoots False)
       (\<lambda>(p, _). db_return p)"

definition findPrincipalByUsername :: "db_io \<Rightarrow> string \<Rightarrow> PrincipalWithRoots db" where
  "findPrincipalByUsername io username =
     (if username = [] then db_fail ErrPrincipalNotFound
      else db_then (findPrincipalIDByUsername io username) (\<lambda>principalID.
        db_then (findPrincipalByID io principalID) (\<lambda>p.
          db_then (query io (\<lambda>s. Inr (stored_roots principalID (principal_allowed_roots s)))) (\<lambda>roots.
            db_return (with_roots p roots)))))"

definition listPrincipalSummaries :: "db_io \<Rightarrow> (string \<times> int \<times> int \<times> string \<times> bool) list db" where
  "listPrincipalSummaries io =
     query io (\<lambda>s. Inr (map (\<lambda>p. (pr_username p, pr_uid p, pr_gid p, pr_home p, pr_enabled p))
       (sort_key pr_username (principals s))))"

section \<open>The enabled state\<close>

record launcherAdmission =
  ad_LauncherID :: string
  ad_Closed :: bool

definition launcherAdmissionsInTx :: "db_io \<Rightarrow> int \<Rightarrow> bool \<Rightarrow> launcherAdmission list db" where
  "launcherAdmissionsInTx io principalID principalEnabled =
     query io (\<lambda>s. Inr (map (\<lambda>l. \<lparr>ad_LauncherID = la_id l, ad_Closed = (\<not> principalEnabled \<or> \<not> la_enabled l)\<rparr>)
       (filter (\<lambda>l. la_principal l = principalID) (launchers s))))"

record principalEnabledChangeResult =
  ec_Changed :: bool
  ec_RevokedSessionIDs :: "string list"
  ec_LauncherAdmissions :: "launcherAdmission list"

definition owned_session :: "int \<Rightarrow> store \<Rightarrow> session_row \<Rightarrow> bool" where
  "owned_session principalID s x \<longleftrightarrow> se_launcher x \<in> set (launcher_ids_of principalID s)"

definition principal_enabled_tx :: "db_io \<Rightarrow> int \<Rightarrow> bool \<Rightarrow> bool \<Rightarrow> (principalEnabledChangeResult \<times> bool) db" where
  "principal_enabled_tx io principalID currentEnabled enabled =
     (if currentEnabled = enabled then
        db_then (launcherAdmissionsInTx io principalID enabled) (\<lambda>admissions.
          db_return (\<lparr>ec_Changed = False, ec_RevokedSessionIDs = [], ec_LauncherAdmissions = admissions\<rparr>, False))
      else
        db_then (exec io (\<lambda>s. Inr (s\<lparr>principals := update_rows (\<lambda>p. pr_id p = principalID)
            (\<lambda>p. p\<lparr>pr_enabled := enabled\<rparr>) (principals s)\<rparr>, ()))) (\<lambda>_.
          db_then (if enabled then db_return []
                   else db_then (query io (\<lambda>s. Inr (session_ids_of (owned_session principalID s) s))) (\<lambda>sessionIDs.
                     db_then (exec io (\<lambda>s. Inr (delete_sessions (owned_session principalID s) s, ()))) (\<lambda>_.
                       db_return sessionIDs))) (\<lambda>sessionIDs.
            db_then (launcherAdmissionsInTx io principalID enabled) (\<lambda>admissions.
              db_return (\<lparr>ec_Changed = True, ec_RevokedSessionIDs = sessionIDs,
                  ec_LauncherAdmissions = admissions\<rparr>, True)))))"

definition principal_change_tx :: "db_io \<Rightarrow> string \<Rightarrow> bool \<Rightarrow> (principalEnabledChangeResult \<times> bool) db" where
  "principal_change_tx io username enabled =
     db_then (findPrincipalIDByUsernameInTx io username) (\<lambda>principalID.
       db_then (query io (\<lambda>s. case principal_by_id principalID s of
           None \<Rightarrow> Inl [SqlErrNoRows] | Some p \<Rightarrow> Inr (pr_enabled p))) (\<lambda>currentEnabled.
         principal_enabled_tx io principalID currentEnabled enabled))"

definition persistPrincipalEnabledChange :: "db_io \<Rightarrow> string \<Rightarrow> bool \<Rightarrow> principalEnabledChangeResult db" where
  "persistPrincipalEnabledChange io username enabled =
     (if username = [] then db_fail ErrPrincipalNotFound
      else with_tx_rollback io (principal_change_tx io username enabled))"

section \<open>Stored-root mutations\<close>

definition storedPrincipalAllowedRootAccess :: "db_io \<Rightarrow> int \<Rightarrow> string \<Rightarrow> AllowedRootAccess db" where
  "storedPrincipalAllowedRootAccess io principalID canonicalPath =
     query io (\<lambda>s. case stored_access principalID canonicalPath (principal_allowed_roots s) of
       None \<Rightarrow> Inl [SqlErrNoRows] | Some a \<Rightarrow> Inr a)"

definition addPrincipalAllowedRoot ::
    "db_io \<Rightarrow> host_fs \<Rightarrow> int \<Rightarrow> string \<Rightarrow> string \<Rightarrow> AllowedRootAccess \<Rightarrow> string list \<Rightarrow> (bool \<times> AllowedRootEntry) db" where
  "addPrincipalAllowedRoot io fs euid username rootPath access globalAllowedRoots =
     (if username = [] then db_fail ErrPrincipalNotFound
      else if \<not> access_isValid access then db_fail ErrInvalidAllowedRootAccess
      else db_then (db_result (validatePrincipalAllowedRootForAdd fs euid rootPath)) (\<lambda>resolved.
        if \<not> isWithinAnyAllowedRoot resolved globalAllowedRoots then db_fail ErrPrincipalRootOutsideGlobal
        else db_then (findPrincipalIDByUsername io username) (\<lambda>principalID.
          db_then (exec io (or_ignore (insert_principal_root principalID (mk_entry resolved access)))) (\<lambda>affected.
            if affected then db_return (True, mk_entry resolved access)
            else db_then (storedPrincipalAllowedRootAccess io principalID resolved) (\<lambda>stored.
              db_return (False, mk_entry resolved stored))))))"

text \<open>\<^verbatim>\<open>sql.ErrNoRows\<close> of the stored access read becomes the not-found refusal.\<close>

definition no_rows_as :: "sentinel \<Rightarrow> 'a db \<Rightarrow> 'a db" where
  "no_rows_as e m s n =
     (case m s n of (s', n', Inl x) \<Rightarrow> (s', n', Inl (if errors_Is x SqlErrNoRows then [e] else x)) | r \<Rightarrow> r)"

definition setPrincipalAllowedRootAccess ::
    "db_io \<Rightarrow> host_fs \<Rightarrow> string \<Rightarrow> string \<Rightarrow> AllowedRootAccess \<Rightarrow> (bool \<times> AllowedRootEntry) db" where
  "setPrincipalAllowedRootAccess io fs username rootPath access =
     (if username = [] then db_fail ErrPrincipalNotFound
      else if \<not> access_isValid access then db_fail ErrInvalidAllowedRootAccess
      else if rootPath = [] then db_fail ErrInvalidAllowedRoot
      else if \<not> filepath_IsAbs rootPath then db_fail ErrInvalidAllowedRoot
      else db_then (db_result (resolveAllowedRootIdentity fs rootPath)) (\<lambda>resolved.
        db_then (findPrincipalIDByUsername io username) (\<lambda>principalID.
          db_then (no_rows_as ErrAllowedRootNotFound (storedPrincipalAllowedRootAccess io principalID resolved)) (\<lambda>stored.
            if stored = access then db_return (False, mk_entry resolved stored)
            else db_then (exec io (\<lambda>s. let hit = (\<lambda>r. rr_owner r = principalID \<and> Path (rr_entry r) = resolved) in
                Inr (s\<lparr>principal_allowed_roots := update_rows hit
                       (\<lambda>r. r\<lparr>rr_entry := (rr_entry r)\<lparr>Access := access\<rparr>\<rparr>) (principal_allowed_roots s)\<rparr>,
                     list_ex hit (principal_allowed_roots s)))) (\<lambda>affected.
              if \<not> affected then db_fail ErrAllowedRootNotFound
              else db_return (True, mk_entry resolved access))))))"

section \<open>Deletion\<close>

definition delete_principal_tx :: "db_io \<Rightarrow> string \<Rightarrow> string list db" where
  "delete_principal_tx io username =
     db_then (findPrincipalIDByUsernameInTx io username) (\<lambda>principalID.
       db_then (query io (\<lambda>s. Inr (session_ids_of (owned_session principalID s) s))) (\<lambda>sessionIDs.
         db_then (exec io (\<lambda>s. Inr (delete_sessions (owned_session principalID s) s, ()))) (\<lambda>_.
           db_then (exec io (\<lambda>s. no_result (or_fail (delete_principal_row principalID s)))) (\<lambda>_.
             db_return sessionIDs))))"

definition deletePrincipal :: "db_io \<Rightarrow> string \<Rightarrow> string list db" where
  "deletePrincipal io username = with_tx io (delete_principal_tx io username)"

section \<open>Integrity and atomicity\<close>

lemma no_rows_as_intros [db_intros]: "reads m \<Longrightarrow> reads (no_rows_as e m)" "keeps I m \<Longrightarrow> keeps I (no_rows_as e m)"
  by (auto simp: reads_def keeps_def no_rows_as_def split: prod.split sum.split) (metis fst_conv)+

lemma principal_reads [db_intros]:
  "reads (findPrincipalByUsername io u)" "reads (listPrincipalSummaries io)" "reads (launcherAdmissionsInTx io p b)"
  "reads (storedPrincipalAllowedRootAccess io p path)"
  unfolding findPrincipalByUsername_def listPrincipalSummaries_def launcherAdmissionsInTx_def
    storedPrincipalAllowedRootAccess_def
  by (intro db_intros)+

lemmas principal_reads_keep [db_intros] = principal_reads [THEN reads_keeps]

lemma keeps_set_enabled [db_intros]:
  "keeps store_ok (exec io (\<lambda>s. Inr (s\<lparr>principals := update_rows P (\<lambda>p. p\<lparr>pr_enabled := b\<rparr>) (principals s)\<rparr>, ())))"
  by (rule keeps_exec) (auto intro!: update_principals_ok)

lemma keeps_delete_sessions [db_intros]: "keeps store_ok (exec io (\<lambda>s. Inr (delete_sessions (P s) s, ())))"
  by (rule keeps_exec) (auto intro: delete_sessions_ok)

lemma create_principal_keeps [db_intros]:
  "keeps store_ok (createPrincipalWithOptionalCredential hash ent io fs euid lookup u g issue)"
proof -
  have "keeps store_ok (exec io (\<lambda>s. or_exists ErrPrincipalExists (insert_principal u uid gid home s)))" for uid gid home
    by (rule keeps_exec) (auto intro: insert_principal_ok)
  moreover have "keeps store_ok (exec io (\<lambda>s. no_result (or_fail (insert_principal_root i e s))))" for i e
    by (rule keeps_exec) (auto intro: insert_principal_root_ok)
  ultimately show ?thesis
    unfolding createPrincipalWithOptionalCredential_def
    by (intro db_intros) (auto split: sum.split intro!: db_intros)
qed

lemma principal_ops_keep [db_intros]:
  "keeps store_ok (persistPrincipalEnabledChange io u b)"
  "keeps store_ok (addPrincipalAllowedRoot io fs euid u path access g)"
  "keeps store_ok (setPrincipalAllowedRootAccess io fs u path access)"
  "keeps store_ok (deletePrincipal io u)"
proof -
  show "keeps store_ok (persistPrincipalEnabledChange io u b)"
    unfolding persistPrincipalEnabledChange_def principal_change_tx_def principal_enabled_tx_def by (intro db_intros)
  show "keeps store_ok (addPrincipalAllowedRoot io fs euid u path access g)"
    unfolding addPrincipalAllowedRoot_def by (intro db_intros keeps_or_ignore) (auto intro: insert_principal_root_ok)
  show "keeps store_ok (setPrincipalAllowedRootAccess io fs u path access)"
    unfolding setPrincipalAllowedRootAccess_def Let_def
    by (intro db_intros keeps_exec) (auto intro: update_principal_roots_ok)
  have "keeps store_ok (exec io (\<lambda>s. no_result (or_fail (delete_principal_row i s))))" for i
    by (rule keeps_exec) (auto intro: delete_principal_row_ok)
  then show "keeps store_ok (deletePrincipal io u)"
    unfolding deletePrincipal_def delete_principal_tx_def by (intro db_intros)
qed

lemma principal_ops_undone:
  assumes "reported io"
  shows "undone (createPrincipalWithOptionalCredential hash ent io fs euid lookup u g issue)"
    "undone (persistPrincipalEnabledChange io u b)" "undone (deletePrincipal io u)"
proof -
  show "undone (createPrincipalWithOptionalCredential hash ent io fs euid lookup u g issue)"
    unfolding createPrincipalWithOptionalCredential_def
    by (intro db_intros assms) (auto split: sum.split intro!: db_intros assms)
  show "undone (persistPrincipalEnabledChange io u b)" "undone (deletePrincipal io u)"
    unfolding persistPrincipalEnabledChange_def deletePrincipal_def by (intro db_intros assms)+
qed

section \<open>Properties\<close>

definition default_row :: "entropy \<Rightarrow> string \<Rightarrow> int \<Rightarrow> launcher_row" where
  "default_row ent i pid = \<lparr>la_id = i, la_principal = pid, la_name = ''default'', la_enabled = True, la_scope = ''inherit'',
     la_created = clock ent\<rparr>"

lemma ensure_default_created:
  assumes "ensureDefaultLauncher ent io pid s n = (s', n', Inr i)" and none: "default_launcher pid s = None"
  shows "insert_launcher (default_row ent i pid) s = Inr s'" and "default_launcher pid s' = Some (default_row ent i pid)"
    and "launchers s' = launchers s @ [default_row ent i pid]"
proof -
  obtain j b l where l: "default_launcher pid s' = Some l" "la_id l = i"
    and ins: "or_ignore (insert_launcher (default_row ent j pid)) s = Inr (s', b)"
    using assms unfolding ensureDefaultLauncher_def default_row_def [symmetric]
    by (auto simp: db_then_Inr db_simps split: option.splits)
  have b
  proof (rule ccontr)
    assume "\<not> b"
    then have "s' = s" using ins by (simp add: or_ignore_Inr)
    then show False using none l by simp
  qed
  then have new: "insert_launcher (default_row ent j pid) s = Inr s'" using ins by (simp add: or_ignore_Inr)
  then have app: "launchers s' = launchers s @ [default_row ent j pid]"
    by (auto simp: insert_launcher_def split: if_splits)
  then have found: "default_launcher pid s' = Some (default_row ent j pid)"
    using none by (simp add: default_launcher_def find_append_None) (simp add: default_row_def)
  then have "j = i" using l by (simp add: default_row_def)
  then show "insert_launcher (default_row ent i pid) s = Inr s'" "default_launcher pid s' = Some (default_row ent i pid)"
    "launchers s' = launchers s @ [default_row ent i pid]"
    using new found app by simp_all
qed

lemma create_principal_Inr:
  assumes "createPrincipalWithOptionalCredential hash ent io fs euid lookup u g issue s n = (s', n', r)" and "r = Inr (p, c)"
  obtains uid gid home ch t1 i t2 t3 k k' lid where
    "filepath_IsAbs home" "canonicalizeWorkspacePathForAdd fs euid home = Inr ch" "isWithinAnyAllowedRoot ch (allowedRootPaths g)"
    "insert_principal u uid gid home s = Inr (t1, i)" "insert_principal_root i (mk_entry ch RW) t1 = Inr t2"
    "ensureDefaultLauncher ent io i t2 k = (t3, k', Inr lid)"
    "if issue then \<exists>m c0. c = Some c0 \<and> insertPrincipalCredentialInTx hash ent io i u ''default'' t3 k' = (s', m, Inr c0)
       else c = None \<and> s' = t3"
    "p = \<lparr>pr_id = i, pr_username = u, pr_uid = uid, pr_gid = gid, pr_home = home, pr_enabled = True,
       pw_AllowedRoots = [mk_entry ch RW]\<rparr>"
proof -
  note run = assms(1) [unfolded assms(2) createPrincipalWithOptionalCredential_def db_then_result]
  obtain uid gid home where "resolveOSUser lookup u = Inr (uid, gid, home)" and abs: "filepath_IsAbs home"
    using run by (auto split: sum.splits if_splits)
  note run = run [unfolded this sum.case prod.case]
  obtain ch where ch: "canonicalizeWorkspacePathForAdd fs euid home = Inr ch"
      "isWithinAnyAllowedRoot ch (allowedRootPaths g)"
    using run by (auto split: sum.splits if_splits)
  note run = run [unfolded ch sum.case]
  obtain m where tx: "db_then (exec io (\<lambda>s. or_exists ErrPrincipalExists (insert_principal u uid gid home s))) (\<lambda>principalID.
      db_then (exec io (\<lambda>s. no_result (or_fail (insert_principal_root principalID (mk_entry ch RW) s)))) (\<lambda>_.
        db_then (ensureDefaultLauncher ent io principalID) (\<lambda>_.
          db_then (if issue then db_then (insertPrincipalCredentialInTx hash ent io principalID u ''default'') (\<lambda>c. db_return (Some c))
                   else db_return None) (\<lambda>cred.
            db_return (\<lparr>pr_id = principalID, pr_username = u, pr_uid = uid, pr_gid = gid, pr_home = home,
              pr_enabled = True, pw_AllowedRoots = [allowedRootEntry ch]\<rparr>, cred))))) s (Suc n) = (s', m, Inr (p, c))"
    using run by (auto simp: with_tx_Inr split: sum.splits if_splits)
  from tx show thesis
  proof (elim db_thenE, goal_cases)
    case (1 t1 k1 i t2 k2 u2 t3 k3 lid t4 k4 c0)
    then show ?case
      using that [OF abs ch, of uid gid t1 i t2 k2 t3 k3 lid]
      by (cases issue) (auto simp: db_simps db_then_Inr allowedRootEntry_def)
  qed
qed

lemma insert_principal_credential_Inr:
  assumes "insertPrincipalCredentialInTx hash ent io pid pn name s n = (s', n', Inr (cr, token))"
  shows "\<exists>row. s' = s\<lparr>credentials := credentials s @ [row]\<rparr>"
    and "store_ok s \<Longrightarrow> p \<in> set (principals s) \<Longrightarrow> pr_id p = pid \<Longrightarrow> pr_enabled p \<Longrightarrow>
      db_value (authenticateCredential hash fault_free token) s' k =
        Inr (AuthPrincipal \<lparr>pa_PrincipalID = pid, pa_PrincipalName = pr_username p, pa_CredentialID = pc_ID cr\<rparr>)"
proof -
  obtain cid where ins: "insert_credential \<lparr>cr_id = cid, cr_principal = Some pid, cr_launcher = None, cr_name = Some name,
      cr_hash = hash token, cr_created = clock ent, cr_revoked = None\<rparr> s = Inr s'" (is "insert_credential ?row s = _")
    and cid: "cid = pc_ID cr"
    using assms unfolding insertPrincipalCredentialInTx_def
    by (auto simp: db_then_Inr db_simps split: if_splits)
  then have s': "s' = s\<lparr>credentials := credentials s @ [?row]\<rparr>" by (auto simp: insert_credential_def split: if_splits)
  then show "\<exists>row. s' = s\<lparr>credentials := credentials s @ [row]\<rparr>" by blast
  assume ok: "store_ok s" and p: "p \<in> set (principals s)" "pr_id p = pid" "pr_enabled p"
  have ok': "store_ok s'" using insert_credential_ok [OF ok ins] .
  have row: "?row \<in> set (credentials s')" using s' by simp
  then have "find (\<lambda>c. cr_hash c = hash token) (credentials s') = Some ?row"
    using credential_by_hash [OF ok'] by simp
  moreover have "auth_of_row s' ?row =
      Inr (AuthPrincipal \<lparr>pa_PrincipalID = pid, pa_PrincipalName = pr_username p, pa_CredentialID = pc_ID cr\<rparr>)"
    unfolding auth_of_row_Inr(1) [OF ok' row] using p cid s' by (intro bexI [of _ p]) simp_all
  ultimately show "db_value (authenticateCredential hash fault_free token) s' k =
      Inr (AuthPrincipal \<lparr>pa_PrincipalID = pid, pa_PrincipalName = pr_username p, pa_CredentialID = pc_ID cr\<rparr>)"
    unfolding authenticate_value by simp
qed

text \<open>
  C34: creating a Principal is complete or has no effect. If it reports success, the returned
  projection is an enabled row of the store, its home is stored as its one read-write root and lies
  within a global root, it owns an enabled inherit-scope default Launcher without stored roots, and a
  credential that was asked for authenticates, with the returned bearer, as this Principal. If it
  reports an error, the store is unchanged unless a commit took effect unreported.
\<close>

theorem create_principal_complete:
  assumes "store_ok s"
    and "createPrincipalWithOptionalCredential hash ent io fs euid lookup u g issue s n = (s', n', r)"
  shows "(r = Inr (p, c) \<longrightarrow>
      (\<exists>row\<in>set (principals s'). with_roots row (stored_roots (pr_id row) (principal_allowed_roots s')) = p \<and>
         pr_username row = u \<and> pr_enabled row \<and>
         (\<exists>home. pw_AllowedRoots p = [mk_entry home RW] \<and> isWithinAnyAllowedRoot home (allowedRootPaths g)) \<and>
         (\<exists>l\<in>set (launchers s'). default_launcher (pr_id row) s' = Some l \<and> la_enabled l \<and> la_scope l = LauncherScopeInherit \<and>
            stored_roots (la_id l) (launcher_allowed_roots s') = []) \<and>
         (issue \<longleftrightarrow> c \<noteq> None) \<and>
         (\<forall>cred token. c = Some (cred, token) \<longrightarrow>
            db_value (authenticateCredential hash fault_free token) s' 0 =
              Inr (AuthPrincipal \<lparr>pa_PrincipalID = pr_id row, pa_PrincipalName = u, pa_CredentialID = pc_ID cred\<rparr>)))) \<and>
    (r = Inl e \<longrightarrow> reported io \<longrightarrow> s' = s)"
proof (intro conjI impI)
  show "s' = s" if "r = Inl e" "reported io"
    using principal_ops_undone(1) [OF that(2)] assms(2) that(1) unfolding undone_def by metis
  show "\<exists>row\<in>set (principals s'). with_roots row (stored_roots (pr_id row) (principal_allowed_roots s')) = p \<and>
         pr_username row = u \<and> pr_enabled row \<and>
         (\<exists>home. pw_AllowedRoots p = [mk_entry home RW] \<and> isWithinAnyAllowedRoot home (allowedRootPaths g)) \<and>
         (\<exists>l\<in>set (launchers s'). default_launcher (pr_id row) s' = Some l \<and> la_enabled l \<and> la_scope l = LauncherScopeInherit \<and>
            stored_roots (la_id l) (launcher_allowed_roots s') = []) \<and>
         (issue \<longleftrightarrow> c \<noteq> None) \<and>
         (\<forall>cred token. c = Some (cred, token) \<longrightarrow>
            db_value (authenticateCredential hash fault_free token) s' 0 =
              Inr (AuthPrincipal \<lparr>pa_PrincipalID = pr_id row, pa_PrincipalName = u, pa_CredentialID = pc_ID cred\<rparr>))"
    if r: "r = Inr (p, c)"
  proof -
  from assms(2) r obtain uid gid home ch t1 i t2 t3 k k' lid where
    ch: "filepath_IsAbs home" "canonicalizeWorkspacePathForAdd fs euid home = Inr ch" "isWithinAnyAllowedRoot ch (allowedRootPaths g)"
    and ins: "insert_principal u uid gid home s = Inr (t1, i)" "insert_principal_root i (mk_entry ch RW) t1 = Inr t2"
    and def: "ensureDefaultLauncher ent io i t2 k = (t3, k', Inr lid)"
    and cred: "if issue then \<exists>m c0. c = Some c0 \<and> insertPrincipalCredentialInTx hash ent io i u ''default'' t3 k' = (s', m, Inr c0)
       else c = None \<and> s' = t3"
    and p: "p = \<lparr>pr_id = i, pr_username = u, pr_uid = uid, pr_gid = gid, pr_home = home, pr_enabled = True,
       pw_AllowedRoots = [mk_entry ch RW]\<rparr>"
    by (rule create_principal_Inr)
  have fresh: "pr_id x \<noteq> i" if "x \<in> set (principals s)" for x
    using ins(1) store_okD(1) [OF assms(1)] that by (auto simp: insert_principal_def principals_ok_def Let_def split: if_splits)
  let ?row = "\<lparr>pr_id = i, pr_username = u, pr_uid = uid, pr_gid = gid, pr_home = home, pr_enabled = True\<rparr>"
  have t1: "principals t1 = principals s @ [?row]" "principal_allowed_roots t1 = principal_allowed_roots s"
    "launchers t1 = launchers s" "launcher_allowed_roots t1 = launcher_allowed_roots s"
    using ins(1) by (auto simp: insert_principal_def Let_def split: if_splits)
  have t2: "principals t2 = principals t1" "launchers t2 = launchers t1" "launcher_allowed_roots t2 = launcher_allowed_roots t1"
    "principal_allowed_roots t2 = principal_allowed_roots t1 @ [\<lparr>rr_owner = i, rr_entry = mk_entry ch RW\<rparr>]"
    using ins(2) by (auto simp: insert_principal_root_def split: if_splits)
  have ok2: "store_ok t2" using insert_principal_root_ok [OF insert_principal_ok [OF assms(1) ins(1)] ins(2)] .
  have nid: "\<not> has_principal i s" using fresh by (auto simp: has_principal_iff)
  have own: "la_principal x \<noteq> i" if "x \<in> set (launchers s)" for x
    using store_okD(3) [OF assms(1)] nid that unfolding launchers_ok_def by blast
  then have "default_launcher i t2 = None" by (auto simp: default_launcher_def find_None_none t1 t2)
  note new = ensure_default_created [OF def this]
  have t3: "principals t3 = principals t2" "principal_allowed_roots t3 = principal_allowed_roots t2"
    "launcher_allowed_roots t3 = launcher_allowed_roots t2" "lid \<notin> la_id ` set (launchers s)"
    using new(1) by (auto simp: insert_launcher_def default_row_def list_ex_iff t1 t2 split: if_splits)
  have roots: "stored_roots i (principal_allowed_roots t3) = [mk_entry ch RW]"
  proof -
    have "filter (\<lambda>r. rr_owner r = i) (principal_allowed_roots s) = []"
      using store_okD(2) [OF assms(1)] nid unfolding principal_roots_ok_def filter_empty_conv by blast
    then show ?thesis by (simp add: stored_roots_def t1 t2 t3)
  qed
  have no_roots: "stored_roots lid (launcher_allowed_roots t3) = []"
  proof -
    have "filter (\<lambda>r. rr_owner r = lid) (launcher_allowed_roots s) = []"
      using store_okD(4) [OF assms(1)] t3(4) unfolding launcher_roots_ok_def filter_empty_conv has_launcher_iff by blast
    then show ?thesis by (simp add: stored_roots_def t1 t2 t3)
  qed
  have ok3: "store_ok t3" using insert_launcher_ok [OF ok2 new(1)] .
  have tail: "principals s' = principals t3" "principal_allowed_roots s' = principal_allowed_roots t3"
    "launchers s' = launchers t3" "launcher_allowed_roots s' = launcher_allowed_roots t3" "issue \<longleftrightarrow> c \<noteq> None"
    using cred by (cases issue; auto dest!: insert_principal_credential_Inr(1))+
  have auth: "db_value (authenticateCredential hash fault_free token) s' 0 =
      Inr (AuthPrincipal \<lparr>pa_PrincipalID = i, pa_PrincipalName = u, pa_CredentialID = pc_ID cr\<rparr>)"
    if c: "c = Some (cr, token)" for cr token
  proof -
    obtain m where "insertPrincipalCredentialInTx hash ent io i u ''default'' t3 k' = (s', m, Inr (cr, token))"
      using cred c by (cases issue) auto
    from insert_principal_credential_Inr(2) [OF this ok3, of ?row] show ?thesis by (simp add: t1 t2 t3)
  qed
  have l: "default_launcher i s' = Some (default_row ent lid i)" "default_row ent lid i \<in> set (launchers s')"
    using new(2,3) by (simp_all add: tail default_launcher_def)
  show ?thesis
  proof (intro bexI [of _ ?row] conjI)
    show "\<exists>l\<in>set (launchers s'). default_launcher (pr_id ?row) s' = Some l \<and> la_enabled l \<and> la_scope l = LauncherScopeInherit \<and>
        stored_roots (la_id l) (launcher_allowed_roots s') = []"
      using l no_roots by (intro bexI [of _ "default_row ent lid i"]) (simp_all add: default_row_def LauncherScopeInherit_def tail)
    show "\<exists>home. pw_AllowedRoots p = [mk_entry home RW] \<and> isWithinAnyAllowedRoot home (allowedRootPaths g)"
      using ch p by (intro exI [of _ ch]) simp
    show "\<forall>cred token. c = Some (cred, token) \<longrightarrow> db_value (authenticateCredential hash fault_free token) s' 0 =
        Inr (AuthPrincipal \<lparr>pa_PrincipalID = pr_id ?row, pa_PrincipalName = u, pa_CredentialID = pc_ID cred\<rparr>)"
      using auth by simp
  qed (use roots tail in \<open>simp_all add: with_roots_def p t1 t2 t3\<close>)
  qed
qed

definition demo_entropy :: entropy where
  "demo_entropy = \<lparr>rnd_launcher = Some (replicate 16 1), rnd_token = Some (replicate 32 2), rnd_credential = Some (replicate 16 3), clock = 9\<rparr>"

definition demo_creation :: "store \<times> nat \<times> (go_error, PrincipalWithRoots \<times> (PrincipalCredential \<times> string) option) result" where
  "demo_creation = createPrincipalWithOptionalCredential (\<lambda>t. t) demo_entropy fault_free demo_fs 0
     (\<lambda>u. Some (''1000'', ''1000'', ''/home/alice'')) ''alice'' [mk_entry ''/home'' RW] True empty_store 0"

theorem create_principal_complete_witness:
  "\<exists>row\<in>set (principals (fst demo_creation)). pr_username row = ''alice'' \<and> pr_enabled row \<and>
     (\<exists>l\<in>set (launchers (fst demo_creation)). default_launcher (pr_id row) (fst demo_creation) = Some l \<and> la_enabled l)"
proof -
  obtain s' n' r where run: "demo_creation = (s', n', r)" by (metis prod_cases3)
  have "(case snd (snd demo_creation) of Inl _ \<Rightarrow> False | Inr _ \<Rightarrow> True)" by code_simp
  then obtain p c where r: "r = Inr (p, c)" unfolding run by (auto split: sum.splits)
  show ?thesis
    using create_principal_complete [OF store_ok_empty run [unfolded demo_creation_def], THEN conjunct1, rule_format, OF r]
    unfolding run fst_conv by blast
qed

end
