(* ===== verification/Snapshot_Store.thy ===== *)
theory Snapshot_Store
  imports Session_Snapshot Principals
begin

text \<open>
  session\_snapshot\_store.go: the persisted form of the Session filesystem snapshot. The entries of
  a snapshot are child rows of the Session in canonical order; one metadata row records their number
  and the digest of their framed representation, so that a loaded snapshot is provably the issued one.
  SHA-256 is a parameter. The theory shows the round trip through the tables, that the framing is
  injective and hence the loader accepts nothing but the issued entries, and what the cutover
  migration of a legacy database achieves. The inspection of the schema in
  \<^verbatim>\<open>sqlite_master\<close> is not modelled: its verdict is an argument of the migration.
\<close>

section \<open>Digest\<close>

fun decimal :: "nat \<Rightarrow> string" where
  "decimal n = (if n < 10 then [hex_digit n] else decimal (n div 10) @ [hex_digit (n mod 10)])"

declare decimal.simps [simp del]

abbreviation NUL :: char where "NUL \<equiv> CHR 0x00"

fun snapshot_frames :: "nat \<Rightarrow> AllowedRootEntry list \<Rightarrow> string" where
  "snapshot_frames i [] = []"
| "snapshot_frames i (e # es) =
     decimal i @ [NUL] @ Path e @ [NUL] @ Access e @ [NUL] @ snapshot_frames (Suc i) es"

definition sessionFilesystemSnapshotDigest :: "(string \<Rightarrow> string) \<Rightarrow> AllowedRootEntry list \<Rightarrow> string" where
  "sessionFilesystemSnapshotDigest hash entries = hash (snapshot_frames 0 entries)"

section \<open>Persistence\<close>

definition insertSessionFilesystemSnapshot ::
    "(string \<Rightarrow> string) \<Rightarrow> db_io \<Rightarrow> string \<Rightarrow> AllowedRootEntry list \<Rightarrow> unit db" where
  "insertSessionFilesystemSnapshot hash io sessionID entries =
     db_then (db_each (\<lambda>(i, e). exec io (\<lambda>s. no_result (or_fail (insert_snapshot_entry
         \<lparr>sn_session = sessionID, sn_position = int i, sn_entry = e\<rparr> s)))) (enumerate 0 entries)) (\<lambda>_.
       exec io (\<lambda>s. no_result (or_fail (insert_snapshot_meta
         \<lparr>sm_session = sessionID, sm_entry_count = int (length entries),
          sm_digest = sessionFilesystemSnapshotDigest hash entries\<rparr> s))))"

text \<open>The rows in position order; a position other than the index of its row is refused.\<close>

fun snapshot_positions :: "nat \<Rightarrow> snapshot_row list \<Rightarrow> (go_error, AllowedRootEntry list) result" where
  "snapshot_positions i [] = Inr []"
| "snapshot_positions i (r # rs) =
     (if sn_position r \<noteq> int i then io_err
      else and_then (snapshot_positions (Suc i) rs) (\<lambda>es. Inr (sn_entry r # es)))"

definition session_entries :: "string \<Rightarrow> store \<Rightarrow> snapshot_row list" where
  "session_entries sessionID s =
     sort_key sn_position (filter (\<lambda>r. sn_session r = sessionID) (snapshot_entries s))"

definition session_meta :: "string \<Rightarrow> store \<Rightarrow> snapshot_meta_row option" where
  "session_meta sessionID s = find (\<lambda>m. sm_session m = sessionID) (snapshot_meta s)"

definition loadSessionFilesystemSnapshot ::
    "(string \<Rightarrow> string) \<Rightarrow> db_io \<Rightarrow> string \<Rightarrow> string \<Rightarrow> sessionFilesystemSnapshot db" where
  "loadSessionFilesystemSnapshot hash io sessionID workspace =
     db_then (query io (\<lambda>s. case session_meta sessionID s of
         None \<Rightarrow> io_err | Some m \<Rightarrow> Inr (sm_entry_count m, sm_digest m))) (\<lambda>(entryCount, digest).
       db_then (query io (\<lambda>s. snapshot_positions 0 (session_entries sessionID s))) (\<lambda>entries.
         if entries = [] then db_result io_err
         else if entryCount \<noteq> int (length entries) then db_result io_err
         else if digest \<noteq> sessionFilesystemSnapshotDigest hash entries then db_result io_err
         else case newSessionFilesystemSnapshot workspace entries of
             Inl _ \<Rightarrow> db_result io_err
           | Inr snapshot \<Rightarrow> db_return snapshot))"

section \<open>Startup\<close>

definition snapshot_orphan :: "store \<Rightarrow> bool" where
  "snapshot_orphan s \<longleftrightarrow>
     list_ex (\<lambda>r. \<not> has_session (sn_session r) s) (snapshot_entries s) \<or>
     list_ex (\<lambda>m. \<not> has_session (sm_session m) s) (snapshot_meta s)"

definition verifySessionFilesystemSnapshots :: "(string \<Rightarrow> string) \<Rightarrow> db_io \<Rightarrow> unit db" where
  "verifySessionFilesystemSnapshots hash io =
     db_then (query io (\<lambda>s. if snapshot_orphan s then io_err else Inr ())) (\<lambda>_.
       db_then (query io (\<lambda>s. Inr (map (\<lambda>x. (se_id x, se_workspace x)) (sessions s)))) (\<lambda>rows.
         db_each (\<lambda>(i, workspace). db_then (loadSessionFilesystemSnapshot hash io i workspace) (\<lambda>_. db_return ())) rows))"

text \<open>\<^verbatim>\<open>INSERT INTO ... SELECT\<close>: all rows or none, with their number.\<close>

definition insert_selected :: "('r \<Rightarrow> store \<Rightarrow> (stmt_error, store) result) \<Rightarrow> 'r list \<Rightarrow> store \<Rightarrow> (stmt_error, store \<times> nat) result" where
  "insert_selected ins rows s = and_then (fold_result ins rows s) (\<lambda>t. Inr (t, length rows))"

definition compatibility_row :: "session_row \<Rightarrow> snapshot_row" where
  "compatibility_row x = \<lparr>sn_session = se_id x, sn_position = 0, sn_entry = mk_entry (se_workspace x) ''read_write''\<rparr>"

definition compatibility_meta :: "(string \<Rightarrow> string) \<Rightarrow> session_row \<Rightarrow> snapshot_meta_row" where
  "compatibility_meta hash x = \<lparr>sm_session = se_id x, sm_entry_count = 1,
     sm_digest = sessionFilesystemSnapshotDigest hash [mk_entry (se_workspace x) ''read_write'']\<rparr>"

definition backfillSessionFilesystemSnapshots :: "(string \<Rightarrow> string) \<Rightarrow> db_io \<Rightarrow> nat db" where
  "backfillSessionFilesystemSnapshots hash io =
     with_tx io
       (db_then (exec io (\<lambda>s. Inr (s\<lparr>snapshot_entries := []\<rparr>, ()))) (\<lambda>_.
        db_then (exec io (\<lambda>s. Inr (s\<lparr>snapshot_meta := []\<rparr>, ()))) (\<lambda>_.
        db_then (exec io (\<lambda>s. or_fail (insert_selected insert_snapshot_entry (map compatibility_row (sessions s)) s))) (\<lambda>backfilled.
        db_then (query io (\<lambda>s. Inr (sort_key se_id (sessions s)))) (\<lambda>rows.
        db_then (db_each (\<lambda>x. exec io (\<lambda>s. no_result (or_fail (insert_snapshot_meta (compatibility_meta hash x) s)))) rows) (\<lambda>_.
        db_then (query io (\<lambda>s. Inr (length (sessions s)))) (\<lambda>sessionCount.
        db_then (verifySessionFilesystemSnapshots hash io) (\<lambda>_.
        db_then (query io (\<lambda>s. Inr (length (snapshot_entries s)))) (\<lambda>entryCount.
          if entryCount \<noteq> sessionCount \<or> backfilled \<noteq> sessionCount then db_result io_err
          else db_return sessionCount)))))))))"

datatype sessionSnapshotSchemaClass =
  sessionSnapshotSchemaUnsupported | sessionSnapshotSchemaAbsent | sessionSnapshotSchemaCanonical

definition migrateSessionFilesystemSnapshots ::
    "(string \<Rightarrow> string) \<Rightarrow> db_io \<Rightarrow> (go_error, sessionSnapshotSchemaClass) result \<Rightarrow> nat db" where
  "migrateSessionFilesystemSnapshots hash io classified =
     (case classified of
        Inl e \<Rightarrow> db_result (Inl e)
      | Inr sessionSnapshotSchemaAbsent \<Rightarrow> backfillSessionFilesystemSnapshots hash io
      | Inr _ \<Rightarrow> db_then (verifySessionFilesystemSnapshots hash io) (\<lambda>_. db_return 0))"

section \<open>The framing is injective\<close>

lemma nul_split:
  assumes "NUL \<notin> set a" and "NUL \<notin> set b" and "a @ NUL # x = b @ NUL # y"
  shows "a = b" and "x = y"
proof -
  have "takeWhile (\<lambda>c. c \<noteq> NUL) (a @ NUL # x) = a" "takeWhile (\<lambda>c. c \<noteq> NUL) (b @ NUL # y) = b"
    using assms(1,2) by (auto simp: takeWhile_append)
  then show "a = b" using assms(3) by simp
  then show "x = y" using assms(3) by simp
qed

definition nul_free :: "AllowedRootEntry \<Rightarrow> bool" where
  "nul_free e \<longleftrightarrow> NUL \<notin> set (Path e) \<and> NUL \<notin> set (Access e)"

lemma snapshot_frames_inject:
  assumes "snapshot_frames i es = snapshot_frames i fs" and "list_all nul_free es" and "list_all nul_free fs"
  shows "es = fs"
  using assms
proof (induction es arbitrary: i fs)
  case Nil
  then show ?case by (cases fs) auto
next
  case (Cons e es)
  then obtain f gs where fs: "fs = f # gs" by (cases fs) auto
  from Cons.prems have eq: "Path e @ NUL # (Access e @ NUL # snapshot_frames (Suc i) es) =
      Path f @ NUL # (Access f @ NUL # snapshot_frames (Suc i) gs)"
    and free: "NUL \<notin> set (Path e)" "NUL \<notin> set (Path f)" "NUL \<notin> set (Access e)" "NUL \<notin> set (Access f)"
    by (simp_all add: fs nul_free_def)
  note p = nul_split [OF free(1,2) eq]
  note a = nul_split [OF free(3,4) p(2)]
  from p(1) a(1) have "e = f" by simp
  moreover have "es = gs" using Cons.IH [OF a(2)] Cons.prems(2,3) by (simp add: fs)
  ultimately show ?case by (simp add: fs)
qed

section \<open>Round trip\<close>

definition entry_rows :: "string \<Rightarrow> nat \<Rightarrow> AllowedRootEntry list \<Rightarrow> snapshot_row list" where
  "entry_rows sessionID i entries =
     map (\<lambda>(k, e). \<lparr>sn_session = sessionID, sn_position = int k, sn_entry = e\<rparr>) (enumerate i entries)"

lemma entry_rows_simps [simp]:
  "entry_rows sid i [] = []"
  "entry_rows sid i (e # es) = \<lparr>sn_session = sid, sn_position = int i, sn_entry = e\<rparr> # entry_rows sid (Suc i) es"
  by (simp_all add: entry_rows_def)

lemma entry_rows_mem: "r \<in> set (entry_rows sid i es) \<Longrightarrow> sn_session r = sid \<and> int i \<le> sn_position r"
  by (induction es arbitrary: i) force+

lemma entry_rows_sorted: "sorted (map sn_position (entry_rows sid i es))"
  by (induction es arbitrary: i) (force dest: entry_rows_mem)+

lemma snapshot_positions_rows: "snapshot_positions i (entry_rows sid i es) = Inr es"
  by (induction es arbitrary: i) auto

lemma insert_entries_Inr:
  assumes "db_each (\<lambda>(i, e). exec io (\<lambda>s. no_result (or_fail (insert_snapshot_entry
      \<lparr>sn_session = sid, sn_position = int i, sn_entry = e\<rparr> s)))) (enumerate i es) s n = (s', n', Inr u)"
  shows "s' = s\<lparr>snapshot_entries := snapshot_entries s @ entry_rows sid i es\<rparr>"
  using assms
proof (induction es arbitrary: i s n)
  case (Cons e es)
  then obtain t k where "insert_snapshot_entry \<lparr>sn_session = sid, sn_position = int i, sn_entry = e\<rparr> s = Inr t"
    and "db_each (\<lambda>(i, e). exec io (\<lambda>s. no_result (or_fail (insert_snapshot_entry
      \<lparr>sn_session = sid, sn_position = int i, sn_entry = e\<rparr> s)))) (enumerate (Suc i) es) t k = (s', n', Inr u)"
    by (auto simp: db_then_Inr db_simps)
  with Cons.IH show ?case by (fastforce simp: insert_snapshot_entry_def split: if_splits)
qed simp

lemma insert_snapshot_Inr:
  assumes "insertSessionFilesystemSnapshot hash io sid es s n = (s', n', Inr u)"
  shows "s' = s\<lparr>snapshot_entries := snapshot_entries s @ entry_rows sid 0 es, snapshot_meta := snapshot_meta s @
     [\<lparr>sm_session = sid, sm_entry_count = int (length es), sm_digest = sessionFilesystemSnapshotDigest hash es\<rparr>]\<rparr>"
  using assms by (auto simp: insertSessionFilesystemSnapshot_def db_then_Inr db_simps insert_snapshot_meta_def
      dest!: insert_entries_Inr split: if_splits)

lemma keeps_insert_snapshot [db_intros]: "keeps store_ok (insertSessionFilesystemSnapshot hash io sid es)"
proof -
  have "keeps store_ok (exec io (\<lambda>s. no_result (or_fail (insert_snapshot_entry r s))))" for r
    by (rule keeps_exec) (auto simp: no_result_def or_fail_def intro: insert_snapshot_entry_ok split: sum.splits)
  moreover have "keeps store_ok (exec io (\<lambda>s. no_result (or_fail (insert_snapshot_meta m s))))" for m
    by (rule keeps_exec) (auto simp: no_result_def or_fail_def intro: insert_snapshot_meta_ok split: sum.splits)
  ultimately show ?thesis
    unfolding insertSessionFilesystemSnapshot_def by (intro db_intros) auto
qed

lemma load_Inr:
  assumes "loadSessionFilesystemSnapshot hash io sid w s n = (s', n', Inr sn)"
  obtains m where "s' = s" and "session_meta sid s = Some m" and "snapshot_positions 0 (session_entries sid s) = Inr (Entries sn)"
    and "sm_digest m = sessionFilesystemSnapshotDigest hash (Entries sn)" and "newSessionFilesystemSnapshot w (Entries sn) = Inr sn"
proof -
  obtain m es where "s' = s" "session_meta sid s = Some m" "snapshot_positions 0 (session_entries sid s) = Inr es"
    "sm_digest m = sessionFilesystemSnapshotDigest hash es" "newSessionFilesystemSnapshot w es = Inr sn"
    using assms by (auto simp: loadSessionFilesystemSnapshot_def db_then_Inr db_simps split: if_splits option.splits sum.splits)
  moreover from this have "Entries sn = es" by (simp add: newSnapshot_Inr_iff)
  ultimately show thesis using that by blast
qed

lemma load_performed:
  assumes "session_meta sid s = Some m" and "snapshot_positions 0 (session_entries sid s) = Inr es"
    and "sm_entry_count m = int (length es)" and "sm_digest m = sessionFilesystemSnapshotDigest hash es"
    and "newSessionFilesystemSnapshot w es = Inr sn"
  shows "loadSessionFilesystemSnapshot hash fault_free sid w s n = (s, Suc (Suc n), Inr sn)"
proof -
  have "es \<noteq> []" using assms(5) by (auto simp: newSnapshot_Inr_iff snapshot_ok_def)
  then show ?thesis
    using assms by (simp add: loadSessionFilesystemSnapshot_def db_then_def query_def db_result_def fault_free_def)
qed

lemma reads_load [db_intros]: "reads (loadSessionFilesystemSnapshot hash io sid w)"
  unfolding loadSessionFilesystemSnapshot_def by (intro db_intros) (auto split: sum.split intro: db_intros)

definition no_snapshot :: "string \<Rightarrow> store \<Rightarrow> bool" where
  "no_snapshot sid s \<longleftrightarrow> list_all (\<lambda>r. sn_session r \<noteq> sid) (snapshot_entries s) \<and>
     list_all (\<lambda>m. sm_session m \<noteq> sid) (snapshot_meta s)"

lemma no_snapshot_fresh: "store_ok s \<Longrightarrow> \<not> has_session sid s \<Longrightarrow> no_snapshot sid s"
  using store_okD(7) by (fastforce simp: no_snapshot_def snapshots_ok_def list_all_iff)

lemma insert_entries_fault_free:
  assumes "has_session sid s" and "distinct (map Path es)" and "\<forall>e\<in>set es. access_isValid (Access e)"
    and "\<forall>r\<in>set (snapshot_entries s). sn_session r = sid \<longrightarrow> sn_position r < int i \<and> Path (sn_entry r) \<notin> Path ` set es"
  shows "\<exists>n'. db_each (\<lambda>(i, e). exec fault_free (\<lambda>s. no_result (or_fail (insert_snapshot_entry
      \<lparr>sn_session = sid, sn_position = int i, sn_entry = e\<rparr> s)))) (enumerate i es) s n =
    (s\<lparr>snapshot_entries := snapshot_entries s @ entry_rows sid i es\<rparr>, n', Inr ())"
  using assms
proof (induction es arbitrary: i s n)
  case (Cons e es)
  let ?r = "\<lparr>sn_session = sid, sn_position = int i, sn_entry = e\<rparr>"
  let ?t = "s\<lparr>snapshot_entries := snapshot_entries s @ [?r]\<rparr>"
  have "insert_snapshot_entry ?r s = Inr ?t"
    using Cons.prems by (auto simp: insert_snapshot_entry_def list_ex_iff)
  moreover have "\<exists>n'. db_each (\<lambda>(i, e). exec fault_free (\<lambda>s. no_result (or_fail (insert_snapshot_entry
      \<lparr>sn_session = sid, sn_position = int i, sn_entry = e\<rparr> s)))) (enumerate (Suc i) es) ?t (Suc n) =
    (?t\<lparr>snapshot_entries := snapshot_entries ?t @ entry_rows sid (Suc i) es\<rparr>, n', Inr ())"
  proof (rule Cons.IH)
    show "\<forall>r\<in>set (snapshot_entries ?t). sn_session r = sid \<longrightarrow> sn_position r < int (Suc i) \<and> Path (sn_entry r) \<notin> Path ` set es"
    proof (intro ballI impI)
      fix q
      assume "q \<in> set (snapshot_entries ?t)" "sn_session q = sid"
      then consider "q \<in> set (snapshot_entries s)" "sn_session q = sid" | "q = ?r" by auto
      then show "sn_position q < int (Suc i) \<and> Path (sn_entry q) \<notin> Path ` set es"
        using Cons.prems(2) Cons.prems(4) [rule_format, of q] by cases auto
    qed
  qed (use Cons.prems in \<open>simp_all add: has_session_def\<close>)
  ultimately show ?case
    by (auto simp: db_then_Inr exec_Inr fault_free_def)
qed (simp add: db_result_def)

lemma insert_snapshot_fault_free:
  assumes "has_session sid s" and "no_snapshot sid s" and "scope_ok es"
  obtains s' n' where "insertSessionFilesystemSnapshot hash fault_free sid es s n = (s', n', Inr ())"
proof -
  obtain k where k: "db_each (\<lambda>(i, e). exec fault_free (\<lambda>s. no_result (or_fail (insert_snapshot_entry
      \<lparr>sn_session = sid, sn_position = int i, sn_entry = e\<rparr> s)))) (enumerate 0 es) s n =
    (s\<lparr>snapshot_entries := snapshot_entries s @ entry_rows sid 0 es\<rparr>, k, Inr ())"
    using insert_entries_fault_free [of sid s es 0 n] assms by (auto simp: scope_ok_def no_snapshot_def list_all_iff)
  let ?m = "\<lparr>sm_session = sid, sm_entry_count = int (length es), sm_digest = sessionFilesystemSnapshotDigest hash es\<rparr>"
  let ?t = "s\<lparr>snapshot_entries := snapshot_entries s @ entry_rows sid 0 es\<rparr>"
  have m: "insert_snapshot_meta ?m ?t = Inr (?t\<lparr>snapshot_meta := snapshot_meta s @ [?m]\<rparr>)"
    using assms by (auto simp: insert_snapshot_meta_def no_snapshot_def list_all_iff list_ex_iff has_session_def)
  have "insertSessionFilesystemSnapshot hash fault_free sid es s n = (?t\<lparr>snapshot_meta := snapshot_meta s @ [?m]\<rparr>, Suc k, Inr ())"
    unfolding insertSessionFilesystemSnapshot_def db_then_Inr using k m by (intro exI conjI) (auto simp: exec_Inr fault_free_def)
  then show thesis by (rule that)
qed

lemma inserted_rows:
  assumes "insertSessionFilesystemSnapshot hash io sid es s n = (s', n', Inr u)" and "no_snapshot sid s"
  shows "session_entries sid s' = entry_rows sid 0 es"
    and "session_meta sid s' = Some \<lparr>sm_session = sid, sm_entry_count = int (length es),
      sm_digest = sessionFilesystemSnapshotDigest hash es\<rparr>"
proof -
  have "filter (\<lambda>r. sn_session r = sid) (snapshot_entries s) = []"
    using assms(2) by (simp add: no_snapshot_def filter_empty_conv list_all_iff)
  moreover have "filter (\<lambda>r. sn_session r = sid) (entry_rows sid 0 es) = entry_rows sid 0 es"
    by (simp add: entry_rows_mem)
  ultimately show "session_entries sid s' = entry_rows sid 0 es"
    using insert_snapshot_Inr [OF assms(1)] entry_rows_sorted by (simp add: session_entries_def sort_key_id)
  have "find (\<lambda>m. sm_session m = sid) (snapshot_meta s) = None"
    using assms(2) by (simp add: no_snapshot_def find_None_none list_all_iff)
  then show "session_meta sid s' = Some \<lparr>sm_session = sid, sm_entry_count = int (length es),
      sm_digest = sessionFilesystemSnapshotDigest hash es\<rparr>"
    using insert_snapshot_Inr [OF assms(1)] by (simp add: session_meta_def find_append_None)
qed

text \<open>A store holds the issued snapshot of a Session.\<close>

definition holds_snapshot :: "(string \<Rightarrow> string) \<Rightarrow> string \<Rightarrow> sessionFilesystemSnapshot \<Rightarrow> store \<Rightarrow> bool" where
  "holds_snapshot hash sid sn s \<longleftrightarrow> session_entries sid s = entry_rows sid 0 (Entries sn) \<and>
     session_meta sid s = Some \<lparr>sm_session = sid, sm_entry_count = int (length (Entries sn)),
       sm_digest = sessionFilesystemSnapshotDigest hash (Entries sn)\<rparr>"

lemma load_held:
  assumes "holds_snapshot hash sid sn s" and "snapshot_ok sn"
  shows "loadSessionFilesystemSnapshot hash fault_free sid (Workspace sn) s n = (s, Suc (Suc n), Inr sn)"
  using assms by (intro load_performed) (auto simp: holds_snapshot_def snapshot_positions_rows newSnapshot_Inr_iff)

text \<open>
  C39: A snapshot written for a Session that has none loads back as the same snapshot, the insertion
  of every constructed snapshot succeeds when the database works, and it touches no other Session's rows.
\<close>

theorem snapshot_roundtrip:
  assumes "snapshot_ok sn" and "has_session sid s" and "no_snapshot sid s"
  shows "\<exists>s' n'. insertSessionFilesystemSnapshot hash fault_free sid (Entries sn) s n = (s', n', Inr ()) \<and>
     loadSessionFilesystemSnapshot hash fault_free sid (Workspace sn) s' n' = (s', Suc (Suc n'), Inr sn) \<and>
     (\<forall>other. other \<noteq> sid \<longrightarrow> session_entries other s' = session_entries other s \<and> session_meta other s' = session_meta other s)"
proof -
  have "scope_ok (Entries sn)" using assms(1) by (simp add: snapshot_ok_def)
  with assms(2,3) obtain s' n' where ins: "insertSessionFilesystemSnapshot hash fault_free sid (Entries sn) s n = (s', n', Inr ())"
    by (rule insert_snapshot_fault_free)
  have "holds_snapshot hash sid sn s'" using inserted_rows [OF ins assms(3)] by (simp add: holds_snapshot_def)
  moreover have "session_entries other s' = session_entries other s \<and> session_meta other s' = session_meta other s"
    if "other \<noteq> sid" for other
  proof -
    have "filter (\<lambda>r. sn_session r = other) (entry_rows sid 0 (Entries sn)) = []"
      using that by (auto simp: filter_empty_conv dest: entry_rows_mem)
    moreover have "find (\<lambda>m. sm_session m = other) (ms @ [\<lparr>sm_session = sid, sm_entry_count = c, sm_digest = d\<rparr>]) =
        find (\<lambda>m. sm_session m = other) ms" for ms c d
      using that by (induction ms) auto
    ultimately show ?thesis
      using insert_snapshot_Inr [OF ins] by (simp add: session_entries_def session_meta_def)
  qed
  ultimately show ?thesis using ins load_held [OF _ assms(1)] by blast
qed

lemma positions_subset: "snapshot_positions i rs = Inr es \<Longrightarrow> set es \<subseteq> sn_entry ` set rs"
proof (induction rs arbitrary: i es)
  case (Cons r rs)
  then show ?case by (fastforce split: if_splits)
qed simp

text \<open>
  C40: Whatever the entry rows have become, a successful load against the metadata recorded at issuance
  returns exactly the issued entries: removed, added, reordered or altered rows fail closed. The digest
  has to be free of collisions between the two framed representations, and paths free of NUL bytes.
\<close>

theorem load_only_issued:
  assumes "loadSessionFilesystemSnapshot hash io sid w s n = (s', n', Inr sn)"
    and "session_meta sid s = Some m" and "sm_digest m = sessionFilesystemSnapshotDigest hash issued"
    and "hash (snapshot_frames 0 issued) = hash (snapshot_frames 0 (Entries sn)) \<Longrightarrow>
      snapshot_frames 0 issued = snapshot_frames 0 (Entries sn)"
    and "list_all nul_free issued" and "list_all nul_free (map sn_entry (snapshot_entries s))"
  shows "s' = s \<and> sn = \<lparr>Workspace = w, Entries = issued\<rparr> \<and> snapshot_ok sn"
proof -
  obtain k where k: "session_meta sid s = Some k" "s' = s" "snapshot_positions 0 (session_entries sid s) = Inr (Entries sn)"
    "sm_digest k = sessionFilesystemSnapshotDigest hash (Entries sn)" "newSessionFilesystemSnapshot w (Entries sn) = Inr sn"
    using load_Inr [OF assms(1)] by metis
  from positions_subset [OF k(3)] have "list_all nul_free (Entries sn)"
    using assms(6) by (auto simp: list_all_iff session_entries_def)
  moreover have "snapshot_frames 0 issued = snapshot_frames 0 (Entries sn)"
    using assms(2,3) k(1,4) by (intro assms(4)) (simp add: sessionFilesystemSnapshotDigest_def)
  ultimately have "Entries sn = issued" using snapshot_frames_inject assms(5) by metis
  moreover have "Workspace sn = w" "snapshot_ok sn" using k(5) unfolding newSnapshot_Inr_iff by blast+
  ultimately show ?thesis using k(2) by simp
qed

lemma fault_free_runs:
  "db_then (exec fault_free f) g s n = (case f s of Inl e \<Rightarrow> (s, Suc n, Inl e) | Inr (t, a) \<Rightarrow> g a t (Suc n))"
  "db_then (query fault_free q) h s n = (case q s of Inl e \<Rightarrow> (s, Suc n, Inl e) | Inr a \<Rightarrow> h a s (Suc n))"
  "with_tx fault_free body s n = (case body s (Suc n) of (t, m, Inl e) \<Rightarrow> (s, m, Inl e) | (t, m, Inr a) \<Rightarrow> (t, Suc m, Inr a))"
  by (simp_all add: db_then_def exec_def query_def with_tx_err_def split: sum.splits prod.splits)

section \<open>The cutover of a legacy database\<close>

lemma insert_compatibility_rows:
  assumes "distinct (map se_id xs)" and "\<forall>x\<in>set xs. has_session (se_id x) s"
    and "\<forall>x\<in>set xs. \<forall>r\<in>set (snapshot_entries s). sn_session r \<noteq> se_id x"
  shows "fold_result insert_snapshot_entry (map compatibility_row xs) s =
    Inr (s\<lparr>snapshot_entries := snapshot_entries s @ map compatibility_row xs\<rparr>)"
  using assms
proof (induction xs arbitrary: s)
  case (Cons x xs)
  let ?t = "s\<lparr>snapshot_entries := snapshot_entries s @ [compatibility_row x]\<rparr>"
  have "insert_snapshot_entry (compatibility_row x) s = Inr ?t"
    using Cons.prems by (auto simp: insert_snapshot_entry_def compatibility_row_def list_ex_iff access_isValid_def
        AllowedRootAccessReadWrite_def mk_entry_def)
  moreover have "fold_result insert_snapshot_entry (map compatibility_row xs) ?t =
      Inr (?t\<lparr>snapshot_entries := snapshot_entries ?t @ map compatibility_row xs\<rparr>)"
    using Cons.prems by (intro Cons.IH) (auto simp: has_session_def compatibility_row_def)
  ultimately show ?case by simp
qed simp

lemma insert_compatibility_metas:
  assumes "distinct (map se_id xs)" and "\<forall>x\<in>set xs. has_session (se_id x) s"
    and "\<forall>x\<in>set xs. \<forall>m\<in>set (snapshot_meta s). sm_session m \<noteq> se_id x"
  shows "\<exists>n'. db_each (\<lambda>x. exec fault_free (\<lambda>s. no_result (or_fail (insert_snapshot_meta (compatibility_meta hash x) s)))) xs s n =
    (s\<lparr>snapshot_meta := snapshot_meta s @ map (compatibility_meta hash) xs\<rparr>, n', Inr ())"
  using assms
proof (induction xs arbitrary: s n)
  case (Cons x xs)
  let ?t = "s\<lparr>snapshot_meta := snapshot_meta s @ [compatibility_meta hash x]\<rparr>"
  have "insert_snapshot_meta (compatibility_meta hash x) s = Inr ?t"
    using Cons.prems by (auto simp: insert_snapshot_meta_def compatibility_meta_def list_ex_iff)
  moreover have "\<exists>n'. db_each (\<lambda>x. exec fault_free (\<lambda>s. no_result (or_fail (insert_snapshot_meta (compatibility_meta hash x) s)))) xs ?t (Suc n) =
    (?t\<lparr>snapshot_meta := snapshot_meta ?t @ map (compatibility_meta hash) xs\<rparr>, n', Inr ())"
    using Cons.prems by (intro Cons.IH) (auto simp: has_session_def compatibility_meta_def)
  ultimately show ?case by (auto simp: db_then_Inr exec_Inr fault_free_def)
qed (simp add: db_result_def)

definition compatibility_snapshot :: "session_row \<Rightarrow> sessionFilesystemSnapshot" where
  "compatibility_snapshot x = \<lparr>Workspace = se_workspace x, Entries = [mk_entry (se_workspace x) RW]\<rparr>"

lemma compatibility_snapshot_ok: "canonical_path (se_workspace x) \<Longrightarrow> snapshot_ok (compatibility_snapshot x)"
  by (simp add: snapshot_ok_def compatibility_snapshot_def scope_ok_def mk_entry_def lookupAllowedRootAccess_def
      normalizeAllowedRootEntries_def sortAllowedRootEntriesCanonical_def access_isValid_def pw.inside_refl)

definition backfilled :: "(string \<Rightarrow> string) \<Rightarrow> store \<Rightarrow> store" where
  "backfilled hash s = s\<lparr>snapshot_entries := map compatibility_row (sessions s),
     snapshot_meta := map (compatibility_meta hash) (sort_key se_id (sessions s))\<rparr>"

lemma filter_key: "distinct (map f xs) \<Longrightarrow> x \<in> set xs \<Longrightarrow> filter (\<lambda>y. f y = f x) xs = [x]"
proof (induction xs)
  case (Cons y ys)
  then show ?case by (auto simp: filter_empty_conv image_iff)
qed simp

lemma backfilled_holds:
  assumes "store_ok s" and "x \<in> set (sessions s)"
  shows "holds_snapshot hash (se_id x) (compatibility_snapshot x) (backfilled hash s)"
proof -
  have d: "distinct (map se_id (sessions s))" using store_okD(6) [OF assms(1)] by (simp add: sessions_ok_def)
  have "filter (\<lambda>r. sn_session r = se_id x) (map compatibility_row (sessions s)) =
      map compatibility_row (filter (\<lambda>y. se_id y = se_id x) (sessions s))"
    by (simp add: filter_map comp_def compatibility_row_def)
  then have e: "session_entries (se_id x) (backfilled hash s) = [compatibility_row x]"
    by (simp add: session_entries_def backfilled_def filter_key [OF d assms(2)])
  have "find (\<lambda>m. sm_session m = se_id x) (map (compatibility_meta hash) (sort_key se_id (sessions s))) = Some (compatibility_meta hash x)"
  proof (rule find_unique)
    fix m
    assume "m \<in> set (map (compatibility_meta hash) (sort_key se_id (sessions s)))" and "sm_session m = se_id x"
    then obtain y where "y \<in> set (sessions s)" "m = compatibility_meta hash y" "se_id y = se_id x"
      by (auto simp: compatibility_meta_def)
    then show "m = compatibility_meta hash x" using distinct_map_eqD [OF d _ assms(2)] by blast
  qed (use assms(2) in \<open>auto simp: compatibility_meta_def\<close>)
  then show ?thesis
    using e by (simp add: holds_snapshot_def session_meta_def backfilled_def compatibility_row_def compatibility_meta_def
        compatibility_snapshot_def AllowedRootAccessReadWrite_def)
qed

lemma verify_held:
  assumes "\<not> snapshot_orphan s" and "\<And>x. x \<in> set (sessions s) \<Longrightarrow> \<exists>sn. holds_snapshot hash (se_id x) sn s \<and> snapshot_ok sn \<and> Workspace sn = se_workspace x"
  shows "\<exists>n'. verifySessionFilesystemSnapshots hash fault_free s n = (s, n', Inr ())"
proof -
  let ?body = "\<lambda>(i, w). db_then (loadSessionFilesystemSnapshot hash fault_free i w) (\<lambda>_. db_return ())"
  have "\<exists>n'. db_each ?body (map (\<lambda>x. (se_id x, se_workspace x)) xs) s k = (s, n', Inr ())" if "set xs \<subseteq> set (sessions s)" for xs k
    using that
  proof (induction xs arbitrary: k)
    case (Cons x xs)
    then have "x \<in> set (sessions s)" by simp
    then obtain sn where sn: "holds_snapshot hash (se_id x) sn s" "snapshot_ok sn" "Workspace sn = se_workspace x"
      using assms(2) by blast
    have "?body (se_id x, se_workspace x) s k = (s, Suc (Suc k), Inr ())"
      using load_held [OF sn(1,2)] sn(3) by (simp add: db_then_def db_result_def)
    moreover obtain n' where "db_each ?body (map (\<lambda>x. (se_id x, se_workspace x)) xs) s (Suc (Suc k)) = (s, n', Inr ())"
      using Cons.IH [of "Suc (Suc k)"] Cons.prems by (metis (no_types, lifting) insert_subset list.simps(15))
    ultimately show ?case by (auto simp: db_then_Inr simp del: fault_free_simps)
  qed (simp add: db_result_def)
  then show ?thesis
    using assms(1) by (auto simp: verifySessionFilesystemSnapshots_def db_then_Inr query_Inr fault_free_def)
qed

lemma insert_selected_ok:
  assumes "store_ok s" and "insert_selected ins rows s = Inr (t, k)"
    and "\<And>r u v. store_ok u \<Longrightarrow> ins r u = Inr v \<Longrightarrow> store_ok v"
  shows "store_ok t"
  using assms(2) fold_result_inv [of ins rows s t store_ok] assms(1,3) by (auto simp: insert_selected_def)

lemma clear_snapshots_ok:
  assumes "store_ok s"
  shows "store_ok (s\<lparr>snapshot_entries := []\<rparr>)" and "store_ok (s\<lparr>snapshot_meta := []\<rparr>)"
proof -
  have "snapshots_ok (s\<lparr>snapshot_entries := []\<rparr>)" "snapshots_ok (s\<lparr>snapshot_meta := []\<rparr>)"
    using store_okD(7) [OF assms] by (simp_all add: snapshots_ok_def has_session_def)
  then show "store_ok (s\<lparr>snapshot_entries := []\<rparr>)" "store_ok (s\<lparr>snapshot_meta := []\<rparr>)"
    by (intro store_ok_frame [OF assms]; simp)+
qed

lemma reads_each [db_intros]: "(\<And>x. x \<in> set xs \<Longrightarrow> reads (f x)) \<Longrightarrow> reads (db_each f xs)"
  by (induction xs) (auto intro: db_intros)

lemma reads_verify [db_intros]: "reads (verifySessionFilesystemSnapshots hash io)"
  unfolding verifySessionFilesystemSnapshots_def by (intro db_intros)

lemma keeps_backfill: "keeps store_ok (backfillSessionFilesystemSnapshots hash io)"
proof -
  have "keeps store_ok (exec io (\<lambda>s. no_result (or_fail (insert_snapshot_meta m s))))" for m
    by (rule keeps_exec) (auto intro: insert_snapshot_meta_ok)
  moreover have "keeps store_ok (exec io (\<lambda>s. or_fail (insert_selected insert_snapshot_entry (map compatibility_row (sessions s)) s)))"
    by (rule keeps_exec) (auto intro: insert_selected_ok insert_snapshot_entry_ok)
  moreover have "keeps store_ok (exec io (\<lambda>s. Inr (s\<lparr>snapshot_entries := []\<rparr>, ())))" "keeps store_ok (exec io (\<lambda>s. Inr (s\<lparr>snapshot_meta := []\<rparr>, ())))"
    by (rule keeps_exec; auto intro: clear_snapshots_ok)+
  ultimately show ?thesis
    unfolding backfillSessionFilesystemSnapshots_def by (intro db_intros reads_keeps [OF reads_verify])
qed

lemma backfill_fault_free:
  assumes "store_ok s" and "\<forall>x\<in>set (sessions s). canonical_path (se_workspace x)"
  shows "\<exists>n'. backfillSessionFilesystemSnapshots hash fault_free s n = (backfilled hash s, n', Inr (length (sessions s)))"
proof -
  have d: "distinct (map se_id (sessions s))" using store_okD(6) [OF assms(1)] by (simp add: sessions_ok_def)
  define u where "u = s\<lparr>snapshot_entries := [], snapshot_meta := []\<rparr>"
  have ids: "\<forall>x\<in>set (sessions s). has_session (se_id x) u" by (auto simp: u_def has_session_iff)
  define v where "v = u\<lparr>snapshot_entries := map compatibility_row (sessions s)\<rparr>"
  have v: "insert_selected insert_snapshot_entry (map compatibility_row (sessions s)) u = Inr (v, length (sessions s))"
    using insert_compatibility_rows [OF d ids] by (simp add: insert_selected_def u_def v_def)
  obtain k where k: "db_each (\<lambda>x. exec fault_free (\<lambda>s. no_result (or_fail (insert_snapshot_meta (compatibility_meta hash x) s))))
      (sort_key se_id (sessions s)) v (Suc (Suc (Suc (Suc (Suc n))))) = (backfilled hash s, k, Inr ())"
  proof -
    have "v\<lparr>snapshot_meta := snapshot_meta v @ map (compatibility_meta hash) (sort_key se_id (sessions s))\<rparr> = backfilled hash s"
      by (simp add: v_def u_def backfilled_def)
    moreover have "\<forall>x\<in>set (sort_key se_id (sessions s)). has_session (se_id x) v"
      by (auto simp: v_def u_def has_session_iff)
    moreover have "snapshot_meta v = []" by (simp add: v_def u_def)
    ultimately show thesis
      using that insert_compatibility_metas [of "sort_key se_id (sessions s)" v hash] sort_key_distinct [OF d] by (metis empty_iff empty_set)
  qed
  have "\<not> snapshot_orphan (backfilled hash s)"
    by (auto simp: snapshot_orphan_def list_ex_iff backfilled_def compatibility_row_def compatibility_meta_def has_session_iff)
  then obtain k' where k': "verifySessionFilesystemSnapshots hash fault_free (backfilled hash s) (Suc k) = (backfilled hash s, k', Inr ())"
  proof (rule exE [OF verify_held])
    fix x
    assume "x \<in> set (sessions (backfilled hash s))"
    then have "x \<in> set (sessions s)" by (simp add: backfilled_def)
    then show "\<exists>sn. holds_snapshot hash (se_id x) sn (backfilled hash s) \<and> snapshot_ok sn \<and> Workspace sn = se_workspace x"
      using backfilled_holds [OF assms(1)] compatibility_snapshot_ok assms(2)
      by (intro exI [of _ "compatibility_snapshot x"]) (simp add: compatibility_snapshot_def)
  qed
  have c: "length (snapshot_entries (backfilled hash s)) = length (sessions s)" "sessions (backfilled hash s) = sessions s"
    by (simp_all add: backfilled_def)
  have metas: "db_then (db_each (\<lambda>x. exec fault_free (\<lambda>s. no_result (or_fail (insert_snapshot_meta (compatibility_meta hash x) s))))
      (sort_key se_id (sessions s))) g v (Suc (Suc (Suc (Suc (Suc n))))) = g () (backfilled hash s) k" for g :: "unit \<Rightarrow> nat db"
    by (simp add: db_then_def k del: fault_free_simps)
  have verified: "db_then (verifySessionFilesystemSnapshots hash fault_free) g (backfilled hash s) (Suc k) = g () (backfilled hash s) k'"
    for g :: "unit \<Rightarrow> nat db"
    by (simp add: db_then_def k' del: fault_free_simps)
  have "sessions v = sessions s" by (simp add: v_def u_def)
  then show ?thesis
    using v c unfolding backfillSessionFilesystemSnapshots_def
    by (simp add: fault_free_runs metas verified u_def db_result_def iffD2 [OF or_Inr(2) refl] del: fault_free_simps)
qed

text \<open>
  The startup migration of a database from before the snapshot tables gives every Session, and no
  one else, the read\_write snapshot of its stored workspace, provable by the loader from then on, and
  changes nothing else; the current policy plays no part. If it fails, the database is as it was.
\<close>

theorem legacy_cutover:
  assumes "store_ok s" and "snapshot_entries s = []" and "snapshot_meta s = []"
    and "\<forall>x\<in>set (sessions s). canonical_path (se_workspace x)"
  shows "(\<exists>t n'. migrateSessionFilesystemSnapshots hash fault_free (Inr sessionSnapshotSchemaAbsent) s n =
            (t, n', Inr (length (sessions s))) \<and> store_ok t \<and> t\<lparr>snapshot_entries := [], snapshot_meta := []\<rparr> = s \<and>
            map sn_session (snapshot_entries t) = map se_id (sessions s) \<and>
            (\<forall>x\<in>set (sessions s). \<forall>k. loadSessionFilesystemSnapshot hash fault_free (se_id x) (se_workspace x) t k =
               (t, Suc (Suc k), Inr \<lparr>Workspace = se_workspace x, Entries = [mk_entry (se_workspace x) RW]\<rparr>))) \<and>
     (\<forall>io t n' e. reported io \<longrightarrow>
        migrateSessionFilesystemSnapshots hash io (Inr sessionSnapshotSchemaAbsent) s n = (t, n', Inl e) \<longrightarrow> t = s)"
proof (intro conjI allI impI)
  obtain n' where run: "backfillSessionFilesystemSnapshots hash fault_free s n = (backfilled hash s, n', Inr (length (sessions s)))"
    using backfill_fault_free [OF assms(1,4)] by blast
  have "store_ok (backfilled hash s)"
    using keepsD [OF keeps_backfill assms(1) run] .
  moreover have "(backfilled hash s)\<lparr>snapshot_entries := [], snapshot_meta := []\<rparr> = s"
    using assms(2,3) by (cases s) (simp add: backfilled_def)
  moreover have "map sn_session (snapshot_entries (backfilled hash s)) = map se_id (sessions s)"
    by (simp add: backfilled_def compatibility_row_def)
  moreover have "loadSessionFilesystemSnapshot hash fault_free (se_id x) (se_workspace x) (backfilled hash s) k =
      (backfilled hash s, Suc (Suc k), Inr (compatibility_snapshot x))" if "x \<in> set (sessions s)" for x k
    using load_held [OF backfilled_holds [OF assms(1) that] compatibility_snapshot_ok] assms(4) that
    by (simp add: compatibility_snapshot_def)
  ultimately show "\<exists>t n'. migrateSessionFilesystemSnapshots hash fault_free (Inr sessionSnapshotSchemaAbsent) s n =
            (t, n', Inr (length (sessions s))) \<and> store_ok t \<and> t\<lparr>snapshot_entries := [], snapshot_meta := []\<rparr> = s \<and>
            map sn_session (snapshot_entries t) = map se_id (sessions s) \<and>
            (\<forall>x\<in>set (sessions s). \<forall>k. loadSessionFilesystemSnapshot hash fault_free (se_id x) (se_workspace x) t k =
               (t, Suc (Suc k), Inr \<lparr>Workspace = se_workspace x, Entries = [mk_entry (se_workspace x) RW]\<rparr>))"
    using run unfolding migrateSessionFilesystemSnapshots_def compatibility_snapshot_def by auto
next
  fix io t n' e
  assume "reported io" "migrateSessionFilesystemSnapshots hash io (Inr sessionSnapshotSchemaAbsent) s n = (t, n', Inl e)"
  then show "t = s"
    using undoneD [OF undone_tx] by (auto simp: migrateSessionFilesystemSnapshots_def backfillSessionFilesystemSnapshots_def)
qed

section \<open>Witnesses\<close>

definition demo_session :: session_row where
  "demo_session = \<lparr>se_id = ''dhs_1'', se_hash = ''h1'', se_workspace = ''/home/alice/ws'', se_created = 10,
     se_expires = 20, se_launcher = la_id demo_launcher\<rparr>"

definition demo_live :: store where
  "demo_live = demo_owned\<lparr>sessions := [demo_session]\<rparr>"

lemma demo_live_ok: "store_ok demo_live"
proof -
  have "sessions_ok demo_live"
    by (simp add: sessions_ok_def demo_live_def demo_session_def has_launcher_def demo_owned_def demo_store_def empty_store_def)
  then show ?thesis
    by (intro store_ok_frame [OF demo_owned_ok]) (simp_all add: demo_live_def demo_owned_def demo_store_def empty_store_def)
qed

lemma demo_live_simps [simp]:
  "sessions demo_live = [demo_session]" "snapshot_entries demo_live = []" "snapshot_meta demo_live = []"
  by (simp_all add: demo_live_def demo_owned_def demo_store_def empty_store_def)

lemma demo_workspace_canonical: "canonical_path (se_workspace demo_session)"
proof -
  have "canonical_path ''/home/alice/ws''" by code_simp
  then show ?thesis by (simp add: demo_session_def)
qed

theorem snapshot_roundtrip_witness:
  "\<exists>s' n'. insertSessionFilesystemSnapshot (\<lambda>x. x) fault_free ''dhs_1'' [mk_entry ''/home/alice/ws'' RW] demo_live 0 = (s', n', Inr ()) \<and>
     snd (snd (loadSessionFilesystemSnapshot (\<lambda>x. x) fault_free ''dhs_1'' ''/home/alice/ws'' s' n')) =
       Inr \<lparr>Workspace = ''/home/alice/ws'', Entries = [mk_entry ''/home/alice/ws'' RW]\<rparr>"
proof -
  have "no_snapshot ''dhs_1'' demo_live" "has_session ''dhs_1'' demo_live"
    by (simp_all add: no_snapshot_def has_session_def demo_session_def)
  with snapshot_roundtrip [OF compatibility_snapshot_ok [OF demo_workspace_canonical], of "''dhs_1''" demo_live "\<lambda>x. x" 0]
  show ?thesis by (auto simp: compatibility_snapshot_def demo_session_def simp del: fault_free_simps)
qed

theorem load_only_issued_witness:
  "snd (snd (loadSessionFilesystemSnapshot (\<lambda>x. x) fault_free ''dhs_1'' ''/home/alice/ws'' (backfilled (\<lambda>x. x) demo_live) 0)) =
     Inr (compatibility_snapshot demo_session) \<and>
   compatibility_snapshot demo_session = \<lparr>Workspace = ''/home/alice/ws'', Entries = [mk_entry ''/home/alice/ws'' ''read_write'']\<rparr>"
proof -
  have "demo_session \<in> set (sessions demo_live)" by simp
  note held = backfilled_holds [OF demo_live_ok this, of "\<lambda>x. x"]
  note run = load_held [OF held compatibility_snapshot_ok [OF demo_workspace_canonical], of 0]
  have "session_meta (se_id demo_session) (backfilled (\<lambda>x. x) demo_live) = Some (compatibility_meta (\<lambda>x. x) demo_session)"
    using held by (simp add: holds_snapshot_def compatibility_meta_def compatibility_snapshot_def AllowedRootAccessReadWrite_def)
  from load_only_issued [OF run this, of "[mk_entry ''/home/alice/ws'' ''read_write'']"]
  have "compatibility_snapshot demo_session = \<lparr>Workspace = Workspace (compatibility_snapshot demo_session),
      Entries = [mk_entry ''/home/alice/ws'' ''read_write'']\<rparr>"
    by (simp add: compatibility_meta_def demo_session_def nul_free_def backfilled_def compatibility_row_def mk_entry_def)
  moreover have "Workspace (compatibility_snapshot demo_session) = ''/home/alice/ws''" "se_id demo_session = ''dhs_1''"
    by (simp_all add: compatibility_snapshot_def demo_session_def)
  ultimately show ?thesis using run by (simp del: fault_free_simps)
qed

theorem legacy_cutover_witness:
  "\<exists>t n'. migrateSessionFilesystemSnapshots (\<lambda>x. x) fault_free (Inr sessionSnapshotSchemaAbsent) demo_live 0 = (t, n', Inr 1) \<and>
     snd (snd (loadSessionFilesystemSnapshot (\<lambda>x. x) fault_free ''dhs_1'' ''/home/alice/ws'' t 0)) =
       Inr \<lparr>Workspace = ''/home/alice/ws'', Entries = [mk_entry ''/home/alice/ws'' RW]\<rparr>"
proof -
  have "\<forall>x\<in>set (sessions demo_live). canonical_path (se_workspace x)" using demo_workspace_canonical by simp
  from conjunct1 [OF legacy_cutover [OF demo_live_ok _ _ this, of "\<lambda>x. x" 0]] show ?thesis
    by (auto simp: demo_session_def simp del: fault_free_simps)
qed

end
