(* ===== verification/Programs.thy ===== *)
theory Programs
  imports Store "HOL-Library.State_Monad"
begin

text \<open>
  Sequential programs of the daemon over a shared state, in the library's state monad: the control
  structures the code uses, and Hoare triples with the rules for them. A triple states partial
  information about a total program: every run of it ends, so the postcondition is always reached.
\<close>

section \<open>Control structures\<close>

abbreviation ret :: "'a \<Rightarrow> ('s, 'a) state" where "ret \<equiv> State_Monad.return"

definition st_when :: "bool \<Rightarrow> ('s, unit) state \<Rightarrow> ('s, unit) state" where
  "st_when b m = (if b then m else ret ())"

primrec st_each :: "('a \<Rightarrow> ('s, unit) state) \<Rightarrow> 'a list \<Rightarrow> ('s, unit) state" where
  "st_each f [] = ret ()"
| "st_each f (x # xs) = do { f x; st_each f xs }"

text \<open>\<^verbatim>\<open>if err != nil { return err }\<close>.\<close>

definition or_return ::
    "('s, (go_error, 'a) result) state \<Rightarrow> ('a \<Rightarrow> ('s, (go_error, 'b) result) state) \<Rightarrow> ('s, (go_error, 'b) result) state" where
  "or_return m f = do { r \<leftarrow> m; case r of Inl e \<Rightarrow> ret (Inl e) | Inr b \<Rightarrow> f b }"

section \<open>Triples\<close>

definition valid :: "('s \<Rightarrow> bool) \<Rightarrow> ('s, 'a) state \<Rightarrow> ('a \<Rightarrow> 's \<Rightarrow> bool) \<Rightarrow> bool" where
  "valid P m Q \<longleftrightarrow> (\<forall>a. P a \<longrightarrow> (case run_state m a of (r, a') \<Rightarrow> Q r a'))"

lemma validD: "valid P m Q \<Longrightarrow> P a \<Longrightarrow> run_state m a = (r, a') \<Longrightarrow> Q r a'"
  by (auto simp: valid_def)

lemma valid_conseq: "valid P m Q \<Longrightarrow> (\<And>a. P' a \<Longrightarrow> P a) \<Longrightarrow> (\<And>r a. Q r a \<Longrightarrow> Q' r a) \<Longrightarrow> valid P' m Q'"
  by (fastforce simp: valid_def split: prod.splits)

lemma valid_conj: "valid P m Q \<Longrightarrow> valid P' m Q' \<Longrightarrow> valid (\<lambda>a. P a \<and> P' a) m (\<lambda>r a. Q r a \<and> Q' r a)"
  by (fastforce simp: valid_def split: prod.splits)

lemma valid_ret: "(\<And>a. P a \<Longrightarrow> Q r a) \<Longrightarrow> valid P (ret r) Q"
  by (simp add: valid_def)

lemma valid_bind:
  "valid P m R \<Longrightarrow> (\<And>r. valid (R r) (f r) Q) \<Longrightarrow> valid P (State_Monad.bind m f) Q"
  by (fastforce simp: valid_def split: prod.splits)

lemma valid_or_return:
  assumes "valid P m R" and "\<And>e a. R (Inl e) a \<Longrightarrow> Q (Inl e) a" and "\<And>b. valid (R (Inr b)) (f b) Q"
  shows "valid P (or_return m f) Q"
  unfolding or_return_def by (rule valid_bind [OF assms(1)]) (use assms(2,3) in \<open>auto intro!: valid_ret split: sum.split\<close>)

text \<open>What a successful result tells, apart from the state.\<close>

lemma valid_result:
  assumes "valid P m (\<lambda>r a. R a \<and> (\<forall>b. r = Inr b \<longrightarrow> B b))" and "\<And>e a. R a \<Longrightarrow> Q (Inl e) a" and "\<And>b. B b \<Longrightarrow> valid R (f b) Q"
  shows "valid P (or_return m f) Q"
proof (rule valid_or_return [OF assms(1)])
  show "valid (\<lambda>a. R a \<and> (\<forall>b'. Inr b = Inr b' \<longrightarrow> B b')) (f b) Q" for b
    using assms(3) [of b] by (cases "B b") (auto simp: valid_def)
qed (use assms(2) in blast)

lemma valid_when: "(b \<Longrightarrow> valid P m (\<lambda>_. Q)) \<Longrightarrow> (\<And>a. \<not> b \<Longrightarrow> P a \<Longrightarrow> Q a) \<Longrightarrow> valid P (st_when b m) (\<lambda>_. Q)"
  by (auto simp: st_when_def intro: valid_ret)

lemma valid_each: "(\<And>y. y \<in> set ys \<Longrightarrow> valid P (f y) (\<lambda>_. P)) \<Longrightarrow> valid P (st_each f ys) (\<lambda>_. P)"
  by (induction ys) (auto intro: valid_ret valid_bind)

lemma valid_sum:
  "(\<And>e. valid (P (Inl e)) (f e) Q) \<Longrightarrow> (\<And>b. valid (P (Inr b)) (g b) Q) \<Longrightarrow> valid (P r) (case r of Inl e \<Rightarrow> f e | Inr b \<Rightarrow> g b) Q"
  by (cases r) simp_all

lemma valid_if: "valid P m Q \<Longrightarrow> valid P m' Q \<Longrightarrow> valid P (if b then m else m') Q"
  by simp

end
