(* ===== verification/Mac_Coordinator.thy ===== *)
theory Mac_Coordinator
  imports Snapshot_Store Programs
begin

text \<open>
  mac\_lifecycle.go: the coordinator of Session MAC state. It prepares mandatory-access-control coverage
  for every filesystem tree issued to a Session, counts the consumers of each coverage boundary (bound
  Sessions and leases of running Operations), and removes a boundary the helper owns only when nothing
  needs it any more. All transitions hold the coordinator's mutex, so they are sequential programs.

  The back end is an interface of the code, \<^verbatim>\<open>sessionMACDriver\<close>, and so a record of
  operations over a driver state here; its contract is the locale \<^verbatim>\<open>mac_driver\<close>, under which
  the theorems about the coordinator are proved. The outcome of database calls, the iteration order of
  Go maps and the Sessions with pending workload state are parameters.
\<close>

section \<open>Boundary kinds\<close>

datatype macBoundaryKind = macBoundaryUnknown | macBoundaryDirectory | macBoundaryRegularFile | macBoundaryMissing

definition macBoundaryKindDirectoryValue :: string where "macBoundaryKindDirectoryValue = ''directory''"
definition macBoundaryKindRegularFileValue :: string where "macBoundaryKindRegularFileValue = ''regular-file''"

definition macBoundaryKindValue :: "macBoundaryKind \<Rightarrow> (go_error, string) result" where
  "macBoundaryKindValue kind =
     (case kind of macBoundaryDirectory \<Rightarrow> Inr macBoundaryKindDirectoryValue
                 | macBoundaryRegularFile \<Rightarrow> Inr macBoundaryKindRegularFileValue
                 | _ \<Rightarrow> io_err)"

definition parseMacBoundaryKindValue :: "string \<Rightarrow> (go_error, macBoundaryKind) result" where
  "parseMacBoundaryKindValue s =
     (if s = macBoundaryKindDirectoryValue then Inr macBoundaryDirectory
      else if s = macBoundaryKindRegularFileValue then Inr macBoundaryRegularFile
      else io_err)"

record sessionMACCoverage =
  cov_Boundary :: string
  cov_HelperOwned :: bool
  cov_Kind :: macBoundaryKind

section \<open>Path overlap\<close>

datatype pathOverlapRelation = pathExact | pathAncestor | pathDescendant | pathDisjoint

definition pathOverlap :: "string \<Rightarrow> string \<Rightarrow> pathOverlapRelation" where
  "pathOverlap a b =
     (if a = b then pathExact
      else if pathWithin a b then pathAncestor
      else if pathWithin b a then pathDescendant
      else pathDisjoint)"

definition macBoundaryOverlap :: "string \<Rightarrow> string \<Rightarrow> bool" where
  "macBoundaryOverlap a b = (pathOverlap a b \<noteq> pathDisjoint)"

section \<open>Driver, state and environment\<close>

record helperOwnedBoundary =
  hb_Boundary :: string
  hb_Kind :: macBoundaryKind

record 'd sessionMACDriver =
  ensureCoverage :: "string \<Rightarrow> 'd \<Rightarrow> (go_error, sessionMACCoverage \<times> bool) result \<times> 'd"
  verifyCoverage :: "string \<Rightarrow> 'd \<Rightarrow> (go_error, sessionMACCoverage) result \<times> 'd"
  removeBoundary :: "string \<Rightarrow> macBoundaryKind \<Rightarrow> 'd \<Rightarrow> (go_error, unit) result \<times> 'd"
  discoverHelperOwnedBoundaries :: "'d \<Rightarrow> (go_error, helperOwnedBoundary list) result \<times> 'd"
  proveOwnedKind :: "string \<Rightarrow> 'd \<Rightarrow> (go_error, macBoundaryKind option) result \<times> 'd"
  driver_backend :: string

text \<open>A row of \<^verbatim>\<open>mac_boundaries\<close>, with its primary key of back end and boundary.\<close>

record mac_boundary_row =
  mb_backend :: string
  mb_boundary :: string
  mb_kind :: "string option"

text \<open>
  The coordinator with the database it uses. The maps of the code are association lists with
  distinct keys; a count that the code deletes is zero.
\<close>

record 'd sessionMACCoordinator =
  mc_store :: store
  mc_owned :: "mac_boundary_row list"
  mc_calls :: nat
  mc_driver :: 'd
  sessionBindings :: "(string \<times> sessionMACCoverage list) list"
  boundaryConsumerCounts :: "string \<Rightarrow> nat"
  deferredBoundaries :: "string list"
  sessionUseLeases :: "(string \<times> sessionMACCoverage list) list"

record 'd mac_env =
  me_driver :: "'d sessionMACDriver"
  me_db :: db_io
  me_hash :: "string \<Rightarrow> string"
  me_order :: "nat \<Rightarrow> string list \<Rightarrow> string list"
  me_pending :: "nat \<Rightarrow> string list option"
  me_now :: int

type_synonym ('d, 'a) mac = "('d sessionMACCoordinator, 'a) state"

definition map_put :: "'k \<Rightarrow> 'v \<Rightarrow> ('k \<times> 'v) list \<Rightarrow> ('k \<times> 'v) list" where
  "map_put k v m = filter (\<lambda>p. fst p \<noteq> k) m @ [(k, v)]"

definition map_del :: "'k \<Rightarrow> ('k \<times> 'v) list \<Rightarrow> ('k \<times> 'v) list" where
  "map_del k m = filter (\<lambda>p. fst p \<noteq> k) m"

definition set_put :: "'a \<Rightarrow> 'a list \<Rightarrow> 'a list" where
  "set_put x xs = (if x \<in> set xs then xs else xs @ [x])"

definition newSessionMACCoordinator :: "store \<Rightarrow> mac_boundary_row list \<Rightarrow> 'd \<Rightarrow> 'd sessionMACCoordinator" where
  "newSessionMACCoordinator s rows d = \<lparr>mc_store = s, mc_owned = rows, mc_calls = 0, mc_driver = d,
     sessionBindings = [], boundaryConsumerCounts = (\<lambda>_. 0), deferredBoundaries = [], sessionUseLeases = []\<rparr>"

text \<open>A driver call, a program over the store, a read and a write of the ownership table.\<close>

definition drv :: "('d \<Rightarrow> 'a \<times> 'd) \<Rightarrow> ('d, 'a) mac" where
  "drv f = state.State (\<lambda>c. case f (mc_driver c) of (r, d) \<Rightarrow> (r, c\<lparr>mc_driver := d\<rparr>))"

definition mac_db :: "'a db \<Rightarrow> ('d, (go_error, 'a) result) mac" where
  "mac_db m = state.State (\<lambda>c. case m (mc_store c) (mc_calls c) of (s, n, r) \<Rightarrow> (r, c\<lparr>mc_store := s, mc_calls := n\<rparr>))"

definition own_query :: "'d mac_env \<Rightarrow> (mac_boundary_row list \<Rightarrow> (go_error, 'a) result) \<Rightarrow> ('d, (go_error, 'a) result) mac" where
  "own_query env f = state.State (\<lambda>c.
     (if me_db env (mc_calls c) = Performed then f (mc_owned c) else io_err, c\<lparr>mc_calls := Suc (mc_calls c)\<rparr>))"

definition own_exec :: "'d mac_env \<Rightarrow> (mac_boundary_row list \<Rightarrow> mac_boundary_row list) \<Rightarrow> ('d, (go_error, unit) result) mac" where
  "own_exec env f = state.State (\<lambda>c.
     (if me_db env (mc_calls c) = Performed then Inr () else io_err,
      c\<lparr>mc_owned := (if me_db env (mc_calls c) = Failed then mc_owned c else f (mc_owned c)), mc_calls := Suc (mc_calls c)\<rparr>))"

definition coord :: "('d sessionMACCoordinator \<Rightarrow> 'a) \<Rightarrow> ('d, 'a) mac" where
  "coord f = state.State (\<lambda>c. (f c, c))"

definition change :: "('d sessionMACCoordinator \<Rightarrow> 'd sessionMACCoordinator) \<Rightarrow> ('d, unit) mac" where
  "change f = state.State (\<lambda>c. ((), f c))"

section \<open>Ownership metadata\<close>

definition owned_row :: "'d mac_env \<Rightarrow> string \<Rightarrow> mac_boundary_row \<Rightarrow> bool" where
  "owned_row env boundary r \<longleftrightarrow> mb_backend r = driver_backend (me_driver env) \<and> mb_boundary r = boundary"

definition recordBoundaryOwnership :: "'d mac_env \<Rightarrow> string \<Rightarrow> macBoundaryKind \<Rightarrow> ('d, (go_error, unit) result) mac" where
  "recordBoundaryOwnership env boundary kind =
     or_return (ret (if kind = macBoundaryUnknown then Inr None else map_sum id Some (macBoundaryKindValue kind))) (\<lambda>kindValue.
       own_exec env (\<lambda>rows. filter (\<lambda>r. \<not> owned_row env boundary r) rows @
         [\<lparr>mb_backend = driver_backend (me_driver env), mb_boundary = boundary, mb_kind = kindValue\<rparr>]))"

definition boundaryOwnedKind :: "'d mac_env \<Rightarrow> string \<Rightarrow> ('d, (go_error, macBoundaryKind) result) mac" where
  "boundaryOwnedKind env boundary = own_query env (\<lambda>rows.
     case find (owned_row env boundary) rows of
       None \<Rightarrow> Inr macBoundaryUnknown
     | Some r \<Rightarrow> (case mb_kind r of
           None \<Rightarrow> Inr macBoundaryUnknown
         | Some v \<Rightarrow> if v = [] then Inr macBoundaryUnknown else parseMacBoundaryKindValue v))"

definition ownedBoundaryRemovalKind :: "'d mac_env \<Rightarrow> string \<Rightarrow> ('d, (go_error, macBoundaryKind) result) mac" where
  "ownedBoundaryRemovalKind env boundary = boundaryOwnedKind env boundary"

definition isBoundaryOwnedByHelper :: "'d mac_env \<Rightarrow> string \<Rightarrow> ('d, (go_error, bool) result) mac" where
  "isBoundaryOwnedByHelper env boundary = own_query env (\<lambda>rows. Inr (list_ex (owned_row env boundary) rows))"

definition forgetBoundaryOwnership :: "'d mac_env \<Rightarrow> string \<Rightarrow> ('d, (go_error, unit) result) mac" where
  "forgetBoundaryOwnership env boundary = own_exec env (filter (\<lambda>r. \<not> owned_row env boundary r))"

definition listOwnedBoundaries :: "'d mac_env \<Rightarrow> ('d, (go_error, string list) result) mac" where
  "listOwnedBoundaries env = own_query env (\<lambda>rows.
     Inr (map mb_boundary (filter (\<lambda>r. mb_backend r = driver_backend (me_driver env)) rows)))"

definition convergeLegacyOwnedKind :: "'d mac_env \<Rightarrow> string \<Rightarrow> ('d, (go_error, macBoundaryKind) result) mac" where
  "convergeLegacyOwnedKind env boundary =
     or_return (drv (proveOwnedKind (me_driver env) boundary)) (\<lambda>proven.
       case proven of
         None \<Rightarrow> ret (Inr macBoundaryUnknown)
       | Some provenKind \<Rightarrow> or_return (recordBoundaryOwnership env boundary provenKind) (\<lambda>_. ret (Inr provenKind)))"

text \<open>The metadata is forgotten only after the driver has removed the boundary.\<close>

definition removeOwnedBoundary :: "'d mac_env \<Rightarrow> string \<Rightarrow> ('d, (go_error, unit) result) mac" where
  "removeOwnedBoundary env boundary =
     or_return (ownedBoundaryRemovalKind env boundary) (\<lambda>stored.
       or_return (if stored = macBoundaryUnknown then convergeLegacyOwnedKind env boundary else ret (Inr stored)) (\<lambda>kind.
         or_return (drv (removeBoundary (me_driver env) boundary kind)) (\<lambda>_. do {
           forgetBoundaryOwnership env boundary;
           change (\<lambda>c. c\<lparr>deferredBoundaries := removeAll boundary (deferredBoundaries c)\<rparr>);
           ret (Inr ()) })))"

section \<open>The removal decision\<close>

definition isBoundaryStillNeeded :: "string \<Rightarrow> 'd sessionMACCoordinator \<Rightarrow> bool" where
  "isBoundaryStillNeeded boundary c \<longleftrightarrow>
     list_ex (\<lambda>p. list_ex (\<lambda>v. macBoundaryOverlap boundary (cov_Boundary v)) (snd p)) (sessionBindings c) \<or>
     list_ex (\<lambda>p. list_ex (\<lambda>v. macBoundaryOverlap boundary (cov_Boundary v)) (snd p)) (sessionUseLeases c)"

definition boundaryCoversPendingWorkload :: "string \<Rightarrow> string list \<Rightarrow> bool" where
  "boundaryCoversPendingWorkload boundary pendingRoots = list_ex (boundaryCoversTree boundary) pendingRoots"

definition boundaryMayBeRemoved :: "string \<Rightarrow> string list \<Rightarrow> bool \<Rightarrow> 'd sessionMACCoordinator \<Rightarrow> bool" where
  "boundaryMayBeRemoved boundary pendingRoots deferAll c \<longleftrightarrow>
     \<not> 0 < boundaryConsumerCounts c boundary \<and> \<not> isBoundaryStillNeeded boundary c \<and> \<not> deferAll \<and>
     \<not> boundaryCoversPendingWorkload boundary pendingRoots"

definition sessionBoundCoverageRoots :: "'d mac_env \<Rightarrow> string \<Rightarrow> string list db" where
  "sessionBoundCoverageRoots env sessionID =
     db_then (query (me_db env) (\<lambda>s. case find (\<lambda>x. se_id x = sessionID) (sessions s) of
         None \<Rightarrow> io_err | Some x \<Rightarrow> Inr (se_workspace x))) (\<lambda>workspace.
       db_then (loadSessionFilesystemSnapshot (me_hash env) (me_db env) sessionID workspace) (\<lambda>snapshot.
         db_return (sessionMACBoundaries snapshot)))"

text \<open>The issued roots of the Sessions with pending workload state, and whether one is unresolvable.\<close>

fun pending_roots_loop :: "'d mac_env \<Rightarrow> string list \<Rightarrow> ('d, string list \<times> bool) mac" where
  "pending_roots_loop env [] = ret ([], False)"
| "pending_roots_loop env (i # is) = do {
     r \<leftarrow> mac_db (sessionBoundCoverageRoots env i);
     (roots, deferAll) \<leftarrow> pending_roots_loop env is;
     ret (case r of Inl _ \<Rightarrow> (roots, True) | Inr rs \<Rightarrow> (rs @ roots, deferAll)) }"

definition pendingWorkloadCoverage :: "'d mac_env \<Rightarrow> ('d, string list \<times> bool) mac" where
  "pendingWorkloadCoverage env = do {
     n \<leftarrow> coord mc_calls;
     case me_pending env n of None \<Rightarrow> ret ([], False) | Some ids \<Rightarrow> pending_roots_loop env ids }"

section \<open>Releasing boundaries\<close>

definition defer_boundary :: "string \<Rightarrow> ('d, unit) mac" where
  "defer_boundary boundary = change (\<lambda>c. c\<lparr>deferredBoundaries := set_put boundary (deferredBoundaries c)\<rparr>)"

definition try_remove :: "'d mac_env \<Rightarrow> string \<Rightarrow> ('d, unit) mac" where
  "try_remove env boundary = do { removeOwnedBoundary env boundary; ret () }"

definition conditionalReleaseBoundary :: "'d mac_env \<Rightarrow> string \<Rightarrow> bool \<Rightarrow> ('d, unit) mac" where
  "conditionalReleaseBoundary env boundary helperOwned = do {
     count \<leftarrow> coord (\<lambda>c. boundaryConsumerCounts c boundary);
     if count \<le> 1 then do {
       change (\<lambda>c. c\<lparr>boundaryConsumerCounts := (boundaryConsumerCounts c)(boundary := 0)\<rparr>);
       (pendingRoots, deferAll) \<leftarrow> pendingWorkloadCoverage env;
       may \<leftarrow> coord (boundaryMayBeRemoved boundary pendingRoots deferAll);
       if \<not> may then st_when helperOwned (defer_boundary boundary)
       else st_when helperOwned (try_remove env boundary) }
     else change (\<lambda>c. c\<lparr>boundaryConsumerCounts := (boundaryConsumerCounts c)(boundary := count - 1)\<rparr>) }"

definition retry_one :: "'d mac_env \<Rightarrow> string list \<Rightarrow> bool \<Rightarrow> string \<Rightarrow> ('d, unit) mac" where
  "retry_one env pendingRoots deferAll boundary = do {
     may \<leftarrow> coord (boundaryMayBeRemoved boundary pendingRoots deferAll);
     if \<not> may then ret ()
     else do {
       r \<leftarrow> isBoundaryOwnedByHelper env boundary;
       case r of
         Inl _ \<Rightarrow> ret ()
       | Inr owned \<Rightarrow>
           if \<not> owned then change (\<lambda>c. c\<lparr>deferredBoundaries := removeAll boundary (deferredBoundaries c)\<rparr>)
           else try_remove env boundary } }"

definition retryDeferredBoundaries :: "'d mac_env \<Rightarrow> ('d, unit) mac" where
  "retryDeferredBoundaries env = do {
     (pendingRoots, deferAll) \<leftarrow> pendingWorkloadCoverage env;
     deferred \<leftarrow> coord (\<lambda>c. filter (\<lambda>b. b \<in> set (deferredBoundaries c)) (me_order env (mc_calls c) (deferredBoundaries c)));
     st_each (retry_one env pendingRoots deferAll) deferred }"

definition rollbackPreparedBoundaries :: "'d mac_env \<Rightarrow> string list \<Rightarrow> ('d, unit) mac" where
  "rollbackPreparedBoundaries env prepared =
     (if prepared = [] then ret ()
      else do {
        (pendingRoots, deferAll) \<leftarrow> pendingWorkloadCoverage env;
        st_each (\<lambda>boundary. do {
          may \<leftarrow> coord (boundaryMayBeRemoved boundary pendingRoots deferAll);
          if \<not> may then defer_boundary boundary else try_remove env boundary }) (rev prepared) })"

definition cleanupStaleBoundaries :: "'d mac_env \<Rightarrow> ('d, (go_error, unit) result) mac" where
  "cleanupStaleBoundaries env =
     or_return (listOwnedBoundaries env) (\<lambda>boundaries. do {
       (pendingRoots, deferAll) \<leftarrow> pendingWorkloadCoverage env;
       st_each (\<lambda>boundary. do {
         count \<leftarrow> coord (\<lambda>c. boundaryConsumerCounts c boundary);
         may \<leftarrow> coord (boundaryMayBeRemoved boundary pendingRoots deferAll);
         if 0 < count then ret ()
         else if \<not> may then defer_boundary boundary
         else try_remove env boundary }) boundaries;
       ret (Inr ()) })"

section \<open>Preparing coverage\<close>

definition ensureBoundaryWithOwnership :: "'d mac_env \<Rightarrow> string \<Rightarrow> ('d, (go_error, sessionMACCoverage \<times> bool) result) mac" where
  "ensureBoundaryWithOwnership env tree = do {
     r \<leftarrow> drv (ensureCoverage (me_driver env) tree);
     case r of
       Inl e \<Rightarrow> ret (Inl (ErrMACPreparation # e))
     | Inr (coverage, newlyCreated) \<Rightarrow>
         if newlyCreated then do {
           r \<leftarrow> recordBoundaryOwnership env (cov_Boundary coverage) (cov_Kind coverage);
           case r of
             Inl e \<Rightarrow> do {
               drv (removeBoundary (me_driver env) (cov_Boundary coverage) (cov_Kind coverage));
               ret (Inl (ErrMACPreparation # e)) }
           | Inr _ \<Rightarrow> ret (Inr (coverage\<lparr>cov_HelperOwned := True\<rparr>, True)) }
         else do {
           r \<leftarrow> isBoundaryOwnedByHelper env (cov_Boundary coverage);
           ret (case r of
                  Inl e \<Rightarrow> Inl (ErrMACPreparation # e)
                | Inr owned \<Rightarrow> Inr (coverage\<lparr>cov_HelperOwned := owned\<rparr>, False)) } }"

text \<open>The first coverage resolved for a boundary stays.\<close>

definition resolve_into ::
    "sessionMACCoverage \<Rightarrow> (string \<times> sessionMACCoverage) list \<Rightarrow> (string \<times> sessionMACCoverage) list" where
  "resolve_into coverage resolved =
     (if map_of resolved (cov_Boundary coverage) = None then resolved @ [(cov_Boundary coverage, coverage)] else resolved)"

fun coverage_loop ::
    "(string \<times> sessionMACCoverage) list \<Rightarrow> sessionMACCoverage list \<Rightarrow> string list \<Rightarrow> sessionMACCoverage list" where
  "coverage_loop resolved kept [] = kept"
| "coverage_loop resolved kept (boundary # bs) =
     (if list_ex (\<lambda>coverage. boundaryCoversTree (cov_Boundary coverage) boundary) kept then coverage_loop resolved kept bs
      else coverage_loop resolved (kept @ [the (map_of resolved boundary)]) bs)"

definition normalizeCoverageSet :: "(string \<times> sessionMACCoverage) list \<Rightarrow> sessionMACCoverage list" where
  "normalizeCoverageSet resolved = coverage_loop resolved [] (sort (map fst resolved))"

fun ensure_trees ::
    "'d mac_env \<Rightarrow> (string \<times> sessionMACCoverage) list \<Rightarrow> string list \<Rightarrow> string list \<Rightarrow>
     ('d, (go_error, sessionMACCoverage list \<times> string list) result) mac" where
  "ensure_trees env resolved prepared [] = ret (Inr (normalizeCoverageSet resolved, prepared))"
| "ensure_trees env resolved prepared (tree # trees) = do {
     r \<leftarrow> ensureBoundaryWithOwnership env tree;
     case r of
       Inl e \<Rightarrow> do { rollbackPreparedBoundaries env prepared; ret (Inl e) }
     | Inr (coverage, newlyCreated) \<Rightarrow>
         ensure_trees env (resolve_into coverage resolved)
           (if newlyCreated then prepared @ [cov_Boundary coverage] else prepared) trees }"

definition ensureSessionCoverage ::
    "'d mac_env \<Rightarrow> string list \<Rightarrow> ('d, (go_error, sessionMACCoverage list \<times> string list) result) mac" where
  "ensureSessionCoverage env trees = ensure_trees env [] [] trees"

section \<open>Transitions\<close>

definition add_consumers :: "sessionMACCoverage list \<Rightarrow> (string \<Rightarrow> nat) \<Rightarrow> string \<Rightarrow> nat" where
  "add_consumers cs counts = foldl (\<lambda>f coverage. f(cov_Boundary coverage := f (cov_Boundary coverage) + 1)) counts cs"

definition bind_session :: "string \<Rightarrow> sessionMACCoverage list \<Rightarrow> ('d, unit) mac" where
  "bind_session sessionID cs = change (\<lambda>c. c\<lparr>sessionBindings := map_put sessionID cs (sessionBindings c),
     boundaryConsumerCounts := add_consumers cs (boundaryConsumerCounts c)\<rparr>)"

definition CreateSessionBinding ::
    "'d mac_env \<Rightarrow> string \<Rightarrow> string list \<Rightarrow> (sessionMACCoverage list \<Rightarrow> unit db) \<Rightarrow>
     ('d, (go_error, sessionMACCoverage list) result) mac" where
  "CreateSessionBinding env sessionID boundaries insertFn =
     or_return (ensureSessionCoverage env boundaries) (\<lambda>(coverageSet, prepared). do {
       r \<leftarrow> mac_db (insertFn coverageSet);
       case r of
         Inl e \<Rightarrow> do { rollbackPreparedBoundaries env prepared; ret (Inl e) }
       | Inr _ \<Rightarrow> do { bind_session sessionID coverageSet; ret (Inr coverageSet) } })"

definition release_coverage :: "'d mac_env \<Rightarrow> sessionMACCoverage list \<Rightarrow> ('d, unit) mac" where
  "release_coverage env cs = do {
     st_each (\<lambda>coverage. conditionalReleaseBoundary env (cov_Boundary coverage) (cov_HelperOwned coverage)) cs;
     retryDeferredBoundaries env }"

definition ReleaseSessionBinding :: "'d mac_env \<Rightarrow> string \<Rightarrow> ('d, unit) mac" where
  "ReleaseSessionBinding env sessionID = do {
     bound \<leftarrow> coord (\<lambda>c. map_of (sessionBindings c) sessionID);
     case bound of
       None \<Rightarrow> ret ()
     | Some coverageSet \<Rightarrow> do {
         change (\<lambda>c. c\<lparr>sessionBindings := map_del sessionID (sessionBindings c)\<rparr>);
         release_coverage env coverageSet } }"

definition sessionExistsExact :: "'d mac_env \<Rightarrow> string \<Rightarrow> string \<Rightarrow> bool db" where
  "sessionExistsExact env sessionID workspace = query (me_db env) (\<lambda>s.
     Inr (list_ex (\<lambda>x. se_id x = sessionID \<and> se_workspace x = workspace \<and> me_now env < se_expires x) (sessions s)))"

definition generateLeaseKey :: "nat list \<Rightarrow> string" where
  "generateLeaseKey b = ''lease_'' @ hex_encode b"

definition AcquireSessionUse :: "'d mac_env \<Rightarrow> nat list \<Rightarrow> string \<Rightarrow> string \<Rightarrow> ('d, (go_error, string) result) mac" where
  "AcquireSessionUse env random sessionID workspace = do {
     bound \<leftarrow> coord (\<lambda>c. map_of (sessionBindings c) sessionID);
     case bound of
       None \<Rightarrow> ret io_err
     | Some coverageSet \<Rightarrow>
         or_return (mac_db (sessionExistsExact env sessionID workspace)) (\<lambda>live.
           if \<not> live then ret io_err
           else do {
             change (\<lambda>c. c\<lparr>boundaryConsumerCounts := add_consumers coverageSet (boundaryConsumerCounts c),
               sessionUseLeases := map_put (generateLeaseKey random) coverageSet (sessionUseLeases c)\<rparr>);
             ret (Inr (generateLeaseKey random)) }) }"

text \<open>The release function of a lease: its second call finds no lease.\<close>

definition releaseSessionUse :: "'d mac_env \<Rightarrow> string \<Rightarrow> ('d, unit) mac" where
  "releaseSessionUse env leaseKey = do {
     lease \<leftarrow> coord (\<lambda>c. map_of (sessionUseLeases c) leaseKey);
     case lease of
       None \<Rightarrow> ret ()
     | Some coverageSet \<Rightarrow> do {
         change (\<lambda>c. c\<lparr>sessionUseLeases := map_del leaseKey (sessionUseLeases c)\<rparr>);
         release_coverage env coverageSet } }"

section \<open>Startup\<close>

definition importHelperOwnedBoundaries :: "'d mac_env \<Rightarrow> ('d, (go_error, unit) result) mac" where
  "importHelperOwnedBoundaries env =
     or_return (drv (discoverHelperOwnedBoundaries (me_driver env))) (\<lambda>boundaries. do {
       st_each (\<lambda>b. do { recordBoundaryOwnership env (hb_Boundary b) (hb_Kind b); ret () }) boundaries;
       ret (Inr ()) })"

definition listLiveSessionsWithIDs :: "'d mac_env \<Rightarrow> (string \<times> string) list db" where
  "listLiveSessionsWithIDs env = query (me_db env) (\<lambda>s.
     Inr (map (\<lambda>x. (se_id x, se_workspace x)) (filter (\<lambda>x. me_now env < se_expires x) (sessions s))))"

fun reconcile_trees ::
    "'d mac_env \<Rightarrow> (string \<times> sessionMACCoverage) list \<Rightarrow> string list \<Rightarrow>
     ('d, (go_error, (string \<times> sessionMACCoverage) list) result) mac" where
  "reconcile_trees env resolved [] = ret (Inr resolved)"
| "reconcile_trees env resolved (tree # trees) = do {
     r \<leftarrow> drv (verifyCoverage (me_driver env) tree);
     or_return
       (case r of
          Inl _ \<Rightarrow> or_return (ensureBoundaryWithOwnership env tree) (\<lambda>(coverage, _). ret (Inr coverage))
        | Inr coverage \<Rightarrow>
            or_return (isBoundaryOwnedByHelper env (cov_Boundary coverage)) (\<lambda>owned.
              ret (Inr (coverage\<lparr>cov_HelperOwned := owned\<rparr>))))
       (\<lambda>coverage. reconcile_trees env (resolve_into coverage resolved) trees) }"

definition reconcile_session :: "'d mac_env \<Rightarrow> string \<times> string \<Rightarrow> ('d, (go_error, unit) result) mac" where
  "reconcile_session env s =
     or_return (mac_db (loadSessionFilesystemSnapshot (me_hash env) (me_db env) (fst s) (snd s))) (\<lambda>snapshot.
       or_return (reconcile_trees env [] (sessionMACBoundaries snapshot)) (\<lambda>resolved. do {
         bind_session (fst s) (normalizeCoverageSet resolved);
         ret (Inr ()) }))"

fun reconcile_sessions :: "'d mac_env \<Rightarrow> (string \<times> string) list \<Rightarrow> ('d, (go_error, unit) result) mac" where
  "reconcile_sessions env [] = ret (Inr ())"
| "reconcile_sessions env (s # ss) = or_return (reconcile_session env s) (\<lambda>_. reconcile_sessions env ss)"

definition ReconcileLiveSessions :: "'d mac_env \<Rightarrow> ('d, (go_error, unit) result) mac" where
  "ReconcileLiveSessions env =
     or_return (importHelperOwnedBoundaries env) (\<lambda>_.
       or_return (mac_db (listLiveSessionsWithIDs env)) (\<lambda>live.
         or_return (reconcile_sessions env live) (\<lambda>_. do {
           cleanupStaleBoundaries env;
           ret (Inr ()) })))"

section \<open>The coordinator's invariant\<close>

text \<open>The coverage that bound Sessions and leases rely on, and how often a boundary occurs in it.\<close>

type_synonym consumers = "(string \<times> sessionMACCoverage list) list \<times> (string \<times> sessionMACCoverage list) list"

definition tables :: "'d sessionMACCoordinator \<Rightarrow> consumers" where
  "tables c = (sessionBindings c, sessionUseLeases c)"

definition held :: "consumers \<Rightarrow> sessionMACCoverage list" where
  "held t = concat (map snd (fst t)) @ concat (map snd (snd t))"

abbreviation in_use :: "'d sessionMACCoordinator \<Rightarrow> sessionMACCoverage list" where
  "in_use c \<equiv> held (tables c)"

definition uses :: "string \<Rightarrow> sessionMACCoverage list \<Rightarrow> nat" where
  "uses b cs = length (filter (\<lambda>v. cov_Boundary v = b) cs)"

text \<open>
  The invariant, with a list of coverages that are released but still counted. \<^term>\<open>present\<close> tells
  which boundaries the back end enforces, \<^term>\<open>good\<close> for which it removes nothing else.
\<close>

definition mac_ok ::
    "('d \<Rightarrow> bool) \<Rightarrow> ('d \<Rightarrow> string \<Rightarrow> bool) \<Rightarrow> (string \<Rightarrow> bool) \<Rightarrow> sessionMACCoverage list \<Rightarrow> 'd sessionMACCoordinator \<Rightarrow> bool" where
  "mac_ok ok present good released c \<longleftrightarrow>
     (\<forall>b. boundaryConsumerCounts c b = uses b (in_use c @ released)) \<and>
     ok (mc_driver c) \<and>
     (\<forall>v\<in>set (in_use c). present (mc_driver c) (cov_Boundary v)) \<and>
     (\<forall>v\<in>set (in_use c @ released). good (cov_Boundary v)) \<and>
     (\<forall>b\<in>set (deferredBoundaries c). good b) \<and> (\<forall>r\<in>set (mc_owned c). good (mb_boundary r)) \<and>
     distinct (map fst (sessionBindings c)) \<and> distinct (map fst (sessionUseLeases c))"

lemma uses_simps [simp]:
  "uses b [] = 0" "uses b (v # cs) = (if cov_Boundary v = b then 1 else 0) + uses b cs" "uses b (cs @ ds) = uses b cs + uses b ds"
  by (simp_all add: uses_def)

lemma uses_zero: "uses b cs = 0 \<longleftrightarrow> b \<notin> cov_Boundary ` set cs"
  by (auto simp: uses_def filter_empty_conv)

lemma tables_simps [simp]:
  "tables (c\<lparr>mc_calls := n\<rparr>) = tables c" "tables (c\<lparr>mc_store := s\<rparr>) = tables c" "tables (c\<lparr>mc_driver := d\<rparr>) = tables c"
  "tables (c\<lparr>mc_owned := rows\<rparr>) = tables c" "tables (c\<lparr>deferredBoundaries := bs\<rparr>) = tables c"
  "tables (c\<lparr>boundaryConsumerCounts := k\<rparr>) = tables c"
  by (simp_all add: tables_def)

lemma overlap_refl [simp]: "macBoundaryOverlap b b"
  by (simp add: macBoundaryOverlap_def pathOverlap_def)

lemma still_needed_in_use: "isBoundaryStillNeeded b c \<longleftrightarrow> (\<exists>v\<in>set (in_use c). macBoundaryOverlap b (cov_Boundary v))"
  by (auto simp: isBoundaryStillNeeded_def held_def tables_def list_ex_iff)

lemma may_be_removed_unused: "boundaryMayBeRemoved b pend da c \<Longrightarrow> b \<notin> cov_Boundary ` set (in_use c)"
  by (auto simp: boundaryMayBeRemoved_def still_needed_in_use)

lemma add_consumers: "add_consumers cs counts b = counts b + uses b cs"
proof -
  have "foldl (\<lambda>f v. f(cov_Boundary v := f (cov_Boundary v) + 1)) f cs b = f b + uses b cs" for f
    by (induction cs arbitrary: f) auto
  then show ?thesis by (simp add: add_consumers_def)
qed

section \<open>Rules for coordinator programs\<close>

lemma valid_coord: "(\<And>c. P c \<Longrightarrow> Q (f c) c) \<Longrightarrow> valid P (coord f) Q"
  by (simp add: valid_def coord_def)

lemma valid_change: "(\<And>c. P c \<Longrightarrow> Q () (f c)) \<Longrightarrow> valid P (change f) Q"
  by (simp add: valid_def change_def)

lemma valid_drv: "(\<And>c r d. P c \<Longrightarrow> f (mc_driver c) = (r, d) \<Longrightarrow> Q r (c\<lparr>mc_driver := d\<rparr>)) \<Longrightarrow> valid P (drv f) Q"
  by (auto simp: valid_def drv_def split: prod.splits)

lemma valid_mac_db:
  "(\<And>c s n r. P c \<Longrightarrow> m (mc_store c) (mc_calls c) = (s, n, r) \<Longrightarrow> Q r (c\<lparr>mc_store := s, mc_calls := n\<rparr>)) \<Longrightarrow> valid P (mac_db m) Q"
  by (auto simp: valid_def mac_db_def split: prod.splits)

lemma valid_own_query:
  "(\<And>c n r. P c \<Longrightarrow> (\<And>a. r = Inr a \<Longrightarrow> f (mc_owned c) = Inr a) \<Longrightarrow> Q r (c\<lparr>mc_calls := n\<rparr>)) \<Longrightarrow> valid P (own_query env f) Q"
  by (auto simp: valid_def own_query_def)

lemma valid_own_exec:
  "(\<And>c n r rows. P c \<Longrightarrow> rows \<in> {mc_owned c, f (mc_owned c)} \<Longrightarrow> Q r (c\<lparr>mc_owned := rows, mc_calls := n\<rparr>)) \<Longrightarrow> valid P (own_exec env f) Q"
  by (auto simp: valid_def own_exec_def)

text \<open>Reading the pending workload only advances the call counter.\<close>

lemma pending_roots_loop_frame:
  "run_state (pending_roots_loop env ids) c = (r, c') \<Longrightarrow> \<exists>n. c' = c\<lparr>mc_calls := n\<rparr>"
proof (induction ids arbitrary: r c c')
  case Nil
  then show ?case by (intro exI [of _ "mc_calls c"]) simp
next
  case (Cons i ids)
  have reads: "reads (sessionBoundCoverageRoots env i)"
    unfolding sessionBoundCoverageRoots_def by (intro db_intros)
  obtain s n q where q: "sessionBoundCoverageRoots env i (mc_store c) (mc_calls c) = (s, n, q)" by (metis prod_cases3)
  have "s = mc_store c" using readsD [OF reads q] .
  then have "run_state (mac_db (sessionBoundCoverageRoots env i)) c = (q, c\<lparr>mc_calls := n\<rparr>)"
    using q by (simp add: mac_db_def)
  then show ?case using Cons.prems Cons.IH [of "c\<lparr>mc_calls := n\<rparr>"] by (force split: prod.splits)
qed

lemma valid_pending:
  assumes "\<And>c n. P c \<Longrightarrow> P (c\<lparr>mc_calls := n\<rparr>)"
  shows "valid P (pendingWorkloadCoverage env) (\<lambda>_. P)"
proof -
  have "P c'" if "P c" and run: "run_state (pendingWorkloadCoverage env) c = (r, c')" for c r c'
  proof (cases "me_pending env (mc_calls c)")
    case None
    then show ?thesis using that by (simp add: pendingWorkloadCoverage_def coord_def)
  next
    case (Some ids)
    then have "run_state (pending_roots_loop env ids) c = (r, c')"
      using run by (simp add: pendingWorkloadCoverage_def coord_def)
    then show ?thesis using pending_roots_loop_frame that(1) assms by blast
  qed
  then show ?thesis unfolding valid_def by (simp split: prod.split)
qed

lemma mac_ok_frame [simp]:
  "mac_ok ok present good rel (c\<lparr>mc_calls := n\<rparr>) = mac_ok ok present good rel c"
  "mac_ok ok present good rel (c\<lparr>mc_store := s\<rparr>) = mac_ok ok present good rel c"
  by (simp_all add: mac_ok_def)

section \<open>The contract of the back end\<close>

locale mac_driver =
  fixes driver :: "'d sessionMACDriver" and ok :: "'d \<Rightarrow> bool" and present :: "'d \<Rightarrow> string \<Rightarrow> bool" and good :: "string \<Rightarrow> bool"
  assumes good_canonical: "good b \<Longrightarrow> canonical_path b"
    and ensure_keeps: "ok d \<Longrightarrow> ensureCoverage driver tree d = (r, d') \<Longrightarrow> ok d' \<and> (present d b \<longrightarrow> present d' b)"
    and ensure_sound: "ok d \<Longrightarrow> ensureCoverage driver tree d = (Inr (v, new), d') \<Longrightarrow>
      present d' (cov_Boundary v) \<and> good (cov_Boundary v) \<and> (good tree \<longrightarrow> boundaryCoversTree (cov_Boundary v) tree)"
    and ensure_new: "ok d \<Longrightarrow> ensureCoverage driver tree d = (Inr (v, True), d') \<Longrightarrow> \<not> present d (cov_Boundary v)"
    and verify_keeps: "ok d \<Longrightarrow> verifyCoverage driver tree d = (q, d') \<Longrightarrow> ok d' \<and> (present d b \<longrightarrow> present d' b)"
    and verify_sound: "ok d \<Longrightarrow> verifyCoverage driver tree d = (Inr v, d') \<Longrightarrow>
      present d' (cov_Boundary v) \<and> good (cov_Boundary v) \<and> (good tree \<longrightarrow> boundaryCoversTree (cov_Boundary v) tree)"
    and prove_keeps: "ok d \<Longrightarrow> proveOwnedKind driver b' d = (p, d') \<Longrightarrow> ok d' \<and> (present d b \<longrightarrow> present d' b)"
    and discover_keeps: "ok d \<Longrightarrow> discoverHelperOwnedBoundaries driver d = (h, d') \<Longrightarrow> ok d' \<and> (present d b \<longrightarrow> present d' b)"
    and discover_sound: "ok d \<Longrightarrow> discoverHelperOwnedBoundaries driver d = (Inr hs, d') \<Longrightarrow> x \<in> set hs \<Longrightarrow> good (hb_Boundary x)"
    and remove_exact: "ok d \<Longrightarrow> good b' \<Longrightarrow> removeBoundary driver b' k d = (u, d') \<Longrightarrow>
      ok d' \<and> (b \<noteq> b' \<longrightarrow> present d b \<longrightarrow> present d' b)"
begin

abbreviation J :: "sessionMACCoverage list \<Rightarrow> consumers \<Rightarrow> 'd sessionMACCoordinator \<Rightarrow> bool" where
  "J rel u c \<equiv> mac_ok ok present good rel c \<and> tables c = u"

lemma drv_valid:
  assumes "\<And>d r d' b. ok d \<Longrightarrow> f d = (r, d') \<Longrightarrow> ok d' \<and> (present d b \<longrightarrow> present d' b)"
  shows "valid (J rel u) (drv f) (\<lambda>_. J rel u)"
  by (rule valid_drv) (use assms in \<open>fastforce simp: mac_ok_def\<close>)

lemma own_query_valid: "valid (J rel u) (own_query env f) (\<lambda>_. J rel u)"
  by (rule valid_own_query) simp

lemma own_exec_valid:
  assumes "\<And>rows. \<forall>r\<in>set rows. good (mb_boundary r) \<Longrightarrow> \<forall>r\<in>set (f rows). good (mb_boundary r)"
  shows "valid (J rel u) (own_exec env f) (\<lambda>_. J rel u)"
  by (rule valid_own_exec) (use assms in \<open>auto simp: mac_ok_def\<close>)

lemma record_valid: "good b \<Longrightarrow> valid (J rel u) (recordBoundaryOwnership env b k) (\<lambda>_. J rel u)"
  unfolding recordBoundaryOwnership_def
  by (rule valid_or_return) (auto intro!: valid_ret own_exec_valid)

lemma remove_driver_valid:
  assumes "good b" and "b \<notin> cov_Boundary ` set (held u)"
  shows "valid (J rel u) (drv (removeBoundary driver b k)) (\<lambda>_. J rel u)"
proof (rule valid_drv)
  fix c r d
  assume c: "J rel u c" and d: "removeBoundary driver b k (mc_driver c) = (r, d)"
  then have "ok (mc_driver c)" by (simp add: mac_ok_def)
  note step = remove_exact [OF this assms(1) d]
  have "present d (cov_Boundary v)" if "v \<in> set (held u)" for v
    using step [of "cov_Boundary v"] c assms(2) that by (auto simp: mac_ok_def)
  then show "J rel u (c\<lparr>mc_driver := d\<rparr>)" using c step by (simp add: mac_ok_def)
qed

lemma remove_valid:
  assumes "me_driver env = driver" and "good b" and "b \<notin> cov_Boundary ` set (held u)"
  shows "valid (J rel u) (try_remove env b) (\<lambda>_. J rel u)"
proof -
  have kind: "valid (J rel u) (ownedBoundaryRemovalKind env b) (\<lambda>_. J rel u)"
    unfolding ownedBoundaryRemovalKind_def boundaryOwnedKind_def by (rule own_query_valid)
  have converge: "valid (J rel u) (convergeLegacyOwnedKind env b) (\<lambda>_. J rel u)"
    unfolding convergeLegacyOwnedKind_def assms(1)
    by (rule valid_or_return [OF drv_valid]) (auto dest: prove_keeps intro!: valid_ret valid_or_return [OF record_valid [OF assms(2)]] split: option.split)
  have forget: "valid (J rel u) (forgetBoundaryOwnership env b) (\<lambda>_. J rel u)"
    unfolding forgetBoundaryOwnership_def by (rule own_exec_valid) auto
  have clean: "valid (J rel u) (change (\<lambda>c. c\<lparr>deferredBoundaries := removeAll b (deferredBoundaries c)\<rparr>)) (\<lambda>_. J rel u)"
    by (rule valid_change) (auto simp: mac_ok_def)
  have "valid (J rel u) (removeOwnedBoundary env b) (\<lambda>_. J rel u)"
    unfolding removeOwnedBoundary_def assms(1)
    by (rule valid_or_return [OF kind] valid_or_return [OF remove_driver_valid [OF assms(2,3)]] valid_bind [OF forget]
        valid_bind [OF clean] valid_or_return [where R = "\<lambda>_. J rel u"] | simp add: converge valid_ret | assumption)+
  then show ?thesis unfolding try_remove_def by (rule valid_bind) (simp add: valid_ret)
qed

lemma defer_valid: "good b \<Longrightarrow> valid (J rel u) (defer_boundary b) (\<lambda>_. J rel u)"
  unfolding defer_boundary_def by (rule valid_change) (auto simp: mac_ok_def set_put_def)

lemma pending_valid: "valid (J rel u) (pendingWorkloadCoverage env) (\<lambda>_. J rel u)"
  by (rule valid_pending) simp

text \<open>A decision followed by a removal that it permits.\<close>

lemma decide_valid:
  assumes "valid (J rel u) m (\<lambda>_. J rel u)" and "b \<notin> cov_Boundary ` set (held u) \<Longrightarrow> valid (J rel u) m' (\<lambda>_. J rel u)"
  shows "valid (J rel u) (do { may \<leftarrow> coord (boundaryMayBeRemoved b pend da); if \<not> may then m else m' }) (\<lambda>_. J rel u)"
proof (rule valid_bind [where R = "\<lambda>may c. J rel u c \<and> (may \<longrightarrow> b \<notin> cov_Boundary ` set (held u))"])
  show "valid (J rel u) (coord (boundaryMayBeRemoved b pend da)) (\<lambda>may c. J rel u c \<and> (may \<longrightarrow> b \<notin> cov_Boundary ` set (held u)))"
    by (rule valid_coord) (use may_be_removed_unused in blast)
  show "valid (\<lambda>c. J rel u c \<and> (may \<longrightarrow> b \<notin> cov_Boundary ` set (held u))) (if \<not> may then m else m') (\<lambda>_. J rel u)" for may
    using assms by (cases may) (auto simp: valid_def)
qed

end

lemma valid_prod: "(\<And>a b. valid P (f a b) Q) \<Longrightarrow> valid P (case r of (a, b) \<Rightarrow> f a b) Q"
  by (cases r) simp

lemma valid_pre: "(\<And>c. P c \<Longrightarrow> valid P m Q) \<Longrightarrow> valid P m Q"
  by (auto simp: valid_def)

context mac_driver
begin

lemma release_boundary_valid:
  assumes "me_driver env = driver"
  shows "valid (J (v # rel) u) (conditionalReleaseBoundary env (cov_Boundary v) owned) (\<lambda>_. J rel u)"
proof (rule valid_pre)
  fix c
  assume "J (v # rel) u c"
  then have good: "good (cov_Boundary v)" by (simp add: mac_ok_def)
  let ?b = "cov_Boundary v"
  have dec: "J rel u (c\<lparr>boundaryConsumerCounts := (boundaryConsumerCounts c)(?b := k)\<rparr>)"
    if "J (v # rel) u c" "boundaryConsumerCounts c ?b = Suc k" for c k
    using that by (auto simp: mac_ok_def)
  have drop: "valid (\<lambda>c. J (v # rel) u c \<and> n = boundaryConsumerCounts c ?b) (change (\<lambda>c. c\<lparr>boundaryConsumerCounts := (boundaryConsumerCounts c)(?b := 0)\<rparr>)) (\<lambda>_. J rel u)"
    if "n \<le> 1" for n
  proof (rule valid_change)
    fix c
    assume c: "J (v # rel) u c \<and> n = boundaryConsumerCounts c ?b"
    then have "boundaryConsumerCounts c ?b = Suc 0" using that by (auto simp: mac_ok_def)
    with dec c show "J rel u (c\<lparr>boundaryConsumerCounts := (boundaryConsumerCounts c)(?b := 0)\<rparr>)" by blast
  qed
  have keep: "valid (\<lambda>c. J (v # rel) u c \<and> n = boundaryConsumerCounts c ?b) (change (\<lambda>c. c\<lparr>boundaryConsumerCounts := (boundaryConsumerCounts c)(?b := n - 1)\<rparr>)) (\<lambda>_. J rel u)"
    if "\<not> n \<le> 1" for n
    by (rule valid_change) (use dec [of _ "n - 1"] that in auto)
  have decide: "valid (J rel u) (do { (pend, da) \<leftarrow> pendingWorkloadCoverage env;
       may \<leftarrow> coord (boundaryMayBeRemoved ?b pend da);
       if \<not> may then st_when owned (defer_boundary ?b) else st_when owned (try_remove env ?b) }) (\<lambda>_. J rel u)"
    by (intro valid_bind [OF pending_valid] valid_prod decide_valid)
      (auto intro!: valid_when defer_valid remove_valid assms good)
  have body: "valid (\<lambda>c. J (v # rel) u c \<and> n = boundaryConsumerCounts c ?b)
       (if n \<le> 1 then do {
         change (\<lambda>c. c\<lparr>boundaryConsumerCounts := (boundaryConsumerCounts c)(?b := 0)\<rparr>);
         (pend, da) \<leftarrow> pendingWorkloadCoverage env;
         may \<leftarrow> coord (boundaryMayBeRemoved ?b pend da);
         if \<not> may then st_when owned (defer_boundary ?b) else st_when owned (try_remove env ?b) }
       else change (\<lambda>c. c\<lparr>boundaryConsumerCounts := (boundaryConsumerCounts c)(?b := n - 1)\<rparr>)) (\<lambda>_. J rel u)" for n
    using valid_bind [OF drop decide, of n] keep [of n] by (cases "n \<le> 1") (simp_all only: if_True if_False simp_thms)
  show "valid (J (v # rel) u) (conditionalReleaseBoundary env ?b owned) (\<lambda>_. J rel u)"
    unfolding conditionalReleaseBoundary_def by (rule valid_bind [OF valid_coord body]) simp
qed

lemma each_good_valid:
  assumes "\<And>b. good b \<Longrightarrow> valid (J rel u) (f b) (\<lambda>_. J rel u)"
  shows "valid (\<lambda>c. J rel u c \<and> (\<forall>b\<in>set bs. good b)) (st_each f bs) (\<lambda>_. J rel u)"
proof (cases "\<forall>b\<in>set bs. good b")
  case True
  then have "valid (J rel u) (st_each f bs) (\<lambda>_. J rel u)" using assms by (intro valid_each) blast
  then show ?thesis by (rule valid_conseq) simp_all
qed (auto simp: valid_def)

lemma retry_valid:
  assumes "me_driver env = driver"
  shows "valid (J rel u) (retryDeferredBoundaries env) (\<lambda>_. J rel u)"
proof -
  have one: "valid (J rel u) (retry_one env pend da b) (\<lambda>_. J rel u)" if "good b" for pend da b
  proof -
    have clean: "valid (J rel u) (change (\<lambda>c. c\<lparr>deferredBoundaries := removeAll b (deferredBoundaries c)\<rparr>)) (\<lambda>_. J rel u)"
      by (rule valid_change) (auto simp: mac_ok_def)
    show ?thesis
      unfolding retry_one_def isBoundaryOwnedByHelper_def
      by (intro decide_valid valid_bind [OF own_query_valid] valid_sum valid_if)
        (auto intro!: valid_ret clean remove_valid assms that)
  qed
  have order: "valid (J rel u) (coord (\<lambda>c. filter (\<lambda>b. b \<in> set (deferredBoundaries c)) (me_order env (mc_calls c) (deferredBoundaries c))))
      (\<lambda>bs c. J rel u c \<and> (\<forall>b\<in>set bs. good b))"
    by (rule valid_coord) (auto simp: mac_ok_def)
  from each_good_valid [OF one] show ?thesis
    unfolding retryDeferredBoundaries_def by (intro valid_bind [OF pending_valid] valid_prod valid_bind [OF order])
qed

lemma rollback_valid:
  assumes "me_driver env = driver" and "\<forall>b\<in>set prepared. good b"
  shows "valid (J rel u) (rollbackPreparedBoundaries env prepared) (\<lambda>_. J rel u)"
  unfolding rollbackPreparedBoundaries_def
  by (intro valid_if valid_ret valid_bind [OF pending_valid] valid_prod valid_each decide_valid)
    (use assms in \<open>auto intro!: defer_valid remove_valid\<close>)

lemma cleanup_valid:
  assumes "me_driver env = driver"
  shows "valid (J rel u) (cleanupStaleBoundaries env) (\<lambda>_. J rel u)"
proof -
  have list: "valid (J rel u) (listOwnedBoundaries env) (\<lambda>r c. J rel u c \<and> (\<forall>bs. r = Inr bs \<longrightarrow> (\<forall>b\<in>set bs. good b)))"
    unfolding listOwnedBoundaries_def by (rule valid_own_query) (auto simp: mac_ok_def)
  have one: "valid (J rel u) (do {
         count \<leftarrow> coord (\<lambda>c. boundaryConsumerCounts c b);
         may \<leftarrow> coord (boundaryMayBeRemoved b pend da);
         if 0 < count then ret () else if \<not> may then defer_boundary b else try_remove env b }) (\<lambda>_. J rel u)" if "good b" for b pend da
  proof (rule valid_bind [where R = "\<lambda>_. J rel u"])
    show "valid (J rel u) (coord (\<lambda>c. boundaryConsumerCounts c b)) (\<lambda>_. J rel u)" by (rule valid_coord)
    show "valid (J rel u) (do { may \<leftarrow> coord (boundaryMayBeRemoved b pend da);
        if 0 < n then ret () else if \<not> may then defer_boundary b else try_remove env b }) (\<lambda>_. J rel u)" for n :: nat
    proof (cases "0 < n")
      case True
      then show ?thesis by (auto intro!: valid_bind [where R = "\<lambda>_. J rel u"] valid_coord valid_ret)
    next
      case False
      then show ?thesis
        using decide_valid [OF defer_valid [OF that] remove_valid [OF assms that], of b u rel pend da] by simp
    qed
  qed
  have pend: "valid (\<lambda>c. J rel u c \<and> (\<forall>b\<in>set bs. good b)) (pendingWorkloadCoverage env) (\<lambda>_ c. J rel u c \<and> (\<forall>b\<in>set bs. good b))" for bs
    by (rule valid_pending) simp
  have rest: "valid (\<lambda>c. J rel u c \<and> (\<forall>b\<in>set bs. good b)) (do { (pend, da) \<leftarrow> pendingWorkloadCoverage env;
       st_each (\<lambda>b. do {
         count \<leftarrow> coord (\<lambda>c. boundaryConsumerCounts c b);
         may \<leftarrow> coord (boundaryMayBeRemoved b pend da);
         if 0 < count then ret () else if \<not> may then defer_boundary b else try_remove env b }) bs; ret (Inr ()) }) (\<lambda>_. J rel u)" for bs
    by (intro valid_bind [OF pend] valid_prod valid_bind [OF each_good_valid [OF one]] valid_ret)
  show ?thesis
    unfolding cleanupStaleBoundaries_def
    by (intro valid_or_return [OF list] valid_conseq [OF rest]) simp_all
qed

lemma release_coverage_valid:
  assumes "me_driver env = driver"
  shows "valid (J cs u) (release_coverage env cs) (\<lambda>_. J [] u)"
proof -
  have "valid (J cs u) (st_each (\<lambda>v. conditionalReleaseBoundary env (cov_Boundary v) (cov_HelperOwned v)) cs) (\<lambda>_. J [] u)"
    by (induction cs) (auto intro: valid_ret valid_bind [OF release_boundary_valid [OF assms]])
  then show ?thesis unfolding release_coverage_def by (rule valid_bind) (rule retry_valid [OF assms])
qed

end

section \<open>Consumers come and go\<close>

lemma map_put_fresh: "k \<notin> fst ` set m \<Longrightarrow> map_put k v m = m @ [(k, v)]"
  by (force simp: map_put_def intro!: filter_True)

lemma map_del_mem: "set (map_del k m) = {p \<in> set m. fst p \<noteq> k}"
  by (auto simp: map_del_def)

lemma uses_map_del:
  assumes "distinct (map fst m)" and "map_of m k = Some cs"
  shows "uses b (concat (map snd m)) = uses b cs + uses b (concat (map snd (map_del k m)))"
  using assms
proof (induction m)
  case (Cons p m)
  show ?case
  proof (cases "fst p = k")
    case True
    then have "map_del k m = m" using Cons.prems(1) by (auto simp: map_del_def filter_id_conv rev_image_eqI)
    then show ?thesis using True Cons.prems(2) by (cases p) (simp add: map_del_def)
  next
    case False
    then show ?thesis using Cons by (cases p) (simp add: map_del_def)
  qed
qed simp

lemma mac_ok_split:
  assumes "mac_ok ok present good [] c" and "distinct (map fst (fst t))" and "distinct (map fst (snd t))"
    and "\<And>b. uses b (in_use c) = uses b (held t @ rel)"
    and "tables c' = t" and "boundaryConsumerCounts c' = boundaryConsumerCounts c" and "mc_driver c' = mc_driver c"
    and "deferredBoundaries c' = deferredBoundaries c" and "mc_owned c' = mc_owned c"
  shows "mac_ok ok present good rel c'"
proof -
  have "cov_Boundary v \<in> cov_Boundary ` set (in_use c)" if "v \<in> set (held t @ rel)" for v
    using assms(4) [of "cov_Boundary v"] uses_zero [of "cov_Boundary v"] that by (metis image_eqI)
  moreover have "present (mc_driver c) b \<and> good b" if "b \<in> cov_Boundary ` set (in_use c)" for b
    using assms(1) that by (auto simp: mac_ok_def)
  ultimately have v: "present (mc_driver c) (cov_Boundary v) \<and> good (cov_Boundary v)" if "v \<in> set (held t @ rel)" for v
    using that by blast
  have "sessionBindings c' = fst t" "sessionUseLeases c' = snd t" using assms(5) by (auto simp: tables_def)
  moreover have "\<forall>b. boundaryConsumerCounts c b = uses b (in_use c @ [])" "ok (mc_driver c)" "\<forall>b\<in>set (deferredBoundaries c). good b"
      "\<forall>r\<in>set (mc_owned c). good (mb_boundary r)"
    using assms(1) unfolding mac_ok_def by blast+
  ultimately show ?thesis
    unfolding mac_ok_def assms(5-9) using v assms(2-4) by simp
qed

text \<open>A consumer of coverage that the back end enforces.\<close>

lemma mac_ok_extend:
  assumes "mac_ok ok present good [] c" and "distinct (map fst (fst t))" and "distinct (map fst (snd t))"
    and "\<And>b. uses b (held t) = uses b (in_use c) + uses b cs" and "\<forall>v\<in>set cs. present (mc_driver c) (cov_Boundary v) \<and> good (cov_Boundary v)"
    and "tables c' = t" and "boundaryConsumerCounts c' = add_consumers cs (boundaryConsumerCounts c)" and "mc_driver c' = mc_driver c"
    and "deferredBoundaries c' = deferredBoundaries c" and "mc_owned c' = mc_owned c"
  shows "mac_ok ok present good [] c'"
proof -
  have c: "\<forall>b. boundaryConsumerCounts c b = uses b (in_use c @ [])" "ok (mc_driver c)"
      "\<forall>v\<in>set (in_use c). present (mc_driver c) (cov_Boundary v)" "\<forall>v\<in>set (in_use c @ []). good (cov_Boundary v)"
      "\<forall>b\<in>set (deferredBoundaries c). good b" "\<forall>r\<in>set (mc_owned c). good (mb_boundary r)"
    using assms(1) unfolding mac_ok_def by blast+
  have "cov_Boundary v \<in> cov_Boundary ` set (in_use c @ cs)" if "v \<in> set (held t)" for v
    using assms(4) [of "cov_Boundary v"] uses_zero [of "cov_Boundary v"] that by (metis image_eqI uses_simps(3))
  moreover have "present (mc_driver c) b \<and> good b" if "b \<in> cov_Boundary ` set (in_use c @ cs)" for b
    using c(3,4) assms(5) that by auto
  ultimately have v: "present (mc_driver c) (cov_Boundary v) \<and> good (cov_Boundary v)" if "v \<in> set (held t)" for v
    using that by blast
  have "sessionBindings c' = fst t" "sessionUseLeases c' = snd t" using assms(6) by (auto simp: tables_def)
  then show ?thesis
    unfolding mac_ok_def assms(6-10) using v assms(2-4) c by (simp add: add_consumers)
qed

context mac_driver
begin

abbreviation I :: "'d sessionMACCoordinator \<Rightarrow> bool" where
  "I \<equiv> mac_ok ok present good []"

lemma release_all_valid:
  assumes "me_driver env = driver"
  shows "valid (mac_ok ok present good cs) (release_coverage env cs) (\<lambda>_. I)"
proof -
  have "I c'" if "mac_ok ok present good cs c" "run_state (release_coverage env cs) c = (r, c')" for c r c'
  proof -
    have "J cs (tables c) c" using that(1) by simp
    from validD [OF release_coverage_valid [OF assms] this that(2)] show ?thesis by blast
  qed
  then show ?thesis unfolding valid_def by (simp split: prod.split)
qed

lemma ReleaseSessionBinding_valid:
  assumes "me_driver env = driver"
  shows "valid I (ReleaseSessionBinding env sid) (\<lambda>_. I)"
  unfolding ReleaseSessionBinding_def
proof (rule valid_bind [OF valid_coord [where Q = "\<lambda>b c. I c \<and> b = map_of (sessionBindings c) sid"]], simp)
  fix b
  show "valid (\<lambda>c. I c \<and> b = map_of (sessionBindings c) sid)
      (case b of None \<Rightarrow> ret () | Some cs \<Rightarrow> do {
         change (\<lambda>c. c\<lparr>sessionBindings := map_del sid (sessionBindings c)\<rparr>); release_coverage env cs }) (\<lambda>_. I)"
  proof (cases b)
    case (Some cs)
    have "valid (\<lambda>c. I c \<and> b = map_of (sessionBindings c) sid) (change (\<lambda>c. c\<lparr>sessionBindings := map_del sid (sessionBindings c)\<rparr>))
        (\<lambda>_. mac_ok ok present good cs)"
    proof (rule valid_change)
      fix c
      assume c: "I c \<and> b = map_of (sessionBindings c) sid"
      then have d: "distinct (map fst (sessionBindings c))" "distinct (map fst (sessionUseLeases c))" by (simp_all add: mac_ok_def)
      have d': "distinct (map fst (map_del sid (sessionBindings c)))" using d by (simp add: map_del_def distinct_map_filter)
      have u: "uses b' (concat (map snd (sessionBindings c))) = uses b' cs + uses b' (concat (map snd (map_del sid (sessionBindings c))))" for b'
        by (rule uses_map_del) (use d c Some in simp_all)
      show "mac_ok ok present good cs (c\<lparr>sessionBindings := map_del sid (sessionBindings c)\<rparr>)"
        by (rule mac_ok_split [where c = c and t = "(map_del sid (sessionBindings c), sessionUseLeases c)"]) (use c d d' u in \<open>simp_all add: tables_def held_def\<close>)
    qed
    then show ?thesis using Some release_all_valid [OF assms] by (auto intro: valid_bind)
  qed (auto intro: valid_ret)
qed

lemma releaseSessionUse_valid:
  assumes "me_driver env = driver"
  shows "valid I (releaseSessionUse env key) (\<lambda>_. I)"
  unfolding releaseSessionUse_def
proof (rule valid_bind [OF valid_coord [where Q = "\<lambda>b c. I c \<and> b = map_of (sessionUseLeases c) key"]], simp)
  fix b
  show "valid (\<lambda>c. I c \<and> b = map_of (sessionUseLeases c) key)
      (case b of None \<Rightarrow> ret () | Some cs \<Rightarrow> do {
         change (\<lambda>c. c\<lparr>sessionUseLeases := map_del key (sessionUseLeases c)\<rparr>); release_coverage env cs }) (\<lambda>_. I)"
  proof (cases b)
    case (Some cs)
    have "valid (\<lambda>c. I c \<and> b = map_of (sessionUseLeases c) key) (change (\<lambda>c. c\<lparr>sessionUseLeases := map_del key (sessionUseLeases c)\<rparr>))
        (\<lambda>_. mac_ok ok present good cs)"
    proof (rule valid_change)
      fix c
      assume c: "I c \<and> b = map_of (sessionUseLeases c) key"
      then have d: "distinct (map fst (sessionBindings c))" "distinct (map fst (sessionUseLeases c))" by (simp_all add: mac_ok_def)
      have d': "distinct (map fst (map_del key (sessionUseLeases c)))" using d by (simp add: map_del_def distinct_map_filter)
      have u: "uses b' (concat (map snd (sessionUseLeases c))) = uses b' cs + uses b' (concat (map snd (map_del key (sessionUseLeases c))))" for b'
        by (rule uses_map_del) (use d c Some in simp_all)
      show "mac_ok ok present good cs (c\<lparr>sessionUseLeases := map_del key (sessionUseLeases c)\<rparr>)"
        by (rule mac_ok_split [where c = c and t = "(sessionBindings c, map_del key (sessionUseLeases c))"]) (use c d d' u in \<open>simp_all add: tables_def held_def\<close>)
    qed
    then show ?thesis using Some release_all_valid [OF assms] by (auto intro: valid_bind)
  qed (auto intro: valid_ret)
qed

lemma acquire_valid:
  "valid (\<lambda>c. I c \<and> generateLeaseKey random \<notin> fst ` set (sessionUseLeases c)) (AcquireSessionUse env random sid w) (\<lambda>_. I)"
  unfolding AcquireSessionUse_def
proof (rule valid_bind [OF valid_coord [where Q = "\<lambda>b c. I c \<and> generateLeaseKey random \<notin> fst ` set (sessionUseLeases c) \<and>
      b = map_of (sessionBindings c) sid"]], simp)
  let ?P = "\<lambda>b c. I c \<and> generateLeaseKey random \<notin> fst ` set (sessionUseLeases c) \<and> b = map_of (sessionBindings c) sid"
  fix b
  show "valid (?P b) (case b of None \<Rightarrow> ret io_err | Some cs \<Rightarrow> or_return (mac_db (sessionExistsExact env sid w)) (\<lambda>live.
       if \<not> live then ret io_err
       else do {
         change (\<lambda>c. c\<lparr>boundaryConsumerCounts := add_consumers cs (boundaryConsumerCounts c),
           sessionUseLeases := map_put (generateLeaseKey random) cs (sessionUseLeases c)\<rparr>);
         ret (Inr (generateLeaseKey random)) })) (\<lambda>_. I)"
  proof (cases b)
    case (Some cs)
    have db: "valid (?P b) (mac_db (sessionExistsExact env sid w)) (\<lambda>_. ?P b)" by (rule valid_mac_db) simp
    have "valid (?P b) (change (\<lambda>c. c\<lparr>boundaryConsumerCounts := add_consumers cs (boundaryConsumerCounts c),
           sessionUseLeases := map_put (generateLeaseKey random) cs (sessionUseLeases c)\<rparr>)) (\<lambda>_. I)"
    proof (rule valid_change)
      fix c
      assume c: "?P b c"
      then have "(sid, cs) \<in> set (sessionBindings c)" using Some by (simp add: map_of_SomeD)
      then have sub: "set cs \<subseteq> set (in_use c)" by (auto simp: held_def tables_def)
      show "I (c\<lparr>boundaryConsumerCounts := add_consumers cs (boundaryConsumerCounts c),
           sessionUseLeases := map_put (generateLeaseKey random) cs (sessionUseLeases c)\<rparr>)"
      proof (rule mac_ok_extend [where c = c and cs = cs and t = "(sessionBindings c, sessionUseLeases c @ [(generateLeaseKey random, cs)])"])
        show "distinct (map fst (fst (sessionBindings c, sessionUseLeases c @ [(generateLeaseKey random, cs)])))"
          "distinct (map fst (snd (sessionBindings c, sessionUseLeases c @ [(generateLeaseKey random, cs)])))"
          using c by (auto simp: mac_ok_def)
        show "\<forall>v\<in>set cs. present (mc_driver c) (cov_Boundary v) \<and> good (cov_Boundary v)"
          using c sub by (auto simp: mac_ok_def)
      qed (use c in \<open>simp_all add: map_put_fresh tables_def held_def\<close>)
    qed
    note step = valid_bind [OF this, of "\<lambda>_. ret (Inr (generateLeaseKey random))" "\<lambda>_. I", OF valid_ret]
    show ?thesis
      unfolding Some option.case
    proof (rule valid_or_return [OF db [unfolded Some]])
      fix live
      show "valid (?P (Some cs)) (if \<not> live then ret io_err else do {
         change (\<lambda>c. c\<lparr>boundaryConsumerCounts := add_consumers cs (boundaryConsumerCounts c),
           sessionUseLeases := map_put (generateLeaseKey random) cs (sessionUseLeases c)\<rparr>);
         ret (Inr (generateLeaseKey random)) }) (\<lambda>_. I)"
        using step unfolding Some by (cases live) (auto intro!: valid_ret)
    qed simp
  qed (auto intro: valid_ret)
qed

end

section \<open>Coverage sets\<close>

text \<open>A resolved map: every key is the boundary of its coverage.\<close>

definition resolved_ok :: "(string \<times> sessionMACCoverage) list \<Rightarrow> bool" where
  "resolved_ok resolved \<longleftrightarrow> (\<forall>p\<in>set resolved. cov_Boundary (snd p) = fst p)"

lemma resolve_into_simps:
  assumes "resolved_ok resolved"
  shows "resolved_ok (resolve_into v resolved)"
    and "fst ` set (resolve_into v resolved) = insert (cov_Boundary v) (fst ` set resolved)"
    and "snd ` set (resolve_into v resolved) \<subseteq> insert v (snd ` set resolved)"
  using assms by (auto simp: resolve_into_def resolved_ok_def map_of_eq_None_iff)

lemma map_of_resolved:
  assumes "resolved_ok resolved" and "b \<in> fst ` set resolved"
  shows "the (map_of resolved b) \<in> snd ` set resolved" and "cov_Boundary (the (map_of resolved b)) = b"
proof -
  obtain v where v: "map_of resolved b = Some v" using assms(2) by (metis map_of_eq_None_iff not_None_eq)
  then have "(b, v) \<in> set resolved" by (rule map_of_SomeD)
  then show "the (map_of resolved b) \<in> snd ` set resolved" "cov_Boundary (the (map_of resolved b)) = b"
    using v assms(1) by (force simp: resolved_ok_def)+
qed

lemma coverage_loop_kept: "set kept \<subseteq> set (coverage_loop resolved kept bs)"
proof (induction bs arbitrary: kept)
  case (Cons x bs)
  from Cons [of kept] Cons [of "kept @ [the (map_of resolved x)]"] show ?case by auto
qed simp

lemma coverage_loop_within:
  assumes "resolved_ok resolved" and "set bs \<subseteq> fst ` set resolved"
  shows "set (coverage_loop resolved kept bs) \<subseteq> set kept \<union> snd ` set resolved"
  using assms(2)
proof (induction bs arbitrary: kept)
  case (Cons x bs)
  have "the (map_of resolved x) \<in> snd ` set resolved" using map_of_resolved(1) [OF assms(1), of x] Cons.prems by simp
  with Cons.IH [of kept] Cons.IH [of "kept @ [the (map_of resolved x)]"] Cons.prems show ?case by auto
qed simp

lemma coverage_loop_covers:
  assumes "resolved_ok resolved" and "set bs \<subseteq> fst ` set resolved" and "b \<in> set bs"
  shows "\<exists>v\<in>set (coverage_loop resolved kept bs). boundaryCoversTree (cov_Boundary v) b"
  using assms(2,3)
proof (induction bs arbitrary: kept)
  case (Cons x bs)
  let ?v = "the (map_of resolved x)"
  have x: "cov_Boundary ?v = x" using map_of_resolved(2) [OF assms(1), of x] Cons.prems by simp
  show ?case
  proof (cases "list_ex (\<lambda>v. boundaryCoversTree (cov_Boundary v) x) kept")
    case True
    then show ?thesis
      using coverage_loop_kept [of kept resolved bs] Cons.IH [of kept] Cons.prems by (auto simp: list_ex_iff)
  next
    case False
    then have "?v \<in> set (coverage_loop resolved kept (x # bs))" using coverage_loop_kept [of "kept @ [?v]" resolved bs] by simp
    moreover have "boundaryCoversTree (cov_Boundary ?v) x" using x pw.inside_refl by (simp add: boundaryCoversTree_def)
    ultimately show ?thesis using False Cons.IH [of "kept @ [?v]"] Cons.prems by auto
  qed
qed simp

lemma normalize_coverage:
  assumes "resolved_ok resolved"
  shows "set (normalizeCoverageSet resolved) \<subseteq> snd ` set resolved"
    and "b \<in> fst ` set resolved \<Longrightarrow> \<exists>v\<in>set (normalizeCoverageSet resolved). boundaryCoversTree (cov_Boundary v) b"
  using coverage_loop_within [OF assms, of "sort (map fst resolved)" "[]"]
    coverage_loop_covers [OF assms, of "sort (map fst resolved)" b "[]"] by (simp_all add: normalizeCoverageSet_def)

definition trees_covered :: "sessionMACCoverage list \<Rightarrow> string list \<Rightarrow> bool" where
  "trees_covered cs trees \<longleftrightarrow> (\<forall>t\<in>set trees. \<exists>v\<in>set cs. boundaryCoversTree (cov_Boundary v) t)"

context mac_driver
begin

text \<open>Coverage that a preparation has resolved so far.\<close>

definition prepared_ok :: "(string \<times> sessionMACCoverage) list \<Rightarrow> 'd sessionMACCoordinator \<Rightarrow> bool" where
  "prepared_ok resolved c \<longleftrightarrow> resolved_ok resolved \<and> (\<forall>b\<in>fst ` set resolved. present (mc_driver c) b \<and> good b)"

lemma prepared_frame [simp]:
  "prepared_ok rs (c\<lparr>mc_calls := n\<rparr>) = prepared_ok rs c" "prepared_ok rs (c\<lparr>mc_owned := rows\<rparr>) = prepared_ok rs c"
  "prepared_ok rs (c\<lparr>mc_store := s\<rparr>) = prepared_ok rs c"
  by (simp_all add: prepared_ok_def)

lemma normalize_prepared:
  assumes "prepared_ok rs c"
  shows "\<forall>v\<in>set (normalizeCoverageSet rs). present (mc_driver c) (cov_Boundary v) \<and> good (cov_Boundary v)"
proof
  fix v
  assume "v \<in> set (normalizeCoverageSet rs)"
  then have "v \<in> snd ` set rs" using normalize_coverage(1) assms by (auto simp: prepared_ok_def)
  then show "present (mc_driver c) (cov_Boundary v) \<and> good (cov_Boundary v)"
    using assms by (force simp: prepared_ok_def resolved_ok_def)
qed

lemma coverage_set_covers:
  assumes "prepared_ok rs c" and "\<forall>t\<in>set trees. good t \<and> (\<exists>b\<in>fst ` set rs. boundaryCoversTree b t)"
  shows "trees_covered (normalizeCoverageSet rs) trees"
  unfolding trees_covered_def
proof
  fix t
  assume "t \<in> set trees"
  then obtain b where b: "b \<in> fst ` set rs" "boundaryCoversTree b t" and t: "good t" using assms(2) by blast
  then obtain v where v: "v \<in> set (normalizeCoverageSet rs)" "boundaryCoversTree (cov_Boundary v) b"
    using normalize_coverage(2) assms(1) by (meson prepared_ok_def)
  have "good (cov_Boundary v)" "good b" using normalize_prepared [OF assms(1)] v(1) assms(1) b(1) by (auto simp: prepared_ok_def)
  then have "boundaryCoversTree (cov_Boundary v) t"
    using v(2) b(2) t pw.inside_trans [of "cov_Boundary v" b t] good_canonical by (simp add: boundaryCoversTree_def)
  then show "\<exists>v\<in>set (normalizeCoverageSet rs). boundaryCoversTree (cov_Boundary v) t" using v(1) by blast
qed

text \<open>One tree: what the preparation of a tree adds, and that the rest stays.\<close>

lemma ensure_boundary_valid:
  assumes "me_driver env = driver"
  shows "valid (\<lambda>c. J [] u c \<and> prepared_ok rs c) (ensureBoundaryWithOwnership env tree)
    (\<lambda>r c. J [] u c \<and> (\<forall>v new. r = Inr (v, new) \<longrightarrow>
       prepared_ok rs c \<and> present (mc_driver c) (cov_Boundary v) \<and> good (cov_Boundary v) \<and> (good tree \<longrightarrow> boundaryCoversTree (cov_Boundary v) tree)))"
proof -
  let ?A = "\<lambda>v new c. J [] u c \<and> prepared_ok rs c \<and> present (mc_driver c) (cov_Boundary v) \<and> good (cov_Boundary v) \<and>
      (good tree \<longrightarrow> boundaryCoversTree (cov_Boundary v) tree) \<and> (new \<longrightarrow> cov_Boundary v \<notin> cov_Boundary ` set (held u))"
  have first: "valid (\<lambda>c. J [] u c \<and> prepared_ok rs c) (drv (ensureCoverage driver tree))
      (\<lambda>r c. J [] u c \<and> (\<forall>v new. r = Inr (v, new) \<longrightarrow> ?A v new c))"
  proof (rule valid_drv)
    fix c r d
    assume c: "J [] u c \<and> prepared_ok rs c" and d: "ensureCoverage driver tree (mc_driver c) = (r, d)"
    then have okd: "ok (mc_driver c)" by (simp add: mac_ok_def)
    note keeps = ensure_keeps [OF okd d]
    have J: "J [] u (c\<lparr>mc_driver := d\<rparr>)" using c keeps by (simp add: mac_ok_def)
    moreover have "?A v new (c\<lparr>mc_driver := d\<rparr>)" if "r = Inr (v, new)" for v new
    proof -
      note s = ensure_sound [OF okd d [unfolded that]]
      have "prepared_ok rs (c\<lparr>mc_driver := d\<rparr>)" using c keeps by (simp add: prepared_ok_def)
      moreover have "cov_Boundary v \<notin> cov_Boundary ` set (held u)" if "new"
        using ensure_new [OF okd, of tree v d] d \<open>r = Inr (v, new)\<close> that c by (auto simp: mac_ok_def)
      ultimately show ?thesis using J s by simp
    qed
    ultimately show "J [] u (c\<lparr>mc_driver := d\<rparr>) \<and> (\<forall>v new. r = Inr (v, new) \<longrightarrow> ?A v new (c\<lparr>mc_driver := d\<rparr>))" by blast
  qed
  have A_own: "?A v new (c\<lparr>mc_owned := rows, mc_calls := n\<rparr>)" if "?A v new c" "\<forall>r\<in>set rows. good (mb_boundary r)" for v new c rows n
    using that by (simp add: mac_ok_def)
  have recorded: "valid (?A v True) (recordBoundaryOwnership env (cov_Boundary v) k) (\<lambda>_. ?A v True)" for v k
    unfolding recordBoundaryOwnership_def
  proof (rule valid_or_return [OF valid_ret [where Q = "\<lambda>_. ?A v True"]])
    show "valid (?A v True) (own_exec env (\<lambda>rows. filter (\<lambda>r. \<not> owned_row env (cov_Boundary v) r) rows @
         [\<lparr>mb_backend = driver_backend (me_driver env), mb_boundary = cov_Boundary v, mb_kind = kv\<rparr>])) (\<lambda>_. ?A v True)" for kv
    proof (rule valid_own_exec)
      fix c rows n
      assume A: "?A v True c" and rows: "rows \<in> {mc_owned c, filter (\<lambda>r. \<not> owned_row env (cov_Boundary v) r) (mc_owned c) @
         [\<lparr>mb_backend = driver_backend (me_driver env), mb_boundary = cov_Boundary v, mb_kind = kv\<rparr>]}"
      then have "\<forall>r\<in>set rows. good (mb_boundary r)" by (auto simp: mac_ok_def)
      with A show "?A v True (c\<lparr>mc_owned := rows, mc_calls := n\<rparr>)" by (rule A_own)
    qed
  qed
  have owned: "valid (?A v False) (isBoundaryOwnedByHelper env (cov_Boundary v)) (\<lambda>_. ?A v False)" for v
    unfolding isBoundaryOwnedByHelper_def by (rule valid_own_query) simp
  have undo: "valid (?A v True) (drv (removeBoundary driver (cov_Boundary v) k)) (\<lambda>_. J [] u)" for v k
  proof (rule valid_pre)
    fix c
    assume "?A v True c"
    then show "valid (?A v True) (drv (removeBoundary driver (cov_Boundary v) k)) (\<lambda>_. J [] u)"
      by (intro valid_conseq [OF remove_driver_valid [of "cov_Boundary v" u]]) blast+
  qed
  let ?Q = "\<lambda>r c. J [] u c \<and> (\<forall>v new. r = Inr (v, new) \<longrightarrow>
       prepared_ok rs c \<and> present (mc_driver c) (cov_Boundary v) \<and> good (cov_Boundary v) \<and>
       (good tree \<longrightarrow> boundaryCoversTree (cov_Boundary v) tree))"
  have created: "valid (?A v True) (do {
           r \<leftarrow> recordBoundaryOwnership env (cov_Boundary v) (cov_Kind v);
           case r of
             Inl e \<Rightarrow> do { drv (removeBoundary driver (cov_Boundary v) (cov_Kind v)); ret (Inl (ErrMACPreparation # e)) }
           | Inr _ \<Rightarrow> ret (Inr (v\<lparr>cov_HelperOwned := True\<rparr>, True)) }) ?Q" for v
  proof (rule valid_bind [OF recorded], rule valid_sum)
    fix e
    have "valid (J [] u) (ret (Inl (ErrMACPreparation # e))) ?Q" by (rule valid_ret) simp
    then show "valid (?A v True) (do { drv (removeBoundary driver (cov_Boundary v) (cov_Kind v)); ret (Inl (ErrMACPreparation # e)) }) ?Q"
      by (rule valid_bind [OF undo])
  qed (rule valid_ret, simp)
  have existing: "valid (?A v False) (do {
           r \<leftarrow> isBoundaryOwnedByHelper env (cov_Boundary v);
           ret (case r of Inl e \<Rightarrow> Inl (ErrMACPreparation # e) | Inr owned \<Rightarrow> Inr (v\<lparr>cov_HelperOwned := owned\<rparr>, False)) }) ?Q" for v
    by (rule valid_bind [OF owned], rule valid_ret) (auto split: sum.splits)
  show ?thesis
    unfolding ensureBoundaryWithOwnership_def assms
  proof (rule valid_bind [OF first])
    fix r :: "(go_error, sessionMACCoverage \<times> bool) result"
    show "valid (\<lambda>c. J [] u c \<and> (\<forall>v new. r = Inr (v, new) \<longrightarrow> ?A v new c))
       (case r of Inl e \<Rightarrow> ret (Inl (ErrMACPreparation # e))
        | Inr (v, new) \<Rightarrow> if new then do {
           r \<leftarrow> recordBoundaryOwnership env (cov_Boundary v) (cov_Kind v);
           case r of
             Inl e \<Rightarrow> do { drv (removeBoundary driver (cov_Boundary v) (cov_Kind v)); ret (Inl (ErrMACPreparation # e)) }
           | Inr _ \<Rightarrow> ret (Inr (v\<lparr>cov_HelperOwned := True\<rparr>, True)) }
         else do {
           r \<leftarrow> isBoundaryOwnedByHelper env (cov_Boundary v);
           ret (case r of Inl e \<Rightarrow> Inl (ErrMACPreparation # e) | Inr owned \<Rightarrow> Inr (v\<lparr>cov_HelperOwned := owned\<rparr>, False)) }) ?Q"
    proof (cases r)
      case (Inl e)
      then show ?thesis by (auto intro!: valid_ret)
    next
      case (Inr p)
      obtain v new where p: "p = (v, new)" by (cases p)
      show ?thesis
      proof (cases new)
        case True
        show ?thesis unfolding Inr p sum.case prod.case if_P [OF True] by (rule valid_conseq [OF created]) (use True in blast)+
      next
        case False
        show ?thesis unfolding Inr p sum.case prod.case if_not_P [OF False] by (rule valid_conseq [OF existing]) (use False in blast)+
      qed
    qed
  qed
qed

end

section \<open>Preparing and binding\<close>

context mac_driver
begin

lemma prepared_resolve:
  assumes "prepared_ok rs c" and "present (mc_driver c) (cov_Boundary v)" and "good (cov_Boundary v)"
  shows "prepared_ok (resolve_into v rs) c"
  using assms resolve_into_simps(1,2) [of rs v] by (auto simp: prepared_ok_def)

text \<open>Every tree of the list, on top of the trees already resolved.\<close>

lemma ensure_trees_valid:
  assumes "me_driver env = driver" and "\<forall>b\<in>set prepared. good b"
    and "\<forall>t\<in>set done. good t \<longrightarrow> (\<exists>b\<in>fst ` set rs. boundaryCoversTree b t)"
  shows "valid (\<lambda>c. J [] u c \<and> prepared_ok rs c) (ensure_trees env rs prepared trees)
    (\<lambda>r c. J [] u c \<and> (\<forall>cs bs. r = Inr (cs, bs) \<longrightarrow> (\<forall>b\<in>set bs. good b) \<and> trees_covered cs (filter good (done @ trees)) \<and>
       (\<forall>v\<in>set cs. present (mc_driver c) (cov_Boundary v) \<and> good (cov_Boundary v))))"
  using assms(2,3)
proof (induction trees arbitrary: rs prepared "done")
  case Nil
  show ?case
    by (simp, rule valid_ret) (use Nil.prems normalize_prepared coverage_set_covers [of rs _ "filter good done"] in auto)
next
  case (Cons t ts)
  let ?Q = "\<lambda>r c. J [] u c \<and> (\<forall>cs bs. r = Inr (cs, bs) \<longrightarrow> (\<forall>b\<in>set bs. good b) \<and> trees_covered cs (filter good (done @ t # ts)) \<and>
       (\<forall>v\<in>set cs. present (mc_driver c) (cov_Boundary v) \<and> good (cov_Boundary v)))"
  have fail: "valid (J [] u) (do { rollbackPreparedBoundaries env prepared; ret (Inl e) }) ?Q" for e
    by (rule valid_bind [OF rollback_valid [OF assms(1) Cons.prems(1)]], rule valid_ret) simp
  have step: "valid (\<lambda>c. J [] u c \<and> prepared_ok (resolve_into v rs) c)
      (ensure_trees env (resolve_into v rs) (if new then prepared @ [cov_Boundary v] else prepared) ts) ?Q"
    if "good (cov_Boundary v)" "good t \<longrightarrow> boundaryCoversTree (cov_Boundary v) t" "resolved_ok rs" for v new
    using Cons.IH [of "if new then prepared @ [cov_Boundary v] else prepared" "done @ [t]" "resolve_into v rs"] Cons.prems that
      resolve_into_simps(2) [OF that(3), of v] by (force simp: ball_Un)
  show ?case
    unfolding ensure_trees.simps
  proof (rule valid_bind [OF ensure_boundary_valid [OF assms(1)]])
    fix r :: "(go_error, sessionMACCoverage \<times> bool) result"
    let ?P = "\<lambda>c. J [] u c \<and> (\<forall>v new. r = Inr (v, new) \<longrightarrow>
       prepared_ok rs c \<and> present (mc_driver c) (cov_Boundary v) \<and> good (cov_Boundary v) \<and> (good t \<longrightarrow> boundaryCoversTree (cov_Boundary v) t))"
    show "valid ?P (case r of
         Inl e \<Rightarrow> do { rollbackPreparedBoundaries env prepared; ret (Inl e) }
       | Inr (v, new) \<Rightarrow> ensure_trees env (resolve_into v rs) (if new then prepared @ [cov_Boundary v] else prepared) ts) ?Q"
    proof (cases r)
      case (Inl e)
      show ?thesis unfolding Inl sum.case by (rule valid_conseq [OF fail]) simp_all
    next
      case (Inr p)
      obtain v new where p: "p = (v, new)" by (cases p)
      show ?thesis
        unfolding Inr p sum.case prod.case
      proof (rule valid_pre)
        fix c
        assume "J [] u c \<and> (\<forall>v' new'. Inr (v, new) = Inr (v', new') \<longrightarrow>
          prepared_ok rs c \<and> present (mc_driver c) (cov_Boundary v') \<and> good (cov_Boundary v') \<and> (good t \<longrightarrow> boundaryCoversTree (cov_Boundary v') t))"
        then have "good (cov_Boundary v)" "good t \<longrightarrow> boundaryCoversTree (cov_Boundary v) t" "resolved_ok rs"
          by (auto simp: prepared_ok_def)
        from step [OF this] show "valid (\<lambda>c. J [] u c \<and> (\<forall>v' new'. Inr (v, new) = Inr (v', new') \<longrightarrow>
            prepared_ok rs c \<and> present (mc_driver c) (cov_Boundary v') \<and> good (cov_Boundary v') \<and> (good t \<longrightarrow> boundaryCoversTree (cov_Boundary v') t)))
            (ensure_trees env (resolve_into v rs) (if new then prepared @ [cov_Boundary v] else prepared) ts) ?Q"
          by (rule valid_conseq) (use prepared_resolve in blast)+
      qed
    qed
  qed
qed

lemma bind_session_valid:
  assumes "\<And>c. P c \<Longrightarrow> I c \<and> sid \<notin> fst ` set (sessionBindings c) \<and>
      (\<forall>v\<in>set cs. present (mc_driver c) (cov_Boundary v) \<and> good (cov_Boundary v))"
  shows "valid P (bind_session sid cs) (\<lambda>_ c. I c \<and> map_of (sessionBindings c) sid = Some cs \<and>
    (\<forall>v\<in>set cs. present (mc_driver c) (cov_Boundary v)))"
  unfolding bind_session_def
proof (rule valid_change)
  fix c
  assume "P c"
  note c = assms [OF this]
  let ?c = "c\<lparr>sessionBindings := map_put sid cs (sessionBindings c), boundaryConsumerCounts := add_consumers cs (boundaryConsumerCounts c)\<rparr>"
  have d: "distinct (map fst (sessionBindings c))" "distinct (map fst (sessionUseLeases c))" using c by (simp_all add: mac_ok_def)
  have "I ?c"
    by (rule mac_ok_extend [where c = c and cs = cs and t = "(sessionBindings c @ [(sid, cs)], sessionUseLeases c)"])
      (use c d in \<open>simp_all add: map_put_fresh tables_def held_def\<close>)
  moreover have "map_of (sessionBindings ?c) sid = Some cs"
    using c by (simp add: map_put_fresh map_of_append map_add_def map_of_eq_None_iff [THEN iffD2])
  ultimately show "I ?c \<and> map_of (sessionBindings ?c) sid = Some cs \<and> (\<forall>v\<in>set cs. present (mc_driver ?c) (cov_Boundary v))"
    using c by simp
qed

lemma CreateSessionBinding_valid:
  assumes "me_driver env = driver"
  shows "valid (\<lambda>c. I c \<and> sid \<notin> fst ` set (sessionBindings c)) (CreateSessionBinding env sid trees ins)
    (\<lambda>r c. I c \<and> (\<forall>cs. r = Inr cs \<longrightarrow> map_of (sessionBindings c) sid = Some cs \<and> trees_covered cs (filter good trees) \<and>
       (\<forall>v\<in>set cs. present (mc_driver c) (cov_Boundary v))))" (is "valid ?P0 _ ?Q")
proof -
  have main: "valid (J [] u) (CreateSessionBinding env sid trees ins) ?Q" if fresh: "sid \<notin> fst ` set (fst u)" for u
    unfolding CreateSessionBinding_def ensureSessionCoverage_def
  proof (rule valid_or_return)
    let ?R = "\<lambda>r c. J [] u c \<and> (\<forall>cs bs. r = Inr (cs, bs) \<longrightarrow> (\<forall>b\<in>set bs. good b) \<and> trees_covered cs (filter good ([] @ trees)) \<and>
       (\<forall>v\<in>set cs. present (mc_driver c) (cov_Boundary v) \<and> good (cov_Boundary v)))"
    show "valid (J [] u) (ensure_trees env [] [] trees) ?R"
      by (rule valid_conseq [OF ensure_trees_valid [OF assms(1), of "[]" "[]" "[]" u trees]])
        (auto simp: prepared_ok_def resolved_ok_def)
    show "?Q (Inl e) c" if "?R (Inl e) c" for e c using that by simp
    fix p :: "sessionMACCoverage list \<times> string list"
    obtain cs bs where p: "p = (cs, bs)" by (cases p)
    let ?S = "\<lambda>c. J [] u c \<and> (\<forall>b\<in>set bs. good b) \<and> trees_covered cs (filter good trees) \<and>
       (\<forall>v\<in>set cs. present (mc_driver c) (cov_Boundary v) \<and> good (cov_Boundary v))"
    have db: "valid ?S (mac_db (ins cs)) (\<lambda>_. ?S)" by (rule valid_mac_db) simp
    have undo: "valid ?S (do { rollbackPreparedBoundaries env bs; ret (Inl e) }) ?Q" for e
    proof (rule valid_pre)
      fix c
      assume "?S c"
      then have "valid (J [] u) (rollbackPreparedBoundaries env bs) (\<lambda>_. J [] u)" using rollback_valid [OF assms(1)] by blast
      then show "valid ?S (do { rollbackPreparedBoundaries env bs; ret (Inl e) }) ?Q"
        by (intro valid_bind [where R = "\<lambda>_. J [] u"] valid_ret) (auto elim: valid_conseq)
    qed
    have commit: "valid ?S (do { bind_session sid cs; ret (Inr cs) }) ?Q"
    proof (rule valid_pre)
      fix c
      assume "?S c"
      then show "valid ?S (do { bind_session sid cs; ret (Inr cs) }) ?Q"
        by (intro valid_bind [OF bind_session_valid] valid_ret) (use fresh in \<open>auto simp: tables_def\<close>)
    qed
    show "valid (?R (Inr p)) (case p of (cs, bs) \<Rightarrow> do {
       r \<leftarrow> mac_db (ins cs);
       case r of Inl e \<Rightarrow> do { rollbackPreparedBoundaries env bs; ret (Inl e) }
       | Inr _ \<Rightarrow> do { bind_session sid cs; ret (Inr cs) } }) ?Q"
      unfolding p prod.case
      by (rule valid_conseq [OF valid_bind [OF db valid_sum [OF undo commit]]]) simp_all
  qed
  show ?thesis
    unfolding valid_def
  proof (intro allI impI)
    fix c
    assume "?P0 c"
    then have J: "J [] (tables c) c" and fresh: "sid \<notin> fst ` set (fst (tables c))" by (simp_all add: tables_def)
    obtain r c' where run: "run_state (CreateSessionBinding env sid trees ins) c = (r, c')" by (cases "run_state (CreateSessionBinding env sid trees ins) c")
    from validD [OF main [OF fresh] J run] show "case run_state (CreateSessionBinding env sid trees ins) c of (r, c') \<Rightarrow> ?Q r c'"
      by (simp add: run)
  qed
qed

end

section \<open>Startup and all transitions\<close>

text \<open>The transitions of a running coordinator, and changes of the store by the rest of the daemon.\<close>

inductive mac_step :: "'d sessionMACDriver \<Rightarrow> 'd sessionMACCoordinator \<Rightarrow> 'd sessionMACCoordinator \<Rightarrow> bool" for driver where
  create: "me_driver env = driver \<Longrightarrow> sid \<notin> fst ` set (sessionBindings c) \<Longrightarrow>
    run_state (CreateSessionBinding env sid trees ins) c = (r, c') \<Longrightarrow> mac_step driver c c'"
| release: "me_driver env = driver \<Longrightarrow> run_state (ReleaseSessionBinding env sid) c = (u, c') \<Longrightarrow> mac_step driver c c'"
| acquire: "me_driver env = driver \<Longrightarrow> generateLeaseKey random \<notin> fst ` set (sessionUseLeases c) \<Longrightarrow>
    run_state (AcquireSessionUse env random sid w) c = (k, c') \<Longrightarrow> mac_step driver c c'"
| unuse: "me_driver env = driver \<Longrightarrow> run_state (releaseSessionUse env key) c = (u, c') \<Longrightarrow> mac_step driver c c'"
| reconcile: "me_driver env = driver \<Longrightarrow> sessionBindings c = [] \<Longrightarrow> store_ok (mc_store c) \<Longrightarrow>
    run_state (ReconcileLiveSessions env) c = (q, c') \<Longrightarrow> mac_step driver c c'"
| rest: "mac_step driver c (c\<lparr>mc_store := s\<rparr>)"

context mac_driver
begin

lemma verify_valid:
  "valid (\<lambda>c. J [] u c \<and> prepared_ok rs c) (drv (verifyCoverage driver tree))
    (\<lambda>r c. J [] u c \<and> prepared_ok rs c \<and> (\<forall>v. r = Inr v \<longrightarrow> present (mc_driver c) (cov_Boundary v) \<and> good (cov_Boundary v)))"
proof (rule valid_drv)
  fix c r d
  assume c: "J [] u c \<and> prepared_ok rs c" and d: "verifyCoverage driver tree (mc_driver c) = (r, d)"
  then have "ok (mc_driver c)" by (simp add: mac_ok_def)
  note laws = verify_keeps [OF this d] verify_sound [OF this d [THEN trans]]
  have "present d (cov_Boundary v) \<and> good (cov_Boundary v)" if "r = Inr v" for v
    using verify_sound [OF \<open>ok (mc_driver c)\<close>, of tree v d] d that by simp
  then show "J [] u (c\<lparr>mc_driver := d\<rparr>) \<and> prepared_ok rs (c\<lparr>mc_driver := d\<rparr>) \<and>
      (\<forall>v. r = Inr v \<longrightarrow> present (mc_driver (c\<lparr>mc_driver := d\<rparr>)) (cov_Boundary v) \<and> good (cov_Boundary v))"
    using c laws(1) by (simp add: mac_ok_def prepared_ok_def)
qed

lemma reconcile_trees_valid:
  assumes "me_driver env = driver"
  shows "valid (\<lambda>c. J [] u c \<and> prepared_ok rs c) (reconcile_trees env rs trees)
    (\<lambda>r c. J [] u c \<and> (\<forall>rs'. r = Inr rs' \<longrightarrow> prepared_ok rs' c))"
proof (induction trees arbitrary: rs)
  case Nil
  show ?case by (simp, rule valid_ret) simp
next
  case (Cons t ts)
  let ?R = "\<lambda>r c. J [] u c \<and> (\<forall>v. r = Inr v \<longrightarrow> prepared_ok rs c \<and> present (mc_driver c) (cov_Boundary v) \<and> good (cov_Boundary v))"
  have repair: "valid (\<lambda>c. J [] u c \<and> prepared_ok rs c) (or_return (ensureBoundaryWithOwnership env t) (\<lambda>(v, _). ret (Inr v))) ?R"
    by (rule valid_or_return [OF ensure_boundary_valid [OF assms]]) (auto intro!: valid_ret)
  have found: "valid (\<lambda>c. J [] u c \<and> prepared_ok rs c \<and> present (mc_driver c) (cov_Boundary v) \<and> good (cov_Boundary v))
      (or_return (isBoundaryOwnedByHelper env (cov_Boundary v)) (\<lambda>owned. ret (Inr (v\<lparr>cov_HelperOwned := owned\<rparr>)))) ?R" for v
    unfolding isBoundaryOwnedByHelper_def
    by (rule valid_or_return [OF valid_own_query [where Q = "\<lambda>_ c. J [] u c \<and> prepared_ok rs c \<and> present (mc_driver c) (cov_Boundary v) \<and> good (cov_Boundary v)"]])
      (auto intro!: valid_ret)
  have go: "valid (?R (Inr v)) (reconcile_trees env (resolve_into v rs) ts) (\<lambda>r c. J [] u c \<and> (\<forall>rs'. r = Inr rs' \<longrightarrow> prepared_ok rs' c))" for v
    by (rule valid_conseq [OF Cons.IH]) (use prepared_resolve in blast)+
  show ?case
    unfolding reconcile_trees.simps assms
  proof (rule valid_bind [OF verify_valid], rule valid_or_return [where R = ?R])
    fix r :: "(go_error, sessionMACCoverage) result"
    show "valid (\<lambda>c. J [] u c \<and> prepared_ok rs c \<and> (\<forall>v. r = Inr v \<longrightarrow> present (mc_driver c) (cov_Boundary v) \<and> good (cov_Boundary v)))
        (case r of
          Inl _ \<Rightarrow> or_return (ensureBoundaryWithOwnership env t) (\<lambda>(v, _). ret (Inr v))
        | Inr v \<Rightarrow> or_return (isBoundaryOwnedByHelper env (cov_Boundary v)) (\<lambda>owned. ret (Inr (v\<lparr>cov_HelperOwned := owned\<rparr>)))) ?R"
    proof (cases r)
      case (Inl e)
      show ?thesis unfolding Inl sum.case by (rule valid_conseq [OF repair]) simp_all
    next
      case (Inr v)
      show ?thesis unfolding Inr sum.case by (rule valid_conseq [OF found]) simp_all
    qed
  qed (simp, rule go)
qed

lemma reconcile_session_valid:
  assumes "me_driver env = driver" and "fst s \<notin> A"
  shows "valid (\<lambda>c. I c \<and> fst ` set (sessionBindings c) \<subseteq> A) (reconcile_session env s)
    (\<lambda>_ c. I c \<and> fst ` set (sessionBindings c) \<subseteq> insert (fst s) A)"
proof -
  have main: "valid (J [] u) (reconcile_session env s) (\<lambda>_ c. I c \<and> fst ` set (sessionBindings c) \<subseteq> insert (fst s) A)"
    if sub: "fst ` set (fst u) \<subseteq> A" for u
  proof -
    have fresh: "fst s \<notin> fst ` set (fst u)" using sub assms(2) by blast
    have load: "valid (J [] u) (mac_db (loadSessionFilesystemSnapshot (me_hash env) (me_db env) (fst s) (snd s))) (\<lambda>_. J [] u)"
      by (rule valid_mac_db) simp
    have bound: "valid (\<lambda>c. J [] u c \<and> prepared_ok rs c) (do { bind_session (fst s) (normalizeCoverageSet rs); ret (Inr ()) })
        (\<lambda>_ c. I c \<and> fst ` set (sessionBindings c) \<subseteq> insert (fst s) A)" for rs
    proof -
      have b1: "valid (\<lambda>c. J [] u c \<and> prepared_ok rs c) (bind_session (fst s) (normalizeCoverageSet rs)) (\<lambda>_. I)"
      proof (rule valid_conseq [OF bind_session_valid [of "\<lambda>c. J [] u c \<and> prepared_ok rs c"]])
        fix c
        assume "J [] u c \<and> prepared_ok rs c"
        then show "I c \<and> fst s \<notin> fst ` set (sessionBindings c) \<and>
            (\<forall>v\<in>set (normalizeCoverageSet rs). present (mc_driver c) (cov_Boundary v) \<and> good (cov_Boundary v))"
          using fresh normalize_prepared [of rs c] unfolding tables_def by fastforce
      qed simp_all
      have b2: "valid (\<lambda>c. J [] u c \<and> prepared_ok rs c) (bind_session (fst s) (normalizeCoverageSet rs))
          (\<lambda>_ c. fst ` set (sessionBindings c) \<subseteq> insert (fst s) A)"
        unfolding bind_session_def by (rule valid_change) (use sub in \<open>force simp: tables_def map_put_def\<close>)
      have "valid (\<lambda>c. J [] u c \<and> prepared_ok rs c) (bind_session (fst s) (normalizeCoverageSet rs))
          (\<lambda>_ c. I c \<and> fst ` set (sessionBindings c) \<subseteq> insert (fst s) A)"
        by (rule valid_conseq [OF valid_conj [OF b1 b2]]) simp_all
      then show ?thesis by (rule valid_bind) (simp add: valid_ret)
    qed
    have trees: "valid (J [] u) (reconcile_trees env [] ts) (\<lambda>r c. J [] u c \<and> (\<forall>rs'. r = Inr rs' \<longrightarrow> prepared_ok rs' c))" for ts
      by (rule valid_conseq [OF reconcile_trees_valid [OF assms(1), of u "[]"]]) (simp_all add: prepared_ok_def resolved_ok_def)
    have stay: "I c \<and> fst ` set (sessionBindings c) \<subseteq> insert (fst s) A" if "J [] u c" for c
      using that sub unfolding tables_def by fastforce
    show ?thesis
      unfolding reconcile_session_def
      by (rule valid_or_return [OF load stay], assumption, rule valid_or_return [OF trees], rule stay, blast,
          rule valid_conseq [OF bound]) simp_all
  qed
  show ?thesis
    unfolding valid_def
  proof (intro allI impI)
    fix c
    assume c: "I c \<and> fst ` set (sessionBindings c) \<subseteq> A"
    then have "J [] (tables c) c" "fst ` set (fst (tables c)) \<subseteq> A" by (simp_all add: tables_def)
    then show "case run_state (reconcile_session env s) c of (_, c') \<Rightarrow> I c' \<and> fst ` set (sessionBindings c') \<subseteq> insert (fst s) A"
      using main [of "tables c"] unfolding valid_def by auto
  qed
qed

lemma reconcile_sessions_valid:
  assumes "me_driver env = driver" and "distinct (map fst ss)" and "fst ` set ss \<inter> A = {}"
  shows "valid (\<lambda>c. I c \<and> fst ` set (sessionBindings c) \<subseteq> A) (reconcile_sessions env ss) (\<lambda>_. I)"
  using assms(2,3)
proof (induction ss arbitrary: A)
  case Nil
  show ?case by (simp, rule valid_ret) simp
next
  case (Cons s ss)
  have "fst s \<notin> A" using Cons.prems(2) by auto
  moreover have "valid (\<lambda>c. I c \<and> fst ` set (sessionBindings c) \<subseteq> insert (fst s) A) (reconcile_sessions env ss) (\<lambda>_. I)"
    using Cons.prems by (intro Cons.IH) auto
  ultimately show ?case by (auto intro!: valid_or_return [OF reconcile_session_valid [OF assms(1)]])
qed

lemma import_valid:
  assumes "me_driver env = driver"
  shows "valid (J [] u) (importHelperOwnedBoundaries env) (\<lambda>_. J [] u)"
proof -
  have discover: "valid (J [] u) (drv (discoverHelperOwnedBoundaries driver)) (\<lambda>r c. J [] u c \<and> (\<forall>hs. r = Inr hs \<longrightarrow> (\<forall>x\<in>set hs. good (hb_Boundary x))))"
    by (rule valid_drv) (use discover_keeps discover_sound in \<open>fastforce simp: mac_ok_def\<close>)
  have each: "valid (J [] u) (st_each (\<lambda>b. do { recordBoundaryOwnership env (hb_Boundary b) (hb_Kind b); ret () }) hs) (\<lambda>_. J [] u)"
    if "\<forall>x\<in>set hs. good (hb_Boundary x)" for hs
    using that by (intro valid_each valid_bind [OF record_valid] valid_ret) auto
  show ?thesis
    unfolding importHelperOwnedBoundaries_def assms
  proof (rule valid_or_return [OF discover])
    fix hs
    show "valid (\<lambda>c. J [] u c \<and> (\<forall>hs'. (Inr hs :: (go_error, helperOwnedBoundary list) result) = Inr hs' \<longrightarrow> (\<forall>x\<in>set hs'. good (hb_Boundary x))))
       (do { st_each (\<lambda>b. do { recordBoundaryOwnership env (hb_Boundary b) (hb_Kind b); ret () }) hs; ret (Inr ()) }) (\<lambda>_. J [] u)"
      by (rule valid_pre) (rule valid_bind [OF valid_conseq [OF each, where Q' = "\<lambda>_. J [] u"]], auto intro: valid_ret)
  qed simp
qed

text \<open>Nothing of the import touches the store.\<close>

lemma import_store: "valid (\<lambda>c. mc_store c = s) (importHelperOwnedBoundaries env) (\<lambda>_ c. mc_store c = s)"
  unfolding importHelperOwnedBoundaries_def recordBoundaryOwnership_def
  by (intro valid_or_return [where R = "\<lambda>_ c. mc_store c = s"] valid_bind [where R = "\<lambda>_ c. mc_store c = s"] valid_each valid_drv
      valid_own_exec valid_ret) simp_all

lemma ReconcileLiveSessions_valid:
  assumes "me_driver env = driver"
  shows "valid (\<lambda>c. I c \<and> sessionBindings c = [] \<and> store_ok (mc_store c)) (ReconcileLiveSessions env) (\<lambda>_. I)"
proof -
  have main: "valid (\<lambda>c. J [] u c \<and> mc_store c = s) (ReconcileLiveSessions env) (\<lambda>_. I)" if "fst u = []" "store_ok s" for u s
  proof -
    have list: "valid (\<lambda>c. J [] u c \<and> mc_store c = s) (mac_db (listLiveSessionsWithIDs env))
        (\<lambda>r c. J [] u c \<and> (\<forall>live. r = Inr live \<longrightarrow> distinct (map fst live)))"
      unfolding listLiveSessionsWithIDs_def
      by (rule valid_mac_db) (use store_okD(6) [OF that(2)] in \<open>auto simp: query_def sessions_ok_def distinct_map_filter comp_def split: if_splits\<close>)
    have go: "valid (J [] u) (reconcile_sessions env live) (\<lambda>_. I)" if "distinct (map fst live)" for live
      by (rule valid_conseq [OF reconcile_sessions_valid [OF assms that, of "{}"]]) (use \<open>fst u = []\<close> in \<open>auto simp: tables_def\<close>)
    have tail: "valid I (do { cleanupStaleBoundaries env; ret (Inr ()) }) (\<lambda>_. I)"
    proof -
      have "I c'" if "I c" "run_state (cleanupStaleBoundaries env) c = (r, c')" for c r c'
        using validD [OF cleanup_valid [OF assms, of "[]" "tables c"] _ that(2)] that(1) by simp
      then have "valid I (cleanupStaleBoundaries env) (\<lambda>_. I)" by (simp add: valid_def split: prod.split)
      then show ?thesis by (rule valid_bind) (simp add: valid_ret)
    qed
    show ?thesis
      unfolding ReconcileLiveSessions_def
    proof (rule valid_or_return [OF valid_conj [OF import_valid [OF assms] import_store]]; (rule valid_or_return [OF list])?)
      fix live :: "(string \<times> string) list"
      show "valid (\<lambda>c. J [] u c \<and> (\<forall>live'. (Inr live :: (go_error, (string \<times> string) list) result) = Inr live' \<longrightarrow> distinct (map fst live')))
         (or_return (reconcile_sessions env live) (\<lambda>_. do { cleanupStaleBoundaries env; ret (Inr ()) })) (\<lambda>_. I)"
        by (rule valid_pre) (rule valid_or_return [OF valid_conseq [OF go]], auto intro: tail)
    qed simp_all
  qed
  show ?thesis
    unfolding valid_def
  proof (intro allI impI)
    fix c
    assume c: "I c \<and> sessionBindings c = [] \<and> store_ok (mc_store c)"
    then show "case run_state (ReconcileLiveSessions env) c of (_, c') \<Rightarrow> I c'"
      using main [of "tables c" "mc_store c"] unfolding valid_def by (simp add: tables_def)
  qed
qed

lemma step_ok:
  assumes "mac_step driver c c'" and "I c"
  shows "I c'"
  using assms(1)
proof cases
  case (create env sid trees ins r)
  then show ?thesis using validD [OF CreateSessionBinding_valid [of env]] assms(2) by blast
next
  case (release env sid u)
  then show ?thesis using validD [OF ReleaseSessionBinding_valid [of env]] assms(2) by blast
next
  case (acquire env random sid w k)
  then show ?thesis using validD [OF acquire_valid] assms(2) by blast
next
  case (unuse env key u)
  then show ?thesis using validD [OF releaseSessionUse_valid [of env]] assms(2) by blast
next
  case (reconcile env q)
  then show ?thesis using validD [OF ReconcileLiveSessions_valid [of env]] assms(2) by blast
next
  case (rest s)
  then show ?thesis using assms(2) by simp
qed

lemma steps_ok: "(mac_step driver)\<^sup>*\<^sup>* c c' \<Longrightarrow> I c \<Longrightarrow> I c'"
  by (induction rule: rtranclp_induct) (blast intro: step_ok)+

end

end
