(* ===== verification/AppArmor_Fragment.thy ===== *)
theory AppArmor_Fragment
  imports Workspace_Policy Go_Json
begin

text \<open>
  apparmor.go, the managed boundary fragment: the file in which the helper keeps the AppArmor rules
  of its workspace boundaries. A boundary is written as a line of JSON metadata followed by its rules;
  reading accepts a file only when rendering what was read gives the same bytes.
\<close>

section \<open>Boundaries\<close>

datatype appArmorBoundaryKind = appArmorBoundaryDirectory | appArmorBoundaryRegularFile

record appArmorManagedBoundary =
  ab_Path :: string
  ab_Kind :: appArmorBoundaryKind

definition managed :: "string \<Rightarrow> appArmorBoundaryKind \<Rightarrow> appArmorManagedBoundary" where
  "managed p k = \<lparr>ab_Path = p, ab_Kind = k\<rparr>"

definition validateBoundaryLexical :: "string \<Rightarrow> (go_error, unit) result" where
  "validateBoundaryLexical path =
     (if \<not> utf8_ValidString path then io_err
      else if \<not> filepath_IsAbs path then io_err
      else if path = ''/'' then io_err
      else if filepath_Clean path \<noteq> path then io_err
      else if suffix ''/'' path then io_err
      else if list_ex (\<lambda>r. r \<in> {0x2A, 0x3F, 0x5B, 0x5D, 0x7B, 0x7D}) (string_runes path) then io_err
      else validateHostPathText path)"

section \<open>Rendering\<close>

definition newline :: char where "newline = CHR 0x0A"

definition fragmentHeader1 :: string where
  "fragmentHeader1 = ''# Generated by docker-helper. Do not edit.''"

definition fragmentHeader2 :: string where
  "fragmentHeader2 = ''# Managed AppArmor workspace boundaries for docker-helper-system profile.''"

definition legacyFragmentHeader2 :: string where
  "legacyFragmentHeader2 = ''# Managed AppArmor workspace roots for docker-helper-system profile.''"

definition appArmorBoundaryFileMarker :: string where
  "appArmorBoundaryFileMarker = ''regular-file''"

text \<open>\<^verbatim>\<open>strings.ReplaceAll\<close> of one character.\<close>

definition replace_char :: "char \<Rightarrow> string \<Rightarrow> string \<Rightarrow> string" where
  "replace_char x y s = concat (map (\<lambda>c. if c = x then y else [c]) s)"

definition escapeAppArmorPath :: "string \<Rightarrow> string" where
  "escapeAppArmorPath path = replace_char quote_char [backslash, quote_char] (replace_char backslash [backslash, backslash] path)"

fun kind_rank :: "appArmorBoundaryKind \<Rightarrow> nat" where
  "kind_rank appArmorBoundaryDirectory = 0"
| "kind_rank appArmorBoundaryRegularFile = 1"

fun dedup_loop :: "appArmorManagedBoundary list \<Rightarrow> appArmorManagedBoundary list \<Rightarrow> appArmorManagedBoundary list" where
  "dedup_loop deduped [] = deduped"
| "dedup_loop deduped (b # bs) =
     (if deduped \<noteq> [] \<and> ab_Path b = ab_Path (last deduped) then dedup_loop deduped bs
      else dedup_loop (deduped @ [b]) bs)"

text \<open>Sorted by path, then by kind.\<close>

definition sortManagedBoundaries :: "appArmorManagedBoundary list \<Rightarrow> appArmorManagedBoundary list" where
  "sortManagedBoundaries boundaries =
     dedup_loop [] (sort_key ab_Path (sort_key (\<lambda>b. kind_rank (ab_Kind b)) boundaries))"

definition file_meta_json :: "string \<Rightarrow> string" where
  "file_meta_json path = ''{'' @ json_quote ''path'' @ '':'' @ json_quote path @ '','' @
     json_quote ''kind'' @ '':'' @ json_quote appArmorBoundaryFileMarker @ ''}''"

definition metadata_json :: "appArmorManagedBoundary \<Rightarrow> string" where
  "metadata_json b = (if ab_Kind b = appArmorBoundaryRegularFile then file_meta_json (ab_Path b) else json_quote (ab_Path b))"

definition metadata_prefix :: string where "metadata_prefix = ''# root-json: ''"

definition render_boundary :: "appArmorManagedBoundary \<Rightarrow> string" where
  "render_boundary b =
     (let escaped = escapeAppArmorPath (ab_Path b) in
      [newline] @ metadata_prefix @ metadata_json b @ [newline] @
      (if ab_Kind b = appArmorBoundaryRegularFile
       then [quote_char] @ escaped @ [quote_char] @ '' r,'' @ [newline]
       else [quote_char] @ escaped @ ''/'' @ [quote_char] @ '' r,'' @ [newline] @
            [quote_char] @ escaped @ ''/**'' @ [quote_char] @ '' r,'' @ [newline]))"

definition fragment_text :: "string \<Rightarrow> appArmorManagedBoundary list \<Rightarrow> string" where
  "fragment_text header2 bs = fragmentHeader1 @ [newline] @ header2 @ [newline] @ concat (map render_boundary bs)"

definition renderFragment :: "appArmorManagedBoundary list \<Rightarrow> string" where
  "renderFragment boundaries = fragment_text fragmentHeader2 (sortManagedBoundaries boundaries)"

section \<open>Parsing\<close>

text \<open>\<^verbatim>\<open>strings.Split\<close> at a character.\<close>

fun split_char :: "char \<Rightarrow> string \<Rightarrow> string list" where
  "split_char x [] = [[]]"
| "split_char x (c # cs) =
     (if c = x then [] # split_char x cs
      else (case split_char x cs of [] \<Rightarrow> [[c]] | w # ws \<Rightarrow> (c # w) # ws))"

text \<open>The file metadata object, with the zero values of absent members.\<close>

fun unmarshal_meta :: "(string \<times> json) list \<Rightarrow> string \<times> string \<Rightarrow> (string \<times> string) option" where
  "unmarshal_meta [] m = Some m"
| "unmarshal_meta ((k, v) # ms) (path, kind) =
     (if member_is ''path'' k then
        (case unmarshal_string path v of None \<Rightarrow> None | Some s \<Rightarrow> unmarshal_meta ms (s, kind))
      else if member_is ''kind'' k then
        (case unmarshal_string kind v of None \<Rightarrow> None | Some s \<Rightarrow> unmarshal_meta ms (path, s))
      else unmarshal_meta ms (path, kind))"

definition parseRootJSONBoundary :: "string \<Rightarrow> (go_error, appArmorManagedBoundary) result" where
  "parseRootJSONBoundary metadata =
     (case json_parse metadata of
        None \<Rightarrow> io_err
      | Some j \<Rightarrow>
         (case unmarshal_string [] j of
            Some legacy \<Rightarrow> Inr (managed legacy appArmorBoundaryDirectory)
          | None \<Rightarrow>
             (case j of
                JObject ms \<Rightarrow>
                 (case unmarshal_meta ms ([], []) of
                    None \<Rightarrow> io_err
                  | Some (path, kind) \<Rightarrow>
                      if kind \<noteq> appArmorBoundaryFileMarker then io_err
                      else Inr (managed path appArmorBoundaryRegularFile))
              | _ \<Rightarrow> io_err)))"

fun parse_boundary_lines :: "string list \<Rightarrow> (go_error, appArmorManagedBoundary list) result" where
  "parse_boundary_lines [] = Inr []"
| "parse_boundary_lines (line # lines) =
     (if line = [] then parse_boundary_lines lines
      else if prefix metadata_prefix line then
        and_then (parseRootJSONBoundary (drop (length metadata_prefix) line)) (\<lambda>boundary.
          and_then (validateBoundaryLexical (ab_Path boundary)) (\<lambda>_.
            and_then (parse_boundary_lines lines) (\<lambda>boundaries. Inr (boundary # boundaries))))
      else parse_boundary_lines lines)"

text \<open>\<^verbatim>\<open>bytes.Replace(s, old, new, 1)\<close>.\<close>

fun replace_first :: "string \<Rightarrow> string \<Rightarrow> string \<Rightarrow> string" where
  "replace_first old new [] = (if old = [] then new else [])"
| "replace_first old new (c # cs) =
     (if prefix old (c # cs) then new @ drop (length old) (c # cs) else c # replace_first old new cs)"

definition parseFragment :: "string \<Rightarrow> (go_error, appArmorManagedBoundary list) result" where
  "parseFragment data =
     (if \<not> suffix [newline] data then io_err
      else let lines = split_char newline data in
        if length lines < 2 then io_err
        else if lines ! 0 \<noteq> fragmentHeader1 then io_err
        else if lines ! 1 \<noteq> fragmentHeader2 \<and> lines ! 1 \<noteq> legacyFragmentHeader2 then io_err
        else and_then (parse_boundary_lines (drop 2 lines)) (\<lambda>boundaries.
          let deduped = sortManagedBoundaries boundaries;
              expected = renderFragment deduped;
              legacyExpected = replace_first (fragmentHeader2 @ [newline]) (legacyFragmentHeader2 @ [newline]) expected
          in if data \<noteq> expected \<and> data \<noteq> legacyExpected then io_err else Inr deduped))"

section \<open>Sorting\<close>

lemma dedup_loop_mem:
  "set (dedup_loop acc bs) \<subseteq> set acc \<union> set bs"
  "ab_Path ` set (dedup_loop acc bs) = ab_Path ` set acc \<union> ab_Path ` set bs"
proof (induction bs arbitrary: acc)
  case (Cons b bs)
  { case 1 show ?case using Cons.IH(1) [of "acc @ [b]"] Cons.IH(1) [of acc] by auto }
  { case 2
    show ?case
    proof (cases "acc \<noteq> [] \<and> ab_Path b = ab_Path (last acc)")
      case True
      then have "ab_Path b \<in> ab_Path ` set acc" by (metis image_eqI last_in_set)
      then show ?thesis using True Cons.IH(2) [of acc] by auto
    next
      case False
      then show ?thesis using Cons.IH(2) [of "acc @ [b]"] by auto
    qed }
qed simp_all

lemma dedup_loop_strict:
  assumes "sorted (map ab_Path (acc @ bs))" and "sorted_wrt (<) (map ab_Path acc)"
  shows "sorted_wrt (<) (map ab_Path (dedup_loop acc bs))"
  using assms
proof (induction bs arbitrary: acc)
  case (Cons b bs)
  show ?case
  proof (cases "acc \<noteq> [] \<and> ab_Path b = ab_Path (last acc)")
    case True
    then show ?thesis using Cons.prems Cons.IH [of acc] by (simp add: sorted_append)
  next
    case False
    have le: "ab_Path x \<le> ab_Path b" if "x \<in> set acc" for x using Cons.prems(1) that by (auto simp: sorted_append)
    have "ab_Path x < ab_Path b" if x: "x \<in> set acc" for x
    proof -
      have "ab_Path x \<le> ab_Path (last acc)"
        using Cons.prems(2) x by (cases acc rule: rev_cases) (auto simp: sorted_wrt_append less_imp_le)
      moreover have "ab_Path (last acc) < ab_Path b" using le [of "last acc"] False x last_in_set [of acc] by (cases "acc = []") (auto simp: order.strict_iff_order)
      ultimately show ?thesis by (rule order.strict_trans1)
    qed
    then have "sorted_wrt (<) (map ab_Path (acc @ [b]))" using Cons.prems(2) by (auto simp: sorted_wrt_append)
    then show ?thesis using False Cons.prems(1) Cons.IH [of "acc @ [b]"] by auto
  qed
qed simp

lemma dedup_loop_id: "distinct (map ab_Path (acc @ bs)) \<Longrightarrow> dedup_loop acc bs = acc @ bs"
proof (induction bs arbitrary: acc)
  case (Cons b bs)
  then have "\<not> (acc \<noteq> [] \<and> ab_Path b = ab_Path (last acc))" using last_in_set [of acc] by (auto simp: rev_image_eqI)
  then show ?case using Cons.IH [of "acc @ [b]"] Cons.prems by auto
qed simp

lemma sort_boundaries:
  "set (sortManagedBoundaries bs) \<subseteq> set bs"
  "ab_Path ` set (sortManagedBoundaries bs) = ab_Path ` set bs"
  "sorted_wrt (<) (map ab_Path (sortManagedBoundaries bs))"
  using dedup_loop_mem [of "[]" "sort_key ab_Path (sort_key (\<lambda>b. kind_rank (ab_Kind b)) bs)"] dedup_loop_strict [of "[]"]
  by (simp_all add: sortManagedBoundaries_def)

lemma strict_distinct: "sorted_wrt (<) (map f xs) \<Longrightarrow> distinct (map f xs)" for f :: "'a \<Rightarrow> 'b::linorder"
  using strict_sorted_iff by blast

lemma sort_boundaries_id:
  assumes "sorted_wrt (<) (map ab_Path bs)"
  shows "sortManagedBoundaries bs = bs"
proof -
  let ?s = "sort_key ab_Path (sort_key (\<lambda>b. kind_rank (ab_Kind b)) bs)"
  have d: "distinct (map ab_Path bs)" and s: "sorted (map ab_Path bs)" using assms strict_sorted_iff by blast+
  have "distinct (map ab_Path ?s)" using d by (simp add: distinct_map)
  moreover have "?s = bs"
    by (rule map_sorted_distinct_set_unique [of ab_Path]) (use d s in \<open>simp_all add: distinct_map\<close>)
  ultimately show ?thesis using d by (simp add: sortManagedBoundaries_def dedup_loop_id)
qed

lemma sort_boundaries_idem [simp]: "sortManagedBoundaries (sortManagedBoundaries bs) = sortManagedBoundaries bs"
  by (rule sort_boundaries_id) (rule sort_boundaries(3))

section \<open>Lines\<close>

lemma split_char_append: "x \<notin> set a \<Longrightarrow> split_char x (a @ x # b) = a # split_char x b"
  by (induction a) auto

lemma control_byte_mem: "b \<in> set bs \<Longrightarrow> ascii_control b \<Longrightarrow> control_bytes bs"
  by (induction bs rule: control_bytes.induct) auto

definition boundary_ok :: "string \<Rightarrow> bool" where
  "boundary_ok p \<longleftrightarrow> validateBoundaryLexical p = Inr ()"

lemma boundary_okD:
  assumes "boundary_ok p"
  shows "utf8_ValidString p" "canonical_path p" "p \<noteq> ''/''" "validateHostPathText p = Inr ()" "newline \<notin> set p"
proof -
  show t: "utf8_ValidString p" "canonical_path p" "p \<noteq> ''/''" "validateHostPathText p = Inr ()"
    using assms unfolding boundary_ok_def validateBoundaryLexical_def canonical_path_def
    by (simp_all del: validateHostPathText_Inr split: if_split_asm)
  have "\<not> control_bytes (map of_char p)" using t(4) text_bytes [of p] by simp
  moreover have "ascii_control (of_char newline)" by (simp add: newline_def ascii_control_def)
  ultimately show "newline \<notin> set p" using control_byte_mem [of "of_char newline" "map of_char p"] by auto
qed

lemma hex_digit_newline [simp]: "hex_digit n \<noteq> newline"
proof -
  have "\<forall>m<16. (''0123456789abcdef'' ! m) \<noteq> newline" by code_simp
  then show ?thesis by (simp add: hex_digit_def)
qed

lemma special_chars [simp]: "quote_char \<noteq> newline" "backslash \<noteq> newline" "newline \<noteq> quote_char" "newline \<noteq> backslash"
  by (simp_all add: quote_char_def backslash_def newline_def)

lemma escape_newline:
  assumes "newline \<notin> set chunk"
  shows "newline \<notin> set (escape_chunk chunk)"
proof -
  have u: "newline \<notin> set (unicode_escape n)" for n using hex_digit_newline [THEN not_sym] by (simp add: unicode_escape_def) (simp add: newline_def)
  have a: "newline \<notin> set (escape_ascii c)" if "c \<noteq> newline" for c
    using that u [of "of_char c"] by (auto simp: escape_ascii_def newline_def backslash_def)
  show ?thesis using assms u a by (auto simp: escape_chunk_def split: list.splits)
qed

lemma concat_rune_chunks [simp]: "concat (rune_chunks s) = s"
  by (induction s rule: rune_chunks.induct) (simp_all add: Let_def)

lemma quote_newline: "newline \<notin> set s \<Longrightarrow> newline \<notin> set (json_quote s)"
proof -
  assume s: "newline \<notin> set s"
  have "newline \<notin> set ch" if "ch \<in> set (rune_chunks s)" for ch
    using s that concat_rune_chunks [of s] by (metis UN_I set_concat)
  then show ?thesis using escape_newline by (fastforce simp: json_quote_def)
qed

lemma replace_char_newline: "newline \<notin> set s \<Longrightarrow> newline \<notin> set y \<Longrightarrow> newline \<notin> set (replace_char x y s)"
  by (auto simp: replace_char_def)

lemma escaped_newline: "newline \<notin> set p \<Longrightarrow> newline \<notin> set (escapeAppArmorPath p)"
  unfolding escapeAppArmorPath_def by (intro replace_char_newline) simp_all

lemma metadata_newline: "newline \<notin> set (ab_Path b) \<Longrightarrow> newline \<notin> set (metadata_json b)"
proof -
  assume b: "newline \<notin> set (ab_Path b)"
  have "newline \<notin> set (json_quote ''path'')" "newline \<notin> set (json_quote ''kind'')" "newline \<notin> set (json_quote appArmorBoundaryFileMarker)"
    by (rule quote_newline, simp add: newline_def appArmorBoundaryFileMarker_def)+
  then show ?thesis using quote_newline [OF b] by (simp add: metadata_json_def file_meta_json_def) (simp add: newline_def)
qed

section \<open>Reading back what was written\<close>

definition rule_lines :: "appArmorManagedBoundary \<Rightarrow> string list" where
  "rule_lines b =
     (let escaped = escapeAppArmorPath (ab_Path b) in
      if ab_Kind b = appArmorBoundaryRegularFile then [[quote_char] @ escaped @ [quote_char] @ '' r,'']
      else [[quote_char] @ escaped @ ''/'' @ [quote_char] @ '' r,'', [quote_char] @ escaped @ ''/**'' @ [quote_char] @ '' r,''])"

definition boundary_lines :: "appArmorManagedBoundary \<Rightarrow> string list" where
  "boundary_lines b = (metadata_prefix @ metadata_json b) # rule_lines b"

definition line_text :: "string list \<Rightarrow> string" where
  "line_text ls = concat (map (\<lambda>l. l @ [newline]) ls)"

lemma split_line_text: "\<forall>l\<in>set ls. newline \<notin> set l \<Longrightarrow> split_char newline (line_text ls @ r) = ls @ split_char newline r"
  by (induction ls) (simp_all add: line_text_def split_char_append)

lemma line_text_simps [simp]:
  "line_text [] = []" "line_text (l # ls) = l @ newline # line_text ls" "line_text (xs @ ys) = line_text xs @ line_text ys"
  by (simp_all add: line_text_def)

lemma render_boundary_lines: "render_boundary b = line_text ([] # boundary_lines b)"
  by (simp add: render_boundary_def boundary_lines_def rule_lines_def Let_def)

lemma fragment_text_lines:
  "fragment_text header2 bs = line_text ([fragmentHeader1, header2] @ concat (map (\<lambda>b. [] # boundary_lines b) bs))"
proof -
  have "concat (map render_boundary bs) = line_text (concat (map (\<lambda>b. [] # boundary_lines b) bs))"
    by (induction bs) (simp_all add: render_boundary_lines)
  then show ?thesis by (simp add: fragment_text_def)
qed

lemma rule_line_shape: "l \<in> set (rule_lines b) \<Longrightarrow> \<exists>m. l = quote_char # m"
  by (auto simp: rule_lines_def Let_def split: if_splits)

lemma boundary_lines_newline:
  assumes "newline \<notin> set (ab_Path b)"
  shows "\<forall>l\<in>set (boundary_lines b). newline \<notin> set l"
proof -
  have "newline \<notin> set metadata_prefix" "newline \<noteq> CHR '' ''" "newline \<noteq> CHR ''r''" "newline \<noteq> CHR '',''" "newline \<noteq> CHR ''/''" "newline \<noteq> CHR ''*''"
    by (simp_all add: newline_def metadata_prefix_def)
  then show ?thesis
    using metadata_newline [OF assms] escaped_newline [OF assms]
    unfolding boundary_lines_def rule_lines_def Let_def by simp
qed

lemma parse_metadata:
  assumes "utf8_ValidString (ab_Path b)"
  shows "parseRootJSONBoundary (metadata_json b) = Inr b"
proof (cases "ab_Kind b")
  case appArmorBoundaryDirectory
  then show ?thesis
    using parse_quote [OF assms] by (simp add: parseRootJSONBoundary_def metadata_json_def unmarshal_string_def managed_def)
next
  case appArmorBoundaryRegularFile
  have v: "utf8_ValidString ''path''" "utf8_ValidString ''kind''" "utf8_ValidString appArmorBoundaryFileMarker" by code_simp+
  have p: "punctuation (CHR ''{'') = Some TokOpenObject" "punctuation (CHR ''}'') = Some TokCloseObject"
    "punctuation (CHR '':'') = Some TokColon" "punctuation (CHR '','') = Some TokComma"
    "\<not> json_space (CHR ''{'')" "\<not> json_space (CHR ''}'')" "\<not> json_space (CHR '':'')" "\<not> json_space (CHR '','')" by code_simp+
  have "json_tokens (file_meta_json (ab_Path b)) = Some [TokOpenObject, TokString ''path'', TokColon, TokString (ab_Path b), TokComma,
      TokString ''kind'', TokColon, TokString appArmorBoundaryFileMarker, TokCloseObject]"
    unfolding file_meta_json_def by (simp add: p tokens_quote v assms)
  then have "json_parse (file_meta_json (ab_Path b)) =
      Some (JObject [(''path'', JString (ab_Path b)), (''kind'', JString appArmorBoundaryFileMarker)])"
    by (simp add: json_parse_def value_start_def open_frame_def maxNestingDepth_def)
  moreover have "\<not> member_is ''path'' ''kind''" by code_simp
  ultimately show ?thesis using appArmorBoundaryRegularFile
    by (simp add: parseRootJSONBoundary_def metadata_json_def unmarshal_string_def managed_def)
qed

lemma parse_lines_block:
  assumes "boundary_ok (ab_Path b)"
  shows "parse_boundary_lines ([] # boundary_lines b @ ls) = and_then (parse_boundary_lines ls) (\<lambda>bs. Inr (b # bs))"
proof -
  have "parse_boundary_lines (rule_lines b @ ls) = parse_boundary_lines ls"
  proof -
    have "\<not> prefix metadata_prefix (quote_char # m)" for m by (simp add: metadata_prefix_def quote_char_def)
    then have "parse_boundary_lines (rs @ ls) = parse_boundary_lines ls" if "\<forall>l\<in>set rs. \<exists>m. l = quote_char # m" for rs
      using that by (induction rs) auto
    then show ?thesis using rule_line_shape by blast
  qed
  moreover have "metadata_prefix \<noteq> []" by (simp add: metadata_prefix_def)
  ultimately show ?thesis
    using parse_metadata [OF boundary_okD(1) [OF assms]] assms by (simp add: boundary_lines_def boundary_ok_def)
qed

lemma parse_lines_blocks:
  "\<forall>b\<in>set bs. boundary_ok (ab_Path b) \<Longrightarrow> parse_boundary_lines (concat (map (\<lambda>b. [] # boundary_lines b) bs) @ [[]]) = Inr bs"
proof (induction bs)
  case (Cons b bs)
  then show ?case using parse_lines_block [of b "concat (map (\<lambda>b. [] # boundary_lines b) bs) @ [[]]"] by simp
qed simp

lemma headers:
  "newline \<notin> set fragmentHeader1" "newline \<notin> set fragmentHeader2" "newline \<notin> set legacyFragmentHeader2"
  "fragmentHeader1 \<noteq> []" "\<not> prefix metadata_prefix fragmentHeader2"
  by code_simp+

lemma replace_first_here: "old \<noteq> [] \<Longrightarrow> replace_first old new (old @ s) = new @ s"
  by (cases old) simp_all

lemma legacy_text: "replace_first (fragmentHeader2 @ [newline]) (legacyFragmentHeader2 @ [newline]) (fragment_text fragmentHeader2 bs) =
    fragment_text legacyFragmentHeader2 bs"
proof -
  let ?old = "fragmentHeader2 @ [newline]" and ?new = "legacyFragmentHeader2 @ [newline]" and ?rest = "concat (map render_boundary bs)"
  let ?tail = "tl fragmentHeader1 @ [newline]"
  have skip: "replace_first (CHR ''#'' # old) new (a @ s) = a @ replace_first (CHR ''#'' # old) new s" if "CHR ''#'' \<notin> set a" for old new a s
    using that by (induction a) simp_all
  have old: "?old = CHR ''#'' # tl ?old" "hd fragmentHeader1 = CHR ''#''" "fragmentHeader1 \<noteq> []" "CHR ''#'' \<notin> set ?tail" by code_simp+
  then obtain h where h: "fragmentHeader1 = CHR ''#'' # h" by (metis list.collapse)
  have start: "\<not> prefix ?old (fragmentHeader1 @ s)" for s by (simp add: fragmentHeader1_def fragmentHeader2_def)
  have "replace_first ?old ?new (fragmentHeader1 @ newline # ?old @ ?rest) = CHR ''#'' # replace_first ?old ?new (?tail @ ?old @ ?rest)"
    using start [of "newline # ?old @ ?rest"] by (simp add: h)
  also have "\<dots> = CHR ''#'' # ?tail @ replace_first ?old ?new (?old @ ?rest)"
    using skip [OF old(4), of "tl ?old" ?new "?old @ ?rest"] old(1) by simp
  also have "replace_first ?old ?new (?old @ ?rest) = ?new @ ?rest"
    by (rule replace_first_here) simp
  also have "CHR ''#'' # ?tail @ ?new @ ?rest = fragmentHeader1 @ newline # ?new @ ?rest"
    by (simp add: h)
  finally show ?thesis by (simp add: fragment_text_def)
qed

lemma split_fragment:
  assumes "newline \<notin> set header2" and "\<forall>b\<in>set bs. boundary_ok (ab_Path b)"
  shows "split_char newline (fragment_text header2 bs) = fragmentHeader1 # header2 # concat (map (\<lambda>b. [] # boundary_lines b) bs) @ [[]]"
proof -
  have "\<forall>l\<in>set ([fragmentHeader1, header2] @ concat (map (\<lambda>b. [] # boundary_lines b) bs)). newline \<notin> set l"
    using assms headers(1) boundary_lines_newline boundary_okD(5) by auto
  from split_line_text [OF this, of "[]"] show ?thesis by (simp add: fragment_text_lines)
qed

lemma fragment_text_ends: "suffix [newline] (fragment_text header2 bs)"
proof (cases bs rule: rev_cases)
  case (snoc cs b)
  then show ?thesis by (auto simp: fragment_text_def render_boundary_def Let_def suffix_def)
qed (auto simp: fragment_text_def suffix_def)

lemma parse_text:
  assumes "\<forall>b\<in>set bs. boundary_ok (ab_Path b)" and "sortManagedBoundaries bs = bs" and "header2 \<in> {fragmentHeader2, legacyFragmentHeader2}"
  shows "parseFragment (fragment_text header2 bs) = Inr bs"
proof -
  have "newline \<notin> set header2" using assms(3) headers by auto
  note lines = split_fragment [OF this assms(1)]
  show ?thesis
    using assms(2,3) parse_lines_blocks [OF assms(1)]
    by (auto simp: parseFragment_def fragment_text_ends lines Let_def renderFragment_def legacy_text)
qed

lemma parse_lines_valid: "parse_boundary_lines ls = Inr bs \<Longrightarrow> \<forall>b\<in>set bs. boundary_ok (ab_Path b)"
  by (induction ls arbitrary: bs) (auto simp: boundary_ok_def and_then_Inr_iff split: if_splits)

section \<open>Properties\<close>

text \<open>
  C38: The reader of the managed fragment accepts exactly the files that the writer produces (under the
  current or the former header line) for boundaries in strict path order that pass the lexical check,
  and returns those boundaries. A file edited in any other way is refused.
\<close>

theorem fragment_exact:
  "parseFragment data = Inr bs \<longleftrightarrow>
     sorted_wrt (<) (map ab_Path bs) \<and> (\<forall>b\<in>set bs. validateBoundaryLexical (ab_Path b) = Inr ()) \<and>
     (\<exists>header2\<in>{fragmentHeader2, legacyFragmentHeader2}. data = fragment_text header2 bs)"
proof
  assume "parseFragment data = Inr bs"
  then obtain ps where ps: "parse_boundary_lines (drop 2 (split_char newline data)) = Inr ps" "bs = sortManagedBoundaries ps"
      "data = renderFragment bs \<or> data = replace_first (fragmentHeader2 @ [newline]) (legacyFragmentHeader2 @ [newline]) (renderFragment bs)"
    by (auto simp: parseFragment_def Let_def and_then_Inr_iff split: if_splits)
  have "renderFragment bs = fragment_text fragmentHeader2 bs" using ps(2) by (simp add: renderFragment_def)
  then show "sorted_wrt (<) (map ab_Path bs) \<and> (\<forall>b\<in>set bs. validateBoundaryLexical (ab_Path b) = Inr ()) \<and>
     (\<exists>header2\<in>{fragmentHeader2, legacyFragmentHeader2}. data = fragment_text header2 bs)"
    using ps(2,3) parse_lines_valid [OF ps(1)] sort_boundaries(1,3) [of ps] by (auto simp: boundary_ok_def legacy_text)
qed (auto simp: boundary_ok_def intro!: parse_text sort_boundaries_id)

lemma demo_boundary_ok: "boundary_ok ''/home/alice/ws''" "boundary_ok ''/srv/a&b''"
  by code_simp+

theorem fragment_exact_witness:
  "parseFragment (fragment_text fragmentHeader2
      [managed ''/home/alice/ws'' appArmorBoundaryDirectory, managed ''/srv/a&b'' appArmorBoundaryRegularFile]) =
    Inr [managed ''/home/alice/ws'' appArmorBoundaryDirectory, managed ''/srv/a&b'' appArmorBoundaryRegularFile]"
proof -
  have "''/home/alice/ws'' < ''/srv/a&b''" by code_simp
  then show ?thesis using demo_boundary_ok by (subst fragment_exact) (auto simp: managed_def boundary_ok_def)
qed

end
