(* ===== verification/AppArmor.thy ===== *)
theory AppArmor
  imports Mac_Coordinator AppArmor_Fragment
begin

text \<open>
  apparmor.go, the profile manager, and the AppArmor driver of mac\_lifecycle.go. The manager keeps the
  boundaries in the managed fragment and reloads the profile that includes it; a failed reload restores
  the file. The host filesystem at the time of each call, whether a file, lock or prerequisite step
  works, and what the profile parser did are parameters; the state is the fragment file, the fragment
  text the kernel last compiled, and the number of calls so far.
\<close>

section \<open>State and host\<close>

record apparmor =
  aa_fragment :: "string option"
  aa_loaded :: "string option"
  aa_calls :: nat

record aa_host =
  ah_fs :: "nat \<Rightarrow> host_fs"
  ah_lstat :: "nat \<Rightarrow> string \<Rightarrow> (probe_error, file_kind) result"
  ah_euid :: int
  ah_works :: "nat \<Rightarrow> bool"
  ah_reload :: "nat \<Rightarrow> db_outcome"

type_synonym 'a aa = "(apparmor, 'a) state"

definition next_call :: "nat aa" where
  "next_call = state.State (\<lambda>d. (aa_calls d, d\<lparr>aa_calls := Suc (aa_calls d)\<rparr>))"

definition fragment_file :: "string option aa" where
  "fragment_file = state.State (\<lambda>d. (aa_fragment d, d))"

definition set_fragment :: "string option \<Rightarrow> (go_error, unit) result aa" where
  "set_fragment t = state.State (\<lambda>d. (Inr (), d\<lparr>aa_fragment := t\<rparr>))"

definition step_works :: "aa_host \<Rightarrow> (go_error, unit) result aa" where
  "step_works host = do { n \<leftarrow> next_call; ret (if ah_works host n then Inr () else io_err) }"

section \<open>Path validation\<close>

record boundaryResult =
  br_Path :: string
  br_Changed :: bool
  br_Kind :: appArmorBoundaryKind

definition validateBoundaryPathForAdd :: "aa_host \<Rightarrow> string \<Rightarrow> (go_error, string \<times> appArmorBoundaryKind) result aa" where
  "validateBoundaryPathForAdd host path =
     (if \<not> filepath_IsAbs path then ret io_err
      else do {
        n \<leftarrow> next_call;
        or_return (ret (canonicalizeIssuedTreePathForAdd (ah_fs host n) (ah_euid host) path)) (\<lambda>canonical.
          or_return (ret (validateBoundaryLexical canonical)) (\<lambda>_. do {
            m \<leftarrow> next_call;
            ret (case fs_stat (ah_fs host m) canonical of
                   Inl _ \<Rightarrow> io_err
                 | Inr KindDir \<Rightarrow> Inr (canonical, appArmorBoundaryDirectory)
                 | Inr KindRegular \<Rightarrow> Inr (canonical, appArmorBoundaryRegularFile)
                 | Inr KindOther \<Rightarrow> io_err) })) })"

definition lexical_boundary :: "string \<Rightarrow> (go_error, string) result" where
  "lexical_boundary p = and_then (validateBoundaryLexical p) (\<lambda>_. Inr p)"

definition validateBoundaryPathForRemove :: "aa_host \<Rightarrow> string \<Rightarrow> (go_error, string) result aa" where
  "validateBoundaryPathForRemove host path =
     (if \<not> filepath_IsAbs path then ret io_err
      else do {
        n \<leftarrow> next_call;
        case fs_stat (ah_fs host n) path of
          Inr KindDir \<Rightarrow> do {
            m \<leftarrow> next_call;
            ret (case fs_eval (ah_fs host m) path of Inl _ \<Rightarrow> io_err | Inr canonical \<Rightarrow> lexical_boundary canonical) }
        | Inr _ \<Rightarrow> ret (lexical_boundary (filepath_Clean path))
        | Inl ProbeNotExist \<Rightarrow> ret (lexical_boundary (filepath_Clean path))
        | Inl _ \<Rightarrow> ret io_err })"

section \<open>The fragment file and the profile\<close>

definition acquireAppArmorLock :: "aa_host \<Rightarrow> (go_error, unit) result aa" where
  "acquireAppArmorLock host = step_works host"

definition checkPrerequisites :: "aa_host \<Rightarrow> (go_error, unit) result aa" where
  "checkPrerequisites host = step_works host"

definition readFragment :: "aa_host \<Rightarrow> (go_error, appArmorManagedBoundary list) result aa" where
  "readFragment host =
     or_return (step_works host) (\<lambda>_. do {
       f \<leftarrow> fragment_file;
       ret (case f of None \<Rightarrow> Inr [] | Some data \<Rightarrow> parseFragment data) })"

record fragmentSnapshot =
  snap_data :: "string option"
  snap_boundaries :: "appArmorManagedBoundary list"

definition snapshotFragment :: "aa_host \<Rightarrow> (go_error, fragmentSnapshot) result aa" where
  "snapshotFragment host =
     or_return (step_works host) (\<lambda>_. do {
       f \<leftarrow> fragment_file;
       ret (case f of
              None \<Rightarrow> Inr \<lparr>snap_data = None, snap_boundaries = []\<rparr>
            | Some data \<Rightarrow> and_then (parseFragment data) (\<lambda>boundaries. Inr \<lparr>snap_data = Some data, snap_boundaries = boundaries\<rparr>)) })"

text \<open>The file is replaced by a rename, so a failure leaves it as it was.\<close>

definition writeFragment :: "aa_host \<Rightarrow> appArmorManagedBoundary list \<Rightarrow> (go_error, unit) result aa" where
  "writeFragment host boundaries = or_return (step_works host) (\<lambda>_. set_fragment (Some (renderFragment boundaries)))"

definition restoreFragmentFile :: "aa_host \<Rightarrow> fragmentSnapshot \<Rightarrow> (go_error, unit) result aa" where
  "restoreFragmentFile host snap = or_return (step_works host) (\<lambda>_. set_fragment (snap_data snap))"

text \<open>The parser may have replaced the profile and still report a failure.\<close>

definition reloadProfile :: "aa_host \<Rightarrow> (go_error, unit) result aa" where
  "reloadProfile host = do {
     n \<leftarrow> next_call;
     state.State (\<lambda>d.
       (if ah_reload host n = Performed then Inr () else io_err,
        if ah_reload host n = Failed then d else d\<lparr>aa_loaded := aa_fragment d\<rparr>)) }"

definition validateProfile :: "aa_host \<Rightarrow> (go_error, unit) result aa" where
  "validateProfile host = step_works host"

definition rollbackFragment :: "aa_host \<Rightarrow> fragmentSnapshot \<Rightarrow> (go_error, unit) result aa" where
  "rollbackFragment host snap = or_return (restoreFragmentFile host snap) (\<lambda>_. reloadProfile host)"

section \<open>Operations of the manager\<close>

definition listManagedBoundaries :: "aa_host \<Rightarrow> (go_error, appArmorManagedBoundary list) result aa" where
  "listManagedBoundaries host = readFragment host"

text \<open>Writing a changed fragment and reloading, with the rollback of a failed reload.\<close>

definition commit_fragment ::
    "aa_host \<Rightarrow> fragmentSnapshot \<Rightarrow> appArmorManagedBoundary list \<Rightarrow> boundaryResult \<Rightarrow> (go_error, boundaryResult) result aa" where
  "commit_fragment host snap boundaries result =
     or_return (writeFragment host boundaries) (\<lambda>_. do {
       r \<leftarrow> reloadProfile host;
       case r of
         Inl e \<Rightarrow> do { rollbackFragment host snap; ret io_err }
       | Inr _ \<Rightarrow> ret (Inr result) })"

definition addManagedBoundary :: "aa_host \<Rightarrow> string \<Rightarrow> (go_error, boundaryResult) result aa" where
  "addManagedBoundary host path =
     or_return (validateBoundaryPathForAdd host path) (\<lambda>(canonical, kind).
       or_return (acquireAppArmorLock host) (\<lambda>_.
         or_return (checkPrerequisites host) (\<lambda>_.
           or_return (snapshotFragment host) (\<lambda>snap.
             case find (\<lambda>r. ab_Path r = canonical) (snap_boundaries snap) of
               Some r \<Rightarrow>
                 ret (if ab_Kind r \<noteq> kind then io_err
                      else Inr \<lparr>br_Path = canonical, br_Changed = False, br_Kind = ab_Kind r\<rparr>)
             | None \<Rightarrow>
                 commit_fragment host snap (snap_boundaries snap @ [managed canonical kind])
                   \<lparr>br_Path = canonical, br_Changed = True, br_Kind = kind\<rparr>))))"

definition removeManagedBoundary :: "aa_host \<Rightarrow> string \<Rightarrow> (go_error, boundaryResult) result aa" where
  "removeManagedBoundary host path =
     or_return (validateBoundaryPathForRemove host path) (\<lambda>canonical.
       or_return (acquireAppArmorLock host) (\<lambda>_.
         or_return (checkPrerequisites host) (\<lambda>_.
           or_return (snapshotFragment host) (\<lambda>snap.
             if \<not> list_ex (\<lambda>r. ab_Path r = canonical) (snap_boundaries snap)
             then ret (Inr \<lparr>br_Path = canonical, br_Changed = False, br_Kind = appArmorBoundaryDirectory\<rparr>)
             else commit_fragment host snap (filter (\<lambda>r. ab_Path r \<noteq> canonical) (snap_boundaries snap))
               \<lparr>br_Path = canonical, br_Changed = True, br_Kind = appArmorBoundaryDirectory\<rparr>))))"

definition check_profile :: "aa_host \<Rightarrow> (go_error, unit) result aa" where
  "check_profile host =
     or_return (checkPrerequisites host) (\<lambda>_.
       or_return (readFragment host) (\<lambda>boundaries.
         if list_ex (\<lambda>b. validateWorkspacePathPolicy (ah_euid host) (ab_Path b) \<noteq> Inr ()) boundaries then ret io_err
         else validateProfile host))"

section \<open>The Session MAC driver\<close>

definition macBoundaryKindFor :: "aa_host \<Rightarrow> string \<Rightarrow> (go_error, macBoundaryKind) result aa" where
  "macBoundaryKindFor host path = do {
     n \<leftarrow> next_call;
     ret (case ah_lstat host n path of
            Inl ProbeNotExist \<Rightarrow> Inr macBoundaryMissing
          | Inl _ \<Rightarrow> io_err
          | Inr KindDir \<Rightarrow> Inr macBoundaryDirectory
          | Inr KindRegular \<Rightarrow> Inr macBoundaryRegularFile
          | Inr KindOther \<Rightarrow> io_err) }"

definition appArmorBoundaryCoversTree :: "appArmorManagedBoundary \<Rightarrow> string \<Rightarrow> macBoundaryKind \<Rightarrow> bool" where
  "appArmorBoundaryCoversTree boundary tree treeKind =
     (case treeKind of
        macBoundaryRegularFile \<Rightarrow>
          if ab_Kind boundary = appArmorBoundaryRegularFile then ab_Path boundary = tree
          else pathStrictlyWithin (ab_Path boundary) tree
      | macBoundaryDirectory \<Rightarrow> ab_Kind boundary = appArmorBoundaryDirectory \<and> pathWithin (ab_Path boundary) tree
      | _ \<Rightarrow> False)"

definition provableKind :: "aa_host \<Rightarrow> string \<Rightarrow> (go_error, macBoundaryKind) result aa" where
  "provableKind host tree =
     or_return (macBoundaryKindFor host tree) (\<lambda>kind.
       ret (if kind \<noteq> macBoundaryDirectory \<and> kind \<noteq> macBoundaryRegularFile then io_err else Inr kind))"

fun macBoundaryKindForAppArmor :: "appArmorBoundaryKind \<Rightarrow> macBoundaryKind" where
  "macBoundaryKindForAppArmor appArmorBoundaryRegularFile = macBoundaryRegularFile"
| "macBoundaryKindForAppArmor appArmorBoundaryDirectory = macBoundaryDirectory"

definition managed_coverage :: "string \<Rightarrow> appArmorBoundaryKind \<Rightarrow> sessionMACCoverage" where
  "managed_coverage p k = \<lparr>cov_Boundary = p, cov_HelperOwned = True, cov_Kind = macBoundaryKindForAppArmor k\<rparr>"

text \<open>The first listed boundary that covers the tree.\<close>

definition covering :: "aa_host \<Rightarrow> string \<Rightarrow> (go_error, appArmorManagedBoundary option) result aa" where
  "covering host tree =
     or_return (provableKind host tree) (\<lambda>treeKind.
       or_return (listManagedBoundaries host) (\<lambda>boundaries.
         ret (Inr (find (\<lambda>b. appArmorBoundaryCoversTree b tree treeKind) boundaries))))"

definition aa_ensureCoverage :: "aa_host \<Rightarrow> string \<Rightarrow> (go_error, sessionMACCoverage \<times> bool) result aa" where
  "aa_ensureCoverage host tree =
     or_return (covering host tree) (\<lambda>found.
       case found of
         Some b \<Rightarrow> ret (Inr (managed_coverage (ab_Path b) (ab_Kind b), False))
       | None \<Rightarrow>
           or_return (addManagedBoundary host tree) (\<lambda>result.
             ret (Inr (managed_coverage (br_Path result) (br_Kind result), br_Changed result))))"

definition aa_verifyCoverage :: "aa_host \<Rightarrow> string \<Rightarrow> (go_error, sessionMACCoverage) result aa" where
  "aa_verifyCoverage host tree =
     or_return (covering host tree) (\<lambda>found.
       ret (case found of Some b \<Rightarrow> Inr (managed_coverage (ab_Path b) (ab_Kind b)) | None \<Rightarrow> io_err))"

definition aa_removeBoundary :: "aa_host \<Rightarrow> string \<Rightarrow> (go_error, unit) result aa" where
  "aa_removeBoundary host boundary = or_return (removeManagedBoundary host boundary) (\<lambda>_. ret (Inr ()))"

definition aa_discover :: "aa_host \<Rightarrow> (go_error, helperOwnedBoundary list) result aa" where
  "aa_discover host =
     or_return (listManagedBoundaries host) (\<lambda>boundaries.
       ret (Inr (map (\<lambda>b. \<lparr>hb_Boundary = ab_Path b, hb_Kind = macBoundaryKindForAppArmor (ab_Kind b)\<rparr>) boundaries)))"

definition aa_proveOwnedKind :: "aa_host \<Rightarrow> string \<Rightarrow> (go_error, macBoundaryKind option) result aa" where
  "aa_proveOwnedKind host boundary =
     or_return (listManagedBoundaries host) (\<lambda>boundaries.
       ret (Inr (map_option (\<lambda>b. macBoundaryKindForAppArmor (ab_Kind b)) (find (\<lambda>b. ab_Path b = boundary) boundaries))))"

definition appArmorMACDriver :: "aa_host \<Rightarrow> apparmor sessionMACDriver" where
  "appArmorMACDriver host = \<lparr>
     ensureCoverage = (\<lambda>tree. run_state (aa_ensureCoverage host tree)),
     verifyCoverage = (\<lambda>tree. run_state (aa_verifyCoverage host tree)),
     removeBoundary = (\<lambda>boundary _. run_state (aa_removeBoundary host boundary)),
     discoverHelperOwnedBoundaries = run_state (aa_discover host),
     proveOwnedKind = (\<lambda>boundary. run_state (aa_proveOwnedKind host boundary)),
     driver_backend = ''apparmor''\<rparr>"

section \<open>What the fragment holds\<close>

definition aa_boundaries :: "apparmor \<Rightarrow> (go_error, appArmorManagedBoundary list) result" where
  "aa_boundaries d = (case aa_fragment d of None \<Rightarrow> Inr [] | Some data \<Rightarrow> parseFragment data)"

abbreviation boundary_paths :: "appArmorManagedBoundary list \<Rightarrow> string set" where
  "boundary_paths bs \<equiv> ab_Path ` set bs"

definition aa_present :: "apparmor \<Rightarrow> string \<Rightarrow> bool" where
  "aa_present d b \<longleftrightarrow> (\<exists>bs. aa_boundaries d = Inr bs \<and> b \<in> boundary_paths bs)"

text \<open>A boundary path that resolves to itself whenever it resolves.\<close>

definition settled :: "aa_host \<Rightarrow> string \<Rightarrow> bool" where
  "settled host p \<longleftrightarrow> boundary_ok p \<and> (\<forall>n q. fs_eval (ah_fs host n) p = Inr q \<longrightarrow> q = p)"

definition listed :: "aa_host \<Rightarrow> appArmorManagedBoundary list \<Rightarrow> apparmor \<Rightarrow> bool" where
  "listed host bs d \<longleftrightarrow> aa_boundaries d = Inr bs \<and> (\<forall>b\<in>set bs. settled host (ab_Path b))"

definition aa_ok :: "aa_host \<Rightarrow> apparmor \<Rightarrow> bool" where
  "aa_ok host d \<longleftrightarrow> (\<exists>bs. listed host bs d)"

lemma boundaries_frame [simp]:
  "aa_boundaries (d\<lparr>aa_calls := n\<rparr>) = aa_boundaries d" "aa_boundaries (d\<lparr>aa_loaded := t\<rparr>) = aa_boundaries d"
  "listed host bs (d\<lparr>aa_calls := n\<rparr>) = listed host bs d" "listed host bs (d\<lparr>aa_loaded := t\<rparr>) = listed host bs d"
  by (simp_all add: aa_boundaries_def listed_def)

lemma listed_present: "listed host bs d \<Longrightarrow> aa_present d b \<longleftrightarrow> b \<in> boundary_paths bs"
  by (auto simp: listed_def aa_present_def)

lemma aa_okE: assumes "aa_ok host d" obtains bs where "listed host bs d"
  using assms by (auto simp: aa_ok_def)

section \<open>Rules for manager programs\<close>

lemma valid_call: "(\<And>d n. P d \<Longrightarrow> P (d\<lparr>aa_calls := n\<rparr>)) \<Longrightarrow> valid P next_call (\<lambda>_. P)"
  by (simp add: valid_def next_call_def)

lemma valid_works: "(\<And>d n. P d \<Longrightarrow> P (d\<lparr>aa_calls := n\<rparr>)) \<Longrightarrow> valid P (step_works host) (\<lambda>_. P)"
  unfolding step_works_def by (rule valid_bind [OF valid_call]) (auto intro: valid_ret)

lemma valid_set_fragment: "(\<And>d. P d \<Longrightarrow> Q (Inr ()) (d\<lparr>aa_fragment := t\<rparr>)) \<Longrightarrow> valid P (set_fragment t) Q"
  by (simp add: valid_def set_fragment_def)

lemma valid_reload:
  assumes "\<And>d n t. P d \<Longrightarrow> P (d\<lparr>aa_calls := n\<rparr>)" and "\<And>d t. P d \<Longrightarrow> P (d\<lparr>aa_loaded := t\<rparr>)"
  shows "valid P (reloadProfile host) (\<lambda>_. P)"
  unfolding reloadProfile_def by (rule valid_bind [OF valid_call]) (use assms in \<open>auto simp: valid_def\<close>)

lemma read_valid:
  "valid (listed host bs) (readFragment host) (\<lambda>r d. listed host bs d \<and> (\<forall>xs. r = Inr xs \<longrightarrow> xs = bs))"
  unfolding readFragment_def
proof (rule valid_or_return [OF valid_works])
  fix u
  show "valid (listed host bs) (do { f \<leftarrow> fragment_file; ret (case f of None \<Rightarrow> Inr [] | Some data \<Rightarrow> parseFragment data) })
     (\<lambda>r d. listed host bs d \<and> (\<forall>xs. r = Inr xs \<longrightarrow> xs = bs))"
    by (auto simp: valid_def fragment_file_def listed_def aa_boundaries_def split: option.splits)
qed simp_all

lemma listed_fragment: "listed host bs (d\<lparr>aa_fragment := t\<rparr>) \<longleftrightarrow> listed host bs \<lparr>aa_fragment = t, aa_loaded = None, aa_calls = 0\<rparr>"
  by (simp add: listed_def aa_boundaries_def)

text \<open>The snapshot is of the file as it is, and its boundaries are those listed.\<close>

definition snapshot_of :: "aa_host \<Rightarrow> appArmorManagedBoundary list \<Rightarrow> fragmentSnapshot \<Rightarrow> bool" where
  "snapshot_of host bs s \<longleftrightarrow> snap_boundaries s = bs \<and> listed host bs \<lparr>aa_fragment = snap_data s, aa_loaded = None, aa_calls = 0\<rparr>"

lemma snapshot_valid:
  "valid (listed host bs) (snapshotFragment host) (\<lambda>r d. listed host bs d \<and> (\<forall>s. r = Inr s \<longrightarrow> snapshot_of host bs s))"
  unfolding snapshotFragment_def
proof (rule valid_or_return [OF valid_works])
  fix u
  show "valid (listed host bs) (do { f \<leftarrow> fragment_file; ret (case f of None \<Rightarrow> Inr \<lparr>snap_data = None, snap_boundaries = []\<rparr>
       | Some data \<Rightarrow> and_then (parseFragment data) (\<lambda>boundaries. Inr \<lparr>snap_data = Some data, snap_boundaries = boundaries\<rparr>)) })
     (\<lambda>r d. listed host bs d \<and> (\<forall>s. r = Inr s \<longrightarrow> snapshot_of host bs s))"
    by (auto simp: valid_def fragment_file_def listed_def aa_boundaries_def snapshot_of_def and_then_Inr_iff split: option.splits)
qed simp_all

lemma listed_rendered:
  assumes "\<forall>b\<in>set bs. settled host (ab_Path b)"
  shows "listed host (sortManagedBoundaries bs) (d\<lparr>aa_fragment := Some (renderFragment bs)\<rparr>)"
proof -
  have "set (sortManagedBoundaries bs) \<subseteq> set bs" by (rule sort_boundaries(1))
  then have "\<forall>b\<in>set (sortManagedBoundaries bs). settled host (ab_Path b)" using assms by blast
  moreover have "parseFragment (renderFragment bs) = Inr (sortManagedBoundaries bs)"
    unfolding renderFragment_def by (rule parse_text) (use calculation in \<open>auto simp: settled_def\<close>)
  ultimately show ?thesis by (simp add: listed_def aa_boundaries_def)
qed

text \<open>Committing a fragment ends in the new boundaries or, after a rollback, in the old ones; success means new.\<close>

lemma commit_valid:
  assumes "snapshot_of host bs snap" and "\<forall>b\<in>set bs'. settled host (ab_Path b)"
  shows "valid (listed host bs) (commit_fragment host snap bs' br)
     (\<lambda>r d. (listed host bs d \<or> listed host (sortManagedBoundaries bs') d) \<and>
        (\<forall>x. r = Inr x \<longrightarrow> x = br \<and> listed host (sortManagedBoundaries bs') d))"
proof -
  let ?new = "listed host (sortManagedBoundaries bs')" and ?old = "listed host bs"
  have written: "valid ?old (writeFragment host bs') (\<lambda>r d. case r of Inl _ \<Rightarrow> ?old d | Inr _ \<Rightarrow> ?new d)"
    unfolding writeFragment_def
    by (rule valid_or_return [OF valid_works]) (auto intro!: valid_set_fragment listed_rendered assms(2))
  have restore: "valid ?new (restoreFragmentFile host snap) (\<lambda>r d. case r of Inl _ \<Rightarrow> ?new d | Inr _ \<Rightarrow> ?old d)"
    unfolding restoreFragmentFile_def
    by (rule valid_or_return [OF valid_works]) (use assms(1) in \<open>auto intro!: valid_set_fragment simp: listed_fragment snapshot_of_def\<close>)
  have "valid ?new (rollbackFragment host snap) (\<lambda>_ d. ?old d \<or> ?new d)"
    unfolding rollbackFragment_def
    by (rule valid_or_return [OF restore]) (auto intro!: valid_conseq [OF valid_reload [of "?old"]])
  then have roll: "valid ?new (do { rollbackFragment host snap; ret io_err }) (\<lambda>r d. (?old d \<or> ?new d) \<and> (\<forall>x. r = Inr x \<longrightarrow> x = br \<and> ?new d))"
    by (rule valid_bind) (auto intro: valid_ret)
  have reload: "valid ?new (reloadProfile host) (\<lambda>_. ?new)" by (rule valid_reload) simp_all
  show ?thesis
    unfolding commit_fragment_def
    by (rule valid_or_return [OF written]) (auto intro!: valid_bind [OF reload] valid_sum roll valid_ret)
qed

section \<open>Adding and removing\<close>

text \<open>
  The host during the life of the daemon: a path that a resolution has produced keeps resolving to
  itself, as long as it resolves at all.
\<close>

definition resolutions_settle :: "aa_host \<Rightarrow> bool" where
  "resolutions_settle host \<longleftrightarrow>
     (\<forall>n m p q q'. fs_eval (ah_fs host n) p = Inr q \<longrightarrow> fs_eval (ah_fs host m) q = Inr q' \<longrightarrow> q' = q)"

lemma issued_tree_Inr: "canonicalizeIssuedTreePathForAdd fs euid p = Inr q \<Longrightarrow> fs_eval fs p = Inr q"
  by (auto simp: canonicalizeIssuedTreePathForAdd_def and_then_Inr_iff split: if_splits sum.splits)

lemma for_add_valid:
  assumes "resolutions_settle host"
  shows "valid (listed host bs) (validateBoundaryPathForAdd host path)
    (\<lambda>r d. listed host bs d \<and> (\<forall>x. r = Inr x \<longrightarrow> settled host (fst x) \<and> (settled host path \<longrightarrow> fst x = path)))"
proof -
  have q: "settled host q \<and> (settled host path \<longrightarrow> q = path)"
    if "canonicalizeIssuedTreePathForAdd (ah_fs host n) euid path = Inr q" "validateBoundaryLexical q = Inr u" for n euid q u
    using issued_tree_Inr [OF that(1)] that(2) assms by (auto simp: settled_def boundary_ok_def resolutions_settle_def)
  show ?thesis
    unfolding validateBoundaryPathForAdd_def valid_def
    by (auto simp: next_call_def or_return_def split: sum.splits file_kind.splits dest: q)
qed

lemma works_valid: "valid (listed host bs) (step_works host) (\<lambda>_. listed host bs)"
  by (rule valid_works) simp

lemma add_valid:
  assumes "resolutions_settle host"
  shows "valid (listed host bs) (addManagedBoundary host path)
    (\<lambda>r d. (\<exists>bs'. listed host bs' d \<and> boundary_paths bs \<subseteq> boundary_paths bs') \<and>
       (\<forall>x. r = Inr x \<longrightarrow> aa_present d (br_Path x) \<and> settled host (br_Path x) \<and>
          (br_Changed x \<longrightarrow> br_Path x \<notin> boundary_paths bs) \<and> (settled host path \<longrightarrow> br_Path x = path)))" (is "valid _ _ ?Q")
proof -
  have fail: "?Q (Inl e) d" if "listed host bs d" for e d using that by auto
  have commit: "valid (listed host bs) (commit_fragment host snap (bs @ [managed q k]) \<lparr>br_Path = q, br_Changed = True, br_Kind = k\<rparr>) ?Q"
    if "snapshot_of host bs snap" "settled host q" "settled host path \<longrightarrow> q = path" "q \<notin> boundary_paths bs" for snap q k
  proof -
    let ?new = "sortManagedBoundaries (bs @ [managed q k])"
    have "\<forall>b\<in>set (bs @ [managed q k]). settled host (ab_Path b)" using that(1,2) by (auto simp: snapshot_of_def listed_def managed_def)
    note c = commit_valid [OF that(1) this, of "\<lparr>br_Path = q, br_Changed = True, br_Kind = k\<rparr>"]
    have paths: "boundary_paths ?new = insert q (boundary_paths bs)"
      using sort_boundaries(2) [of "bs @ [managed q k]"] by (simp add: managed_def)
    have "aa_present d q" if "listed host ?new d" for d using listed_present [OF that] paths by simp
    with that paths show ?thesis by (intro valid_conseq [OF c]) auto
  qed
  have body: "valid (listed host bs) (case find (\<lambda>r. ab_Path r = q) bs of
         Some r \<Rightarrow> ret (if ab_Kind r \<noteq> k then io_err else Inr \<lparr>br_Path = q, br_Changed = False, br_Kind = ab_Kind r\<rparr>)
       | None \<Rightarrow> commit_fragment host snap (bs @ [managed q k]) \<lparr>br_Path = q, br_Changed = True, br_Kind = k\<rparr>) ?Q"
    if s: "snapshot_of host bs snap" and q: "settled host q" "settled host path \<longrightarrow> q = path" for snap q k
  proof (cases "find (\<lambda>r. ab_Path r = q) bs")
    case None
    then have "q \<notin> boundary_paths bs" by (auto simp: find_None_iff)
    from commit [OF s q this] show ?thesis unfolding None option.case .
  next
    case (Some r)
    then have "r \<in> set bs" "ab_Path r = q" by (auto simp: find_Some_iff)
    then have "aa_present d q" if "listed host bs d" for d using listed_present [OF that] by auto
    then show ?thesis unfolding Some option.case by (intro valid_ret) (use q fail in auto)
  qed
  show ?thesis
    unfolding addManagedBoundary_def acquireAppArmorLock_def checkPrerequisites_def
  proof (rule valid_result [OF for_add_valid [OF assms]], rule fail, assumption)
    fix x :: "string \<times> appArmorBoundaryKind"
    assume x: "settled host (fst x) \<and> (settled host path \<longrightarrow> fst x = path)"
    obtain q k where p: "x = (q, k)" by (cases x)
    show "valid (listed host bs) (case x of (canonical, kind) \<Rightarrow> or_return (step_works host) (\<lambda>_. or_return (step_works host) (\<lambda>_.
        or_return (snapshotFragment host) (\<lambda>snap. case find (\<lambda>r. ab_Path r = canonical) (snap_boundaries snap) of
          Some r \<Rightarrow> ret (if ab_Kind r \<noteq> kind then io_err else Inr \<lparr>br_Path = canonical, br_Changed = False, br_Kind = ab_Kind r\<rparr>)
        | None \<Rightarrow> commit_fragment host snap (snap_boundaries snap @ [managed canonical kind])
            \<lparr>br_Path = canonical, br_Changed = True, br_Kind = kind\<rparr>)))) ?Q"
      unfolding p prod.case
    proof (rule valid_or_return [OF works_valid], rule fail, assumption, rule valid_or_return [OF works_valid], rule fail, assumption,
        rule valid_result [OF snapshot_valid], rule fail, assumption)
      fix snap
      assume s: "snapshot_of host bs snap"
      then have b: "snap_boundaries snap = bs" by (simp add: snapshot_of_def)
      have "settled host q" "settled host path \<longrightarrow> q = path" using x p by simp_all
      from body [OF s this] show "valid (listed host bs) (case find (\<lambda>r. ab_Path r = q) (snap_boundaries snap) of
          Some r \<Rightarrow> ret (if ab_Kind r \<noteq> k then io_err else Inr \<lparr>br_Path = q, br_Changed = False, br_Kind = ab_Kind r\<rparr>)
        | None \<Rightarrow> commit_fragment host snap (snap_boundaries snap @ [managed q k]) \<lparr>br_Path = q, br_Changed = True, br_Kind = k\<rparr>) ?Q"
        unfolding b .
    qed
  qed
qed

lemma for_remove_valid:
  "valid (listed host bs) (validateBoundaryPathForRemove host path)
    (\<lambda>r d. listed host bs d \<and> (\<forall>q. r = Inr q \<longrightarrow> (settled host path \<longrightarrow> q = path)))"
proof -
  have clean: "filepath_Clean path = path" if "settled host path"
    using boundary_okD(2) that unfolding settled_def canonical_path_def by blast
  have eval: "q = path" if "settled host path" "fs_eval (ah_fs host n) path = Inr q" for n q
    using that by (auto simp: settled_def)
  have lex: "lexical_boundary p = Inr q \<Longrightarrow> q = p" for p q by (auto simp: lexical_boundary_def and_then_Inr_iff)
  have resolved: "valid (listed host bs) (do { m \<leftarrow> next_call;
      ret (case fs_eval (ah_fs host m) path of Inl _ \<Rightarrow> io_err | Inr canonical \<Rightarrow> lexical_boundary canonical) })
    (\<lambda>r d. listed host bs d \<and> (\<forall>q. r = Inr q \<longrightarrow> (settled host path \<longrightarrow> q = path)))"
    by (rule valid_bind [OF valid_call], simp, rule valid_ret) (auto split: sum.splits dest!: lex dest: eval)
  have lexical: "valid (listed host bs) (ret (lexical_boundary (filepath_Clean path)))
    (\<lambda>r d. listed host bs d \<and> (\<forall>q. r = Inr q \<longrightarrow> (settled host path \<longrightarrow> q = path)))"
    by (rule valid_ret) (auto dest!: lex simp: clean)
  show ?thesis
    unfolding validateBoundaryPathForRemove_def
    by (intro valid_if valid_bind [OF valid_call]) (auto intro!: valid_ret resolved lexical split: sum.split file_kind.split probe_error.split)
qed

lemma remove_managed_valid:
  assumes "settled host path"
  shows "valid (listed host bs) (removeManagedBoundary host path)
    (\<lambda>r d. \<exists>bs'. listed host bs' d \<and> boundary_paths bs - {path} \<subseteq> boundary_paths bs' \<and>
       (\<forall>x. r = Inr x \<longrightarrow> path \<notin> boundary_paths bs'))" (is "valid _ _ ?Q")
proof -
  have fail: "?Q (Inl e) d" if "listed host bs d" for e d using that by auto
  have commit: "valid (listed host bs) (commit_fragment host snap (filter (\<lambda>r. ab_Path r \<noteq> path) bs) br) ?Q"
    if "snapshot_of host bs snap" for snap br
  proof -
    have "\<forall>b\<in>set (filter (\<lambda>r. ab_Path r \<noteq> path) bs). settled host (ab_Path b)" using that by (auto simp: snapshot_of_def listed_def)
    note c = commit_valid [OF that this, of br]
    let ?new = "sortManagedBoundaries (filter (\<lambda>r. ab_Path r \<noteq> path) bs)"
    have paths: "boundary_paths ?new = boundary_paths bs - {path}" unfolding sort_boundaries(2) by auto
    show ?thesis
    proof (rule valid_conseq [OF c])
      fix r :: "(go_error, boundaryResult) result" and d
      assume post: "(listed host bs d \<or> listed host ?new d) \<and> (\<forall>x. r = Inr x \<longrightarrow> x = br \<and> listed host ?new d)"
      show "?Q r d"
      proof (cases r)
        case (Inl e)
        then show ?thesis using post paths fail by blast
      next
        case (Inr x)
        then show ?thesis using post paths by (intro exI [of _ ?new]) simp
      qed
    qed
  qed
  show ?thesis
    unfolding removeManagedBoundary_def acquireAppArmorLock_def checkPrerequisites_def
  proof (rule valid_result [OF for_remove_valid], rule fail, assumption, rule valid_or_return [OF works_valid], rule fail, assumption,
      rule valid_or_return [OF works_valid], rule fail, assumption, rule valid_result [OF snapshot_valid], rule fail, assumption)
    fix q snap
    assume "settled host path \<longrightarrow> q = path" and s: "snapshot_of host bs snap"
    then have q: "q = path" and b: "snap_boundaries snap = bs" using assms by (simp_all add: snapshot_of_def)
    show "valid (listed host bs) (if \<not> list_ex (\<lambda>r. ab_Path r = q) (snap_boundaries snap)
        then ret (Inr \<lparr>br_Path = q, br_Changed = False, br_Kind = appArmorBoundaryDirectory\<rparr>)
        else commit_fragment host snap (filter (\<lambda>r. ab_Path r \<noteq> q) (snap_boundaries snap))
          \<lparr>br_Path = q, br_Changed = True, br_Kind = appArmorBoundaryDirectory\<rparr>) ?Q"
      unfolding q b using commit [OF s] by (auto intro!: valid_ret simp: list_ex_iff)
  qed
qed

section \<open>The driver meets the coordinator's contract\<close>

lemma covers_tree:
  assumes "appArmorBoundaryCoversTree b tree k" and "settled host (ab_Path b)" and "settled host tree"
  shows "boundaryCoversTree (ab_Path b) tree"
proof -
  have "canonical_path (ab_Path b)" "canonical_path tree" using assms(2,3) boundary_okD(2) by (simp_all add: settled_def)
  then show ?thesis
    using assms(1) by (auto simp: appArmorBoundaryCoversTree_def boundaryCoversTree_def pathWithin_iff pathStrictlyWithin_iff
      split: macBoundaryKind.splits if_splits)
qed

lemma covering_valid:
  "valid (listed host bs) (covering host tree)
    (\<lambda>r d. listed host bs d \<and> (\<forall>x. r = Inr x \<longrightarrow> (\<forall>b. x = Some b \<longrightarrow> b \<in> set bs \<and> (settled host tree \<longrightarrow> boundaryCoversTree (ab_Path b) tree))))"
  (is "valid _ _ ?Q")
proof -
  have kind: "valid (listed host bs) (provableKind host tree) (\<lambda>_. listed host bs)"
    unfolding provableKind_def macBoundaryKindFor_def
    by (intro valid_or_return [OF valid_bind [OF valid_call]]) (auto intro!: valid_ret)
  show ?thesis
    unfolding covering_def listManagedBoundaries_def
  proof (rule valid_or_return [OF kind], simp, rule valid_result [OF read_valid], simp)
    fix k xs
    assume "xs = bs"
    show "valid (listed host bs) (ret (Inr (find (\<lambda>b. appArmorBoundaryCoversTree b tree k) xs))) ?Q"
      unfolding \<open>xs = bs\<close>
    proof (rule valid_ret)
      fix d
      assume d: "listed host bs d"
      have "b \<in> set bs \<and> (settled host tree \<longrightarrow> boundaryCoversTree (ab_Path b) tree)"
        if "find (\<lambda>b. appArmorBoundaryCoversTree b tree k) bs = Some b" for b
      proof -
        have b: "b \<in> set bs" "appArmorBoundaryCoversTree b tree k" using that by (auto simp: find_Some_iff)
        then show ?thesis using d covers_tree by (auto simp: listed_def)
      qed
      with d show "?Q (Inr (find (\<lambda>b. appArmorBoundaryCoversTree b tree k) bs)) d" by blast
    qed
  qed
qed

lemma ensure_valid:
  assumes "resolutions_settle host"
  shows "valid (listed host bs) (aa_ensureCoverage host tree)
    (\<lambda>r d. (\<exists>bs'. listed host bs' d \<and> boundary_paths bs \<subseteq> boundary_paths bs') \<and>
       (\<forall>v new. r = Inr (v, new) \<longrightarrow> aa_present d (cov_Boundary v) \<and> settled host (cov_Boundary v) \<and>
          (new \<longrightarrow> cov_Boundary v \<notin> boundary_paths bs) \<and> (settled host tree \<longrightarrow> boundaryCoversTree (cov_Boundary v) tree)))"
  (is "valid _ _ ?Q")
proof -
  have fail: "?Q (Inl e) d" if "listed host bs d" for e d using that by auto
  have refl: "boundaryCoversTree tree tree" if "settled host tree"
    using that boundary_okD(2) by (auto simp: settled_def boundaryCoversTree_def pathWithin_iff)
  have found: "?Q (Inr (managed_coverage (ab_Path b) (ab_Kind b), False)) d"
    if "listed host bs d" "b \<in> set bs" "settled host tree \<longrightarrow> boundaryCoversTree (ab_Path b) tree" for b d
    using that listed_present [OF that(1)] by (auto simp: managed_coverage_def listed_def)
  show ?thesis
    unfolding aa_ensureCoverage_def
  proof (rule valid_result [OF covering_valid], rule fail, assumption)
    fix x
    assume x: "\<forall>b. x = Some b \<longrightarrow> b \<in> set bs \<and> (settled host tree \<longrightarrow> boundaryCoversTree (ab_Path b) tree)"
    show "valid (listed host bs) (case x of
         Some b \<Rightarrow> ret (Inr (managed_coverage (ab_Path b) (ab_Kind b), False))
       | None \<Rightarrow> or_return (addManagedBoundary host tree) (\<lambda>result.
             ret (Inr (managed_coverage (br_Path result) (br_Kind result), br_Changed result)))) ?Q"
    proof (cases x)
      case None
      show ?thesis
        unfolding None option.case
        by (rule valid_or_return [OF add_valid [OF assms]]) (use refl in \<open>auto intro!: valid_ret simp: managed_coverage_def\<close>)
    next
      case (Some b)
      then show ?thesis using x found by (auto intro!: valid_ret)
    qed
  qed
qed

lemma verify_coverage_valid:
  "valid (listed host bs) (aa_verifyCoverage host tree)
    (\<lambda>r d. listed host bs d \<and> (\<forall>v. r = Inr v \<longrightarrow> aa_present d (cov_Boundary v) \<and> settled host (cov_Boundary v) \<and>
        (settled host tree \<longrightarrow> boundaryCoversTree (cov_Boundary v) tree)))"
  unfolding aa_verifyCoverage_def
proof (rule valid_result [OF covering_valid], simp)
  fix x
  assume "\<forall>b. x = Some b \<longrightarrow> b \<in> set bs \<and> (settled host tree \<longrightarrow> boundaryCoversTree (ab_Path b) tree)"
  then show "valid (listed host bs) (ret (case x of Some b \<Rightarrow> Inr (managed_coverage (ab_Path b) (ab_Kind b)) | None \<Rightarrow> io_err))
    (\<lambda>r d. listed host bs d \<and> (\<forall>v. r = Inr v \<longrightarrow> aa_present d (cov_Boundary v) \<and> settled host (cov_Boundary v) \<and>
        (settled host tree \<longrightarrow> boundaryCoversTree (cov_Boundary v) tree)))"
    by (cases x) (auto intro!: valid_ret simp: managed_coverage_def listed_present listed_def aa_present_def)
qed

lemma listing_valid:
  "valid (listed host bs) (aa_discover host) (\<lambda>r d. listed host bs d \<and> (\<forall>hs. r = Inr hs \<longrightarrow> hb_Boundary ` set hs = boundary_paths bs))"
  "valid (listed host bs) (aa_proveOwnedKind host b) (\<lambda>_. listed host bs)"
  unfolding aa_discover_def aa_proveOwnedKind_def listManagedBoundaries_def
  by (rule valid_result [OF read_valid]; auto intro!: valid_ret simp: image_image)+

locale stable_host =
  fixes host :: aa_host
  assumes settles: "resolutions_settle host"
begin

lemma keeps:
  assumes "aa_ok host d" and "\<And>bs. valid (listed host bs) m (\<lambda>_ d. \<exists>bs'. listed host bs' d \<and> boundary_paths bs - X \<subseteq> boundary_paths bs')"
    and "run_state m d = (r, d')"
  shows "aa_ok host d' \<and> (b \<notin> X \<longrightarrow> aa_present d b \<longrightarrow> aa_present d' b)"
proof -
  obtain bs where bs: "listed host bs d" using assms(1) by (rule aa_okE)
  obtain bs' where bs': "listed host bs' d'" "boundary_paths bs - X \<subseteq> boundary_paths bs'" using validD [OF assms(2) bs assms(3)] by blast
  then show ?thesis using listed_present [OF bs] listed_present [OF bs'(1)] by (auto simp: aa_ok_def)
qed

end

sublocale stable_host \<subseteq> mac: mac_driver "appArmorMACDriver host" "aa_ok host" aa_present "settled host"
proof unfold_locales
  fix d tree r d' b
  assume d: "aa_ok host d" and run: "ensureCoverage (appArmorMACDriver host) tree d = (r, d')"
  have "valid (listed host bs) (aa_ensureCoverage host tree) (\<lambda>_ d. \<exists>bs'. listed host bs' d \<and> boundary_paths bs - {} \<subseteq> boundary_paths bs')" for bs
    by (rule valid_conseq [OF ensure_valid [OF settles]]) auto
  from keeps [OF d this] run show "aa_ok host d' \<and> (aa_present d b \<longrightarrow> aa_present d' b)" by (simp add: appArmorMACDriver_def)
next
  fix d tree v new d'
  assume d: "aa_ok host d" and run: "ensureCoverage (appArmorMACDriver host) tree d = (Inr (v, new), d')"
  obtain bs where bs: "listed host bs d" using d by (rule aa_okE)
  have "run_state (aa_ensureCoverage host tree) d = (Inr (v, new), d')" using run by (simp add: appArmorMACDriver_def)
  note q = validD [OF ensure_valid [OF settles] bs this]
  then show "aa_present d' (cov_Boundary v) \<and> settled host (cov_Boundary v) \<and> (settled host tree \<longrightarrow> boundaryCoversTree (cov_Boundary v) tree)"
    by blast
next
  fix d tree v d'
  assume d: "aa_ok host d" and run: "ensureCoverage (appArmorMACDriver host) tree d = (Inr (v, True), d')"
  obtain bs where bs: "listed host bs d" using d by (rule aa_okE)
  have "run_state (aa_ensureCoverage host tree) d = (Inr (v, True), d')" using run by (simp add: appArmorMACDriver_def)
  from validD [OF ensure_valid [OF settles] bs this] have "cov_Boundary v \<notin> boundary_paths bs" by blast
  then show "\<not> aa_present d (cov_Boundary v)" by (simp add: listed_present [OF bs])
next
  fix d tree q d' b
  assume d: "aa_ok host d" and run: "verifyCoverage (appArmorMACDriver host) tree d = (q, d')"
  have "valid (listed host bs) (aa_verifyCoverage host tree) (\<lambda>_ d. \<exists>bs'. listed host bs' d \<and> boundary_paths bs - {} \<subseteq> boundary_paths bs')" for bs
    by (rule valid_conseq [OF verify_coverage_valid]) auto
  from keeps [OF d this] run show "aa_ok host d' \<and> (aa_present d b \<longrightarrow> aa_present d' b)" by (simp add: appArmorMACDriver_def)
next
  fix d tree v d'
  assume d: "aa_ok host d" and run: "verifyCoverage (appArmorMACDriver host) tree d = (Inr v, d')"
  obtain bs where bs: "listed host bs d" using d by (rule aa_okE)
  have "run_state (aa_verifyCoverage host tree) d = (Inr v, d')" using run by (simp add: appArmorMACDriver_def)
  from validD [OF verify_coverage_valid bs this]
  show "aa_present d' (cov_Boundary v) \<and> settled host (cov_Boundary v) \<and> (settled host tree \<longrightarrow> boundaryCoversTree (cov_Boundary v) tree)" by blast
next
  fix d b' p d' b
  assume d: "aa_ok host d" and run: "proveOwnedKind (appArmorMACDriver host) b' d = (p, d')"
  have "valid (listed host bs) (aa_proveOwnedKind host b') (\<lambda>_ d. \<exists>bs'. listed host bs' d \<and> boundary_paths bs - {} \<subseteq> boundary_paths bs')" for bs
    by (rule valid_conseq [OF listing_valid(2)]) auto
  from keeps [OF d this] run show "aa_ok host d' \<and> (aa_present d b \<longrightarrow> aa_present d' b)" by (simp add: appArmorMACDriver_def)
next
  fix d h d' b
  assume d: "aa_ok host d" and run: "discoverHelperOwnedBoundaries (appArmorMACDriver host) d = (h, d')"
  have "valid (listed host bs) (aa_discover host) (\<lambda>_ d. \<exists>bs'. listed host bs' d \<and> boundary_paths bs - {} \<subseteq> boundary_paths bs')" for bs
    by (rule valid_conseq [OF listing_valid(1)]) auto
  from keeps [OF d this] run show "aa_ok host d' \<and> (aa_present d b \<longrightarrow> aa_present d' b)" by (simp add: appArmorMACDriver_def)
next
  fix d hs d' x
  assume d: "aa_ok host d" and run: "discoverHelperOwnedBoundaries (appArmorMACDriver host) d = (Inr hs, d')" and x: "x \<in> set hs"
  obtain bs where bs: "listed host bs d" using d by (rule aa_okE)
  have "run_state (aa_discover host) d = (Inr hs, d')" using run by (simp add: appArmorMACDriver_def)
  from validD [OF listing_valid(1) bs this] have "hb_Boundary x \<in> boundary_paths bs" using x by blast
  then show "settled host (hb_Boundary x)" using bs by (auto simp: listed_def)
next
  fix d b' k u d' b
  assume d: "aa_ok host d" and b': "settled host b'" and run: "removeBoundary (appArmorMACDriver host) b' k d = (u, d')"
  have "valid (listed host bs) (aa_removeBoundary host b') (\<lambda>_ d. \<exists>bs'. listed host bs' d \<and> boundary_paths bs - {b'} \<subseteq> boundary_paths bs')" for bs
    unfolding aa_removeBoundary_def by (rule valid_or_return [OF remove_managed_valid [OF b']]) (auto intro!: valid_ret)
  from keeps [OF d this] run show "aa_ok host d' \<and> (b \<noteq> b' \<longrightarrow> aa_present d b \<longrightarrow> aa_present d' b)" by (simp add: appArmorMACDriver_def)
qed (use boundary_okD(2) in \<open>simp add: settled_def\<close>)

section \<open>Properties\<close>

context stable_host
begin

lemmas coordinator_steps = mac.steps_ok
lemmas session_bound = mac.CreateSessionBinding_valid

end

lemma fresh_coordinator_ok:
  assumes "ok d" and "\<forall>r\<in>set rows. good (mb_boundary r)"
  shows "mac_ok ok present good [] (newSessionMACCoordinator s rows d)"
  using assms by (simp add: mac_ok_def newSessionMACCoordinator_def tables_def held_def)


text \<open>
  When a Session is created with the AppArmor back end, its recorded coverage covers every issued tree
  by a boundary that is in the fragment.
\<close>

theorem created_session_covered:
  assumes "resolutions_settle host" and "me_driver env = appArmorMACDriver host"
    and "mac_ok (aa_ok host) aa_present (settled host) [] c" and "sid \<notin> fst ` set (sessionBindings c)"
    and "run_state (CreateSessionBinding env sid trees ins) c = (Inr cs, c')" and "tree \<in> set trees" and "settled host tree"
  shows "map_of (sessionBindings c') sid = Some cs \<and>
     (\<exists>v\<in>set cs. boundaryCoversTree (cov_Boundary v) tree \<and> aa_present (mc_driver c') (cov_Boundary v))"
proof -
  from assms(1) have host: "stable_host host" by (rule stable_host.intro)
  have "mac_ok (aa_ok host) aa_present (settled host) [] c \<and> sid \<notin> fst ` set (sessionBindings c)" using assms(3,4) by blast
  from validD [OF stable_host.session_bound [OF host assms(2)] this assms(5)] assms(6,7)
  show ?thesis by (auto simp: trees_covered_def)
qed

definition demo_host :: aa_host where
  "demo_host = \<lparr>ah_fs = (\<lambda>_. demo_fs), ah_lstat = (\<lambda>_ _. Inr KindDir), ah_euid = 1000, ah_works = (\<lambda>_. True), ah_reload = (\<lambda>_. Performed)\<rparr>"

definition demo_mac_env :: "apparmor mac_env" where
  "demo_mac_env = \<lparr>me_driver = appArmorMACDriver demo_host, me_db = (\<lambda>_. Performed), me_hash = (\<lambda>x. x), me_order = (\<lambda>_ xs. xs),
     me_pending = (\<lambda>_. None), me_now = 0\<rparr>"

definition demo_apparmor :: apparmor where
  "demo_apparmor = \<lparr>aa_fragment = None, aa_loaded = None, aa_calls = 0\<rparr>"

definition demo_coordinator :: "apparmor sessionMACCoordinator" where
  "demo_coordinator = newSessionMACCoordinator empty_store [] demo_apparmor"

definition demo_bound :: "(go_error, sessionMACCoverage list) result \<times> apparmor sessionMACCoordinator" where
  "demo_bound = run_state (CreateSessionBinding demo_mac_env ''dhs_1'' [''/home/alice/ws''] (\<lambda>_. db_return ())) demo_coordinator"

lemma demo_bound_value: "fst demo_bound = Inr [managed_coverage ''/home/alice/ws'' appArmorBoundaryDirectory]"
  by code_simp

lemma demo_host_settles: "resolutions_settle demo_host" "settled demo_host p \<longleftrightarrow> boundary_ok p" "aa_ok demo_host demo_apparmor"
  by (auto simp: resolutions_settle_def settled_def demo_host_def demo_fs_def aa_ok_def listed_def aa_boundaries_def demo_apparmor_def)

interpretation quiet: stable_host demo_host
  by unfold_locales (rule demo_host_settles(1))

lemma demo_bound_step: "mac_step (appArmorMACDriver demo_host) demo_coordinator (snd demo_bound)"
proof (rule mac_step.create)
  show "me_driver demo_mac_env = appArmorMACDriver demo_host" by (simp add: demo_mac_env_def)
  show "''dhs_1'' \<notin> fst ` set (sessionBindings demo_coordinator)" by (simp add: demo_coordinator_def newSessionMACCoordinator_def)
  show "run_state (CreateSessionBinding demo_mac_env ''dhs_1'' [''/home/alice/ws''] (\<lambda>_. db_return ())) demo_coordinator = (fst demo_bound, snd demo_bound)"
    by (simp add: demo_bound_def)
qed


theorem created_session_covered_witness:
  "map_of (sessionBindings (snd demo_bound)) ''dhs_1'' = Some [managed_coverage ''/home/alice/ws'' appArmorBoundaryDirectory] \<and>
   aa_present (mc_driver (snd demo_bound)) ''/home/alice/ws''"
proof -
  have "mac_ok (aa_ok demo_host) aa_present (settled demo_host) [] demo_coordinator"
    unfolding demo_coordinator_def by (rule fresh_coordinator_ok) (simp_all add: demo_host_settles(3))
  moreover have "run_state (CreateSessionBinding demo_mac_env ''dhs_1'' [''/home/alice/ws''] (\<lambda>_. db_return ())) demo_coordinator =
      (Inr [managed_coverage ''/home/alice/ws'' appArmorBoundaryDirectory], snd demo_bound)"
    using demo_bound_value by (simp add: demo_bound_def prod_eq_iff)
  ultimately show ?thesis
    using created_session_covered [OF demo_host_settles(1), of demo_mac_env demo_coordinator "''dhs_1''" "[''/home/alice/ws'']" "\<lambda>_. db_return ()"
        "[managed_coverage ''/home/alice/ws'' appArmorBoundaryDirectory]" "snd demo_bound" "''/home/alice/ws''"]
      demo_boundary_ok(1) demo_host_settles(2)
    by (simp add: demo_mac_env_def managed_coverage_def demo_coordinator_def newSessionMACCoordinator_def)
qed

section \<open>A replaced boundary directory\<close>

definition replaced_host :: aa_host where
  "replaced_host = demo_host\<lparr>ah_fs := (\<lambda>_. demo_fs\<lparr>fs_eval := (\<lambda>p. if p = ''/home/eve/ws'' then Inr ''/home/alice/ws'' else Inr p)\<rparr>)\<rparr>"

definition shared_fragment :: apparmor where
  "shared_fragment = demo_apparmor\<lparr>aa_fragment := Some (renderFragment
     [managed ''/home/alice/ws'' appArmorBoundaryDirectory, managed ''/home/eve/ws'' appArmorBoundaryDirectory])\<rparr>"


end
