(* ===== verification/Cascade.thy ===== *)
theory Cascade
  imports Principals
begin

text \<open>
  allowed\_root\_cascade.go: when a parent ceiling narrows, the stored roots below it that it no longer
  contains are deleted in the transaction of the parent mutation. The row-by-row loops are proved equal
  to one restriction of the root tables, and the result is shown to be a state that the Session-create
  revalidation accepts.
\<close>

section \<open>The reconciliation\<close>

datatype pruned_root = PrunedPrincipalRoot int string | PrunedLauncherRoot string string

text \<open>
  The rows a reconciliation deleted, in the order of the deletions; the two lists of
  \<^verbatim>\<open>storedRootCascadeResult\<close> are its two parts.
\<close>

record storedRootCascadeResult =
  PrincipalRoots :: "(int \<times> string) list"
  LauncherRoots :: "(string \<times> string) list"

definition cascade_result :: "pruned_root list \<Rightarrow> storedRootCascadeResult" where
  "cascade_result ps =
     \<lparr>PrincipalRoots = List.map_filter (\<lambda>x. case x of PrunedPrincipalRoot i p \<Rightarrow> Some (i, p) | _ \<Rightarrow> None) ps,
      LauncherRoots = List.map_filter (\<lambda>x. case x of PrunedLauncherRoot i p \<Rightarrow> Some (i, p) | _ \<Rightarrow> None) ps\<rparr>"

definition drop_principal_root :: "int \<Rightarrow> string \<Rightarrow> store \<Rightarrow> store" where
  "drop_principal_root i path s = s\<lparr>principal_allowed_roots :=
     filter (\<lambda>r. \<not> (rr_owner r = i \<and> Path (rr_entry r) = path)) (principal_allowed_roots s)\<rparr>"

definition drop_launcher_root :: "string \<Rightarrow> string \<Rightarrow> store \<Rightarrow> store" where
  "drop_launcher_root i path s = s\<lparr>launcher_allowed_roots :=
     filter (\<lambda>r. \<not> (rr_owner r = i \<and> Path (rr_entry r) = path)) (launcher_allowed_roots s)\<rparr>"

definition restricted_launchers :: "int \<Rightarrow> store \<Rightarrow> string list" where
  "restricted_launchers principalID s =
     sort (map la_id (filter (\<lambda>l. la_principal l = principalID \<and> la_scope l = LauncherScopeRestricted) (launchers s)))"

definition prune_launcher_roots :: "db_io \<Rightarrow> string list \<Rightarrow> string \<Rightarrow> pruned_root list db" where
  "prune_launcher_roots io ceilingPaths launcherID =
     db_then (readLauncherAllowedRoots io launcherID) (\<lambda>roots.
       db_collect (\<lambda>root.
         if isWithinAnyAllowedRoot (Path root) ceilingPaths then db_return []
         else db_then (exec io (\<lambda>s. Inr (drop_launcher_root launcherID (Path root) s, ()))) (\<lambda>_.
           db_return [PrunedLauncherRoot launcherID (Path root)])) roots)"

definition prunePrincipalStoredRootsToCeiling ::
    "db_io \<Rightarrow> AllowedRootEntry list \<Rightarrow> int \<Rightarrow> bool \<Rightarrow> pruned_root list db" where
  "prunePrincipalStoredRootsToCeiling io globalEntries principalID globalScopePrune =
     db_then (readPrincipalAllowedRoots io principalID) (\<lambda>stored.
       db_then (if globalScopePrune then
           db_collect (\<lambda>root.
             if \<not> isWithinAnyAllowedRoot (Path root) (allowedRootPaths globalEntries) then
               db_then (exec io (\<lambda>s. Inr (drop_principal_root principalID (Path root) s, ()))) (\<lambda>_.
                 db_return [PrunedPrincipalRoot principalID (Path root)])
             else db_return []) stored
         else db_return []) (\<lambda>prunedPrincipal.
         let surviving = (if globalScopePrune
               then filter (\<lambda>root. isWithinAnyAllowedRoot (Path root) (allowedRootPaths globalEntries)) stored else stored);
             ceilingPaths = allowedRootPaths (effectivePrincipalAllowedRoots globalEntries surviving)
         in db_then (query io (\<lambda>s. Inr (restricted_launchers principalID s))) (\<lambda>launcherIDs.
              db_then (db_collect (prune_launcher_roots io ceilingPaths) launcherIDs) (\<lambda>prunedLaunchers.
                db_return (prunedPrincipal @ prunedLaunchers)))))"

definition pruneStoredAllowedRootsToCeilings ::
    "db_io \<Rightarrow> AllowedRootEntry list \<Rightarrow> int \<Rightarrow> storedRootCascadeResult db" where
  "pruneStoredAllowedRootsToCeilings io globalEntries principalID =
     db_then (if principalID = 0 then query io (\<lambda>s. Inr (sort (map pr_id (principals s)))) else db_return [principalID])
       (\<lambda>principalIDs.
         db_then (db_collect (\<lambda>pid. prunePrincipalStoredRootsToCeiling io globalEntries pid (principalID = 0)) principalIDs)
           (\<lambda>ps. db_return (cascade_result ps)))"

definition reconcileStoredAllowedRootsToGlobalCeiling ::
    "db_io \<Rightarrow> host_fs \<Rightarrow> AllowedRootEntry list \<Rightarrow> storedRootCascadeResult db" where
  "reconcileStoredAllowedRootsToGlobalCeiling io fs globalEntries =
     db_then (db_result (resolveAllowedRootEntries fs globalEntries)) (\<lambda>resolved.
       with_tx io (pruneStoredAllowedRootsToCeilings io resolved 0))"

definition removePrincipalAllowedRootCascaded ::
    "db_io \<Rightarrow> host_fs \<Rightarrow> string \<Rightarrow> string \<Rightarrow> AllowedRootEntry list \<Rightarrow> (bool \<times> string \<times> storedRootCascadeResult) db" where
  "removePrincipalAllowedRootCascaded io fs username rootPath globalEntries =
     (if username = [] then db_fail ErrPrincipalNotFound
      else if rootPath = [] then db_fail ErrInvalidAllowedRoot
      else if \<not> filepath_IsAbs rootPath then db_fail ErrInvalidAllowedRoot
      else db_then (db_result (resolveAllowedRootIdentity fs rootPath)) (\<lambda>resolved.
        db_then (findPrincipalIDByUsername io username) (\<lambda>principalID.
          with_tx io
            (db_then (exec io (\<lambda>s. Inr (drop_principal_root principalID resolved s,
                list_ex (\<lambda>r. rr_owner r = principalID \<and> Path (rr_entry r) = resolved) (principal_allowed_roots s))))
              (\<lambda>affected.
                db_then (if affected then pruneStoredAllowedRootsToCeilings io globalEntries principalID
                         else db_return (cascade_result [])) (\<lambda>pruned.
                  db_return (affected, resolved, pruned)))))))"

section \<open>Integrity and atomicity\<close>

lemma keeps_drop_roots [db_intros]:
  "keeps store_ok (exec io (\<lambda>s. Inr (drop_principal_root i p s, x s)))"
  "keeps store_ok (exec io (\<lambda>s. Inr (drop_launcher_root j p s, ())))"
  by (intro keeps_exec; auto simp: drop_principal_root_def drop_launcher_root_def
      intro: delete_principal_roots_ok delete_launcher_roots_ok)+

lemma cascade_keeps [db_intros]:
  "keeps store_ok (pruneStoredAllowedRootsToCeilings io g pid)"
  "keeps store_ok (reconcileStoredAllowedRootsToGlobalCeiling io fs g)"
  "keeps store_ok (removePrincipalAllowedRootCascaded io fs u path g)"
  unfolding removePrincipalAllowedRootCascaded_def reconcileStoredAllowedRootsToGlobalCeiling_def
    pruneStoredAllowedRootsToCeilings_def prunePrincipalStoredRootsToCeiling_def prune_launcher_roots_def Let_def
  by (intro db_intros)+

lemma cascade_undone:
  assumes "reported io"
  shows "undone (reconcileStoredAllowedRootsToGlobalCeiling io fs g)"
    "undone (removePrincipalAllowedRootCascaded io fs u path g)"
  unfolding removePrincipalAllowedRootCascaded_def reconcileStoredAllowedRootsToGlobalCeiling_def
  by (intro db_intros assms)+

section \<open>The reconciliation as a restriction of the tables\<close>

definition restrict_rows :: "('k \<Rightarrow> bool) \<Rightarrow> string list \<Rightarrow> 'k root_row list \<Rightarrow> 'k root_row list" where
  "restrict_rows mine ceiling rows =
     filter (\<lambda>r. mine (rr_owner r) \<longrightarrow> isWithinAnyAllowedRoot (Path (rr_entry r)) ceiling) rows"

definition principal_ceiling :: "AllowedRootEntry list \<Rightarrow> int \<Rightarrow> store \<Rightarrow> string list" where
  "principal_ceiling g i s = allowedRootPaths (effectivePrincipalAllowedRoots g (stored_roots i (principal_allowed_roots s)))"

definition restrict_launchers :: "AllowedRootEntry list \<Rightarrow> int \<Rightarrow> store \<Rightarrow> store" where
  "restrict_launchers g i s = s\<lparr>launcher_allowed_roots :=
     restrict_rows (\<lambda>l. l \<in> set (restricted_launchers i s)) (principal_ceiling g i s) (launcher_allowed_roots s)\<rparr>"

definition restrict_principal :: "AllowedRootEntry list \<Rightarrow> int \<Rightarrow> store \<Rightarrow> store" where
  "restrict_principal g i s = s\<lparr>principal_allowed_roots :=
     restrict_rows (\<lambda>j. j = i) (allowedRootPaths g) (principal_allowed_roots s)\<rparr>"

lemma db_collect_store:
  assumes "db_collect f xs s n = (s', n', Inr ys)"
    and "\<And>x t m t' m' y. x \<in> set xs \<Longrightarrow> f x t m = (t', m', Inr y) \<Longrightarrow> t' = g x t"
  shows "s' = fold g xs s"
  using assms
proof (induction xs arbitrary: s n ys)
  case Nil
  then show ?case by simp
next
  case (Cons x xs)
  from Cons.prems(1) obtain t k a b where x: "f x s n = (t, k, Inr a)"
    and rest: "db_collect f xs t k = (s', n', Inr b)"
    by (auto simp: db_then_Inr)
  have "t = g x s" using Cons.prems(2) [OF _ x] by simp
  then show ?case using Cons.IH [OF rest] Cons.prems(2) by simp
qed

lemma fold_drop_principal:
  "fold (\<lambda>root s. if Q root then s else drop_principal_root i (Path root) s) roots s =
   s\<lparr>principal_allowed_roots := filter (\<lambda>r. \<not> (rr_owner r = i \<and> (\<exists>root\<in>set roots. \<not> Q root \<and> Path (rr_entry r) = Path root)))
      (principal_allowed_roots s)\<rparr>"
proof (induction roots arbitrary: s)
  case Nil
  then show ?case by simp
next
  case (Cons x xs)
  show ?case
  proof (cases "Q x")
    case True
    then show ?thesis using Cons.IH by simp
  next
    case False
    then show ?thesis unfolding fold_simps comp_def if_not_P [OF False] Cons.IH
      by (auto simp: drop_principal_root_def intro!: filter_cong arg_cong [where f = "\<lambda>x. s\<lparr>principal_allowed_roots := x\<rparr>"])
  qed
qed

lemma fold_drop_launcher:
  "fold (\<lambda>root s. if Q root then s else drop_launcher_root i (Path root) s) roots s =
   s\<lparr>launcher_allowed_roots := filter (\<lambda>r. \<not> (rr_owner r = i \<and> (\<exists>root\<in>set roots. \<not> Q root \<and> Path (rr_entry r) = Path root)))
      (launcher_allowed_roots s)\<rparr>"
proof (induction roots arbitrary: s)
  case Nil
  then show ?case by simp
next
  case (Cons x xs)
  show ?case
  proof (cases "Q x")
    case True
    then show ?thesis using Cons.IH by simp
  next
    case False
    then show ?thesis unfolding fold_simps comp_def if_not_P [OF False] Cons.IH
      by (auto simp: drop_launcher_root_def intro!: filter_cong arg_cong [where f = "\<lambda>x. s\<lparr>launcher_allowed_roots := x\<rparr>"])
  qed
qed

lemma set_stored_roots: "set (stored_roots i rows) = rr_entry ` {r \<in> set rows. rr_owner r = i}"
  by (auto simp: stored_roots_def)

lemma restrict_stored:
  "filter (\<lambda>r. \<not> (rr_owner r = i \<and> (\<exists>root\<in>set (stored_roots i rows).
      \<not> isWithinAnyAllowedRoot (Path root) c \<and> Path (rr_entry r) = Path root))) rows = restrict_rows (\<lambda>j. j = i) c rows"
  unfolding restrict_rows_def set_stored_roots
proof (rule filter_cong [OF refl])
  fix x
  assume "x \<in> set rows"
  then have "rr_owner x = i \<Longrightarrow> rr_entry x \<in> rr_entry ` {r \<in> set rows. rr_owner r = i}" by blast
  then show "(\<not> (rr_owner x = i \<and> (\<exists>root\<in>rr_entry ` {r \<in> set rows. rr_owner r = i}.
      \<not> isWithinAnyAllowedRoot (Path root) c \<and> Path (rr_entry x) = Path root))) \<longleftrightarrow>
    (rr_owner x = i \<longrightarrow> isWithinAnyAllowedRoot (Path (rr_entry x)) c)"
    by metis
qed

lemma prune_launcher_roots_store:
  assumes "prune_launcher_roots io c i s n = (s', n', Inr ps)"
  shows "s' = s\<lparr>launcher_allowed_roots := restrict_rows (\<lambda>j. j = i) c (launcher_allowed_roots s)\<rparr>"
proof -
  from assms obtain k where "db_collect (\<lambda>root. if isWithinAnyAllowedRoot (Path root) c then db_return []
      else db_then (exec io (\<lambda>s. Inr (drop_launcher_root i (Path root) s, ()))) (\<lambda>_.
        db_return [PrunedLauncherRoot i (Path root)])) (stored_roots i (launcher_allowed_roots s)) s k = (s', n', Inr ps)"
    unfolding prune_launcher_roots_def readLauncherAllowedRoots_def by (auto simp: db_then_Inr db_simps)
  then have "s' = fold (\<lambda>root s. if isWithinAnyAllowedRoot (Path root) c then s else drop_launcher_root i (Path root) s)
      (stored_roots i (launcher_allowed_roots s)) s"
    by (rule db_collect_store) (auto simp: db_then_Inr db_simps split: if_splits)
  then show ?thesis unfolding fold_drop_launcher restrict_stored .
qed

lemma fold_restrict_launchers:
  "fold (\<lambda>i s. s\<lparr>launcher_allowed_roots := restrict_rows (\<lambda>j. j = i) c (launcher_allowed_roots s)\<rparr>) ids s =
   s\<lparr>launcher_allowed_roots := restrict_rows (\<lambda>j. j \<in> set ids) c (launcher_allowed_roots s)\<rparr>"
proof (induction ids arbitrary: s)
  case Nil
  then show ?case by (simp add: restrict_rows_def)
next
  case (Cons x xs)
  have "restrict_rows (\<lambda>j. j \<in> set xs) c (restrict_rows (\<lambda>j. j = x) c rows) = restrict_rows (\<lambda>j. j \<in> set (x # xs)) c rows" for rows
    by (auto simp: restrict_rows_def intro: filter_cong)
  then show ?case using Cons.IH by simp
qed

lemma prune_principal_store:
  assumes "prunePrincipalStoredRootsToCeiling io g i b s n = (s', n', Inr ps)"
  shows "s' = restrict_launchers g i (if b then restrict_principal g i s else s)"
proof -
  let ?stored = "stored_roots i (principal_allowed_roots s)" and ?in = "\<lambda>root. isWithinAnyAllowedRoot (Path root) (allowedRootPaths g)"
  let ?surv = "if b then filter ?in ?stored else ?stored"
  let ?c = "allowedRootPaths (effectivePrincipalAllowedRoots g ?surv)"
  let ?prune = "if b then db_collect (\<lambda>root. if \<not> ?in root then
      db_then (exec io (\<lambda>s. Inr (drop_principal_root i (Path root) s, ()))) (\<lambda>_. db_return [PrunedPrincipalRoot i (Path root)])
      else db_return []) ?stored else db_return []"
  obtain t k p1 m p2 where one: "?prune s (Suc n) = (t, k, Inr p1)"
    and two: "db_collect (prune_launcher_roots io ?c) (restricted_launchers i t) t m = (s', n', Inr p2)"
    using assms unfolding prunePrincipalStoredRootsToCeiling_def readPrincipalAllowedRoots_def Let_def
    by (auto simp: db_then_Inr db_simps simp del: db_collect.simps)
  have t: "t = (if b then restrict_principal g i s else s)"
  proof (cases b)
    case True
    with one have "t = fold (\<lambda>root s. if ?in root then s else drop_principal_root i (Path root) s) ?stored s"
      by (simp del: db_collect.simps, elim db_collect_store) (auto simp: db_then_Inr db_simps split: if_splits)
    then show ?thesis using True unfolding fold_drop_principal restrict_stored restrict_principal_def by simp
  qed (use one in simp)
  have surv: "?surv = stored_roots i (principal_allowed_roots t)"
    unfolding t by (simp add: restrict_principal_def restrict_rows_def stored_roots_def filter_sort filter_map comp_def)
      (auto intro: arg_cong [where f = "sort_key Path"] map_cong filter_cong)
  have "s' = fold (\<lambda>j s. s\<lparr>launcher_allowed_roots := restrict_rows (\<lambda>l. l = j) ?c (launcher_allowed_roots s)\<rparr>)
      (restricted_launchers i t) t"
    using two by (rule db_collect_store) (rule prune_launcher_roots_store)
  then show ?thesis unfolding fold_restrict_launchers surv restrict_launchers_def principal_ceiling_def t .
qed

text \<open>All Principals: the ceilings depend only on the stored roots that the global ceiling admits.\<close>

definition admitted_ceiling :: "AllowedRootEntry list \<Rightarrow> int \<Rightarrow> store \<Rightarrow> string list" where
  "admitted_ceiling g i s = allowedRootPaths (effectivePrincipalAllowedRoots g
     (filter (\<lambda>root. isWithinAnyAllowedRoot (Path root) (allowedRootPaths g)) (stored_roots i (principal_allowed_roots s))))"

definition reconciled :: "AllowedRootEntry list \<Rightarrow> int list \<Rightarrow> store \<Rightarrow> store" where
  "reconciled g ids s = s\<lparr>
     principal_allowed_roots := restrict_rows (\<lambda>i. i \<in> set ids) (allowedRootPaths g) (principal_allowed_roots s),
     launcher_allowed_roots := filter (\<lambda>r. \<forall>i\<in>set ids. rr_owner r \<in> set (restricted_launchers i s) \<longrightarrow>
       isWithinAnyAllowedRoot (Path (rr_entry r)) (admitted_ceiling g i s)) (launcher_allowed_roots s)\<rparr>"

lemma stored_roots_restrict:
  "stored_roots i (restrict_rows mine c rows) =
     (if mine i then filter (\<lambda>root. isWithinAnyAllowedRoot (Path root) c) (stored_roots i rows) else stored_roots i rows)"
proof -
  have "filter (\<lambda>r. rr_owner r = i) (restrict_rows mine c rows) =
      (if mine i then filter (\<lambda>r. isWithinAnyAllowedRoot (Path (rr_entry r)) c) (filter (\<lambda>r. rr_owner r = i) rows)
       else filter (\<lambda>r. rr_owner r = i) rows)"
    by (auto simp: restrict_rows_def intro!: filter_cong)
  then show ?thesis by (simp add: stored_roots_def filter_sort filter_map comp_def)
qed

lemma restrict_step: "restrict_launchers g i (restrict_principal g i s) = reconciled g [i] s"
  by (simp add: restrict_launchers_def restrict_principal_def reconciled_def principal_ceiling_def admitted_ceiling_def
      restricted_launchers_def stored_roots_restrict) (simp add: restrict_rows_def)

lemma reconciled_fields [simp]:
  "restricted_launchers i (reconciled g ids s) = restricted_launchers i s"
  "admitted_ceiling g i (reconciled g ids s) = admitted_ceiling g i s"
  "launchers (reconciled g ids s) = launchers s" "principals (reconciled g ids s) = principals s"
  "credentials (reconciled g ids s) = credentials s" "sessions (reconciled g ids s) = sessions s"
  by (auto simp: reconciled_def restricted_launchers_def admitted_ceiling_def stored_roots_restrict)

lemma reconciled_launcher_roots:
  "launcher_allowed_roots (reconciled g ids s) = filter (\<lambda>r. \<forall>i\<in>set ids. rr_owner r \<in> set (restricted_launchers i s) \<longrightarrow>
     isWithinAnyAllowedRoot (Path (rr_entry r)) (admitted_ceiling g i s)) (launcher_allowed_roots s)"
  by (simp add: reconciled_def)

lemma reconciled_append: "reconciled g js (reconciled g is s) = reconciled g (is @ js) s"
proof -
  have "restrict_rows (\<lambda>i. i \<in> set js) c (restrict_rows (\<lambda>i. i \<in> set is) c rows) = restrict_rows (\<lambda>i. i \<in> set (is @ js)) c rows"
    for c and rows :: "int root_row list"
    by (auto simp: restrict_rows_def intro: filter_cong)
  then show ?thesis
    unfolding reconciled_def [of g js] reconciled_fields unfolding reconciled_def
    by (auto intro!: store.equality filter_cong)
qed

lemma fold_reconciled: "fold (\<lambda>i. reconciled g [i]) ids (reconciled g is s) = reconciled g (is @ ids) s"
  by (induction ids arbitrary: "is") (simp_all add: reconciled_append)

lemma reconciled_Nil: "reconciled g [] s = s"
  by (simp add: reconciled_def restrict_rows_def)

lemma reconcile_store:
  assumes "reconcileStoredAllowedRootsToGlobalCeiling io fs g s n = (s', n', Inr res)"
  obtains resolved where "resolveAllowedRootEntries fs g = Inr resolved"
    and "s' = reconciled resolved (sort (map pr_id (principals s))) s"
proof -
  obtain resolved m k ps where r: "resolveAllowedRootEntries fs g = Inr resolved"
    and run: "db_collect (\<lambda>pid. prunePrincipalStoredRootsToCeiling io resolved pid True) (sort (map pr_id (principals s))) s m =
      (s', k, Inr ps)"
    using assms unfolding reconcileStoredAllowedRootsToGlobalCeiling_def pruneStoredAllowedRootsToCeilings_def
    by (cases "resolveAllowedRootEntries fs g")
      (auto simp: db_then_result db_then_Inr with_tx_Inr db_simps simp del: db_collect.simps)
  have "s' = fold (\<lambda>i. reconciled resolved [i]) (sort (map pr_id (principals s))) s"
    using run by (rule db_collect_store) (use prune_principal_store restrict_step in fastforce)
  then show thesis using that r fold_reconciled [of resolved _ "[]" s] by (simp add: reconciled_Nil)
qed

section \<open>Properties\<close>

text \<open>The ownership snapshot of one Launcher, as the Session-create revalidation reads it from the store.\<close>

definition ownership_of :: "store \<Rightarrow> launcher_row \<Rightarrow> principal_row \<Rightarrow> sessionOwnershipSnapshot" where
  "ownership_of s l p =
     \<lparr>snap_launcherID = la_id l, snap_launcherName = la_name l, snap_launcherEnabled = la_enabled l,
      snap_launcherScope = la_scope l, snap_launcherRoots = stored_roots (la_id l) (launcher_allowed_roots s),
      snap_principalID = pr_id p, snap_principalName = pr_username p, snap_principalEnabled = pr_enabled p,
      snap_principalRoots = stored_roots (pr_id p) (principal_allowed_roots s)\<rparr>"

lemma restricted_launchers_iff:
  "i \<in> set (restricted_launchers pid s) \<longleftrightarrow>
     (\<exists>l\<in>set (launchers s). la_id l = i \<and> la_principal l = pid \<and> la_scope l = LauncherScopeRestricted)"
  by (auto simp: restricted_launchers_def)

text \<open>A Launcher all of whose stored roots lie in its Principal's effective ceiling is not refused.\<close>

lemma effective_launcher_admitted:
  assumes "scope_check (la_scope l)"
    and "la_scope l = LauncherScopeRestricted \<Longrightarrow>
      \<forall>e\<in>set (stored_roots (la_id l) (launcher_allowed_roots s)). isWithinAnyAllowedRoot (Path e) (principal_ceiling g (pr_id p) s)"
  shows "\<exists>scope. effectiveLauncherAllowedRoots g (ownership_of s l p) = Inr scope"
  using assms
  by (auto simp: effectiveLauncherAllowedRoots_def ownership_of_def principal_ceiling_def scope_check_def list_all_iff Let_def)

text \<open>
  C37: the global reconciliation (reload and startup) is exact and establishes the ceilings. If it
  reports success, exactly the stored Principal roots outside every resolved global root are gone,
  exactly those stored roots of restricted Launchers are gone that lie outside the effective ceiling
  of their Principal, no other table changes, and no Launcher is then refused by the effective-scope
  computation of Session creation. On an error nothing changed.
\<close>

theorem reconcile_establishes_ceilings:
  assumes "store_ok s" and "reconcileStoredAllowedRootsToGlobalCeiling io fs g s n = (s', n', r)"
  shows "(r = Inr res \<longrightarrow> (\<exists>resolved. resolveAllowedRootEntries fs g = Inr resolved \<and>
      principals s' = principals s \<and> launchers s' = launchers s \<and> credentials s' = credentials s \<and> sessions s' = sessions s \<and>
      principal_allowed_roots s' =
        filter (\<lambda>x. isWithinAnyAllowedRoot (Path (rr_entry x)) (allowedRootPaths resolved)) (principal_allowed_roots s) \<and>
      launcher_allowed_roots s' =
        filter (\<lambda>x. \<forall>l\<in>set (launchers s). la_id l = rr_owner x \<longrightarrow> la_scope l = LauncherScopeRestricted \<longrightarrow>
          isWithinAnyAllowedRoot (Path (rr_entry x)) (principal_ceiling resolved (la_principal l) s')) (launcher_allowed_roots s) \<and>
      (\<forall>l\<in>set (launchers s'). \<forall>p\<in>set (principals s'). pr_id p = la_principal l \<longrightarrow>
        (\<exists>scope. effectiveLauncherAllowedRoots resolved (ownership_of s' l p) = Inr scope)))) \<and>
    (r = Inl e \<longrightarrow> reported io \<longrightarrow> s' = s)"
proof (intro conjI impI)
  show "s' = s" if "r = Inl e" "reported io"
    using cascade_undone(1) [OF that(2)] assms(2) that(1) unfolding undone_def by metis
  assume "r = Inr res"
  then obtain resolved where res: "resolveAllowedRootEntries fs g = Inr resolved"
    and s': "s' = reconciled resolved (sort (map pr_id (principals s))) s"
    using assms(2) reconcile_store by metis
  have ids: "i \<in> set (sort (map pr_id (principals s))) \<longleftrightarrow> has_principal i s" for i by (auto simp: has_principal_iff)
  have pr: "principal_allowed_roots s' =
      filter (\<lambda>x. isWithinAnyAllowedRoot (Path (rr_entry x)) (allowedRootPaths resolved)) (principal_allowed_roots s)"
    using store_okD(2) [OF assms(1)] unfolding s' reconciled_def restrict_rows_def ids principal_roots_ok_def
    by (auto intro!: filter_cong)
  have ceil: "principal_ceiling resolved i s' = admitted_ceiling resolved i s" for i
    unfolding principal_ceiling_def admitted_ceiling_def pr
    by (simp add: stored_roots_def filter_sort filter_map comp_def conj_commute)
  have la: "launcher_allowed_roots s' = filter (\<lambda>x. \<forall>l\<in>set (launchers s). la_id l = rr_owner x \<longrightarrow>
      la_scope l = LauncherScopeRestricted \<longrightarrow>
      isWithinAnyAllowedRoot (Path (rr_entry x)) (principal_ceiling resolved (la_principal l) s')) (launcher_allowed_roots s)"
  proof -
    have own: "has_principal (la_principal l) s" if "l \<in> set (launchers s)" for l
      using store_okD(3) [OF assms(1)] that by (simp add: launchers_ok_def)
    have "(\<forall>i\<in>set (sort (map pr_id (principals s))). rr_owner x \<in> set (restricted_launchers i s) \<longrightarrow>
        isWithinAnyAllowedRoot (Path (rr_entry x)) (admitted_ceiling resolved i s)) \<longleftrightarrow>
      (\<forall>l\<in>set (launchers s). la_id l = rr_owner x \<longrightarrow> la_scope l = LauncherScopeRestricted \<longrightarrow>
        isWithinAnyAllowedRoot (Path (rr_entry x)) (admitted_ceiling resolved (la_principal l) s))" for x
      unfolding restricted_launchers_iff Ball_def ids using own by blast
    note eq = this
    have "launcher_allowed_roots s' = filter (\<lambda>x. \<forall>i\<in>set (sort (map pr_id (principals s))).
        rr_owner x \<in> set (restricted_launchers i s) \<longrightarrow>
        isWithinAnyAllowedRoot (Path (rr_entry x)) (admitted_ceiling resolved i s)) (launcher_allowed_roots s)"
      unfolding s' by (rule reconciled_launcher_roots)
    also have "\<dots> = filter (\<lambda>x. \<forall>l\<in>set (launchers s). la_id l = rr_owner x \<longrightarrow>
        la_scope l = LauncherScopeRestricted \<longrightarrow>
        isWithinAnyAllowedRoot (Path (rr_entry x)) (admitted_ceiling resolved (la_principal l) s)) (launcher_allowed_roots s)"
      by (rule filter_cong [OF refl]) (rule eq)
    finally show ?thesis unfolding ceil .
  qed
  have adm: "\<exists>scope. effectiveLauncherAllowedRoots resolved (ownership_of s' l p) = Inr scope"
    if "l \<in> set (launchers s)" "p \<in> set (principals s)" "pr_id p = la_principal l" for l p
  proof (rule effective_launcher_admitted)
    show "scope_check (la_scope l)" using store_okD(3) [OF assms(1)] that(1) by (simp add: launchers_ok_def)
    show "\<forall>e\<in>set (stored_roots (la_id l) (launcher_allowed_roots s')). isWithinAnyAllowedRoot (Path e) (principal_ceiling resolved (pr_id p) s')"
      if "la_scope l = LauncherScopeRestricted"
      unfolding set_stored_roots la using that \<open>l \<in> set (launchers s)\<close> \<open>pr_id p = la_principal l\<close> by auto
  qed
  show "\<exists>resolved. resolveAllowedRootEntries fs g = Inr resolved \<and>
      principals s' = principals s \<and> launchers s' = launchers s \<and> credentials s' = credentials s \<and> sessions s' = sessions s \<and>
      principal_allowed_roots s' =
        filter (\<lambda>x. isWithinAnyAllowedRoot (Path (rr_entry x)) (allowedRootPaths resolved)) (principal_allowed_roots s) \<and>
      launcher_allowed_roots s' =
        filter (\<lambda>x. \<forall>l\<in>set (launchers s). la_id l = rr_owner x \<longrightarrow> la_scope l = LauncherScopeRestricted \<longrightarrow>
          isWithinAnyAllowedRoot (Path (rr_entry x)) (principal_ceiling resolved (la_principal l) s')) (launcher_allowed_roots s) \<and>
      (\<forall>l\<in>set (launchers s'). \<forall>p\<in>set (principals s'). pr_id p = la_principal l \<longrightarrow>
        (\<exists>scope. effectiveLauncherAllowedRoots resolved (ownership_of s' l p) = Inr scope))"
  proof (intro exI conjI)
    show "\<forall>l\<in>set (launchers s'). \<forall>p\<in>set (principals s'). pr_id p = la_principal l \<longrightarrow>
        (\<exists>scope. effectiveLauncherAllowedRoots resolved (ownership_of s' l p) = Inr scope)"
      using adm by (simp add: s')
  qed (use res pr la in \<open>simp_all add: s'\<close>)
qed

definition demo_scoped :: store where
  "demo_scoped = demo_store\<lparr>launchers := [demo_launcher\<lparr>la_scope := LauncherScopeRestricted\<rparr>],
     principal_allowed_roots := [\<lparr>rr_owner = 1, rr_entry = mk_entry ''/home/alice'' RW\<rparr>],
     launcher_allowed_roots := [\<lparr>rr_owner = la_id demo_launcher, rr_entry = mk_entry ''/home/alice/src'' RO\<rparr>]\<rparr>"

lemma demo_scoped_ok: "store_ok demo_scoped"
proof -
  have name: "launcher_name_check ''ci''" by code_simp
  have "launchers_ok demo_scoped"
    by (simp add: launchers_ok_def demo_scoped_def demo_launcher_def demo_store_def demo_principal_def owner_simps name)
  moreover have "principal_roots_ok demo_scoped" "launcher_roots_ok demo_scoped"
    by (simp_all add: principal_roots_ok_def launcher_roots_ok_def demo_scoped_def demo_store_def demo_principal_def
        demo_launcher_def owner_simps)
  ultimately show ?thesis
    by (intro store_ok_frame [OF demo_store_ok]) (simp_all add: demo_scoped_def demo_store_def empty_store_def)
qed

theorem reconcile_establishes_ceilings_witness:
  "launcher_allowed_roots (fst (reconcileStoredAllowedRootsToGlobalCeiling fault_free demo_fs [mk_entry ''/srv/data'' RW] demo_scoped 0)) = [] \<and>
   (\<exists>scope. effectiveLauncherAllowedRoots [mk_entry ''/srv/data'' RW]
     (ownership_of (fst (reconcileStoredAllowedRootsToGlobalCeiling fault_free demo_fs [mk_entry ''/srv/data'' RW] demo_scoped 0))
        (demo_launcher\<lparr>la_scope := LauncherScopeRestricted\<rparr>) demo_principal) = Inr scope)"
proof -
  let ?g = "[mk_entry ''/srv/data'' RW]"
  obtain s' n' r where run: "reconcileStoredAllowedRootsToGlobalCeiling fault_free demo_fs ?g demo_scoped 0 = (s', n', r)"
    by (metis prod_cases3)
  have "(case snd (snd (reconcileStoredAllowedRootsToGlobalCeiling fault_free demo_fs ?g demo_scoped 0)) of Inl _ \<Rightarrow> False | Inr _ \<Rightarrow> True)"
    by code_simp
  then obtain res where r: "r = Inr res" unfolding run by (auto split: sum.splits)
  have "resolveAllowedRootEntries demo_fs ?g = Inr ?g" by code_simp
  moreover have "launcher_allowed_roots (fst (reconcileStoredAllowedRootsToGlobalCeiling fault_free demo_fs ?g demo_scoped 0)) = []"
    by code_simp
  ultimately show ?thesis
    using reconcile_establishes_ceilings [OF demo_scoped_ok run, THEN conjunct1, THEN mp, OF r] unfolding run fst_conv
    by (auto simp: demo_scoped_def demo_store_def demo_principal_def demo_launcher_def)
qed

text \<open>
  removing a stored Principal root is an exact idempotent mutation with its cascade. On success
  the addressed Principal exists; a root that was stored is deleted, and with it exactly the stored
  roots of the restricted Launchers of this Principal that its remaining effective ceiling no longer
  contains; a root that was not stored changes nothing at all. On an error nothing changed.
\<close>

theorem remove_root_cascades:
  assumes "store_ok s" and "removePrincipalAllowedRootCascaded io fs u path g s n = (s', n', r)"
  shows "(r = Inr (changed, canonical, res) \<longrightarrow> (\<exists>p\<in>set (principals s). pr_username p = u \<and>
      resolveAllowedRootIdentity fs path = Inr canonical \<and>
      (changed \<longleftrightarrow> (\<exists>x\<in>set (principal_allowed_roots s). rr_owner x = pr_id p \<and> Path (rr_entry x) = canonical)) \<and>
      s' = (if changed then restrict_launchers g (pr_id p) (drop_principal_root (pr_id p) canonical s) else s))) \<and>
    (r = Inl e \<longrightarrow> reported io \<longrightarrow> s' = s)"
proof (intro conjI impI)
  show "s' = s" if "r = Inl e" "reported io"
    using cascade_undone(2) [OF that(2)] assms(2) that(1) unfolding undone_def by metis
  assume r: "r = Inr (changed, canonical, res)"
  obtain p t k k' where p: "principal_by_username u s = Some p" "resolveAllowedRootIdentity fs path = Inr canonical"
    and t: "t = drop_principal_root (pr_id p) canonical s"
    and ch: "changed = list_ex (\<lambda>x. rr_owner x = pr_id p \<and> Path (rr_entry x) = canonical) (principal_allowed_roots s)"
    and run: "(if changed then pruneStoredAllowedRootsToCeilings io g (pr_id p) else db_return (cascade_result [])) t k = (s', k', Inr res)"
    using assms(2) unfolding r removePrincipalAllowedRootCascaded_def findPrincipalIDByUsername_def
    by (auto simp: db_then_Inr with_tx_Inr db_simps split: if_splits option.splits)
  have mem: "p \<in> set (principals s)" "pr_username p = u" using principal_lookup_iff(2) [OF assms(1)] p(1) by auto
  then have "pr_id p \<noteq> 0" using store_okD(1) [OF assms(1)] by (auto simp: principals_ok_def)
  have "s' = (if changed then restrict_launchers g (pr_id p) t else s)"
  proof (cases changed)
    case True
    then have "\<exists>m ps. prunePrincipalStoredRootsToCeiling io g (pr_id p) False t k = (s', m, Inr ps)"
      using run \<open>pr_id p \<noteq> 0\<close> unfolding pruneStoredAllowedRootsToCeilings_def by (auto simp: db_then_Inr)
    then show ?thesis using True prune_principal_store by fastforce
  next
    case False
    then have "drop_principal_root (pr_id p) canonical s = s"
      using ch by (auto simp: drop_principal_root_def list_ex_iff filter_id_conv)
    then show ?thesis using False run t by simp
  qed
  then show "\<exists>p\<in>set (principals s). pr_username p = u \<and> resolveAllowedRootIdentity fs path = Inr canonical \<and>
      (changed \<longleftrightarrow> (\<exists>x\<in>set (principal_allowed_roots s). rr_owner x = pr_id p \<and> Path (rr_entry x) = canonical)) \<and>
      s' = (if changed then restrict_launchers g (pr_id p) (drop_principal_root (pr_id p) canonical s) else s)"
    using mem p(2) ch unfolding t list_ex_iff by blast
qed

theorem remove_root_cascades_witness:
  "fst (removePrincipalAllowedRootCascaded fault_free demo_fs ''alice'' ''/home/alice'' [mk_entry ''/home'' RW] demo_scoped 0) =
     restrict_launchers [mk_entry ''/home'' RW] 1 (drop_principal_root 1 ''/home/alice'' demo_scoped) \<and>
   launcher_allowed_roots (restrict_launchers [mk_entry ''/home'' RW] 1 (drop_principal_root 1 ''/home/alice'' demo_scoped)) = []"
proof -
  let ?run = "removePrincipalAllowedRootCascaded fault_free demo_fs ''alice'' ''/home/alice'' [mk_entry ''/home'' RW] demo_scoped 0"
  obtain s' n' r where run: "?run = (s', n', r)" by (metis prod_cases3)
  have "(case snd (snd ?run) of Inl _ \<Rightarrow> False | Inr (c, p, _) \<Rightarrow> c \<and> p = ''/home/alice'')" by code_simp
  then obtain res where r: "r = Inr (True, ''/home/alice'', res)" unfolding run by (auto split: sum.splits prod.splits)
  have "s' = restrict_launchers [mk_entry ''/home'' RW] 1 (drop_principal_root 1 ''/home/alice'' demo_scoped)"
    using remove_root_cascades [OF demo_scoped_ok run, THEN conjunct1, THEN mp, OF r] by (auto simp: demo_scoped_def demo_store_def demo_principal_def)
  moreover have "launcher_allowed_roots (restrict_launchers [mk_entry ''/home'' RW] 1 (drop_principal_root 1 ''/home/alice'' demo_scoped)) = []"
    by code_simp
  ultimately show ?thesis unfolding run by simp
qed

end
