(* ===== verification/Log_Buffer.thy ===== *)
theory Log_Buffer
  imports Prelude
begin

text \<open>
  The bounded rolling log of an Operation: \<^verbatim>\<open>boundedBuffer\<close> of operation.go
  (\<^verbatim>\<open>Write\<close>, \<^verbatim>\<open>ReadFrom\<close>, \<^verbatim>\<open>Range\<close>), and the
  client's chunk drain of client.go against it. The buffer refines the stream of every byte ever
  written: it retains the newest bytes up to its size, and the offsets it hands out are positions of
  that stream. Go's 64-bit counters wrap, which \<^verbatim>\<open>int64\<close> below writes out; a Go slice
  expression out of range panics, which is the value \<^const>\<open>None\<close>.
\<close>

section \<open>64-bit counters\<close>

definition int64 :: "int \<Rightarrow> int" where
  "int64 x = (x + 2 ^ 63) mod 2 ^ 64 - 2 ^ 63"

lemma int64_id: "- (2 ^ 63) \<le> x \<Longrightarrow> x < 2 ^ 63 \<Longrightarrow> int64 x = x"
  by (simp add: int64_def)

section \<open>Operations\<close>

record boundedBuffer =
  buf :: string
  maxSize :: int
  buf_offset :: int
  totalLen :: int

definition newBoundedBuffer :: "int \<Rightarrow> boundedBuffer" where
  "newBoundedBuffer maxSz = \<lparr>buf = [], maxSize = maxSz, buf_offset = 0, totalLen = 0\<rparr>"

definition Write :: "boundedBuffer \<Rightarrow> string \<Rightarrow> (boundedBuffer \<times> int) option" where
  "Write b p =
     (let n = int (length p);
          b1 = b\<lparr>totalLen := int64 (totalLen b + n), buf := buf b @ p\<rparr>;
          retainedLen = int (length (buf b1))
      in if retainedLen > maxSize b1 then
           (let trim = int64 (retainedLen - maxSize b1)
            in if trim < 0 \<or> trim > retainedLen then None
               else Some (b1\<lparr>buf_offset := int64 (buf_offset b1 + trim), buf := drop (nat trim) (buf b1)\<rparr>, n))
         else Some (b1, n))"

text \<open>
  One call of an \<^verbatim>\<open>io.Reader\<close> yields bytes and possibly an error. A reader is the list
  of its answers; reading past the list is a call that does not return.
\<close>

datatype read_err = ReadOk | ReadEOF | ReadErr

fun ReadFrom :: "boundedBuffer \<Rightarrow> (string \<times> read_err) list \<Rightarrow> int \<Rightarrow> (boundedBuffer \<times> int \<times> bool) option" where
  "ReadFrom b [] acc = None"
| "ReadFrom b ((d, e) # rs) acc =
     (case (if d \<noteq> [] then map_option (\<lambda>r. (fst r, int64 (acc + int (length d)))) (Write b d) else Some (b, acc)) of
        None \<Rightarrow> None
      | Some (b', acc') \<Rightarrow>
         (case e of
            ReadOk \<Rightarrow> ReadFrom b' rs acc'
          | ReadEOF \<Rightarrow> Some (b', acc', True)
          | ReadErr \<Rightarrow> Some (b', acc', False)))"

definition logResponseChunkBytes :: int where
  "logResponseChunkBytes = 262144"

definition rangeUnbounded :: int where
  "rangeUnbounded = 2 ^ 63 - 1"

definition Range_buf :: "boundedBuffer \<Rightarrow> int \<Rightarrow> int \<Rightarrow> (string \<times> int \<times> bool) option" where
  "Range_buf b off maxBytes =
     (if off \<ge> totalLen b then Some ([], totalLen b, False)
      else let truncated = off < buf_offset b;
               start = (if truncated then buf_offset b else off);
               idx0 = int64 (start - buf_offset b);
               idx = (if idx0 > int (length (buf b)) then int (length (buf b)) else idx0);
               available = int64 (int (length (buf b)) - idx);
               n0 = (if maxBytes < available then maxBytes else available);
               n = (if n0 < 0 then 0 else n0)
           in if idx < 0 \<or> idx + n > int (length (buf b)) then None
              else Some (take (nat n) (drop (nat idx) (buf b)), int64 (start + n), truncated))"

text \<open>
  The client's drain of one Operation's log. The transfer of a chunk through the JSON response is
  the parameter \<^term>\<open>wire\<close>: it is the identity on valid UTF-8 and replaces each invalid
  byte by a longer sequence otherwise. The printed text is the accumulator.
\<close>

partial_function (option) drainOperationLogs ::
    "(string \<Rightarrow> string) \<Rightarrow> boundedBuffer \<Rightarrow> int \<Rightarrow> bool \<Rightarrow> string \<Rightarrow> (int \<times> bool \<times> string) option" where
  "drainOperationLogs wire b off sawTruncated stdout =
     (case Range_buf b off logResponseChunkBytes of
        None \<Rightarrow> None
      | Some (data, newOffset, truncated) \<Rightarrow>
         (let logs = wire data; out = stdout @ logs; saw = (sawTruncated \<or> truncated)
          in if int (length logs) < logResponseChunkBytes then Some (newOffset, saw, out)
             else if newOffset \<le> off then Some (newOffset, saw, out)
             else drainOperationLogs wire b newOffset saw out))"

section \<open>Refinement of the written stream\<close>

text \<open>The buffer represents the stream \<^term>\<open>ws\<close> of all bytes written so far.\<close>

definition represents :: "boundedBuffer \<Rightarrow> string \<Rightarrow> bool" where
  "represents b ws \<longleftrightarrow> 0 \<le> maxSize b \<and> int (length ws) < 2 ^ 63 \<and> totalLen b = int (length ws) \<and>
     buf_offset b = max 0 (int (length ws) - maxSize b) \<and> buf b = drop (nat (buf_offset b)) ws"

lemma represents_new: "0 \<le> m \<Longrightarrow> represents (newBoundedBuffer m) []"
  by (simp add: represents_def newBoundedBuffer_def)

lemma represents_len:
  assumes "represents b ws"
  shows "int (length (buf b)) = min (int (length ws)) (maxSize b)" and "int (length (buf b)) = totalLen b - buf_offset b"
  using assms by (auto simp: represents_def)

lemma represents_write:
  assumes "represents b ws" and "int (length ws) + int (length p) < 2 ^ 63"
  shows "\<exists>b'. Write b p = Some (b', int (length p)) \<and> represents b' (ws @ p) \<and> maxSize b' = maxSize b"
proof -
  let ?L = "int (length ws)" and ?n = "int (length p)" and ?m = "maxSize b"
  have rep: "0 \<le> ?m" "totalLen b = ?L" "buf_offset b = max 0 (?L - ?m)" "buf b = drop (nat (max 0 (?L - ?m))) ws"
    using assms(1) by (auto simp: represents_def)
  have tot: "int64 (?L + ?n) = ?L + ?n" using assms(2) by (intro int64_id) auto
  have len: "int (length (buf b)) = min ?L ?m" by (rule represents_len(1) [OF assms(1)])
  show ?thesis
  proof (cases "min ?L ?m + ?n > ?m")
    case True
    let ?trim = "min ?L ?m + ?n - ?m"
    have trim: "int64 ?trim = ?trim" using True rep(1) assms(2) by (intro int64_id) auto
    have off: "int64 (max 0 (?L - ?m) + ?trim) = ?L + ?n - ?m"
      using True rep(1) assms(2) by (subst int64_id) auto
    have "drop (nat ?trim) (buf b @ p) = drop (nat (?L + ?n - ?m)) (ws @ p)"
    proof (cases "?L \<le> ?m")
      case True
      then show ?thesis using rep(4) by simp
    next
      case False
      then have "nat (?L + ?n - ?m) = nat ?n + nat (max 0 (?L - ?m))" "nat ?trim = nat ?n"
        "nat (max 0 (?L - ?m)) \<le> length ws"
        using rep(1) by auto
      then show ?thesis unfolding rep(4) by (simp add: add.commute)
    qed
    then show ?thesis
      using True rep(1-3) tot trim off len assms(2)
      by (simp add: Write_def Let_def represents_def)
  next
    case False
    then show ?thesis
      using rep tot len assms(2) by (auto simp: Write_def Let_def represents_def)
  qed
qed

lemma range_slice:
  assumes "represents b ws" and "0 \<le> off" and "0 \<le> m"
  shows "let start = max off (buf_offset b); n = max 0 (min m (int (length ws) - start)) in
     Range_buf b off m =
       (if off \<ge> int (length ws) then Some ([], int (length ws), False)
        else Some (take (nat n) (drop (nat start) ws), start + n, off < buf_offset b))"
proof (cases "off \<ge> int (length ws)")
  case True
  then show ?thesis using assms(1) by (simp add: Range_buf_def represents_def)
next
  case False
  let ?L = "int (length ws)" and ?s = "max off (buf_offset b)"
  have rep: "totalLen b = ?L" "0 \<le> buf_offset b" "buf_offset b \<le> ?L" "?L < 2 ^ 63" "buf b = drop (nat (buf_offset b)) ws"
    using assms(1) by (auto simp: represents_def)
  have len: "int (length (buf b)) = ?L - buf_offset b" using represents_len(2) [OF assms(1)] rep(1) by simp
  have i: "int64 (?s - buf_offset b) = ?s - buf_offset b" using assms(2) rep False by (intro int64_id) auto
  have a: "int64 (int (length (buf b)) - (?s - buf_offset b)) = ?L - ?s"
    unfolding len using assms(2) rep False by (subst int64_id) auto
  have e: "int64 (?s + min m (?L - ?s)) = ?s + min m (?L - ?s)"
    using assms(2,3) rep False by (intro int64_id) auto
  have d: "drop (nat (?s - buf_offset b)) (buf b) = drop (nat ?s) ws"
  proof -
    have "nat (?s - buf_offset b) + nat (buf_offset b) = nat ?s" using rep(2) by auto
    then show ?thesis unfolding rep(5) drop_drop by simp
  qed
  have st: "(if off < buf_offset b then buf_offset b else off) = ?s" by auto
  have idx: "\<not> ?s - buf_offset b > int (length (buf b))" using len False rep(3) by auto
  have n: "(if m < ?L - ?s then m else ?L - ?s) = min m (?L - ?s)" "\<not> min m (?L - ?s) < 0"
    "max 0 (min m (?L - ?s)) = min m (?L - ?s)" using False rep(3) assms(3) by auto
  have ok: "\<not> (?s - buf_offset b < 0 \<or> ?s - buf_offset b + min m (?L - ?s) > int (length (buf b)))"
    using len by auto
  have lt: "\<not> off \<ge> totalLen b" using False rep(1) by simp
  show ?thesis
    unfolding Range_buf_def Let_def by (simp only: st i idx a n ok d e lt False if_False)
qed

text \<open>A history of writes from a fresh buffer.\<close>

fun write_all :: "boundedBuffer \<Rightarrow> string list \<Rightarrow> boundedBuffer option" where
  "write_all b [] = Some b"
| "write_all b (p # ps) = (case Write b p of None \<Rightarrow> None | Some (b', n) \<Rightarrow> write_all b' ps)"

lemma write_all_represents:
  assumes "represents b ws" and "int (length ws) + int (length (concat ps)) < 2 ^ 63"
  shows "\<exists>b'. write_all b ps = Some b' \<and> represents b' (ws @ concat ps) \<and> maxSize b' = maxSize b"
  using assms
proof (induction ps arbitrary: b ws)
  case Nil
  then show ?case by simp
next
  case (Cons p ps)
  then obtain b' where b': "Write b p = Some (b', int (length p))" "represents b' (ws @ p)" "maxSize b' = maxSize b"
    using represents_write [of b ws p] by auto
  then show ?case using Cons.IH [OF b'(2)] Cons.prems(2) by simp
qed

lemma readFrom_represents:
  assumes "represents b ws" and "ds = map (\<lambda>d. (d, ReadOk)) (butlast cs) @ [(last cs, ReadEOF)]"
    and "cs \<noteq> []" and "int (length ws) + int (length (concat cs)) < 2 ^ 63" and "0 \<le> acc"
    and "acc + int (length (concat cs)) < 2 ^ 63"
  shows "\<exists>b'. ReadFrom b ds acc = Some (b', acc + int (length (concat cs)), True) \<and> represents b' (ws @ concat cs)"
  using assms
proof (induction cs arbitrary: b ws ds acc)
  case Nil
  then show ?case by simp
next
  case (Cons c cs)
  let ?r = "if c \<noteq> [] then map_option (\<lambda>r. (fst r, int64 (acc + int (length c)))) (Write b c) else Some (b, acc)"
  have len: "length (concat (c # cs)) = length c + length (concat cs)" by simp
  have "int64 (acc + int (length c)) = acc + int (length c)" using Cons.prems(5,6) len by (intro int64_id) auto
  moreover obtain b' where b': "Write b c = Some (b', int (length c))" "represents b' (ws @ c)"
    using represents_write [OF Cons.prems(1), of c] Cons.prems(4) len by auto
  ultimately obtain b1 where b1: "?r = Some (b1, acc + int (length c))" "represents b1 (ws @ c)"
    using Cons.prems(1) by (cases "c = []") auto
  show ?case
  proof (cases "cs = []")
    case True
    then show ?thesis using b1 Cons.prems(2) by simp
  next
    case False
    then have ds: "ds = (c, ReadOk) # map (\<lambda>d. (d, ReadOk)) (butlast cs) @ [(last cs, ReadEOF)]"
      using Cons.prems(2) by simp
    show ?thesis
      using Cons.IH [OF b1(2) refl False, of "acc + int (length c)"] b1(1) Cons.prems(4-6) len unfolding ds
      by (simp add: add.assoc)
  qed
qed

lemma readFrom_maxSize:
  "ReadFrom b ds acc = Some (c, k, eof) \<Longrightarrow> maxSize c = maxSize b"
proof (induction b ds acc rule: ReadFrom.induct)
  case (2 b d e rs acc)
  have w: "maxSize x = maxSize b" if "Write b d = Some (x, k)" for x k
    using that by (auto simp: Write_def Let_def split: if_splits)
  from 2 show ?case by (auto split: if_splits read_err.splits option.splits dest!: w)
qed simp

text \<open>The drain, from a position inside the retained range.\<close>

lemma length_piece:
  assumes "0 \<le> s" and "0 \<le> n" and "s + n \<le> int (length ws)"
  shows "int (length (take (nat n) (drop (nat s) ws))) = n"
  using assms by (simp add: min_def nat_le_iff) linarith

lemma chunk_pos: "0 < logResponseChunkBytes"
  by (simp add: logResponseChunkBytes_def)

lemma drain_retained:
  assumes "represents b ws" and wire: "\<And>d. set d \<subseteq> set ws \<Longrightarrow> wire d = d"
    and "buf_offset b \<le> off" and "0 \<le> off" and "off \<le> int (length ws)"
  shows "drainOperationLogs wire b off saw out = Some (int (length ws), saw, out @ drop (nat off) ws)"
  using assms(3-5)
proof (induction "nat (int (length ws) - off)" arbitrary: off out rule: less_induct)
  case less
  let ?L = "int (length ws)" and ?C = logResponseChunkBytes
  let ?n = "min ?C (?L - off)"
  show ?case
  proof (cases "off = ?L")
    case True
    then have "Range_buf b off ?C = Some ([], ?L, False)" using assms(1) by (simp add: Range_buf_def represents_def)
    then show ?thesis using True wire [of "[]"] chunk_pos by (subst drainOperationLogs.simps) simp
  next
    case False
    then have lt: "off < ?L" using less.prems by simp
    have n: "0 < ?n" using lt chunk_pos by simp
    let ?d = "take (nat ?n) (drop (nat off) ws)"
    have r: "Range_buf b off ?C = Some (?d, off + ?n, False)"
      using range_slice [OF assms(1) less.prems(2), of ?C] lt less.prems(1) chunk_pos n by (simp add: Let_def max_def)
    have "nat (off + ?n) = nat ?n + nat off" using less.prems(2) n by (simp add: nat_add_distrib)
    then have rest: "drop (nat off) ws = ?d @ drop (nat (off + ?n)) ws"
      using append_take_drop_id [of "nat ?n" "drop (nat off) ws"] by (simp only: drop_drop)
    have dl: "int (length ?d) = ?n" using less.prems n by (intro length_piece) auto
    have "set ?d \<subseteq> set ws" by (meson set_take_subset set_drop_subset subset_trans)
    then have wd: "wire ?d = ?d" by (rule wire)
    show ?thesis
    proof (cases "?n < ?C")
      case True
      then have end_of: "off + ?n = ?L" by simp
      have small: "int (length ?d) < ?C" using True dl by simp
      have "drainOperationLogs wire b off saw out = Some (off + ?n, saw, out @ ?d)"
        unfolding drainOperationLogs.simps [of wire b off] r by (simp only: option.case prod.case Let_def wd small if_True simp_thms)
      moreover have "?d = drop (nat off) ws" using rest end_of by simp
      ultimately show ?thesis using end_of by simp
    next
      case False
      have "drainOperationLogs wire b off saw out = drainOperationLogs wire b (off + ?n) saw (out @ ?d)"
        using False r n wd dl by (subst drainOperationLogs.simps) (simp add: Let_def)
      also have "\<dots> = Some (?L, saw, (out @ ?d) @ drop (nat (off + ?n)) ws)"
        using less.prems n lt by (intro less.hyps) auto
      also have "\<dots> = Some (?L, saw, out @ drop (nat off) ws)" using rest by simp
      finally show ?thesis .
    qed
  qed
qed

section \<open>Properties\<close>

text \<open>
  C31: From a fresh buffer of non-negative size, any sequence of writes of less than 2 to the power 63
  bytes in total succeeds without a panic, and the buffer then holds exactly the newest bytes of the
  written stream, as many as its size allows; a reader that delivers chunks until end of file has the
  same effect through \<^verbatim>\<open>ReadFrom\<close>.
\<close>

theorem log_keeps_newest:
  assumes "0 \<le> m" and "int (length (concat ps)) < 2 ^ 63" and "ps \<noteq> []"
  shows "(\<exists>b. write_all (newBoundedBuffer m) ps = Some b \<and> totalLen b = int (length (concat ps)) \<and>
       int (length (buf b)) \<le> m \<and> buf b = drop (length (concat ps) - nat m) (concat ps)) \<and>
     (\<exists>b. ReadFrom (newBoundedBuffer m) (map (\<lambda>d. (d, ReadOk)) (butlast ps) @ [(last ps, ReadEOF)]) 0 =
         Some (b, int (length (concat ps)), True) \<and> buf b = drop (length (concat ps) - nat m) (concat ps))"
proof -
  have holds: "buf b = drop (length ws - nat m) ws \<and> int (length (buf b)) \<le> m" if "represents b ws" "maxSize b = m" for b ws
    using that represents_len(1) [OF that(1)] assms(1)
    by (auto simp: represents_def max_def nat_diff_distrib)
  obtain b where b: "write_all (newBoundedBuffer m) ps = Some b" "represents b (concat ps)" "maxSize b = m"
    using write_all_represents [OF represents_new [OF assms(1)], of ps] assms(2) by (auto simp: newBoundedBuffer_def)
  obtain c where c: "ReadFrom (newBoundedBuffer m) (map (\<lambda>d. (d, ReadOk)) (butlast ps) @ [(last ps, ReadEOF)]) 0 =
      Some (c, int (length (concat ps)), True)" "represents c (concat ps)"
    using readFrom_represents [OF represents_new [OF assms(1)] refl assms(3), of 0] assms(2) by auto
  have "maxSize c = m" using readFrom_maxSize [OF c(1)] by (simp add: newBoundedBuffer_def)
  with b c holds show ?thesis by (auto simp: represents_def)
qed

theorem log_keeps_newest_witness:
  "\<exists>b. write_all (newBoundedBuffer 3) [''ab'', ''cd''] = Some b \<and> buf b = drop (4 - nat 3) ''abcd''"
  using log_keeps_newest [of 3 "[''ab'', ''cd'']"] by auto

text \<open>
  \<^verbatim>\<open>Range\<close> on the buffer of a written stream returns a contiguous piece of the stream:
  it starts at the requested offset, or at the oldest retained byte with the truncation flag set when
  the offset is older, carries at most the requested number of bytes, and its next offset is the
  position right after the bytes returned, so that no retained byte is skipped.
\<close>

theorem log_range_contiguous:
  assumes "write_all (newBoundedBuffer m) ps = Some b" and "0 \<le> m" and "int (length (concat ps)) < 2 ^ 63"
    and "0 \<le> off" and "off < int (length (concat ps))" and "0 \<le> maxBytes"
  shows "\<exists>data next. Range_buf b off maxBytes = Some (data, next, off < buf_offset b) \<and>
     next = max off (buf_offset b) + int (length data) \<and> int (length data) \<le> maxBytes \<and>
     data = take (length data) (drop (nat (max off (buf_offset b))) (concat ps)) \<and>
     (int (length data) < maxBytes \<longrightarrow> next = totalLen b)"
proof -
  have rep: "represents b (concat ps)"
    using write_all_represents [OF represents_new [OF assms(2)], of ps] assms(1,3) by auto
  let ?L = "int (length (concat ps))" and ?s = "max off (buf_offset b)"
  let ?n = "max 0 (min maxBytes (?L - ?s))"
  let ?d = "take (nat ?n) (drop (nat ?s) (concat ps))"
  have s: "0 \<le> ?s" "?s \<le> ?L" "totalLen b = ?L" using rep assms(4,5) by (auto simp: represents_def)
  have len: "int (length ?d) = ?n" using s by (intro length_piece) auto
  then have dl: "length ?d = nat ?n" by linarith
  have r: "Range_buf b off maxBytes = Some (?d, ?s + ?n, off < buf_offset b)"
    using range_slice [OF rep assms(4,6)] assms(5) by (simp add: Let_def)
  show ?thesis
  proof (intro exI conjI)
    show "Range_buf b off maxBytes = Some (?d, ?s + ?n, off < buf_offset b)" by (rule r)
    show "?s + ?n = ?s + int (length ?d)" unfolding len ..
    show "int (length ?d) \<le> maxBytes" unfolding len using assms(6) by auto
    show "?d = take (length ?d) (drop (nat ?s) (concat ps))" unfolding dl ..
    show "int (length ?d) < maxBytes \<longrightarrow> ?s + ?n = totalLen b" unfolding len using s by auto
  qed
qed

theorem log_range_contiguous_witness:
  "\<exists>data next. Range_buf \<lparr>buf = ''bcd'', maxSize = 3, buf_offset = 1, totalLen = 4\<rparr> 0 2 = Some (data, next, True) \<and>
     next = 1 + int (length data)"
proof -
  have w: "write_all (newBoundedBuffer 3) [''ab'', ''cd''] = Some \<lparr>buf = ''bcd'', maxSize = 3, buf_offset = 1, totalLen = 4\<rparr>"
    by code_simp
  show ?thesis using log_range_contiguous [OF w, of 0 2] by auto
qed



end
