(* ===== verification/Operations.thy ===== *)
theory Operations
  imports Log_Buffer
begin

text \<open>
  The operation supervisor of operation.go (with its quiesce operations of launcher\_lifecycle.go):
  the shared capacity accounting and its leases, admission, completion, pruning and termination.

  The pointers and closures of the code are explicit: Operations, capacity reservations and the
  release closures live in three stores of the state and are referred to by index. A release closure
  is its captured variables (Session, build flag) and its captured \<^verbatim>\<open>released\<close> flag.
  Each definition is one critical section of the code under the supervisor or operation lock; the
  step relation interleaves them arbitrarily. Signals, kills and the finish audit records are
  appended to logs. Times are nanosecond counts supplied by the caller, as are the results of calls
  that leave the program (process start, the wait for a container id, which Operations finish before
  the deadline).
\<close>

section \<open>State\<close>

datatype operationState = operationRunning | operationSucceeded | operationFailed

datatype terminationReason = terminationNone | terminationShutdown | terminationCancelled

definition operationKindRun :: string where "operationKindRun = ''run''"
definition operationKindBuild :: string where "operationKindBuild = ''build''"

definition maxConcurrentOperationsPerSession :: int where "maxConcurrentOperationsPerSession = 4"
definition maxConcurrentOperationsGlobal :: int where "maxConcurrentOperationsGlobal = 8"
definition maxConcurrentBuildsGlobal :: int where "maxConcurrentBuildsGlobal = 2"

text \<open>
  \<^verbatim>\<open>cmd\<close> is \<^const>\<open>None\<close> for nil, and otherwise tells whether
  \<^verbatim>\<open>cmd.Process\<close> is set. \<^verbatim>\<open>done\<close> is whether the channel is closed.
\<close>

record operation =
  op_ID :: string
  op_SessionID :: string
  op_LauncherID :: string
  Kind :: string
  State :: operationState
  CreatedAt :: int
  StartedAt :: "int option"
  CompletedAt :: "int option"
  Duration :: "string option"
  ExitCode :: "int option"
  ResultCode :: "string option"
  Image :: string
  Context :: string
  Dockerfile :: string
  LogBuffer :: boundedBuffer
  cmd :: "bool option"
  done_closed :: bool
  terminated :: bool
  reason :: terminationReason
  started :: bool
  forceOwned :: bool
  forceDone_closed :: bool
  cidfile :: string
  capacityRelease :: "nat option"
  auditPrincipalName :: string
  auditLauncherName :: string

text \<open>The finish audit record, with the Operation it was written for.\<close>

record auditRecord =
  au_op :: nat
  Event :: string
  au_SessionID :: string
  au_OperationID :: string
  au_Image :: string
  PrincipalName :: string
  au_LauncherID :: string
  au_LauncherName :: string
  Result :: string
  au_ExitCode :: "int option"
  au_Duration :: string

record lease =
  l_session :: string
  l_build :: bool
  l_released :: bool

datatype process_effect = SigTerm nat | KillContainer nat string | KillProcess nat

record operationSupervisor =
  ops :: "string \<rightharpoonup> nat"
  shutting :: bool
  quiesced :: "string \<Rightarrow> bool"
  maxPerSession :: int
  maxGlobal :: int
  maxGlobalBuilds :: int
  sessionRunning :: "string \<rightharpoonup> int"
  globalRunning :: int
  globalBuildCount :: int

record sup_world = operationSupervisor +
  op_mem :: "operation list"
  lease_mem :: "lease list"
  reservation_mem :: "nat option list"
  finish_audit :: "auditRecord list"
  effects :: "process_effect list"

definition newOperationSupervisor :: sup_world where
  "newOperationSupervisor =
     \<lparr>ops = Map.empty, shutting = False, quiesced = (\<lambda>_. False),
      maxPerSession = maxConcurrentOperationsPerSession, maxGlobal = maxConcurrentOperationsGlobal,
      maxGlobalBuilds = maxConcurrentBuildsGlobal, sessionRunning = Map.empty, globalRunning = 0,
      globalBuildCount = 0, op_mem = [], lease_mem = [], reservation_mem = [], finish_audit = [], effects = []\<rparr>"

datatype admissionDecision =
  admissionAccepted | admissionRefusedShutdown | admissionRefusedQuiesced | admissionRefusedCapacity

abbreviation upd_op :: "nat \<Rightarrow> (operation \<Rightarrow> operation) \<Rightarrow> sup_world \<Rightarrow> sup_world" where
  "upd_op p f s \<equiv> s\<lparr>op_mem := (op_mem s)[p := f (op_mem s ! p)]\<rparr>"

section \<open>Operation identifiers\<close>

definition operationIDPrefix :: string where "operationIDPrefix = ''op_''"

definition generateOperationID :: "nat list \<Rightarrow> string" where
  "generateOperationID random_bytes = operationIDPrefix @ hex_encode random_bytes"

definition isOperationIDSafe :: "string \<Rightarrow> bool" where
  "isOperationIDSafe i \<longleftrightarrow>
     (if i = [] then False
      else if hd i = CHR ''.'' \<or> hd i = CHR ''/'' then False
      else \<not> list_ex (\<lambda>r. r = CHR ''/'' \<or> r = CHR 0x5C) i)"

definition newOperation ::
    "string \<Rightarrow> string \<Rightarrow> string \<Rightarrow> string \<Rightarrow> string \<Rightarrow> string \<Rightarrow> int \<Rightarrow> string \<Rightarrow> string \<Rightarrow> string \<Rightarrow> int \<Rightarrow> operation" where
  "newOperation kind opID sessionID img ctxPath df bufSize principalName launcherID launcherName now =
     \<lparr>op_ID = opID, op_SessionID = sessionID, op_LauncherID = launcherID, Kind = kind,
      State = operationRunning, CreatedAt = now, StartedAt = None, CompletedAt = None, Duration = None,
      ExitCode = None, ResultCode = None, Image = img, Context = ctxPath, Dockerfile = df,
      LogBuffer = newBoundedBuffer bufSize, cmd = None, done_closed = False,
      terminated = False, reason = terminationNone, started = False, forceOwned = False,
      forceDone_closed = False, cidfile = [], capacityRelease = None,
      auditPrincipalName = principalName, auditLauncherName = launcherName\<rparr>"

definition newBuildOperation ::
    "string \<Rightarrow> string \<Rightarrow> string \<Rightarrow> string \<Rightarrow> string \<Rightarrow> int \<Rightarrow> string \<Rightarrow> string \<Rightarrow> string \<Rightarrow> int \<Rightarrow> operation" where
  "newBuildOperation opID sessionID img ctxPath df bufSize principalName launcherID launcherName now =
     newOperation operationKindBuild opID sessionID img ctxPath df bufSize principalName launcherID launcherName now"

definition newRunOperation ::
    "string \<Rightarrow> string \<Rightarrow> string \<Rightarrow> int \<Rightarrow> string \<Rightarrow> string \<Rightarrow> string \<Rightarrow> int \<Rightarrow> operation" where
  "newRunOperation opID sessionID img bufSize principalName launcherID launcherName now =
     newOperation operationKindRun opID sessionID img [] [] bufSize principalName launcherID launcherName now"

section \<open>Capacity\<close>

definition running_at :: "sup_world \<Rightarrow> string \<Rightarrow> int" where
  "running_at s sid = (case sessionRunning s sid of None \<Rightarrow> 0 | Some n \<Rightarrow> n)"

text \<open>The release closure built by \<^verbatim>\<open>reserveCapacityLocked\<close>.\<close>

definition release_lease :: "nat \<Rightarrow> sup_world \<Rightarrow> sup_world" where
  "release_lease l s =
     (let c = lease_mem s ! l in
      if l_released c then s
      else let r1 = (if running_at s (l_session c) > 0 then running_at s (l_session c) - 1
                     else running_at s (l_session c))
           in s\<lparr>lease_mem := (lease_mem s)[l := c\<lparr>l_released := True\<rparr>],
                globalRunning := (if globalRunning s > 0 then globalRunning s - 1 else globalRunning s),
                sessionRunning := (sessionRunning s)(l_session c := (if r1 = 0 then None else Some r1)),
                globalBuildCount := (if l_build c \<and> globalBuildCount s > 0 then globalBuildCount s - 1
                                     else globalBuildCount s)\<rparr>)"

definition reserveCapacityLocked :: "string \<Rightarrow> bool \<Rightarrow> sup_world \<Rightarrow> sup_world \<times> nat option" where
  "reserveCapacityLocked sessionID build s =
     (if globalRunning s \<ge> maxGlobal s then (s, None)
      else if running_at s sessionID \<ge> maxPerSession s then (s, None)
      else if build \<and> globalBuildCount s \<ge> maxGlobalBuilds s then (s, None)
      else (s\<lparr>globalRunning := globalRunning s + 1,
              sessionRunning := (sessionRunning s)(sessionID \<mapsto> running_at s sessionID + 1),
              globalBuildCount := (if build then globalBuildCount s + 1 else globalBuildCount s),
              lease_mem := lease_mem s @ [\<lparr>l_session = sessionID, l_build = build, l_released = False\<rparr>],
              reservation_mem := reservation_mem s @ [Some (length (lease_mem s))]\<rparr>,
            Some (length (reservation_mem s))))"

definition reserveCapacity :: "string \<Rightarrow> bool \<Rightarrow> sup_world \<Rightarrow> sup_world \<times> nat option \<times> bool" where
  "reserveCapacity sessionID build s =
     (case reserveCapacityLocked sessionID build s of (s', res) \<Rightarrow> (s', res, res \<noteq> None))"

text \<open>\<^verbatim>\<open>Release\<close> of a reservation; \<^const>\<open>None\<close> is the nil reservation.\<close>

definition reservation_Release :: "nat option \<Rightarrow> sup_world \<Rightarrow> sup_world" where
  "reservation_Release r s =
     (case r of
        None \<Rightarrow> s
      | Some i \<Rightarrow>
         (case reservation_mem s ! i of
            None \<Rightarrow> s
          | Some l \<Rightarrow> (release_lease l s)\<lparr>reservation_mem := (reservation_mem s)[i := None]\<rparr>))"

definition reserve :: "string \<Rightarrow> string \<Rightarrow> string \<Rightarrow> sup_world \<Rightarrow> sup_world \<times> nat option \<times> admissionDecision" where
  "reserve sessionID launcherID kind s =
     (if shutting s then (s, None, admissionRefusedShutdown)
      else if quiesced s launcherID then (s, None, admissionRefusedQuiesced)
      else (case reserveCapacityLocked sessionID (kind = operationKindBuild) s of
              (s', None) \<Rightarrow> (s', None, admissionRefusedCapacity)
            | (s', Some r) \<Rightarrow> (s', Some r, admissionAccepted)))"

definition admitReserved :: "nat \<Rightarrow> nat option \<Rightarrow> sup_world \<Rightarrow> sup_world \<times> admissionDecision" where
  "admitReserved p reservation s =
     (let op = op_mem s ! p in
      if shutting s then (s, admissionRefusedShutdown)
      else if quiesced s (op_LauncherID op) then (s, admissionRefusedQuiesced)
      else let s1 = s\<lparr>ops := (ops s)(op_ID op \<mapsto> p)\<rparr>
           in (case reservation of
                 None \<Rightarrow> (s1, admissionAccepted)
               | Some r \<Rightarrow>
                  (case reservation_mem s1 ! r of
                     None \<Rightarrow> (s1, admissionAccepted)
                   | Some l \<Rightarrow> ((upd_op p (\<lambda>x. x\<lparr>capacityRelease := Some l\<rparr>) s1)
                                  \<lparr>reservation_mem := (reservation_mem s1)[r := None]\<rparr>, admissionAccepted))))"

text \<open>
  What a handler does with its own Operation before admission: the release closure of its reservation becomes the
  Operation's, and a run gets its cidfile.
\<close>

definition takeReservation :: "nat \<Rightarrow> nat option \<Rightarrow> sup_world \<Rightarrow> sup_world" where
  "takeReservation p reservation s =
     (case reservation of
        None \<Rightarrow> s
      | Some r \<Rightarrow> (upd_op p (\<lambda>x. x\<lparr>capacityRelease := reservation_mem s ! r\<rparr>) s)
                    \<lparr>reservation_mem := (reservation_mem s)[r := None]\<rparr>)"

definition setCidfile :: "nat \<Rightarrow> string \<Rightarrow> sup_world \<Rightarrow> sup_world" where
  "setCidfile p path s = upd_op p (\<lambda>x. x\<lparr>cidfile := path\<rparr>) s"

definition op_lookup :: "sup_world \<Rightarrow> string \<Rightarrow> nat option" where
  "op_lookup s i = ops s i"

section \<open>Admission gates\<close>

definition quiesceLauncher :: "string \<Rightarrow> sup_world \<Rightarrow> sup_world" where
  "quiesceLauncher launcherID s = s\<lparr>quiesced := (quiesced s)(launcherID := True)\<rparr>"

definition setQuiesced :: "string \<Rightarrow> bool \<Rightarrow> sup_world \<Rightarrow> sup_world" where
  "setQuiesced launcherID closed s = s\<lparr>quiesced := (quiesced s)(launcherID := closed)\<rparr>"

definition beginShutdown :: "sup_world \<Rightarrow> sup_world" where
  "beginShutdown s = s\<lparr>shutting := True\<rparr>"

text \<open>
  \<^verbatim>\<open>hasRunningForLauncher\<close>: the registered Operations are enumerated by their pointers.
\<close>

definition hasRunningForLauncher :: "string \<Rightarrow> sup_world \<Rightarrow> bool" where
  "hasRunningForLauncher launcherID s =
     list_ex (\<lambda>p. ops s (op_ID (op_mem s ! p)) = Some p \<and> op_LauncherID (op_mem s ! p) = launcherID \<and>
        State (op_mem s ! p) = operationRunning) [0..<length (op_mem s)]"

section \<open>Completion\<close>

definition releaseCapacity :: "nat \<Rightarrow> sup_world \<Rightarrow> sup_world" where
  "releaseCapacity p s =
     (case capacityRelease (op_mem s ! p) of
        None \<Rightarrow> s
      | Some l \<Rightarrow> upd_op p (\<lambda>x. x\<lparr>capacityRelease := None\<rparr>) (release_lease l s))"

text \<open>
  \<^verbatim>\<open>writeFinishAudit\<close> dereferences the result code, which every completion has set.
\<close>

definition writeFinishAudit :: "nat \<Rightarrow> int option \<Rightarrow> string option \<Rightarrow> sup_world \<Rightarrow> sup_world" where
  "writeFinishAudit p exitCode duration s =
     (let op = op_mem s ! p in
      case ResultCode op of
        None \<Rightarrow> s
      | Some rc \<Rightarrow> s\<lparr>finish_audit := finish_audit s @
          [\<lparr>au_op = p, Event = Kind op @ ''.finish'', au_SessionID = op_SessionID op, au_OperationID = op_ID op,
            au_Image = Image op, PrincipalName = auditPrincipalName op, au_LauncherID = op_LauncherID op,
            au_LauncherName = auditLauncherName op, Result = rc, au_ExitCode = exitCode,
            au_Duration = (case duration of None \<Rightarrow> [] | Some d \<Rightarrow> d)\<rparr>]\<rparr>)"

definition close_done :: "nat \<Rightarrow> sup_world \<Rightarrow> sup_world" where
  "close_done p s = upd_op p (\<lambda>x. x\<lparr>done_closed := True\<rparr>) s"

definition succeed :: "nat \<Rightarrow> string option \<Rightarrow> int \<Rightarrow> sup_world \<Rightarrow> sup_world \<times> bool" where
  "succeed p duration now s =
     (if CompletedAt (op_mem s ! p) \<noteq> None then (s, False)
      else let s1 = upd_op p (\<lambda>x. x\<lparr>State := operationSucceeded, CompletedAt := Some now, Duration := duration,
                      ResultCode := (if ResultCode x = None then Some ''succeeded'' else ResultCode x)\<rparr>) s;
               s2 = releaseCapacity p s1;
               s3 = writeFinishAudit p None duration s2
           in (close_done p s3, True))"

definition fail :: "nat \<Rightarrow> string \<Rightarrow> int option \<Rightarrow> string option \<Rightarrow> int \<Rightarrow> sup_world \<Rightarrow> sup_world \<times> bool" where
  "fail p resultCode exitCode duration now s =
     (if CompletedAt (op_mem s ! p) \<noteq> None then (s, False)
      else let s1 = upd_op p (\<lambda>x. x\<lparr>State := operationFailed, CompletedAt := Some now, ExitCode := exitCode,
                      ResultCode := (if ResultCode x = None then Some resultCode else ResultCode x),
                      Duration := (if duration \<noteq> None then duration else Duration x)\<rparr>) s;
               s2 = releaseCapacity p s1;
               s3 = writeFinishAudit p exitCode duration s2
           in (close_done p s3, True))"

text \<open>\<^verbatim>\<open>startOperationProcess\<close>; whether \<^verbatim>\<open>cmd.Start\<close> succeeds is a parameter.\<close>

datatype startResult = StartTerminated | StartErr | StartOk

definition startOperationProcess :: "nat \<Rightarrow> bool \<Rightarrow> int \<Rightarrow> sup_world \<Rightarrow> sup_world \<times> startResult" where
  "startOperationProcess p start_ok now s =
     (if terminated (op_mem s ! p) then (s, StartTerminated)
      else (upd_op p (\<lambda>x. x\<lparr>StartedAt := Some now, cmd := Some start_ok, started := start_ok\<rparr>) s,
            if start_ok then StartOk else StartErr))"

section \<open>Pruning\<close>

text \<open>
  The selection runs on a snapshot of the registered Operations taken in an unspecified order
  (\<^term>\<open>order\<close>, the iteration order of the Go map), the removal in a later critical section that
  compares the pointer again. \<^const>\<open>None\<close> is the slice panic of a negative cap.
\<close>

definition prune_completed_of :: "sup_world \<Rightarrow> nat list \<Rightarrow> (nat \<times> int) list" where
  "prune_completed_of s order =
     concat (map (\<lambda>p. if State (op_mem s ! p) \<noteq> operationRunning
                      then (case CompletedAt (op_mem s ! p) of None \<Rightarrow> [] | Some t \<Rightarrow> [(p, t)]) else []) order)"

definition prune_select :: "sup_world \<Rightarrow> nat list \<Rightarrow> int \<Rightarrow> int \<Rightarrow> int \<Rightarrow> nat list option" where
  "prune_select s order now retentionTTL maxCompleted =
     (let completed = prune_completed_of s order;
          expired = filter (\<lambda>c. now - snd c > retentionTTL) completed;
          nonExpired = filter (\<lambda>c. \<not> now - snd c > retentionTTL) completed
      in if int (length nonExpired) > maxCompleted then
           (if maxCompleted < 0 then None
            else Some (map fst expired @
                   map fst (take (length nonExpired - nat maxCompleted) (sort_key snd nonExpired))))
         else Some (map fst expired))"

definition prune_remove :: "nat list \<Rightarrow> sup_world \<Rightarrow> sup_world" where
  "prune_remove toRemove s =
     s\<lparr>ops := fold (\<lambda>p m. if m (op_ID (op_mem s ! p)) = Some p then m(op_ID (op_mem s ! p) := None) else m)
         toRemove (ops s)\<rparr>"

definition pruneCompleted :: "nat list \<Rightarrow> int \<Rightarrow> int \<Rightarrow> int \<Rightarrow> sup_world \<Rightarrow> sup_world option" where
  "pruneCompleted order now retentionTTL maxCompleted s =
     map_option (\<lambda>toRemove. prune_remove toRemove s) (prune_select s order now retentionTTL maxCompleted)"

section \<open>Termination\<close>

text \<open>Phase 0+1 of \<^verbatim>\<open>terminateOperations\<close> for one Operation.\<close>

definition terminate_mark :: "terminationReason \<Rightarrow> nat \<Rightarrow> sup_world \<Rightarrow> sup_world" where
  "terminate_mark rs p s =
     (let s1 = upd_op p (\<lambda>x. if reason x = terminationNone then x\<lparr>reason := rs\<rparr> else x) s;
          op = op_mem s1 ! p
      in if \<not> started op then upd_op p (\<lambda>x. x\<lparr>terminated := True\<rparr>) s1
         else if cmd op = Some True then s1\<lparr>effects := effects s1 @ [SigTerm p]\<rparr>
         else s1)"

text \<open>
  The force-cleanup claim: an owned cleanup is only waited for and a completed Operation is left
  alone. Otherwise the container, when one is found, and then the process are killed.
\<close>

definition force_claim :: "nat \<Rightarrow> sup_world \<Rightarrow> sup_world \<times> bool" where
  "force_claim p s =
     (if forceOwned (op_mem s ! p) then (s, False)
      else if CompletedAt (op_mem s ! p) \<noteq> None then (s, False)
      else (upd_op p (\<lambda>x. x\<lparr>forceOwned := True\<rparr>) s, True))"

definition force_finish :: "(nat \<Rightarrow> string) \<Rightarrow> bool \<Rightarrow> nat \<Rightarrow> sup_world \<Rightarrow> sup_world" where
  "force_finish container_id have_kill p s =
     (let op = op_mem s ! p;
          s1 = (if cidfile op \<noteq> [] \<and> container_id p \<noteq> [] \<and> have_kill
                then s\<lparr>effects := effects s @ [KillContainer p (container_id p)]\<rparr> else s);
          s2 = (if cmd op = Some True then s1\<lparr>effects := effects s1 @ [KillProcess p]\<rparr> else s1)
      in upd_op p (\<lambda>x. x\<lparr>forceDone_closed := True\<rparr>) s2)"

definition forceCleanupOperation :: "(nat \<Rightarrow> string) \<Rightarrow> bool \<Rightarrow> nat \<Rightarrow> sup_world \<Rightarrow> sup_world" where
  "forceCleanupOperation container_id have_kill p s =
     (case force_claim p s of
        (s1, False) \<Rightarrow> s1
      | (s1, True) \<Rightarrow> force_finish container_id have_kill p s1)"

text \<open>
  \<^verbatim>\<open>terminateOperations\<close> on a list of targets: mark or signal each, then force the cleanup of
  those that were running and did not finish within the graceful phase (\<^term>\<open>in_time\<close>).
\<close>

definition terminateOperations ::
    "(nat \<Rightarrow> bool) \<Rightarrow> (nat \<Rightarrow> string) \<Rightarrow> bool \<Rightarrow> terminationReason \<Rightarrow> nat list \<Rightarrow> sup_world \<Rightarrow> sup_world" where
  "terminateOperations in_time container_id have_kill rs targets s =
     (let s1 = fold (terminate_mark rs) targets s;
          marked = filter (\<lambda>p. \<not> started (op_mem s ! p)) targets
      in fold (forceCleanupOperation container_id have_kill)
           (filter (\<lambda>p. p \<notin> set marked \<and> \<not> in_time p) targets) s1)"

datatype cancelError = CancelNotFound | CancelAlreadyTerminal

definition cancel ::
    "(nat \<Rightarrow> bool) \<Rightarrow> (nat \<Rightarrow> string) \<Rightarrow> bool \<Rightarrow> string \<Rightarrow> sup_world \<Rightarrow> sup_world \<times> cancelError option" where
  "cancel in_time container_id have_kill i s =
     (case ops s i of
        None \<Rightarrow> (s, Some CancelNotFound)
      | Some p \<Rightarrow>
         if CompletedAt (op_mem s ! p) \<noteq> None then (s, Some CancelAlreadyTerminal)
         else (terminateOperations in_time container_id have_kill terminationCancelled [p] s, None))"

definition terminateForShutdown ::
    "(nat \<Rightarrow> bool) \<Rightarrow> (nat \<Rightarrow> string) \<Rightarrow> bool \<Rightarrow> nat list \<Rightarrow> sup_world \<Rightarrow> sup_world" where
  "terminateForShutdown in_time container_id have_kill order s =
     terminateOperations in_time container_id have_kill terminationShutdown order s"

end
