(* ===== verification/Operation_Invariants.thy ===== *)
theory Operation_Invariants
  imports Operations
begin

text \<open>
  The interleavings of the supervisor's critical sections as a step relation, the inductive invariant
  that ties the capacity counters to the leases and their holders and each Operation to its audit
  record, and the properties of every reachable state.
\<close>

section \<open>Interleavings\<close>

text \<open>
  The steps of the daemon on the supervisor: every critical section, on any Operation or reservation
  that exists, in any order. A handler may hand its reservation to its Operation and gives it up again when
  it fails; the admission of an Operation that already has its capacity brings an emptied reservation; a
  pruning pass removes what an earlier selection found completed.
\<close>

inductive sup_step :: "sup_world \<Rightarrow> sup_world \<Rightarrow> bool" where
  step_reserve: "sup_step s (fst (reserve sid lid kind s))"
| step_reserve_capacity: "sup_step s (fst (reserveCapacity sid build s))"
| step_release: "r < length (reservation_mem s) \<Longrightarrow> sup_step s (reservation_Release (Some r) s)"
| step_new: "sup_step s (s\<lparr>op_mem := op_mem s @ [newOperation kind i sid img ctx df bs pn lid ln now]\<rparr>)"
| step_take: "p < length (op_mem s) \<Longrightarrow> CompletedAt (op_mem s ! p) = None \<Longrightarrow> capacityRelease (op_mem s ! p) = None \<Longrightarrow>
     r < length (reservation_mem s) \<Longrightarrow> sup_step s (takeReservation p (Some r) s)"
| step_cidfile: "p < length (op_mem s) \<Longrightarrow> sup_step s (setCidfile p path s)"
| step_release_op: "p < length (op_mem s) \<Longrightarrow> sup_step s (releaseCapacity p s)"
| step_admit: "p < length (op_mem s) \<Longrightarrow> CompletedAt (op_mem s ! p) = None \<Longrightarrow>
     (\<And>r. res = Some r \<Longrightarrow> r < length (reservation_mem s) \<and>
        (capacityRelease (op_mem s ! p) = None \<or> reservation_mem s ! r = None)) \<Longrightarrow>
     sup_step s (fst (admitReserved p res s))"
| step_start: "p < length (op_mem s) \<Longrightarrow> \<not> started (op_mem s ! p) \<Longrightarrow> sup_step s (fst (startOperationProcess p ok now s))"
| step_succeed: "p < length (op_mem s) \<Longrightarrow> sup_step s (fst (succeed p dur now s))"
| step_fail: "p < length (op_mem s) \<Longrightarrow> sup_step s (fst (fail p rc ec dur now s))"
| step_prune: "(\<And>p. p \<in> set rm \<Longrightarrow> p < length (op_mem s) \<and> CompletedAt (op_mem s ! p) \<noteq> None) \<Longrightarrow>
     sup_step s (prune_remove rm s)"
| step_mark: "p < length (op_mem s) \<Longrightarrow> sup_step s (terminate_mark rs p s)"
| step_claim: "p < length (op_mem s) \<Longrightarrow> sup_step s (fst (force_claim p s))"
| step_force: "p < length (op_mem s) \<Longrightarrow> forceOwned (op_mem s ! p) \<Longrightarrow> \<not> forceDone_closed (op_mem s ! p) \<Longrightarrow>
     sup_step s (force_finish cid k p s)"
| step_quiesce: "sup_step s (quiesceLauncher lid s)"
| step_set_quiesced: "sup_step s (setQuiesced lid closed s)"
| step_shutdown: "sup_step s (beginShutdown s)"

section \<open>Capacity accounting\<close>

definition live_count :: "(lease \<Rightarrow> bool) \<Rightarrow> sup_world \<Rightarrow> int" where
  "live_count P s = count_if (\<lambda>l. \<not> l_released l \<and> P l) (lease_mem s)"

text \<open>The counters count the leases not yet released, and stay under the ceilings.\<close>

definition accounted :: "sup_world \<Rightarrow> bool" where
  "accounted s \<longleftrightarrow>
     globalRunning s = live_count (\<lambda>l. True) s \<and>
     (\<forall>sid. sessionRunning s sid =
        (if live_count (\<lambda>l. l_session l = sid) s = 0 then None else Some (live_count (\<lambda>l. l_session l = sid) s))) \<and>
     globalBuildCount s = live_count l_build s \<and>
     maxPerSession s = maxConcurrentOperationsPerSession \<and> maxGlobal s = maxConcurrentOperationsGlobal \<and>
     maxGlobalBuilds s = maxConcurrentBuildsGlobal \<and>
     globalRunning s \<le> maxGlobal s \<and> (\<forall>sid. running_at s sid \<le> maxPerSession s) \<and>
     globalBuildCount s \<le> maxGlobalBuilds s"

lemma accounted_running: "accounted s \<Longrightarrow> running_at s sid = live_count (\<lambda>l. l_session l = sid) s"
  by (simp add: accounted_def running_at_def)

lemma live_count_nonneg [simp]: "0 \<le> live_count P s"
  by (simp add: live_count_def)

lemma accounted_cong:
  assumes "accounted s" and "lease_mem t = lease_mem s" and "sessionRunning t = sessionRunning s"
    and "globalRunning t = globalRunning s" and "globalBuildCount t = globalBuildCount s"
    and "maxPerSession t = maxPerSession s" and "maxGlobal t = maxGlobal s" and "maxGlobalBuilds t = maxGlobalBuilds s"
  shows "accounted t"
  using assms(1) unfolding accounted_def live_count_def running_at_def assms(2-8) .

lemma live_count_release:
  assumes "l < length (lease_mem s)" and "\<not> l_released (lease_mem s ! l)"
  shows "live_count P (s\<lparr>lease_mem := (lease_mem s)[l := (lease_mem s ! l)\<lparr>l_released := True\<rparr>]\<rparr>) =
     live_count P s - (if P (lease_mem s ! l) then 1 else 0)"
  using assms by (simp add: live_count_def count_if_update)

lemma live_count_pos:
  assumes "l < length (lease_mem s)" and "\<not> l_released (lease_mem s ! l)" and "P (lease_mem s ! l)"
  shows "0 < live_count P s"
  unfolding live_count_def by (rule count_if_pos [OF assms(1)]) (use assms in simp)

lemma accounted_release:
  assumes acc: "accounted s" and l: "l < length (lease_mem s)"
  shows "accounted (release_lease l s)"
proof (cases "l_released (lease_mem s ! l)")
  case True
  then show ?thesis using acc by (simp add: release_lease_def)
next
  case False
  let ?c = "lease_mem s ! l" and ?t = "release_lease l s"
  have live: "live_count P ?t = live_count P s - (if P ?c then 1 else 0)" for P
    using live_count_release [OF l False, of P] False
    by (simp add: release_lease_def live_count_def Let_def)
  have pos: "0 < live_count (\<lambda>l. True) s" "0 < live_count (\<lambda>x. l_session x = l_session ?c) s"
    "l_build ?c \<Longrightarrow> 0 < live_count l_build s"
    using live_count_pos [OF l False] by auto
  have run: "running_at s sid = live_count (\<lambda>l. l_session l = sid) s" for sid by (rule accounted_running [OF acc])
  have fields: "globalRunning ?t = globalRunning s - 1"
    "globalBuildCount ?t = globalBuildCount s - (if l_build ?c then 1 else 0)"
    "sessionRunning ?t = (sessionRunning s)(l_session ?c := (if running_at s (l_session ?c) = 1 then None
        else Some (running_at s (l_session ?c) - 1)))"
    "maxPerSession ?t = maxPerSession s" "maxGlobal ?t = maxGlobal s" "maxGlobalBuilds ?t = maxGlobalBuilds s"
    using False pos acc run [of "l_session ?c"] by (simp_all add: release_lease_def Let_def accounted_def)
  have sess: "sessionRunning ?t sid = (if live_count (\<lambda>l. l_session l = sid) ?t = 0 then None
      else Some (live_count (\<lambda>l. l_session l = sid) ?t))" for sid
  proof (cases "sid = l_session ?c")
    case True
    then show ?thesis unfolding fields(3) live run by simp
  next
    case False
    then have "live_count (\<lambda>l. l_session l = sid) ?t = live_count (\<lambda>l. l_session l = sid) s" unfolding live by simp
    moreover have "sessionRunning ?t sid = sessionRunning s sid" unfolding fields(3) using False by simp
    ultimately show ?thesis using acc by (simp add: accounted_def)
  qed
  have "running_at ?t sid \<le> running_at s sid" for sid
  proof -
    have "running_at ?t sid = live_count (\<lambda>l. l_session l = sid) ?t" unfolding running_at_def sess by simp
    also have "\<dots> \<le> running_at s sid" unfolding live run by simp
    finally show ?thesis .
  qed
  then have "\<forall>sid. running_at ?t sid \<le> maxPerSession s" using acc unfolding accounted_def by (meson order_trans)
  then show ?thesis using acc sess unfolding accounted_def fields live by auto
qed

lemma accounted_reserve:
  assumes acc: "accounted s"
  shows "accounted (fst (reserveCapacityLocked sid build s))"
proof (cases "snd (reserveCapacityLocked sid build s)")
  case None
  then have "fst (reserveCapacityLocked sid build s) = s"
    by (simp add: reserveCapacityLocked_def split: if_splits)
  then show ?thesis using acc by simp
next
  case (Some r)
  let ?t = "fst (reserveCapacityLocked sid build s)"
  have room: "globalRunning s < maxGlobal s" "running_at s sid < maxPerSession s" "build \<Longrightarrow> globalBuildCount s < maxGlobalBuilds s"
    using Some by (auto simp: reserveCapacityLocked_def split: if_splits)
  have run: "running_at s x = live_count (\<lambda>l. l_session l = x) s" for x by (rule accounted_running [OF acc])
  have fields: "globalRunning ?t = globalRunning s + 1"
    "globalBuildCount ?t = globalBuildCount s + (if build then 1 else 0)"
    "sessionRunning ?t = (sessionRunning s)(sid \<mapsto> running_at s sid + 1)"
    "lease_mem ?t = lease_mem s @ [\<lparr>l_session = sid, l_build = build, l_released = False\<rparr>]"
    "maxPerSession ?t = maxPerSession s" "maxGlobal ?t = maxGlobal s" "maxGlobalBuilds ?t = maxGlobalBuilds s"
    using Some by (auto simp: reserveCapacityLocked_def split: if_splits)
  have live: "live_count P ?t = live_count P s + (if P \<lparr>l_session = sid, l_build = build, l_released = False\<rparr> then 1 else 0)" for P
    unfolding live_count_def fields(4) by simp
  have sess: "sessionRunning ?t x = (if live_count (\<lambda>l. l_session l = x) ?t = 0 then None
      else Some (live_count (\<lambda>l. l_session l = x) ?t))" for x
  proof (cases "x = sid")
    case True
    have "live_count (\<lambda>l. l_session l = sid) ?t = running_at s sid + 1" unfolding live run by simp
    moreover have "0 \<le> running_at s sid" unfolding run by simp
    ultimately show ?thesis unfolding True fields(3) by simp
  next
    case False
    then have "live_count (\<lambda>l. l_session l = x) ?t = live_count (\<lambda>l. l_session l = x) s" unfolding live by simp
    moreover have "sessionRunning ?t x = sessionRunning s x" unfolding fields(3) using False by simp
    ultimately show ?thesis using acc by (simp add: accounted_def)
  qed
  have "running_at ?t x \<le> maxPerSession s" for x
  proof -
    have "running_at ?t x = live_count (\<lambda>l. l_session l = x) ?t" unfolding running_at_def sess by simp
    also have "\<dots> \<le> maxPerSession s" unfolding live run [symmetric] using room(2) acc by (auto simp: accounted_def)
    finally show ?thesis .
  qed
  then show ?thesis using acc sess room unfolding accounted_def fields live by auto
qed

section \<open>Lease ownership\<close>

text \<open>
  A holder of a lease is a reservation (\<^const>\<open>Inl\<close>) or an Operation (\<^const>\<open>Inr\<close>).
\<close>

definition hold :: "sup_world \<Rightarrow> nat + nat \<Rightarrow> nat option" where
  "hold s h = (case h of
     Inl r \<Rightarrow> if r < length (reservation_mem s) then reservation_mem s ! r else None
   | Inr p \<Rightarrow> if p < length (op_mem s) then capacityRelease (op_mem s ! p) else None)"

text \<open>Exactly the unreleased leases are held, each by one holder.\<close>

definition owned :: "(nat + nat \<Rightarrow> nat option) \<Rightarrow> lease list \<Rightarrow> bool" where
  "owned f ls \<longleftrightarrow>
     (\<forall>h h' l. f h = Some l \<longrightarrow> f h' = Some l \<longrightarrow> h = h') \<and>
     (\<forall>l. (\<exists>h. f h = Some l) \<longleftrightarrow> l < length ls \<and> \<not> l_released (ls ! l))"

lemma ownedD:
  assumes "owned f ls" and "f h = Some l"
  shows "l < length ls" and "\<not> l_released (ls ! l)" and "f h' = Some l \<Longrightarrow> h' = h"
  using assms unfolding owned_def by blast+

lemma owned_release:
  assumes "owned f ls" and "f h = Some l"
  shows "owned (f(h := None)) (ls[l := (ls ! l)\<lparr>l_released := True\<rparr>])"
proof -
  note d = ownedD [OF assms]
  have "(\<exists>h'. (f(h := None)) h' = Some k) \<longleftrightarrow>
      k < length (ls[l := (ls ! l)\<lparr>l_released := True\<rparr>]) \<and> \<not> l_released (ls[l := (ls ! l)\<lparr>l_released := True\<rparr>] ! k)" for k
  proof (cases "k = l")
    case True
    have "\<not> (\<exists>h'. (f(h := None)) h' = Some l)" using d(3) by (auto split: if_splits)
    then show ?thesis using True d(1) by simp
  next
    case False
    have "(\<exists>h'. (f(h := None)) h' = Some k) \<longleftrightarrow> (\<exists>h'. f h' = Some k)"
      using assms(2) False by (metis fun_upd_apply option.inject option.distinct(1))
    then show ?thesis using assms(1) False unfolding owned_def by simp
  qed
  then show ?thesis using assms(1) unfolding owned_def by (auto split: if_splits)
qed

lemma owned_transfer:
  assumes "owned f ls" and "f h = Some l" and "f h' = None"
  shows "owned (f(h := None, h' := Some l)) ls"
proof -
  have "(\<exists>x. (f(h := None, h' := Some l)) x = Some k) \<longleftrightarrow> (\<exists>x. f x = Some k)" for k
    using assms(2,3) by (metis fun_upd_apply option.inject option.distinct(1))
  then show ?thesis using assms(1) ownedD(3) [OF assms(1,2)] unfolding owned_def by (auto split: if_splits)
qed

lemma owned_acquire:
  assumes "owned f ls" and "f h = None" and "\<not> l_released c"
  shows "owned (f(h := Some (length ls))) (ls @ [c])"
proof -
  have no: "f x \<noteq> Some (length ls)" for x using ownedD(1) [OF assms(1), of x] by auto
  have "(\<exists>x. (f(h := Some (length ls))) x = Some k) \<longleftrightarrow> (\<exists>x. f x = Some k) \<or> k = length ls" for k
    using assms(2) by (metis fun_upd_apply option.inject option.distinct(1))
  then have "(\<exists>x. (f(h := Some (length ls))) x = Some k) \<longleftrightarrow> k < length (ls @ [c]) \<and> \<not> l_released ((ls @ [c]) ! k)" for k
    using assms(1,3) unfolding owned_def by (auto simp: nth_append less_Suc_eq)
  then show ?thesis using assms(1) no unfolding owned_def by (auto split: if_splits)
qed

abbreviation holding :: "sup_world \<Rightarrow> bool" where
  "holding s \<equiv> owned (hold s) (lease_mem s)"

lemma release_lease_fields [sup_simps]:
  "op_mem (release_lease l s) = op_mem s" "reservation_mem (release_lease l s) = reservation_mem s"
  "ops (release_lease l s) = ops s" "finish_audit (release_lease l s) = finish_audit s"
  "effects (release_lease l s) = effects s" "shutting (release_lease l s) = shutting s"
  "quiesced (release_lease l s) = quiesced s" "length (lease_mem (release_lease l s)) = length (lease_mem s)"
  by (simp_all add: release_lease_def Let_def)

lemma release_lease_mem:
  "\<not> l_released (lease_mem s ! l) \<Longrightarrow>
   lease_mem (release_lease l s) = (lease_mem s)[l := (lease_mem s ! l)\<lparr>l_released := True\<rparr>]"
  by (simp add: release_lease_def Let_def)

lemma release_reservation_ok:
  assumes "accounted s" and "holding s" and "r < length (reservation_mem s)"
  shows "accounted (reservation_Release (Some r) s)" and "holding (reservation_Release (Some r) s)"
proof -
  have "accounted (reservation_Release (Some r) s) \<and> holding (reservation_Release (Some r) s)"
  proof (cases "reservation_mem s ! r")
    case None
    then show ?thesis using assms by (simp add: reservation_Release_def)
  next
    case (Some l)
    let ?t = "reservation_Release (Some r) s"
    have h: "hold s (Inl r) = Some l" using Some assms(3) by (simp add: hold_def)
    note d = ownedD [OF assms(2) h]
    have t: "?t = (release_lease l s)\<lparr>reservation_mem := (reservation_mem s)[r := None]\<rparr>"
      using Some by (simp add: reservation_Release_def)
    have "accounted ?t" unfolding t by (rule accounted_cong [OF accounted_release [OF assms(1) d(1)]]) simp_all
    moreover have "hold ?t = (hold s)(Inl r := None)"
      unfolding t hold_def using assms(3) by (auto simp: sup_simps fun_eq_iff nth_list_update split: sum.splits)
    moreover have "lease_mem ?t = (lease_mem s)[l := (lease_mem s ! l)\<lparr>l_released := True\<rparr>]"
      unfolding t using release_lease_mem [OF d(2)] by simp
    ultimately show ?thesis using owned_release [OF assms(2) h] by simp
  qed
  then show "accounted (reservation_Release (Some r) s)" "holding (reservation_Release (Some r) s)" by blast+
qed

lemma reserve_locked_ok:
  assumes "accounted s" and "holding s"
  shows "holding (fst (reserveCapacityLocked sid build s))"
proof (cases "snd (reserveCapacityLocked sid build s)")
  case None
  then have "fst (reserveCapacityLocked sid build s) = s"
    by (simp add: reserveCapacityLocked_def split: if_splits)
  then show ?thesis using assms(2) by simp
next
  case (Some r)
  let ?t = "fst (reserveCapacityLocked sid build s)"
  have f: "lease_mem ?t = lease_mem s @ [\<lparr>l_session = sid, l_build = build, l_released = False\<rparr>]"
    "reservation_mem ?t = reservation_mem s @ [Some (length (lease_mem s))]" "op_mem ?t = op_mem s"
    using Some by (auto simp: reserveCapacityLocked_def split: if_splits)
  have "hold ?t = (hold s)(Inl (length (reservation_mem s)) := Some (length (lease_mem s)))"
    unfolding hold_def f by (auto simp: fun_eq_iff nth_append split: sum.splits)
  then show ?thesis
    unfolding f using owned_acquire [OF assms(2), of "Inl (length (reservation_mem s))"] by (simp add: hold_def)
qed

lemma release_capacity_ok:
  assumes "accounted s" and "holding s" and "p < length (op_mem s)"
  shows "accounted (releaseCapacity p s)" and "holding (releaseCapacity p s)"
proof -
  have "accounted (releaseCapacity p s) \<and> holding (releaseCapacity p s)"
  proof (cases "capacityRelease (op_mem s ! p)")
    case None
    then show ?thesis using assms by (simp add: releaseCapacity_def)
  next
    case (Some l)
    let ?t = "releaseCapacity p s"
    have h: "hold s (Inr p) = Some l" using Some assms(3) by (simp add: hold_def)
    note d = ownedD [OF assms(2) h]
    have t: "?t = (release_lease l s)\<lparr>op_mem := (op_mem s)[p := (op_mem s ! p)\<lparr>capacityRelease := None\<rparr>]\<rparr>"
      using Some by (simp add: releaseCapacity_def sup_simps)
    have "accounted ?t" unfolding t by (rule accounted_cong [OF accounted_release [OF assms(1) d(1)]]) simp_all
    moreover have "hold ?t = (hold s)(Inr p := None)"
      unfolding t hold_def using assms(3) by (auto simp: sup_simps fun_eq_iff nth_list_update split: sum.splits)
    moreover have "lease_mem ?t = (lease_mem s)[l := (lease_mem s ! l)\<lparr>l_released := True\<rparr>]"
      unfolding t using release_lease_mem [OF d(2)] by simp
    ultimately show ?thesis using owned_release [OF assms(2) h] by simp
  qed
  then show "accounted (releaseCapacity p s)" "holding (releaseCapacity p s)" by blast+
qed

text \<open>Updates of an Operation that leave its lease alone keep both.\<close>

lemma hold_upd_op:
  assumes "capacityRelease (g (op_mem s ! p)) = capacityRelease (op_mem s ! p)"
    and "op_mem t = (op_mem s)[p := g (op_mem s ! p)]" and "reservation_mem t = reservation_mem s"
  shows "hold t = hold s"
  unfolding hold_def assms(2,3) using assms(1)
  by (auto simp: fun_eq_iff split: sum.splits) (metis nth_list_update_eq nth_list_update_neq)

lemma take_ok:
  assumes "accounted s" and "holding s" and "p < length (op_mem s)" and "capacityRelease (op_mem s ! p) = None"
    and "r < length (reservation_mem s)"
  shows "accounted (takeReservation p (Some r) s)" and "holding (takeReservation p (Some r) s)"
proof -
  let ?t = "takeReservation p (Some r) s"
  show "accounted ?t" by (rule accounted_cong [OF assms(1)]) (simp_all add: takeReservation_def)
  have mem: "op_mem ?t = (op_mem s)[p := (op_mem s ! p)\<lparr>capacityRelease := reservation_mem s ! r\<rparr>]"
    "reservation_mem ?t = (reservation_mem s)[r := None]" "lease_mem ?t = lease_mem s"
    by (simp_all add: takeReservation_def)
  have hold: "hold ?t = (hold s)(Inl r := None, Inr p := reservation_mem s ! r)"
    unfolding hold_def mem using assms(3,5) by (auto simp: fun_eq_iff nth_list_update split: sum.splits)
  show "holding ?t"
  proof (cases "reservation_mem s ! r")
    case None
    then have "hold ?t = hold s" unfolding hold using assms(3-5) by (auto simp: hold_def fun_eq_iff split: sum.splits)
    then show ?thesis using assms(2) mem(3) by simp
  next
    case (Some l)
    then have "hold s (Inl r) = Some l" "hold s (Inr p) = None" using assms(3-5) by (simp_all add: hold_def)
    then show ?thesis unfolding hold mem(3) Some using owned_transfer [OF assms(2)] by simp
  qed
qed

lemma admit_ok:
  assumes "accounted s" and "holding s" and "p < length (op_mem s)"
    and "\<And>r. res = Some r \<Longrightarrow> r < length (reservation_mem s) \<and> (capacityRelease (op_mem s ! p) = None \<or> reservation_mem s ! r = None)"
  shows "accounted (fst (admitReserved p res s))" and "holding (fst (admitReserved p res s))"
proof -
  let ?t = "fst (admitReserved p res s)"
  show "accounted ?t"
    by (rule accounted_cong [OF assms(1)]) (auto simp: admitReserved_def Let_def split: option.splits)
  show "holding ?t"
  proof (cases "\<exists>r l. res = Some r \<and> reservation_mem s ! r = Some l \<and> \<not> shutting s \<and> \<not> quiesced s (op_LauncherID (op_mem s ! p))")
    case False
    then have "hold ?t = hold s" "lease_mem ?t = lease_mem s"
      by (auto simp: admitReserved_def Let_def hold_def fun_eq_iff split: option.splits sum.splits)
    then show ?thesis using assms(2) by simp
  next
    case True
    then obtain r l where r: "res = Some r" "reservation_mem s ! r = Some l" and
      open_: "\<not> shutting s" "\<not> quiesced s (op_LauncherID (op_mem s ! p))" by blast
    have rl: "r < length (reservation_mem s)" "capacityRelease (op_mem s ! p) = None" using assms(4) [OF r(1)] r(2) by simp_all
    have h: "hold s (Inl r) = Some l" "hold s (Inr p) = None" using r rl assms(3) by (simp_all add: hold_def)
    have mem: "op_mem ?t = (op_mem s)[p := (op_mem s ! p)\<lparr>capacityRelease := Some l\<rparr>]"
      "reservation_mem ?t = (reservation_mem s)[r := None]" "lease_mem ?t = lease_mem s"
      using r open_ by (simp_all add: admitReserved_def Let_def)
    have "hold ?t = (hold s)(Inl r := None, Inr p := Some l)"
      unfolding hold_def mem using rl assms(3) by (auto simp: fun_eq_iff nth_list_update split: sum.splits)
    then show ?thesis unfolding mem using owned_transfer [OF assms(2) h] by simp
  qed
qed

section \<open>Operations\<close>

definition op_ok :: "sup_world \<Rightarrow> nat \<Rightarrow> bool" where
  "op_ok s p \<longleftrightarrow> (let x = op_mem s ! p in
     (CompletedAt x = None \<longleftrightarrow> State x = operationRunning) \<and>
     (CompletedAt x \<noteq> None \<longrightarrow> capacityRelease x = None \<and> done_closed x \<and> ResultCode x \<noteq> None) \<and>
     \<not> (terminated x \<and> started x) \<and>
     count_if (\<lambda>a. au_op a = p) (finish_audit s) = (if CompletedAt x = None then 0 else 1) \<and>
     (forceDone_closed x \<longrightarrow> forceOwned x) \<and>
     count_if (\<lambda>e. e = KillProcess p) (effects s) \<le> (if forceDone_closed x then 1 else 0))"

definition ops_ok :: "sup_world \<Rightarrow> bool" where
  "ops_ok s \<longleftrightarrow> (\<forall>p<length (op_mem s). op_ok s p) \<and>
     (\<forall>i p. ops s i = Some p \<longrightarrow> p < length (op_mem s) \<and> op_ID (op_mem s ! p) = i) \<and>
     (\<forall>a\<in>set (finish_audit s). au_op a < length (op_mem s)) \<and>
     (\<forall>p. KillProcess p \<in> set (effects s) \<longrightarrow> p < length (op_mem s))"

definition sup_inv :: "sup_world \<Rightarrow> bool" where
  "sup_inv s \<longleftrightarrow> accounted s \<and> holding s \<and> ops_ok s"

text \<open>Both completions are the same transition with another record update.\<close>

definition complete_op :: "nat \<Rightarrow> (operation \<Rightarrow> operation) \<Rightarrow> int option \<Rightarrow> string option \<Rightarrow> sup_world \<Rightarrow> sup_world" where
  "complete_op p g ec dur s = close_done p (writeFinishAudit p ec dur (releaseCapacity p (upd_op p g s)))"

lemma releaseCapacity_fields [sup_simps]:
  "ops (releaseCapacity p s) = ops s" "finish_audit (releaseCapacity p s) = finish_audit s"
  "effects (releaseCapacity p s) = effects s" "reservation_mem (releaseCapacity p s) = reservation_mem s"
  "op_mem (releaseCapacity p s) = (op_mem s)[p := (op_mem s ! p)\<lparr>capacityRelease := None\<rparr>]"
proof -
  have same: "(op_mem s)[p := (op_mem s ! p)\<lparr>capacityRelease := None\<rparr>] = op_mem s" if "capacityRelease (op_mem s ! p) = None"
  proof -
    have "(op_mem s ! p)\<lparr>capacityRelease := None\<rparr> = op_mem s ! p" using that by (cases "op_mem s ! p") simp
    then show ?thesis by (simp only: list_update_id)
  qed
  show "ops (releaseCapacity p s) = ops s" "finish_audit (releaseCapacity p s) = finish_audit s"
    "effects (releaseCapacity p s) = effects s" "reservation_mem (releaseCapacity p s) = reservation_mem s"
    "op_mem (releaseCapacity p s) = (op_mem s)[p := (op_mem s ! p)\<lparr>capacityRelease := None\<rparr>]"
    using same by (auto simp: releaseCapacity_def sup_simps split: option.splits)
qed

lemma complete_op_fields:
  assumes "p < length (op_mem s)" and "ResultCode (g (op_mem s ! p)) = Some rc"
  shows "op_mem (complete_op p g ec dur s) = (op_mem s)[p := (g (op_mem s ! p))\<lparr>capacityRelease := None, done_closed := True\<rparr>]"
    and "ops (complete_op p g ec dur s) = ops s" and "effects (complete_op p g ec dur s) = effects s"
    and "\<exists>a. au_op a = p \<and> finish_audit (complete_op p g ec dur s) = finish_audit s @ [a]"
  using assms by (simp_all add: complete_op_def close_done_def writeFinishAudit_def Let_def sup_simps)

lemma complete_accounting:
  assumes "accounted s" and "holding s" and p: "p < length (op_mem s)"
    and "capacityRelease (g (op_mem s ! p)) = capacityRelease (op_mem s ! p)"
  shows "accounted (complete_op p g ec dur s)" and "holding (complete_op p g ec dur s)"
proof -
  let ?s1 = "upd_op p g s"
  let ?s2 = "releaseCapacity p ?s1" and ?t = "complete_op p g ec dur s"
  have "accounted ?s1" by (rule accounted_cong [OF assms(1)]) simp_all
  moreover have h1: "hold ?s1 = hold s" by (rule hold_upd_op [of g s p]) (use assms(4) in simp_all)
  ultimately have s2: "accounted ?s2" "holding ?s2"
    using release_capacity_ok [of ?s1 p] assms(2) p by simp_all
  have t: "?t = close_done p (writeFinishAudit p ec dur ?s2)" by (simp add: complete_op_def)
  show "accounted ?t" unfolding t
    by (rule accounted_cong [OF s2(1)]) (auto simp: close_done_def writeFinishAudit_def Let_def split: option.splits)
  have "hold ?t = hold ?s2" unfolding t
    by (rule hold_upd_op [of "\<lambda>x. x\<lparr>done_closed := True\<rparr>" _ p])
      (auto simp: close_done_def writeFinishAudit_def Let_def split: option.splits)
  moreover have "lease_mem ?t = lease_mem ?s2" unfolding t
    by (auto simp: close_done_def writeFinishAudit_def Let_def split: option.splits)
  ultimately show "holding ?t" using s2(2) by simp
qed

lemma complete_ops_ok:
  assumes ok: "ops_ok s" and p: "p < length (op_mem s)" and run: "CompletedAt (op_mem s ! p) = None"
    and g: "ResultCode (g (op_mem s ! p)) = Some rc" "CompletedAt (g (op_mem s ! p)) \<noteq> None"
      "State (g (op_mem s ! p)) \<noteq> operationRunning" "terminated (g (op_mem s ! p)) = terminated (op_mem s ! p)"
      "started (g (op_mem s ! p)) = started (op_mem s ! p)" "op_ID (g (op_mem s ! p)) = op_ID (op_mem s ! p)"
      "forceOwned (g (op_mem s ! p)) = forceOwned (op_mem s ! p)"
      "forceDone_closed (g (op_mem s ! p)) = forceDone_closed (op_mem s ! p)"
  shows "ops_ok (complete_op p g ec dur s)"
proof -
  note f3 = complete_op_fields(1-3) [where g = g and ec = ec and dur = dur, OF p g(1)]
  obtain a where a: "au_op a = p" "finish_audit (complete_op p g ec dur s) = finish_audit s @ [a]"
    using complete_op_fields(4) [where g = g and ec = ec and dur = dur, OF p g(1)] by blast
  note f = f3 a
  have "op_ok (complete_op p g ec dur s) q" if q: "q < length (op_mem s)" for q
  proof -
    have "op_ok s q" using ok q by (simp add: ops_ok_def)
    then show ?thesis using g run p
      by (cases "q = p") (simp_all add: op_ok_def f nth_list_update Let_def)
  qed
  moreover have "op_ID (op_mem (complete_op p g ec dur s) ! q) = op_ID (op_mem s ! q)" for q
    unfolding f using p g(6) by (cases "q = p") simp_all
  ultimately show ?thesis using ok p unfolding ops_ok_def by (simp add: f)
qed

lemma succeed_eq:
  "fst (succeed p dur now s) = (if CompletedAt (op_mem s ! p) \<noteq> None then s
     else complete_op p (\<lambda>x. x\<lparr>State := operationSucceeded, CompletedAt := Some now, Duration := dur,
            ResultCode := (if ResultCode x = None then Some ''succeeded'' else ResultCode x)\<rparr>) None dur s)"
  by (simp add: succeed_def complete_op_def Let_def)

lemma fail_eq:
  "fst (fail p rc ec dur now s) = (if CompletedAt (op_mem s ! p) \<noteq> None then s
     else complete_op p (\<lambda>x. x\<lparr>State := operationFailed, CompletedAt := Some now, ExitCode := ec,
            ResultCode := (if ResultCode x = None then Some rc else ResultCode x),
            Duration := (if dur \<noteq> None then dur else Duration x)\<rparr>) ec dur s)"
  by (simp add: fail_def complete_op_def Let_def)

text \<open>Any other update of one Operation that keeps what the invariant reads of it.\<close>

lemma upd_op_inv:
  assumes inv: "sup_inv s" and p: "p < length (op_mem s)"
    and t: "op_mem t = (op_mem s)[p := x]" "reservation_mem t = reservation_mem s" "lease_mem t = lease_mem s"
      "ops t = ops s" "finish_audit t = finish_audit s" "sessionRunning t = sessionRunning s"
      "globalRunning t = globalRunning s" "globalBuildCount t = globalBuildCount s"
      "maxPerSession t = maxPerSession s" "maxGlobal t = maxGlobal s" "maxGlobalBuilds t = maxGlobalBuilds s"
    and e: "\<And>q. q \<noteq> p \<Longrightarrow> count_if (\<lambda>e. e = KillProcess q) (effects t) = count_if (\<lambda>e. e = KillProcess q) (effects s)"
      "\<And>q. KillProcess q \<in> set (effects t) \<Longrightarrow> q = p \<or> KillProcess q \<in> set (effects s)"
    and x: "capacityRelease x = capacityRelease (op_mem s ! p)" "op_ID x = op_ID (op_mem s ! p)" "op_ok t p"
  shows "sup_inv t"
proof -
  have "accounted t" using inv by (intro accounted_cong [of s t] t) (simp add: sup_inv_def)
  moreover have "hold t = hold s"
    by (rule hold_upd_op [of "\<lambda>_. x" s p]) (use x t in simp_all)
  moreover have "op_ok t q" if q: "q < length (op_mem s)" for q
  proof (cases "q = p")
    case True
    then show ?thesis using x(3) by simp
  next
    case False
    have "op_ok s q" using inv q by (simp add: sup_inv_def ops_ok_def)
    then show ?thesis using False e(1) [OF False] by (simp add: op_ok_def t)
  qed
  moreover have "op_ID (op_mem t ! q) = op_ID (op_mem s ! q)" for q
    unfolding t using p x(2) by (cases "q = p") simp_all
  moreover have "\<forall>q. KillProcess q \<in> set (effects t) \<longrightarrow> q < length (op_mem s)"
    using inv e(2) p unfolding sup_inv_def ops_ok_def by blast
  ultimately show ?thesis using inv unfolding sup_inv_def ops_ok_def by (simp add: t)
qed

section \<open>The invariant\<close>

lemma inv_start: "sup_inv newOperationSupervisor"
  by (auto simp: sup_inv_def accounted_def owned_def hold_def ops_ok_def newOperationSupervisor_def live_count_def
      running_at_def maxConcurrentOperationsPerSession_def maxConcurrentOperationsGlobal_def
      maxConcurrentBuildsGlobal_def split: sum.splits)

lemma inv_reserve_locked:
  assumes "sup_inv s"
  shows "sup_inv (fst (reserveCapacityLocked sid build s))"
proof -
  let ?t = "fst (reserveCapacityLocked sid build s)"
  have same: "op_mem ?t = op_mem s" "ops ?t = ops s" "finish_audit ?t = finish_audit s" "effects ?t = effects s"
    by (auto simp: reserveCapacityLocked_def)
  have "ops_ok ?t" using assms by (simp add: sup_inv_def ops_ok_def op_ok_def same)
  then show ?thesis using assms accounted_reserve reserve_locked_ok by (simp add: sup_inv_def)
qed

lemma reserve_fst:
  "fst (reserve sid lid kind s) = s \<or> fst (reserve sid lid kind s) = fst (reserveCapacityLocked sid (kind = operationKindBuild) s)"
  "fst (reserveCapacity sid build s) = fst (reserveCapacityLocked sid build s)"
  by (auto simp: reserve_def reserveCapacity_def split: prod.splits option.splits)

lemma inv_release:
  assumes "sup_inv s" and "r < length (reservation_mem s)"
  shows "sup_inv (reservation_Release (Some r) s)"
proof -
  let ?t = "reservation_Release (Some r) s"
  have "op_mem ?t = op_mem s" "ops ?t = ops s" "finish_audit ?t = finish_audit s" "effects ?t = effects s"
    by (auto simp: reservation_Release_def sup_simps split: option.splits)
  then have "ops_ok ?t" using assms by (simp add: sup_inv_def ops_ok_def op_ok_def)
  then show ?thesis using assms release_reservation_ok by (simp add: sup_inv_def)
qed

lemma inv_new:
  assumes "sup_inv s"
  shows "sup_inv (s\<lparr>op_mem := op_mem s @ [newOperation kind i sid img ctx df bs pn lid ln now]\<rparr>)" (is "sup_inv ?t")
proof -
  have acc: "accounted ?t" using assms by (intro accounted_cong [of s ?t]) (simp_all add: sup_inv_def)
  have "hold ?t = hold s" by (auto simp: hold_def fun_eq_iff nth_append newOperation_def split: sum.splits)
  then have hld: "holding ?t" using assms by (simp add: sup_inv_def)
  have ok: "ops_ok s" using assms by (simp add: sup_inv_def)
  have "count_if (\<lambda>a. au_op a = length (op_mem s)) (finish_audit s) = 0"
    "count_if (\<lambda>e. e = KillProcess (length (op_mem s))) (effects s) = 0"
    unfolding count_if_zero using ok unfolding ops_ok_def by auto
  then have fresh: "op_ok ?t (length (op_mem s))" by (simp add: op_ok_def newOperation_def)
  have old: "op_ok ?t q" if "q < length (op_mem s)" for q
    using ok that by (simp add: ops_ok_def op_ok_def nth_append)
  have all: "op_ok ?t q" if "q < length (op_mem ?t)" for q
    using that old [of q] fresh by (cases "q = length (op_mem s)") auto
  have "ops_ok ?t" unfolding ops_ok_def
  proof (intro conjI)
    show "\<forall>p<length (op_mem ?t). op_ok ?t p" using all by blast
    show "\<forall>j p. ops ?t j = Some p \<longrightarrow> p < length (op_mem ?t) \<and> op_ID (op_mem ?t ! p) = j"
      using ok unfolding ops_ok_def by (simp add: nth_append less_SucI)
    show "\<forall>a\<in>set (finish_audit ?t). au_op a < length (op_mem ?t)"
      using ok unfolding ops_ok_def by (simp add: less_SucI)
    show "\<forall>p. KillProcess p \<in> set (effects ?t) \<longrightarrow> p < length (op_mem ?t)"
      using ok unfolding ops_ok_def by (simp add: less_SucI)
  qed
  with acc hld show ?thesis by (simp add: sup_inv_def)
qed

lemma inv_lease_only:
  assumes "ops_ok s" and "accounted t" "holding t" and p: "p < length (op_mem s)" and run: "c = None \<or> CompletedAt (op_mem s ! p) = None"
    and t: "op_mem t = (op_mem s)[p := (op_mem s ! p)\<lparr>capacityRelease := c\<rparr>]" "ops t = ops s" "finish_audit t = finish_audit s"
      "effects t = effects s"
  shows "sup_inv t"
proof -
  have "op_ok t q" if "q < length (op_mem s)" for q
  proof -
    have "op_ok s q" using assms(1) that by (simp add: ops_ok_def)
    then show ?thesis using run p by (cases "q = p") (auto simp: op_ok_def t nth_list_update Let_def)
  qed
  moreover have "op_ID (op_mem t ! q) = op_ID (op_mem s ! q)" for q unfolding t using p by (cases "q = p") simp_all
  ultimately have "ops_ok t" using assms(1) unfolding ops_ok_def t(2-4) by (simp add: t(1))
  then show ?thesis using assms(2,3) by (simp add: sup_inv_def)
qed

lemma inv_take:
  assumes "sup_inv s" and "p < length (op_mem s)" and "CompletedAt (op_mem s ! p) = None" and "capacityRelease (op_mem s ! p) = None"
    and "r < length (reservation_mem s)"
  shows "sup_inv (takeReservation p (Some r) s)"
  by (rule inv_lease_only [of s _ p]) (use assms take_ok [of s p r] in \<open>simp_all add: sup_inv_def takeReservation_def\<close>)

lemma inv_release_op:
  assumes "sup_inv s" and "p < length (op_mem s)"
  shows "sup_inv (releaseCapacity p s)"
  by (rule inv_lease_only [of s _ p None]) (use assms release_capacity_ok [of s p] in \<open>simp_all add: sup_inv_def sup_simps\<close>)

lemma inv_cidfile:
  assumes inv: "sup_inv s" and p: "p < length (op_mem s)"
  shows "sup_inv (setCidfile p path s)"
proof -
  have "op_ok s p" using assms by (simp add: sup_inv_def ops_ok_def)
  then show ?thesis
    by (intro upd_op_inv [OF inv p, of _ "(op_mem s ! p)\<lparr>cidfile := path\<rparr>"]) (use p in \<open>simp_all add: setCidfile_def op_ok_def Let_def\<close>)
qed

lemma inv_admit:
  assumes inv: "sup_inv s" and p: "p < length (op_mem s)" and run: "CompletedAt (op_mem s ! p) = None"
    and res: "\<And>r. res = Some r \<Longrightarrow> r < length (reservation_mem s) \<and> (capacityRelease (op_mem s ! p) = None \<or> reservation_mem s ! r = None)"
  shows "sup_inv (fst (admitReserved p res s))" (is "sup_inv ?t")
proof -
  have acc: "accounted ?t" "holding ?t" using admit_ok [of s p res] inv p res by (simp_all add: sup_inv_def)
  have "op_mem ?t = op_mem s \<or> (\<exists>l. op_mem ?t = (op_mem s)[p := (op_mem s ! p)\<lparr>capacityRelease := Some l\<rparr>])"
    by (auto simp: admitReserved_def Let_def split: option.splits)
  then obtain x where mem: "op_mem ?t = (op_mem s)[p := x]"
    and x: "x = op_mem s ! p \<or> (\<exists>l. x = (op_mem s ! p)\<lparr>capacityRelease := Some l\<rparr>)"
    using list_update_id by metis
  have same: "finish_audit ?t = finish_audit s" "effects ?t = effects s"
    "ops ?t = ops s \<or> ops ?t = (ops s)(op_ID (op_mem s ! p) \<mapsto> p)"
    by (auto simp: admitReserved_def Let_def split: option.splits)
  have ok: "ops_ok s" using inv by (simp add: sup_inv_def)
  have each: "op_ok ?t q" if "q < length (op_mem s)" for q
  proof -
    have "op_ok s q" using ok that by (simp add: ops_ok_def)
    then show ?thesis using x run p by (cases "q = p") (auto simp: op_ok_def mem same nth_list_update Let_def)
  qed
  have "op_ID (op_mem ?t ! q) = op_ID (op_mem s ! q)" for q
    unfolding mem using p x by (cases "q = p") auto
  then have "\<forall>i q. ops ?t i = Some q \<longrightarrow> q < length (op_mem ?t) \<and> op_ID (op_mem ?t ! q) = i"
    using ok same(3) p unfolding ops_ok_def mem by (auto split: if_splits)
  then have "ops_ok ?t" using each ok unfolding ops_ok_def same(1,2) by (simp add: mem)
  with acc show ?thesis by (simp add: sup_inv_def)
qed


lemma inv_complete:
  assumes inv: "sup_inv s" and p: "p < length (op_mem s)"
  shows "sup_inv (fst (succeed p dur now s))" and "sup_inv (fst (fail p rc ec dur now s))"
proof -
  have parts: "accounted s" "holding s" "ops_ok s" using inv by (simp_all add: sup_inv_def)
  let ?x = "op_mem s ! p"
  have rc_some: "\<exists>c. (if ResultCode ?x = None then Some d else ResultCode ?x) = Some c" for d by auto
  show "sup_inv (fst (succeed p dur now s))"
  proof (cases "CompletedAt ?x = None")
    case True
    let ?g = "\<lambda>x. x\<lparr>State := operationSucceeded, CompletedAt := Some now, Duration := dur,
            ResultCode := (if ResultCode x = None then Some ''succeeded'' else ResultCode x)\<rparr>"
    obtain c where "ResultCode (?g ?x) = Some c" using rc_some [of "''succeeded''"] by auto
    then have "ops_ok (complete_op p ?g None dur s)" by (intro complete_ops_ok [OF parts(3) p True]) auto
    moreover have "accounted (complete_op p ?g None dur s)" "holding (complete_op p ?g None dur s)"
      by (rule complete_accounting [OF parts(1,2) p], simp)+
    ultimately show ?thesis unfolding succeed_eq using True by (simp add: sup_inv_def)
  next
    case False
    then show ?thesis unfolding succeed_eq using inv by simp
  qed
  show "sup_inv (fst (fail p rc ec dur now s))"
  proof (cases "CompletedAt ?x = None")
    case True
    let ?g = "\<lambda>x. x\<lparr>State := operationFailed, CompletedAt := Some now, ExitCode := ec,
            ResultCode := (if ResultCode x = None then Some rc else ResultCode x),
            Duration := (if dur \<noteq> None then dur else Duration x)\<rparr>"
    obtain c where "ResultCode (?g ?x) = Some c" using rc_some [of rc] by auto
    then have "ops_ok (complete_op p ?g ec dur s)" by (intro complete_ops_ok [OF parts(3) p True]) auto
    moreover have "accounted (complete_op p ?g ec dur s)" "holding (complete_op p ?g ec dur s)"
      by (rule complete_accounting [OF parts(1,2) p], simp)+
    ultimately show ?thesis unfolding fail_eq using True by (simp add: sup_inv_def)
  next
    case False
    then show ?thesis unfolding fail_eq using inv by simp
  qed
qed

lemma inv_gates:
  assumes "sup_inv s" and "op_mem t = op_mem s" "reservation_mem t = reservation_mem s" "lease_mem t = lease_mem s"
    "finish_audit t = finish_audit s" "effects t = effects s" "sessionRunning t = sessionRunning s"
    "globalRunning t = globalRunning s" "globalBuildCount t = globalBuildCount s" "maxPerSession t = maxPerSession s"
    "maxGlobal t = maxGlobal s" "maxGlobalBuilds t = maxGlobalBuilds s" "ops t \<subseteq>\<^sub>m ops s"
  shows "sup_inv t"
proof -
  have "accounted t" using assms by (intro accounted_cong [of s t]) (simp_all add: sup_inv_def)
  moreover have "hold t = hold s" by (simp add: hold_def fun_eq_iff assms split: sum.splits)
  moreover have "ops_ok t"
  proof -
    have ok: "op_ok t p = op_ok s p" for p by (simp add: op_ok_def assms)
    have sub: "ops s i = Some p" if "ops t i = Some p" for i p
      using assms(13) that unfolding map_le_def dom_def by fastforce
    have "ops_ok s" using assms(1) by (simp add: sup_inv_def)
    then show ?thesis unfolding ops_ok_def assms(2,5,6) ok using sub by blast
  qed
  ultimately show ?thesis using assms(1,4) by (simp add: sup_inv_def)
qed

lemma prune_remove_sub: "ops (prune_remove rm s) \<subseteq>\<^sub>m ops s"
proof -
  let ?f = "\<lambda>p m. if m (op_ID (op_mem s ! p)) = Some p then m(op_ID (op_mem s ! p) := None) else m"
  have "fold ?f rm m \<subseteq>\<^sub>m m" for m
  proof (induction rm arbitrary: m)
    case Nil
    then show ?case by simp
  next
    case (Cons p rm)
    have "?f p m \<subseteq>\<^sub>m m" by (auto simp: map_le_def)
    then show ?case unfolding fold_simps by (rule map_le_trans [OF Cons.IH])
  qed
  then show ?thesis by (simp add: prune_remove_def)
qed

lemma inv_start_process:
  assumes inv: "sup_inv s" and p: "p < length (op_mem s)"
  shows "sup_inv (fst (startOperationProcess p ok now s))" (is "sup_inv ?t")
proof (cases "terminated (op_mem s ! p)")
  case True
  then show ?thesis using inv by (simp add: startOperationProcess_def)
next
  case False
  then have t: "?t = upd_op p (\<lambda>x. x\<lparr>StartedAt := Some now, cmd := Some ok, started := ok\<rparr>) s"
    by (simp add: startOperationProcess_def)
  have "op_ok s p" using inv p by (simp add: sup_inv_def ops_ok_def)
  then have "op_ok ?t p" using False p by (simp add: t op_ok_def Let_def)
  then show ?thesis unfolding t
    by (intro upd_op_inv [OF inv p, where x = "(op_mem s ! p)\<lparr>StartedAt := Some now, cmd := Some ok, started := ok\<rparr>"])
      (simp_all add: t)
qed

lemma inv_claim:
  assumes inv: "sup_inv s" and p: "p < length (op_mem s)"
  shows "sup_inv (fst (force_claim p s))" (is "sup_inv ?t")
proof (cases "fst (force_claim p s) = s")
  case True
  then show ?thesis using inv by simp
next
  case False
  then have t: "?t = upd_op p (\<lambda>x. x\<lparr>forceOwned := True\<rparr>) s"
    by (auto simp: force_claim_def split: if_splits)
  have "op_ok s p" using inv p by (simp add: sup_inv_def ops_ok_def)
  then have "op_ok ?t p" using p by (simp add: t op_ok_def Let_def)
  then show ?thesis unfolding t
    by (intro upd_op_inv [OF inv p, where x = "(op_mem s ! p)\<lparr>forceOwned := True\<rparr>"]) (simp_all add: t)
qed

lemma terminate_mark_fields:
  assumes p: "p < length (op_mem s)"
  shows "\<exists>rs'. op_mem (terminate_mark rs p s) =
      (op_mem s)[p := (op_mem s ! p)\<lparr>reason := rs', terminated := terminated (op_mem s ! p) \<or> \<not> started (op_mem s ! p)\<rparr>]"
    and "effects (terminate_mark rs p s) = effects s \<or> effects (terminate_mark rs p s) = effects s @ [SigTerm p]"
proof -
  have id: "x\<lparr>reason := reason x, terminated := terminated x\<rparr> = x" for x :: operation by simp
  show "effects (terminate_mark rs p s) = effects s \<or> effects (terminate_mark rs p s) = effects s @ [SigTerm p]"
    by (auto simp: terminate_mark_def Let_def)
  show "\<exists>rs'. op_mem (terminate_mark rs p s) =
      (op_mem s)[p := (op_mem s ! p)\<lparr>reason := rs', terminated := terminated (op_mem s ! p) \<or> \<not> started (op_mem s ! p)\<rparr>]"
    using p
    by (intro exI [of _ "if reason (op_mem s ! p) = terminationNone then rs else reason (op_mem s ! p)"])
      (cases "op_mem s ! p"; auto simp: terminate_mark_def Let_def)
qed

lemma inv_mark:
  assumes inv: "sup_inv s" and p: "p < length (op_mem s)"
  shows "sup_inv (terminate_mark rs p s)" (is "sup_inv ?t")
proof -
  let ?x = "op_mem s ! p"
  obtain rs' where mem: "op_mem ?t = (op_mem s)[p := ?x\<lparr>reason := rs', terminated := terminated ?x \<or> \<not> started ?x\<rparr>]"
    using terminate_mark_fields(1) [OF p] by blast
  have eff: "effects ?t = effects s \<or> effects ?t = effects s @ [SigTerm p]" by (rule terminate_mark_fields(2) [OF p])
  then have kills: "count_if (\<lambda>e. e = KillProcess q) (effects ?t) = count_if (\<lambda>e. e = KillProcess q) (effects s)"
    "KillProcess q \<in> set (effects ?t) \<longleftrightarrow> KillProcess q \<in> set (effects s)" for q by auto
  have same: "reservation_mem ?t = reservation_mem s" "lease_mem ?t = lease_mem s" "ops ?t = ops s"
    "finish_audit ?t = finish_audit s" "sessionRunning ?t = sessionRunning s" "globalRunning ?t = globalRunning s"
    "globalBuildCount ?t = globalBuildCount s" "maxPerSession ?t = maxPerSession s" "maxGlobal ?t = maxGlobal s"
    "maxGlobalBuilds ?t = maxGlobalBuilds s"
    by (simp_all add: terminate_mark_def Let_def)
  have "op_ok s p" using inv p by (simp add: sup_inv_def ops_ok_def)
  then have "op_ok ?t p" using p by (simp add: op_ok_def Let_def mem same kills(1))
  then show ?thesis
    by (intro upd_op_inv [OF inv p mem same]) (simp_all add: kills)
qed

lemma inv_force:
  assumes inv: "sup_inv s" and p: "p < length (op_mem s)" and own: "forceOwned (op_mem s ! p)"
    and once: "\<not> forceDone_closed (op_mem s ! p)"
  shows "sup_inv (force_finish cid k p s)" (is "sup_inv ?t")
proof -
  let ?x = "op_mem s ! p"
  have mem: "op_mem ?t = (op_mem s)[p := ?x\<lparr>forceDone_closed := True\<rparr>]" by (simp add: force_finish_def Let_def)
  have same: "reservation_mem ?t = reservation_mem s" "lease_mem ?t = lease_mem s" "ops ?t = ops s"
    "finish_audit ?t = finish_audit s" "sessionRunning ?t = sessionRunning s" "globalRunning ?t = globalRunning s"
    "globalBuildCount ?t = globalBuildCount s" "maxPerSession ?t = maxPerSession s" "maxGlobal ?t = maxGlobal s"
    "maxGlobalBuilds ?t = maxGlobalBuilds s"
    by (simp_all add: force_finish_def Let_def)
  have others: "count_if (\<lambda>e. e = KillProcess q) (effects ?t) = count_if (\<lambda>e. e = KillProcess q) (effects s)"
    if "q \<noteq> p" for q using that by (simp add: force_finish_def Let_def)
  have mine: "count_if (\<lambda>e. e = KillProcess p) (effects ?t) \<le> count_if (\<lambda>e. e = KillProcess p) (effects s) + 1"
    by (simp add: force_finish_def Let_def)
  have sub: "KillProcess q \<in> set (effects ?t) \<Longrightarrow> q = p \<or> KillProcess q \<in> set (effects s)" for q
    by (auto simp: force_finish_def Let_def split: if_splits)
  have ok: "op_ok s p" using inv p by (simp add: sup_inv_def ops_ok_def)
  then have "op_ok ?t p" using p own once mine by (auto simp: op_ok_def Let_def mem same)
  then show ?thesis
    by (intro upd_op_inv [OF inv p mem same others sub]) simp_all
qed

lemma inv_sup_step:
  assumes "sup_inv s" and "sup_step s t"
  shows "sup_inv t"
  using assms(2,1)
proof cases
  case (step_reserve sid lid kind)
  then show ?thesis using reserve_fst(1) [of sid lid kind s] inv_reserve_locked assms(1) by metis
next
  case (step_reserve_capacity sid build)
  then show ?thesis using reserve_fst(2) inv_reserve_locked assms(1) by metis
next
  case (step_prune rm)
  show ?thesis unfolding step_prune(1)
    by (rule inv_gates [OF assms(1)]) (auto simp: prune_remove_sub, simp_all add: prune_remove_def)
next
  case (step_quiesce lid)
  show ?thesis unfolding step_quiesce by (rule inv_gates [OF assms(1)]) (simp_all add: quiesceLauncher_def)
next
  case (step_set_quiesced lid closed)
  show ?thesis unfolding step_set_quiesced by (rule inv_gates [OF assms(1)]) (simp_all add: setQuiesced_def)
next
  case step_shutdown
  show ?thesis unfolding step_shutdown by (rule inv_gates [OF assms(1)]) (simp_all add: beginShutdown_def)
qed (use assms(1) in \<open>simp_all add: inv_release inv_new inv_take inv_cidfile inv_release_op inv_admit inv_complete inv_start_process inv_mark inv_claim inv_force\<close>)

interpretation sup: inductive_invariant newOperationSupervisor sup_step sup_inv
  by unfold_locales (simp_all add: inv_start inv_sup_step)

section \<open>What later states keep of an Operation\<close>

definition op_ext :: "operation \<Rightarrow> operation \<Rightarrow> bool" where
  "op_ext x y \<longleftrightarrow> op_ID y = op_ID x \<and> op_SessionID y = op_SessionID x \<and> op_LauncherID y = op_LauncherID x \<and> Kind y = Kind x \<and>
     (CompletedAt x \<noteq> None \<longrightarrow> CompletedAt y = CompletedAt x \<and> State y = State x \<and> ResultCode y = ResultCode x \<and>
        ExitCode y = ExitCode x) \<and>
     (State y = operationRunning \<longrightarrow> State x = operationRunning) \<and>
     (terminated x \<longrightarrow> terminated y \<and> (started y \<longrightarrow> started x))"

lemma op_ext_refl [simp]: "op_ext x x"
  by (simp add: op_ext_def)

lemma op_ext_trans: "op_ext x y \<Longrightarrow> op_ext y z \<Longrightarrow> op_ext x z"
  unfolding op_ext_def by metis

definition mem_ext :: "operation list \<Rightarrow> operation list \<Rightarrow> bool" where
  "mem_ext xs ys \<longleftrightarrow> length xs \<le> length ys \<and> (\<forall>p<length xs. op_ext (xs ! p) (ys ! p))"

lemma mem_ext_intros:
  "mem_ext xs xs" "mem_ext xs (xs @ ys)" "op_ext (xs ! p) y \<Longrightarrow> mem_ext xs (xs[p := y])"
  by (auto simp: mem_ext_def nth_append) (metis nth_list_update_eq nth_list_update_neq op_ext_refl)

lemma mem_ext_trans: "mem_ext xs ys \<Longrightarrow> mem_ext ys zs \<Longrightarrow> mem_ext xs zs"
  unfolding mem_ext_def by (meson op_ext_trans order_trans less_le_trans)

lemma complete_mem_ext:
  assumes "p < length (op_mem s)" and "CompletedAt (op_mem s ! p) = None"
  shows "mem_ext (op_mem s) (op_mem (fst (succeed p dur now s)))"
    and "mem_ext (op_mem s) (op_mem (fst (fail p rc ec dur now s)))"
  using assms unfolding succeed_eq fail_eq complete_op_def close_done_def writeFinishAudit_def Let_def
  by (auto simp: sup_simps op_ext_def split: option.splits intro!: mem_ext_intros)

lemma step_mem_ext:
  assumes "sup_step s t"
  shows "mem_ext (op_mem s) (op_mem t)"
  using assms
proof cases
  case (step_reserve sid lid kind)
  have "op_mem (fst (reserveCapacityLocked a b s)) = op_mem s" for a b by (simp add: reserveCapacityLocked_def)
  then show ?thesis using step_reserve reserve_fst(1) [of sid lid kind s] by (metis mem_ext_intros(1))
next
  case (step_admit p res)
  then show ?thesis
    by (auto simp: admitReserved_def Let_def op_ext_def split: option.splits intro!: mem_ext_intros)
next
  case (step_succeed p dur now)
  then show ?thesis using complete_mem_ext(1) [of p s]
    by (cases "CompletedAt (op_mem s ! p)") (auto simp: succeed_eq mem_ext_intros)
next
  case (step_fail p rc ec dur now)
  then show ?thesis using complete_mem_ext(2) [of p s]
    by (cases "CompletedAt (op_mem s ! p)") (auto simp: fail_eq mem_ext_intros)
next
  case (step_mark p rs)
  obtain rs' where "op_mem (terminate_mark rs p s) = (op_mem s)[p := (op_mem s ! p)\<lparr>reason := rs',
      terminated := terminated (op_mem s ! p) \<or> \<not> started (op_mem s ! p)\<rparr>]"
    using terminate_mark_fields(1) [OF step_mark(2)] by blast
  then show ?thesis unfolding step_mark(1) by (auto simp: op_ext_def intro!: mem_ext_intros)
qed (auto simp: reserveCapacity_def reserveCapacityLocked_def reservation_Release_def sup_simps prune_remove_def
    takeReservation_def setCidfile_def
    startOperationProcess_def force_claim_def force_finish_def quiesceLauncher_def setQuiesced_def beginShutdown_def
    Let_def op_ext_def split: option.splits intro!: mem_ext_intros)

lemma steps_mem_ext: "sup_step\<^sup>*\<^sup>* s t \<Longrightarrow> mem_ext (op_mem s) (op_mem t)"
  by (induction rule: rtranclp_induct) (auto intro: mem_ext_intros mem_ext_trans step_mem_ext)

text \<open>The registry gains an entry only by an accepted admission.\<close>

lemma step_registry:
  assumes "sup_step s t" and "ops t i = Some p"
  shows "ops s i = Some p \<or> \<not> quiesced s (op_LauncherID (op_mem s ! p)) \<and> \<not> shutting s \<and> p < length (op_mem s)"
  using assms
proof cases
  case (step_reserve sid lid kind)
  have "ops (fst (reserveCapacityLocked a b s)) = ops s" for a b by (simp add: reserveCapacityLocked_def)
  then show ?thesis using step_reserve(1) reserve_fst(1) [of sid lid kind s] assms(2) by metis
next
  case (step_succeed q dur now)
  then show ?thesis using assms(2)
    by (auto simp: succeed_eq complete_op_def close_done_def writeFinishAudit_def Let_def sup_simps split: option.splits if_splits)
next
  case (step_fail q rc ec dur now)
  then show ?thesis using assms(2)
    by (auto simp: fail_eq complete_op_def close_done_def writeFinishAudit_def Let_def sup_simps split: option.splits if_splits)
next
  case (step_prune rm)
  then show ?thesis using assms(2) prune_remove_sub [of rm s] by (metis domI map_le_def)
qed (use assms(2) in \<open>auto simp: reserveCapacity_def reserveCapacityLocked_def reservation_Release_def sup_simps takeReservation_def setCidfile_def
    admitReserved_def startOperationProcess_def force_claim_def force_finish_def terminate_mark_def quiesceLauncher_def
    setQuiesced_def beginShutdown_def Let_def split: option.splits if_splits\<close>)

lemma running_iff:
  assumes "ops_ok s"
  shows "hasRunningForLauncher lid s \<longleftrightarrow>
     (\<exists>i p. ops s i = Some p \<and> op_LauncherID (op_mem s ! p) = lid \<and> State (op_mem s ! p) = operationRunning)"
proof -
  have reg: "p < length (op_mem s) \<and> op_ID (op_mem s ! p) = i" if "ops s i = Some p" for i p
    using assms that unfolding ops_ok_def by blast
  show ?thesis unfolding hasRunningForLauncher_def list_ex_iff
    using reg by (auto simp: atLeast0LessThan)
qed

section \<open>Pruning facts\<close>

lemma prune_completed_iff:
  "(p, t) \<in> set (prune_completed_of s order) \<longleftrightarrow>
     p \<in> set order \<and> State (op_mem s ! p) \<noteq> operationRunning \<and> CompletedAt (op_mem s ! p) = Some t"
  by (auto simp: prune_completed_of_def split: option.splits)

lemma prune_completed_distinct: "distinct order \<Longrightarrow> distinct (map fst (prune_completed_of s order))"
proof (induction order)
  case (Cons p ps)
  have out: "p \<notin> fst ` set (prune_completed_of s ps)" using Cons.prems by (auto simp: prune_completed_iff)
  have IH: "distinct (map fst (prune_completed_of s ps))" using Cons by simp
  have "prune_completed_of s (p # ps) = prune_completed_of s ps \<or>
      (\<exists>t. prune_completed_of s (p # ps) = (p, t) # prune_completed_of s ps)"
    unfolding prune_completed_of_def by (cases "CompletedAt (op_mem s ! p)") simp_all
  then show ?case using out IH by auto
next
  case Nil
  show ?case by (simp add: prune_completed_of_def)
qed

lemma prune_remove_ops:
  assumes "\<forall>i p. ops s i = Some p \<longrightarrow> op_ID (op_mem s ! p) = i"
  shows "ops (prune_remove rm s) i = Some p \<longleftrightarrow> ops s i = Some p \<and> p \<notin> set rm"
proof -
  let ?f = "\<lambda>p m. if m (op_ID (op_mem s ! p)) = Some p then m(op_ID (op_mem s ! p) := None) else m"
  have gen: "\<forall>i p. m i = Some p \<longrightarrow> op_ID (op_mem s ! p) = i \<Longrightarrow> fold ?f rm m i = Some p \<longleftrightarrow> m i = Some p \<and> p \<notin> set rm" for m
  proof (induction rm arbitrary: m)
    case Nil
    then show ?case by simp
  next
    case (Cons q rm)
    have one: "?f q m i = Some p \<longleftrightarrow> m i = Some p \<and> p \<noteq> q" for i p
    proof (cases "m (op_ID (op_mem s ! q)) = Some q \<and> op_ID (op_mem s ! q) = i")
      case True
      then show ?thesis by auto
    next
      case False
      have "\<not> (m i = Some q)" using False Cons.prems by blast
      then show ?thesis using False by (cases "m i = Some p") auto
    qed
    have "\<forall>i p. ?f q m i = Some p \<longrightarrow> op_ID (op_mem s ! p) = i" unfolding one using Cons.prems by blast
    from Cons.IH [OF this] show ?case unfolding fold_simps one by auto
  qed
  have "ops (prune_remove rm s) = fold ?f rm (ops s)" by (simp add: prune_remove_def)
  then show ?thesis using gen [OF assms] by simp
qed

text \<open>What a selection removes and keeps, as a split of the completed Operations by completion time.\<close>

lemma prune_select_split:
  assumes "distinct order" and "0 \<le> maxCompleted"
  shows "\<exists>rm K. prune_select s order now ttl maxCompleted = Some rm \<and>
     set rm \<union> set K = {p \<in> set order. State (op_mem s ! p) \<noteq> operationRunning \<and> CompletedAt (op_mem s ! p) \<noteq> None} \<and>
     set rm \<inter> set K = {} \<and> int (length K) \<le> maxCompleted \<and>
     (\<forall>p\<in>set K. \<forall>c. CompletedAt (op_mem s ! p) = Some c \<longrightarrow> now - c \<le> ttl \<and>
        (\<forall>q\<in>set rm. \<forall>d. CompletedAt (op_mem s ! q) = Some d \<longrightarrow> d \<le> c))"
proof -
  define C where "C = prune_completed_of s order"
  define E where "E = filter (\<lambda>c. now - snd c > ttl) C"
  define N where "N = sort_key snd (filter (\<lambda>c. \<not> now - snd c > ttl) C)"
  define k where "k = (if int (length N) > maxCompleted then length N - nat maxCompleted else 0)"
  define rm where "rm = map fst E @ map fst (take k N)"
  define K where "K = map fst (drop k N)"
  have sel: "prune_select s order now ttl maxCompleted = Some rm"
    using assms(2) by (simp add: prune_select_def Let_def rm_def k_def N_def E_def C_def)
  have time: "CompletedAt (op_mem s ! fst x) = Some (snd x)" if "x \<in> set C" for x
    using that prune_completed_iff [of "fst x" "snd x" s order] by (simp add: C_def)
  have NE: "set E \<union> set N = set C" "set E \<inter> set N = {}" by (auto simp: E_def N_def)
  have all: "set (take k N) \<union> set (drop k N) = set N" by (metis append_take_drop_id set_append)
  have img: "fst ` set C = {p \<in> set order. State (op_mem s ! p) \<noteq> operationRunning \<and> CompletedAt (op_mem s ! p) \<noteq> None}"
    unfolding C_def using prune_completed_iff [of _ _ s order] by force
  have dist: "distinct (map fst C)" unfolding C_def by (rule prune_completed_distinct [OF assms(1)])
  then have inj: "inj_on fst (set C)" by (simp add: distinct_map)
  have "distinct N" using dist by (simp add: N_def distinct_map)
  then have disj: "set (take k N) \<inter> set (drop k N) = {}" by (rule set_take_disj_set_drop_if_distinct) simp
  have "set rm \<inter> set K = {}"
  proof -
    have "(set E \<union> set (take k N)) \<inter> set (drop k N) = {}" using disj NE all by blast
    moreover have "set E \<union> set (take k N) \<subseteq> set C" "set (drop k N) \<subseteq> set C" using NE all by blast+
    ultimately have "fst ` (set E \<union> set (take k N)) \<inter> fst ` set (drop k N) = {}"
      using inj_on_image_Int [OF inj] by (metis image_empty)
    then show ?thesis by (simp add: rm_def K_def image_Un)
  qed
  moreover have "set rm \<union> set K = fst ` set C"
    unfolding rm_def K_def set_append set_map image_Un [symmetric] using NE(1) all by (metis sup_assoc)
  moreover have "int (length K) \<le> maxCompleted" using assms(2) by (simp add: K_def k_def)
  moreover have "now - c \<le> ttl \<and> (\<forall>q\<in>set rm. \<forall>d. CompletedAt (op_mem s ! q) = Some d \<longrightarrow> d \<le> c)"
    if p: "p \<in> set K" and c: "CompletedAt (op_mem s ! p) = Some c" for p c
  proof -
    obtain x where x: "x \<in> set (drop k N)" "p = fst x" using p by (auto simp: K_def)
    then have xN: "x \<in> set N" using all by blast
    then have "snd x = c" using time [of x] NE(1) c x(2) by auto
    moreover have "now - snd x \<le> ttl" using xN by (simp add: N_def)
    moreover have "d \<le> snd x" if q: "q \<in> set rm" and d: "CompletedAt (op_mem s ! q) = Some d" for q d
    proof -
      obtain y where y: "y \<in> set E \<union> set (take k N)" "q = fst y" using q by (auto simp: rm_def)
      then have yd: "snd y = d" using time [of y] NE(1) all d by auto
      show ?thesis
      proof (cases "y \<in> set E")
        case True
        then show ?thesis using yd \<open>now - snd x \<le> ttl\<close> by (simp add: E_def)
      next
        case False
        have "sorted (map snd (take k N @ drop k N))" by (simp add: N_def)
        then show ?thesis using False y(1) x(1) yd unfolding map_append sorted_append by auto
      qed
    qed
    ultimately show ?thesis by simp
  qed
  ultimately show ?thesis using sel img by (intro exI [of _ rm] exI [of _ K]) auto
qed

lemma prune_bounds_aux:
  assumes ok: "ops_ok s" and "distinct order" and "set order = ran (ops s)" and "0 \<le> maxCompleted"
  shows "\<exists>t. pruneCompleted order now ttl maxCompleted s = Some t \<and>
     (\<forall>i p. ops t i = Some p \<longrightarrow> ops s i = Some p) \<and>
     (\<forall>i p. ops s i = Some p \<and> State (op_mem s ! p) = operationRunning \<longrightarrow> ops t i = Some p) \<and>
     int (card {p. State (op_mem s ! p) \<noteq> operationRunning \<and> p \<in> ran (ops t)}) \<le> maxCompleted \<and>
     (\<forall>p\<in>ran (ops t). \<forall>c. CompletedAt (op_mem s ! p) = Some c \<longrightarrow> now - c \<le> ttl \<and>
        (\<forall>q\<in>ran (ops s) - ran (ops t). \<forall>d. CompletedAt (op_mem s ! q) = Some d \<longrightarrow> d \<le> c))"
proof -
  obtain rm K where sel: "prune_select s order now ttl maxCompleted = Some rm"
    and un: "set rm \<union> set K = {p \<in> set order. State (op_mem s ! p) \<noteq> operationRunning \<and> CompletedAt (op_mem s ! p) \<noteq> None}"
    and dj: "set rm \<inter> set K = {}" and len: "int (length K) \<le> maxCompleted"
    and ordk: "\<forall>p\<in>set K. \<forall>c. CompletedAt (op_mem s ! p) = Some c \<longrightarrow> now - c \<le> ttl \<and>
        (\<forall>q\<in>set rm. \<forall>d. CompletedAt (op_mem s ! q) = Some d \<longrightarrow> d \<le> c)"
    using prune_select_split [OF assms(2,4), of s now ttl] by blast
  let ?t = "prune_remove rm s"
  have reg: "p < length (op_mem s) \<and> op_ID (op_mem s ! p) = i" if "ops s i = Some p" for i p
    using ok that unfolding ops_ok_def by blast
  then have ids: "\<forall>i p. ops s i = Some p \<longrightarrow> op_ID (op_mem s ! p) = i" by blast
  note iff = prune_remove_ops [OF ids, of rm]
  have ran_t: "ran (ops ?t) = ran (ops s) - set rm" unfolding ran_def iff by blast
  have compl: "CompletedAt (op_mem s ! p) = None \<longleftrightarrow> State (op_mem s ! p) = operationRunning" if "p \<in> ran (ops s)" for p
    using that reg ok unfolding ops_ok_def op_ok_def Let_def ran_def by blast
  have K: "{p. State (op_mem s ! p) \<noteq> operationRunning \<and> p \<in> ran (ops ?t)} = set K"
    using un dj compl assms(3) unfolding ran_t by blast
  have gone: "ran (ops s) - ran (ops ?t) \<subseteq> set rm" unfolding ran_t by blast
  have "p \<in> set K" if "p \<in> ran (ops ?t)" "CompletedAt (op_mem s ! p) = Some c" for p c
    using that compl [of p] K unfolding ran_t by auto
  then have "\<forall>p\<in>ran (ops ?t). \<forall>c. CompletedAt (op_mem s ! p) = Some c \<longrightarrow> now - c \<le> ttl \<and>
        (\<forall>q\<in>ran (ops s) - ran (ops ?t). \<forall>d. CompletedAt (op_mem s ! q) = Some d \<longrightarrow> d \<le> c)"
    using ordk gone by blast
  moreover have "int (card (set K)) \<le> maxCompleted" using len card_length [of K] by linarith
  moreover have "p \<notin> set rm" if "State (op_mem s ! p) = operationRunning" for p using that un by blast
  ultimately show ?thesis
    using iff K by (intro exI [of _ ?t]) (simp add: pruneCompleted_def sel)
qed

section \<open>Properties\<close>

text \<open>
  C2: In every state the supervisor can reach, under every interleaving of reservations, admissions,
  completions, releases, pruning and termination, the capacity in use is the number of leases handed
  out and not yet released, it never exceeds 8 in all, 4 per Session and 2 builds, and each such
  lease has exactly one holder, an outstanding reservation or an Operation that has not completed.
\<close>

theorem capacity_never_oversubscribed:
  assumes "sup_step\<^sup>*\<^sup>* newOperationSupervisor s"
  shows "globalRunning s = live_count (\<lambda>l. True) s \<and> globalRunning s \<le> 8 \<and>
     running_at s sid = live_count (\<lambda>l. l_session l = sid) s \<and> running_at s sid \<le> 4 \<and>
     globalBuildCount s = live_count l_build s \<and> globalBuildCount s \<le> 2 \<and>
     (\<forall>l. l < length (lease_mem s) \<and> \<not> l_released (lease_mem s ! l) \<longrightarrow> (\<exists>!h. hold s h = Some l)) \<and>
     (\<forall>p<length (op_mem s). capacityRelease (op_mem s ! p) \<noteq> None \<longrightarrow> CompletedAt (op_mem s ! p) = None)"
proof -
  have inv: "sup_inv s" using sup.inv_reachable assms by blast
  then have acc: "accounted s" and own: "holding s" and ok: "ops_ok s" by (simp_all add: sup_inv_def)
  have "\<exists>!h. hold s h = Some l" if "l < length (lease_mem s)" "\<not> l_released (lease_mem s ! l)" for l
    using own that unfolding owned_def by metis
  moreover have "CompletedAt (op_mem s ! p) = None" if "p < length (op_mem s)" "capacityRelease (op_mem s ! p) \<noteq> None" for p
    using ok that by (auto simp: ops_ok_def op_ok_def Let_def)
  moreover have "running_at s sid \<le> 4"
    using acc unfolding accounted_def maxConcurrentOperationsPerSession_def by metis
  ultimately show ?thesis using acc accounted_running [OF acc]
    by (auto simp: accounted_def maxConcurrentOperationsGlobal_def maxConcurrentBuildsGlobal_def)
qed

theorem capacity_never_oversubscribed_witness:
  "globalRunning (fst (reserveCapacity ''s'' False newOperationSupervisor)) \<le> 8 \<and>
   running_at (fst (reserveCapacity ''s'' False newOperationSupervisor)) ''s'' \<le> 4"
proof -
  have "sup_step\<^sup>*\<^sup>* newOperationSupervisor (fst (reserveCapacity ''s'' False newOperationSupervisor))"
    by (intro r_into_rtranclp step_reserve_capacity)
  from capacity_never_oversubscribed [OF this, of "''s''"] show ?thesis by blast
qed

text \<open>
  Capacity does not leak. Once every reservation has been released or handed over and every
  Operation has completed, all counters are back to zero and the per-Session table is empty.
\<close>

theorem capacity_never_leaks:
  assumes "sup_step\<^sup>*\<^sup>* newOperationSupervisor s"
    and "\<forall>r<length (reservation_mem s). reservation_mem s ! r = None"
    and "\<forall>p<length (op_mem s). CompletedAt (op_mem s ! p) \<noteq> None"
  shows "globalRunning s = 0 \<and> globalBuildCount s = 0 \<and> sessionRunning s = Map.empty"
proof -
  have inv: "sup_inv s" using sup.inv_reachable assms(1) by blast
  then have acc: "accounted s" and own: "holding s" and ok: "ops_ok s" by (simp_all add: sup_inv_def)
  have "capacityRelease (op_mem s ! p) = None" if "p < length (op_mem s)" for p
    using ok that assms(3) by (auto simp: ops_ok_def op_ok_def Let_def)
  then have "hold s h = None" for h using assms(2) by (auto simp: hold_def split: sum.splits)
  then have "\<forall>l<length (lease_mem s). l_released (lease_mem s ! l)" using own by (simp add: owned_def)
  then have "live_count P s = 0" for P by (simp add: live_count_def count_if_zero all_set_conv_all_nth)
  then show ?thesis using acc by (auto simp: accounted_def fun_eq_iff)
qed

theorem capacity_never_leaks_witness:
  "let s = reservation_Release (Some 0) (fst (reserveCapacity ''s'' True newOperationSupervisor)) in
     globalRunning s = 0 \<and> globalBuildCount s = 0 \<and> sessionRunning s = Map.empty"
proof -
  let ?a = "fst (reserveCapacity ''s'' True newOperationSupervisor)"
  have "sup_step newOperationSupervisor ?a" by (rule step_reserve_capacity)
  moreover have "sup_step ?a (reservation_Release (Some 0) ?a)" by (rule step_release) code_simp
  ultimately have reach: "sup_step\<^sup>*\<^sup>* newOperationSupervisor (reservation_Release (Some 0) ?a)"
    by (meson r_into_rtranclp rtranclp.rtrancl_into_rtrancl)
  have "reservation_mem (reservation_Release (Some 0) ?a) = [None]" "op_mem (reservation_Release (Some 0) ?a) = []"
    by code_simp+
  then show ?thesis unfolding Let_def by (intro capacity_never_leaks [OF reach]) simp_all
qed



lemma quiesced_idle_steps:
  assumes "(\<lambda>a b. sup_step a b \<and> quiesced b lid)\<^sup>*\<^sup>* s t"
    and "sup_inv s" and "quiesced s lid" and "\<not> hasRunningForLauncher lid s"
  shows "quiesced t lid \<and> sup_inv t \<and> \<not> hasRunningForLauncher lid t"
  using assms
proof (induction rule: rtranclp_induct)
  case base
  then show ?case by simp
next
  case (step a b)
  then have IH: "sup_inv a" "quiesced a lid" "\<not> hasRunningForLauncher lid a" by blast+
  from step have ab: "sup_step a b" and inv: "sup_inv b" using inv_sup_step IH(1) by blast+
  then have ok: "ops_ok a" "ops_ok b" using IH(1) by (simp_all add: sup_inv_def)
  have "\<not> (op_LauncherID (op_mem b ! p) = lid \<and> State (op_mem b ! p) = operationRunning)" if r: "ops b i = Some p" for i p
  proof
    assume x: "op_LauncherID (op_mem b ! p) = lid \<and> State (op_mem b ! p) = operationRunning"
    have reg: "ops a i = Some p \<or> \<not> quiesced a (op_LauncherID (op_mem a ! p)) \<and> p < length (op_mem a)"
      using step_registry [OF ab r] by blast
    then have pl: "p < length (op_mem a)" using ok(1) unfolding ops_ok_def by blast
    have "op_ext (op_mem a ! p) (op_mem b ! p)" using step_mem_ext [OF ab] pl by (simp add: mem_ext_def)
    then have "op_LauncherID (op_mem a ! p) = lid" "State (op_mem a ! p) = operationRunning"
      using x by (auto simp: op_ext_def)
    then show False using reg IH(2,3) running_iff [OF ok(1)] by blast
  qed
  then show ?case using step.hyps inv running_iff [OF ok(2)] by blast
qed

text \<open>
  C18: The admission-closing guarantee of checked deletion: if a Launcher is quiesced and has no
  running registered Operation, then along every continuation in which it stays quiesced no running
  Operation of that Launcher ever appears, whatever reservations were taken before.
\<close>

theorem quiesced_launcher_stays_idle:
  assumes "sup_step\<^sup>*\<^sup>* newOperationSupervisor s" and "quiesced s lid" and "\<not> hasRunningForLauncher lid s"
    and "(\<lambda>a b. sup_step a b \<and> quiesced b lid)\<^sup>*\<^sup>* s t"
  shows "\<not> hasRunningForLauncher lid t"
  using quiesced_idle_steps [OF assms(4) sup.inv_reachable [OF assms(1)] assms(2,3)] by blast

theorem quiesced_launcher_stays_idle_witness:
  "\<not> hasRunningForLauncher ''l'' (quiesceLauncher ''l'' newOperationSupervisor)"
proof (rule quiesced_launcher_stays_idle)
  show "sup_step\<^sup>*\<^sup>* newOperationSupervisor (quiesceLauncher ''l'' newOperationSupervisor)"
    by (intro r_into_rtranclp step_quiesce)
  show "quiesced (quiesceLauncher ''l'' newOperationSupervisor) ''l''" by code_simp
  show "\<not> hasRunningForLauncher ''l'' (quiesceLauncher ''l'' newOperationSupervisor)" by code_simp
qed (rule rtranclp.rtrancl_refl)

text \<open>
  Final admission is decided by the gates alone: shutdown first, then the Launcher's quiesce. A
  refusal leaves the whole state unchanged, the reservation included; an acceptance registers the
  Operation under its identifier and moves the reserved lease from the reservation to the Operation,
  without changing any counter.
\<close>

theorem admission_decision:
  assumes "p < length (op_mem s)" and "r < length (reservation_mem s)"
  shows "case admitReserved p (Some r) s of (t, d) \<Rightarrow>
     (d = admissionRefusedShutdown \<longleftrightarrow> shutting s) \<and>
     (d = admissionRefusedQuiesced \<longleftrightarrow> \<not> shutting s \<and> quiesced s (op_LauncherID (op_mem s ! p))) \<and>
     d \<noteq> admissionRefusedCapacity \<and>
     (if d = admissionAccepted then
        op_lookup t (op_ID (op_mem s ! p)) = Some p \<and> hold t (Inl r) = None \<and>
        (reservation_mem s ! r \<noteq> None \<longrightarrow> hold t (Inr p) = reservation_mem s ! r) \<and>
        globalRunning t = globalRunning s \<and> sessionRunning t = sessionRunning s \<and>
        globalBuildCount t = globalBuildCount s \<and> lease_mem t = lease_mem s
      else t = s)"
  using assms by (auto simp: admitReserved_def op_lookup_def hold_def Let_def split: option.splits)

theorem admission_decision_witness:
  "case admitReserved 0 (Some 0) ((fst (reserveCapacity ''s'' False newOperationSupervisor))
       \<lparr>op_mem := [newRunOperation ''op_1'' ''s'' ''img'' 9 ''u'' ''l'' ''dev'' 0]\<rparr>) of (t, d) \<Rightarrow>
     d \<noteq> admissionRefusedCapacity \<and> (d = admissionAccepted \<longrightarrow> op_lookup t ''op_1'' = Some 0)"
proof -
  let ?s = "(fst (reserveCapacity ''s'' False newOperationSupervisor))
       \<lparr>op_mem := [newRunOperation ''op_1'' ''s'' ''img'' 9 ''u'' ''l'' ''dev'' 0]\<rparr>"
  have "0 < length (op_mem ?s)" "0 < length (reservation_mem ?s)" "op_ID (op_mem ?s ! 0) = ''op_1''" by code_simp+
  with admission_decision [of 0 ?s 0] show ?thesis by (auto split: prod.splits)
qed

text \<open>
  A pruning pass over the registered Operations (in any order of the map) never unregisters a
  running Operation, leaves at most the configured number of completed ones registered, none of them
  past the retention time, and drops only Operations that completed no later than any it keeps.
\<close>

theorem prune_bounds:
  assumes "sup_step\<^sup>*\<^sup>* newOperationSupervisor s" and "distinct order" and "set order = ran (ops s)"
    and "0 \<le> maxCompleted"
  shows "\<exists>t. pruneCompleted order now ttl maxCompleted s = Some t \<and>
     (\<forall>i p. ops t i = Some p \<longrightarrow> ops s i = Some p) \<and>
     (\<forall>i p. ops s i = Some p \<and> State (op_mem s ! p) = operationRunning \<longrightarrow> ops t i = Some p) \<and>
     int (card {p. State (op_mem s ! p) \<noteq> operationRunning \<and> p \<in> ran (ops t)}) \<le> maxCompleted \<and>
     (\<forall>p\<in>ran (ops t). \<forall>c. CompletedAt (op_mem s ! p) = Some c \<longrightarrow> now - c \<le> ttl \<and>
        (\<forall>q\<in>ran (ops s) - ran (ops t). \<forall>d. CompletedAt (op_mem s ! q) = Some d \<longrightarrow> d \<le> c))"
  using prune_bounds_aux assms sup.inv_reachable by (simp add: sup_inv_def)

theorem prune_bounds_witness:
  "\<exists>t. pruneCompleted [] 10 5 0 newOperationSupervisor = Some t \<and>
     int (card {p. State (op_mem newOperationSupervisor ! p) \<noteq> operationRunning \<and> p \<in> ran (ops t)}) \<le> 0"
proof -
  have "set [] = ran (ops newOperationSupervisor)" by (simp add: newOperationSupervisor_def)
  from prune_bounds [OF rtranclp.rtrancl_refl _ this, of 0 10 5] show ?thesis by auto
qed

text \<open>
  Cancelling an Operation by identifier reports an unknown identifier and an already terminal
  Operation without touching anything; an Operation whose process has not started is marked so that
  a later start is refused, and one whose process runs is signalled and, if it has not finished in
  time, claimed for force cleanup.
\<close>

theorem cancel_effects:
  assumes "sup_step\<^sup>*\<^sup>* newOperationSupervisor s"
  shows "case cancel in_time cid k i s of (t, e) \<Rightarrow>
     (e = Some CancelNotFound \<longleftrightarrow> op_lookup s i = None) \<and>
     (e = Some CancelAlreadyTerminal \<longleftrightarrow> (\<exists>p. op_lookup s i = Some p \<and> State (op_mem s ! p) \<noteq> operationRunning)) \<and>
     (e \<noteq> None \<longrightarrow> t = s) \<and>
     (\<forall>p. e = None \<and> op_lookup s i = Some p \<longrightarrow>
        (if started (op_mem s ! p) then
           (cmd (op_mem s ! p) = Some True \<longrightarrow> SigTerm p \<in> set (effects t)) \<and>
           (\<not> in_time p \<longrightarrow> forceOwned (op_mem t ! p))
         else \<forall>ok now. snd (startOperationProcess p ok now t) = StartTerminated))"
proof (cases "ops s i")
  case None
  then show ?thesis by (simp add: cancel_def op_lookup_def)
next
  case (Some p)
  have inv: "sup_inv s" using sup.inv_reachable assms by blast
  then have p: "p < length (op_mem s)" and ok: "op_ok s p" using Some by (auto simp: sup_inv_def ops_ok_def)
  show ?thesis
  proof (cases "CompletedAt (op_mem s ! p)")
    case None
    then have run: "State (op_mem s ! p) = operationRunning" using ok by (simp add: op_ok_def Let_def)
    let ?m = "terminate_mark terminationCancelled p s"
    have t: "cancel in_time cid k i s =
        (if started (op_mem s ! p) \<and> \<not> in_time p then forceCleanupOperation cid k p ?m else ?m, None)"
      using Some None by (simp add: cancel_def terminateOperations_def Let_def)
    obtain rs' where mem: "op_mem ?m = (op_mem s)[p := (op_mem s ! p)\<lparr>reason := rs',
        terminated := terminated (op_mem s ! p) \<or> \<not> started (op_mem s ! p)\<rparr>]"
      using terminate_mark_fields(1) [OF p] by blast
    have sig: "SigTerm p \<in> set (effects ?m)" if "started (op_mem s ! p)" "cmd (op_mem s ! p) = Some True"
      using that p by (auto simp: terminate_mark_def Let_def)
    have force: "forceOwned (op_mem (forceCleanupOperation cid k p ?m) ! p)"
      "set (effects ?m) \<subseteq> set (effects (forceCleanupOperation cid k p ?m))"
      using p None by (auto simp: forceCleanupOperation_def force_claim_def force_finish_def Let_def mem split: prod.splits bool.splits)
    show ?thesis
    proof (cases "started (op_mem s ! p)")
      case True
      then show ?thesis using Some run sig force by (auto simp: t op_lookup_def)
    next
      case False
      then have "snd (startOperationProcess p ok now ?m) = StartTerminated" for ok now
        using p by (simp add: startOperationProcess_def mem)
      with False show ?thesis using Some run by (simp add: t op_lookup_def)
    qed
  next
    case (Some c)
    then have "State (op_mem s ! p) \<noteq> operationRunning" using ok by (simp add: op_ok_def Let_def)
    then show ?thesis using Some \<open>ops s i = Some p\<close> by (simp add: cancel_def op_lookup_def)
  qed
qed

theorem cancel_effects_witness:
  "snd (cancel (\<lambda>_. False) (\<lambda>_. []) True ''op_x'' newOperationSupervisor) = Some CancelNotFound"
  using cancel_effects [OF rtranclp.rtrancl_refl, where in_time = "\<lambda>_. False" and cid = "\<lambda>_. []" and k = True and i = "''op_x''"]
  by (auto simp: op_lookup_def newOperationSupervisor_def split: prod.splits)

end
