(* ===== verification/Lifecycle.thy ===== *)
theory Lifecycle
  imports Programs Cascade Operation_Invariants
begin

text \<open>
  launcher\_lifecycle.go, lifecycle\_owner.go and the Principal transitions of app.go: the mutations
  that hold \<^verbatim>\<open>lifecycleMu\<close> and change the store and the supervisor's admission gates together.

  A mutation is a program over the state of the daemon in the library's state monad. The mutex
  serializes the mutations with each other, so they are sequential; the Operations of other requests
  are not, so every access to the supervisor is preceded by the steps \<^term>\<open>x_others\<close> that other
  goroutines took since the last one. Database outcomes and the Docker CLI are parameters too, all
  numbered by the call counter of the state.
\<close>

section \<open>Programs\<close>

record app =
  a_store :: store
  a_sup :: sup_world
  a_released :: "string list"
  a_removed :: "string list"
  a_calls :: nat

record outside =
  x_db :: db_io
  x_others :: "nat \<Rightarrow> sup_world \<Rightarrow> sup_world"
  x_ps :: "nat \<Rightarrow> string \<Rightarrow> string option"
  x_rm :: "nat \<Rightarrow> string \<Rightarrow> bool"

definition db_call :: "'a db \<Rightarrow> (app, (go_error, 'a) result) state" where
  "db_call m = state.State (\<lambda>a. case m (a_store a) (a_calls a) of (s, n, r) \<Rightarrow> (r, a\<lparr>a_store := s, a_calls := n\<rparr>))"

definition sup_call :: "outside \<Rightarrow> (sup_world \<Rightarrow> sup_world \<times> 'a) \<Rightarrow> (app, 'a) state" where
  "sup_call x f = state.State (\<lambda>a. case f (x_others x (a_calls a) (a_sup a)) of
     (w, r) \<Rightarrow> (r, a\<lparr>a_sup := w, a_calls := Suc (a_calls a)\<rparr>))"

definition docker_ps :: "outside \<Rightarrow> string \<Rightarrow> (app, string option) state" where
  "docker_ps x launcherID = state.State (\<lambda>a. (x_ps x (a_calls a) launcherID, a\<lparr>a_calls := Suc (a_calls a)\<rparr>))"

definition docker_rm :: "outside \<Rightarrow> string \<Rightarrow> (app, bool) state" where
  "docker_rm x container = state.State (\<lambda>a. (x_rm x (a_calls a) container,
     a\<lparr>a_removed := a_removed a @ [container], a_calls := Suc (a_calls a)\<rparr>))"

section \<open>Launcher changes\<close>

datatype helperContainerState = helperStateStale | helperStateActive | helperStateUnknown

definition classifyHelperContainerState :: "string \<Rightarrow> helperContainerState" where
  "classifyHelperContainerState st =
     (if st \<in> {''created'', ''exited'', ''dead''} then helperStateStale
      else if st \<in> {''running'', ''paused'', ''restarting'', ''removing''} then helperStateActive
      else helperStateUnknown)"

record launcherEnabledChangeResult =
  lc_Changed :: bool
  lc_RevokedSessionIDs :: "string list"
  lc_AdmissionClosed :: "bool option"

definition launcher_enabled_tx :: "db_io \<Rightarrow> string \<Rightarrow> bool \<Rightarrow> bool \<Rightarrow> bool \<Rightarrow> launcherEnabledChangeResult db" where
  "launcher_enabled_tx io launcherID currentEnabled principalEnabled newEnabled =
     db_then (if newEnabled then db_return []
              else db_then (query io (\<lambda>s. Inr (session_ids_of (\<lambda>y. se_launcher y = launcherID) s))) (\<lambda>sessionIDs.
                db_then (exec io (\<lambda>s. Inr (delete_sessions (\<lambda>y. se_launcher y = launcherID) s, ()))) (\<lambda>_.
                  db_return sessionIDs))) (\<lambda>sessionIDs.
       db_then (db_when (currentEnabled \<noteq> newEnabled) (exec io (\<lambda>s. Inr (s\<lparr>launchers :=
           update_rows (\<lambda>l. la_id l = launcherID) (\<lambda>l. l\<lparr>la_enabled := newEnabled\<rparr>) (launchers s)\<rparr>, ())))) (\<lambda>_.
         db_return \<lparr>lc_Changed = (currentEnabled \<noteq> newEnabled), lc_RevokedSessionIDs = sessionIDs,
           lc_AdmissionClosed = Some (\<not> principalEnabled \<or> \<not> newEnabled)\<rparr>))"

definition launcher_change_tx :: "db_io \<Rightarrow> string \<Rightarrow> string option \<Rightarrow> bool option \<Rightarrow> launcherEnabledChangeResult db" where
  "launcher_change_tx io launcherID name enabled =
     db_then (query io (\<lambda>s. case launcher_with_owner launcherID s of
         None \<Rightarrow> err ErrLauncherNotFound | Some (l, p) \<Rightarrow> Inr (la_enabled l, pr_enabled p))) (\<lambda>(currentEnabled, principalEnabled).
       db_then (case name of None \<Rightarrow> db_return ()
                | Some nm \<Rightarrow> exec io (\<lambda>s. no_result (or_exists ErrLauncherExists (rename_launcher launcherID nm s)))) (\<lambda>_.
         case enabled of
           None \<Rightarrow> db_return \<lparr>lc_Changed = False, lc_RevokedSessionIDs = [], lc_AdmissionClosed = None\<rparr>
         | Some newEnabled \<Rightarrow> launcher_enabled_tx io launcherID currentEnabled principalEnabled newEnabled))"

definition persistLauncherChange :: "db_io \<Rightarrow> string \<Rightarrow> string option \<Rightarrow> bool option \<Rightarrow> launcherEnabledChangeResult db" where
  "persistLauncherChange io launcherID name enabled =
     (if launcherID = [] then db_fail ErrLauncherNotFound
      else db_then (case name of None \<Rightarrow> db_return [] | Some nm \<Rightarrow> db_result (validateLauncherName nm)) (\<lambda>_.
        with_tx io (launcher_change_tx io launcherID name enabled)))"

definition releaseSessionBindings :: "string list \<Rightarrow> (app, unit) state" where
  "releaseSessionBindings sessionIDs = state.State (\<lambda>a. ((), a\<lparr>a_released := a_released a @ sessionIDs\<rparr>))"

definition applyLauncherEnabledChange ::
    "outside \<Rightarrow> string \<Rightarrow> bool \<Rightarrow> (app, (go_error, launcherEnabledChangeResult) result) state" where
  "applyLauncherEnabledChange x launcherID enabled =
     or_return (db_call (persistLauncherChange (x_db x) launcherID None (Some enabled))) (\<lambda>result. do {
       st_when (0 < length (lc_RevokedSessionIDs result)) (releaseSessionBindings (lc_RevokedSessionIDs result));
       ret (Inr result) })"

section \<open>Admission\<close>

definition launcher_closed :: "store \<Rightarrow> string \<Rightarrow> bool" where
  "launcher_closed s launcherID =
     (case launcher_with_owner launcherID s of None \<Rightarrow> True | Some (l, p) \<Rightarrow> \<not> pr_enabled p \<or> \<not> la_enabled l)"

definition effectiveLauncherClosed :: "db_io \<Rightarrow> string \<Rightarrow> bool db" where
  "effectiveLauncherClosed io launcherID = query io (\<lambda>s. Inr (launcher_closed s launcherID))"

definition syncLauncherAdmission :: "outside \<Rightarrow> string \<Rightarrow> (app, (go_error, unit) result) state" where
  "syncLauncherAdmission x launcherID =
     or_return (db_call (effectiveLauncherClosed (x_db x) launcherID)) (\<lambda>closed. do {
       sup_call x (\<lambda>w. (setQuiesced launcherID closed w, ()));
       ret (Inr ()) })"

text \<open>The error of the re-read is logged only.\<close>

definition restoreLauncherAdmissionAfterRefusal :: "outside \<Rightarrow> string \<Rightarrow> (app, unit) state" where
  "restoreLauncherAdmissionAfterRefusal x launcherID = do { syncLauncherAdmission x launcherID; ret () }"

definition restoreLauncherAdmissionAfterPrincipalRefusal :: "outside \<Rightarrow> string list \<Rightarrow> (app, unit) state" where
  "restoreLauncherAdmissionAfterPrincipalRefusal x ls = st_each (restoreLauncherAdmissionAfterRefusal x) ls"

definition quiesce :: "outside \<Rightarrow> string \<Rightarrow> (app, unit) state" where
  "quiesce x launcherID = sup_call x (\<lambda>w. (quiesceLauncher launcherID w, ()))"

definition updateLauncherWithLifecycle ::
    "outside \<Rightarrow> string \<Rightarrow> string option \<Rightarrow> bool option \<Rightarrow>
     (app, (go_error, LauncherWithPrincipal \<times> string list) result) state" where
  "updateLauncherWithLifecycle x launcherID name enabled =
     or_return (db_call (findLauncherByID (x_db x) launcherID)) (\<lambda>cur. do {
       st_when (enabled = Some False) (quiesce x launcherID);
       r \<leftarrow> db_call (persistLauncherChange (x_db x) launcherID name enabled);
       case r of
         Inl e \<Rightarrow> do {
           st_when (enabled = Some False) (restoreLauncherAdmissionAfterRefusal x launcherID);
           ret (Inl e) }
       | Inr result \<Rightarrow> do {
           st_when (0 < length (lc_RevokedSessionIDs result)) (releaseSessionBindings (lc_RevokedSessionIDs result));
           (case (enabled, lc_AdmissionClosed result) of
             (Some True, Some closed) \<Rightarrow> sup_call x (\<lambda>w. (setQuiesced launcherID closed w, ()))
           | _ \<Rightarrow> ret ());
           ret (Inr (cur\<lparr>lw_Name := (case name of None \<Rightarrow> lw_Name cur | Some nm \<Rightarrow> nm),
                         lw_Enabled := (case enabled of None \<Rightarrow> lw_Enabled cur | Some b \<Rightarrow> b)\<rparr>,
                     lc_RevokedSessionIDs result)) } })"

section \<open>Runtime inspection\<close>

record helperContainer =
  hc_ID :: string
  hc_State :: string

fun parse_ps_lines :: "string list list \<Rightarrow> (go_error, helperContainer list) result" where
  "parse_ps_lines [] = Inr []"
| "parse_ps_lines (line # ls) =
     (if strings_TrimSpace line = [] then parse_ps_lines ls
      else case strings_Fields line of
          [i, st] \<Rightarrow> and_then (parse_ps_lines ls) (\<lambda>cs. Inr (\<lparr>hc_ID = i, hc_State = st\<rparr> # cs))
        | _ \<Rightarrow> io_err)"

definition parse_ps_output :: "string \<Rightarrow> (go_error, helperContainer list) result" where
  "parse_ps_output out =
     (let trimmed = strings_TrimSpace (rune_chunks out)
      in if trimmed = [] then Inr [] else parse_ps_lines (split_chunks (\<lambda>c. c = [CHR 0x0A]) [] trimmed))"

definition inspectHelperContainersForLauncher ::
    "outside \<Rightarrow> string \<Rightarrow> (app, (go_error, helperContainer list) result) state" where
  "inspectHelperContainersForLauncher x launcherID = do {
     out \<leftarrow> docker_ps x launcherID;
     ret (case out of None \<Rightarrow> io_err | Some out \<Rightarrow> parse_ps_output out) }"

fun removeStaleHelperContainers :: "outside \<Rightarrow> helperContainer list \<Rightarrow> (app, (go_error, unit) result) state" where
  "removeStaleHelperContainers x [] = ret (Inr ())"
| "removeStaleHelperContainers x (c # cs) =
     (if classifyHelperContainerState (hc_State c) \<noteq> helperStateStale then ret io_err
      else do {
        ok \<leftarrow> docker_rm x (hc_ID c);
        if ok then removeStaleHelperContainers x cs else ret io_err })"

record launcherRuntimeInspection =
  ri_containers :: "helperContainer list"
  ri_active :: bool

fun classify_containers :: "helperContainer list \<Rightarrow> helperContainer list \<Rightarrow> (go_error, launcherRuntimeInspection) result" where
  "classify_containers containers [] = Inr \<lparr>ri_containers = containers, ri_active = False\<rparr>"
| "classify_containers containers (c # cs) =
     (case classifyHelperContainerState (hc_State c) of
        helperStateActive \<Rightarrow> Inr \<lparr>ri_containers = containers, ri_active = True\<rparr>
      | helperStateUnknown \<Rightarrow> io_err
      | helperStateStale \<Rightarrow> classify_containers containers cs)"

definition inspectLauncherRuntime :: "outside \<Rightarrow> string \<Rightarrow> (app, (go_error, launcherRuntimeInspection) result) state" where
  "inspectLauncherRuntime x launcherID = do {
     running \<leftarrow> sup_call x (\<lambda>w. (w, hasRunningForLauncher launcherID w));
     if running then ret (Inr \<lparr>ri_containers = [], ri_active = True\<rparr>)
     else or_return (inspectHelperContainersForLauncher x launcherID) (\<lambda>containers.
       ret (classify_containers containers containers)) }"

section \<open>Checked deletion of a Launcher\<close>

definition deleteLauncherRow :: "db_io \<Rightarrow> string \<Rightarrow> unit db" where
  "deleteLauncherRow io launcherID =
     with_tx io
       (db_then (query io (\<lambda>s. Inr (length (filter (\<lambda>l. la_id l = launcherID) (launchers s))))) (\<lambda>exists.
         if exists = 0 then db_fail ErrLauncherNotFound
         else exec io (\<lambda>s. no_result (or_fail (delete_launcher launcherID s)))))"

definition disableLauncherLocked :: "outside \<Rightarrow> string \<Rightarrow> (app, (go_error, string list) result) state" where
  "disableLauncherLocked x launcherID = do {
     quiesce x launcherID;
     r \<leftarrow> applyLauncherEnabledChange x launcherID False;
     case r of
       Inl e \<Rightarrow> do { restoreLauncherAdmissionAfterRefusal x launcherID; ret (Inl e) }
     | Inr result \<Rightarrow> ret (Inr (lc_RevokedSessionIDs result)) }"

text \<open>The revoked Sessions are returned beside the error.\<close>

definition deleteLauncherChecked :: "outside \<Rightarrow> string \<Rightarrow> (app, string list \<times> go_error option) state" where
  "deleteLauncherChecked x launcherID = do {
     quiesce x launcherID;
     r \<leftarrow> inspectLauncherRuntime x launcherID;
     case r of
       Inl e \<Rightarrow> do { restoreLauncherAdmissionAfterRefusal x launcherID; ret ([], Some e) }
     | Inr inspection \<Rightarrow>
         if ri_active inspection then do {
           restoreLauncherAdmissionAfterRefusal x launcherID;
           ret ([], Some [ErrLauncherRuntimeActive]) }
         else do {
           r \<leftarrow> removeStaleHelperContainers x (ri_containers inspection);
           case r of
             Inl e \<Rightarrow> do { restoreLauncherAdmissionAfterRefusal x launcherID; ret ([], Some e) }
           | Inr _ \<Rightarrow> do {
               r \<leftarrow> disableLauncherLocked x launcherID;
               case r of
                 Inl e \<Rightarrow> ret ([], Some e)
               | Inr revoked \<Rightarrow> do {
                   r \<leftarrow> db_call (deleteLauncherRow (x_db x) launcherID);
                   ret (revoked, case r of Inl e \<Rightarrow> Some e | Inr _ \<Rightarrow> None) } } } }"

section \<open>Principal transitions\<close>

definition principalLaunchers :: "db_io \<Rightarrow> int \<Rightarrow> string list db" where
  "principalLaunchers io principalID = query io (\<lambda>s. Inr (launcher_ids_of principalID s))"

definition principalLaunchersByUsername :: "db_io \<Rightarrow> string \<Rightarrow> string list db" where
  "principalLaunchersByUsername io username =
     db_then (findPrincipalIDByUsername io username) (principalLaunchers io)"

definition applyPrincipalEnabledChange ::
    "outside \<Rightarrow> string \<Rightarrow> bool \<Rightarrow> (app, (go_error, principalEnabledChangeResult) result) state" where
  "applyPrincipalEnabledChange x username enabled =
     or_return (db_call (persistPrincipalEnabledChange (x_db x) username enabled)) (\<lambda>result. do {
       st_when (ec_Changed result \<and> 0 < length (ec_RevokedSessionIDs result)) (releaseSessionBindings (ec_RevokedSessionIDs result));
       ret (Inr result) })"

definition deletePrincipalWithMAC :: "outside \<Rightarrow> string \<Rightarrow> (app, (go_error, string list) result) state" where
  "deletePrincipalWithMAC x username =
     or_return (db_call (deletePrincipal (x_db x) username)) (\<lambda>sessionIDs. do {
       releaseSessionBindings sessionIDs;
       ret (Inr sessionIDs) })"

text \<open>The check phase: the inspections in the order of the Launchers.\<close>

fun inspect_launchers :: "outside \<Rightarrow> string list \<Rightarrow> (app, (go_error, launcherRuntimeInspection list) result) state" where
  "inspect_launchers x [] = ret (Inr [])"
| "inspect_launchers x (lid # ls) =
     or_return (inspectLauncherRuntime x lid) (\<lambda>inspection.
       if ri_active inspection then ret (err ErrLauncherRuntimeActive)
       else or_return (inspect_launchers x ls) (\<lambda>rest. ret (Inr (inspection # rest))))"

fun remove_stale :: "outside \<Rightarrow> launcherRuntimeInspection list \<Rightarrow> (app, (go_error, unit) result) state" where
  "remove_stale x [] = ret (Inr ())"
| "remove_stale x (i # is) = or_return (removeStaleHelperContainers x (ri_containers i)) (\<lambda>_. remove_stale x is)"

fun disable_launchers :: "outside \<Rightarrow> string list \<Rightarrow> string list \<Rightarrow> (app, string list \<times> go_error option) state" where
  "disable_launchers x revokedAll [] = ret (revokedAll, None)"
| "disable_launchers x revokedAll (lid # ls) = do {
     r \<leftarrow> disableLauncherLocked x lid;
     case r of
       Inl e \<Rightarrow> do { restoreLauncherAdmissionAfterPrincipalRefusal x ls; ret (revokedAll, Some e) }
     | Inr revoked \<Rightarrow> disable_launchers x (revokedAll @ revoked) ls }"

definition deletePrincipalChecked :: "outside \<Rightarrow> string \<Rightarrow> (app, string list \<times> go_error option) state" where
  "deletePrincipalChecked x username = do {
     r \<leftarrow> db_call (principalLaunchersByUsername (x_db x) username);
     case r of
       Inl e \<Rightarrow> ret ([], Some e)
     | Inr ls \<Rightarrow> do {
         st_each (quiesce x) ls;
         r \<leftarrow> or_return (inspect_launchers x ls) (remove_stale x);
         case r of
           Inl e \<Rightarrow> do { restoreLauncherAdmissionAfterPrincipalRefusal x ls; ret ([], Some e) }
         | Inr _ \<Rightarrow> do {
             (revokedAll, e) \<leftarrow> disable_launchers x [] ls;
             case e of
               Some e \<Rightarrow> ret (revokedAll, Some e)
             | None \<Rightarrow> do {
                 r \<leftarrow> deletePrincipalWithMAC x username;
                 ret (revokedAll, case r of Inl e \<Rightarrow> Some e | Inr _ \<Rightarrow> None) } } } }"

definition disablePrincipalLaunchers :: "outside \<Rightarrow> string \<Rightarrow> (app, (go_error, principalEnabledChangeResult) result) state" where
  "disablePrincipalLaunchers x username =
     or_return (db_call (principalLaunchersByUsername (x_db x) username)) (\<lambda>ls. do {
       st_each (quiesce x) ls;
       r \<leftarrow> applyPrincipalEnabledChange x username False;
       case r of
         Inl e \<Rightarrow> do { restoreLauncherAdmissionAfterPrincipalRefusal x ls; ret (Inl e) }
       | Inr result \<Rightarrow> ret (Inr result) })"

definition enablePrincipalLaunchers :: "outside \<Rightarrow> string \<Rightarrow> (app, (go_error, principalEnabledChangeResult) result) state" where
  "enablePrincipalLaunchers x username =
     or_return (applyPrincipalEnabledChange x username True) (\<lambda>result. do {
       st_each (\<lambda>la. sup_call x (\<lambda>w. (setQuiesced (ad_LauncherID la) (ad_Closed la) w, ()))) (ec_LauncherAdmissions result);
       ret (Inr result) })"

section \<open>Creation and root policy\<close>

text \<open>
  The remaining holders of \<^verbatim>\<open>lifecycleMu\<close> change only the store: creation, and the
  root-policy mutations of lifecycle\_owner.go, each against the ceiling resolved under the lock.
\<close>

fun resolveAllowedRootPaths :: "host_fs \<Rightarrow> string list \<Rightarrow> (go_error, string list) result" where
  "resolveAllowedRootPaths fs [] = Inr []"
| "resolveAllowedRootPaths fs (r # rs) =
     (case fs_eval fs r of
        Inl _ \<Rightarrow> err ErrSystem
      | Inr resolved \<Rightarrow> and_then (resolveAllowedRootPaths fs rs) (\<lambda>out. Inr (resolved # out)))"

definition appResolvedGlobalRoots :: "host_fs \<Rightarrow> AllowedRootEntry list \<Rightarrow> (go_error, string list) result" where
  "appResolvedGlobalRoots fs config_roots = resolveAllowedRootPaths fs (allowedRootPaths config_roots)"

definition appResolvedGlobalRootEntries :: "host_fs \<Rightarrow> AllowedRootEntry list \<Rightarrow> (go_error, AllowedRootEntry list) result" where
  "appResolvedGlobalRootEntries fs config_roots = resolveAllowedRootEntries fs config_roots"

definition createPrincipalWithLifecycle ::
    "(string \<Rightarrow> string) \<Rightarrow> entropy \<Rightarrow> db_io \<Rightarrow> host_fs \<Rightarrow> int \<Rightarrow> os_users \<Rightarrow> AllowedRootEntry list \<Rightarrow> string \<Rightarrow> bool \<Rightarrow>
     (PrincipalWithRoots \<times> (PrincipalCredential \<times> string) option) db" where
  "createPrincipalWithLifecycle hash ent io fs euid lookup config_roots username issueCredential =
     db_then (db_result (appResolvedGlobalRootEntries fs config_roots)) (\<lambda>globalRoots.
       createPrincipalWithOptionalCredential hash ent io fs euid lookup username globalRoots issueCredential)"

definition createLauncherWithLifecycle ::
    "(string \<Rightarrow> string) \<Rightarrow> entropy \<Rightarrow> db_io \<Rightarrow> host_fs \<Rightarrow> int \<Rightarrow> AllowedRootEntry list \<Rightarrow> int \<Rightarrow> string \<Rightarrow> LauncherScopeMode \<Rightarrow>
     string list \<Rightarrow> bool \<Rightarrow> (LauncherWithPrincipal \<times> (launcherCredential \<times> string) option) db" where
  "createLauncherWithLifecycle hash ent io fs euid config_roots principalID name scope allowedRoots issueCredential =
     db_then (resolveEffectivePrincipalRoots io fs config_roots principalID) (\<lambda>ceiling.
       createLauncher hash ent io fs euid principalID name scope allowedRoots ceiling issueCredential)"

definition addPrincipalAllowedRootWithLifecycle ::
    "db_io \<Rightarrow> host_fs \<Rightarrow> int \<Rightarrow> AllowedRootEntry list \<Rightarrow> string \<Rightarrow> string \<Rightarrow> AllowedRootAccess \<Rightarrow> (bool \<times> AllowedRootEntry) db" where
  "addPrincipalAllowedRootWithLifecycle io fs euid config_roots username rootPath access =
     db_then (db_result (appResolvedGlobalRoots fs config_roots)) (\<lambda>globalRoots.
       addPrincipalAllowedRoot io fs euid username rootPath access globalRoots)"

definition removePrincipalAllowedRootWithLifecycle ::
    "db_io \<Rightarrow> host_fs \<Rightarrow> AllowedRootEntry list \<Rightarrow> string \<Rightarrow> string \<Rightarrow> (bool \<times> string \<times> storedRootCascadeResult) db" where
  "removePrincipalAllowedRootWithLifecycle io fs config_roots username rootPath =
     db_then (db_result (appResolvedGlobalRootEntries fs config_roots)) (\<lambda>globalEntries.
       removePrincipalAllowedRootCascaded io fs username rootPath globalEntries)"

definition setPrincipalAllowedRootAccessWithLifecycle ::
    "db_io \<Rightarrow> host_fs \<Rightarrow> string \<Rightarrow> string \<Rightarrow> AllowedRootAccess \<Rightarrow> (bool \<times> AllowedRootEntry) db" where
  "setPrincipalAllowedRootAccessWithLifecycle io fs username rootPath access =
     setPrincipalAllowedRootAccess io fs username rootPath access"

definition replaceLauncherScopeWithLifecycle ::
    "db_io \<Rightarrow> host_fs \<Rightarrow> int \<Rightarrow> AllowedRootEntry list \<Rightarrow> string \<Rightarrow> LauncherScopeMode \<Rightarrow> AllowedRootEntry list \<Rightarrow> LauncherWithPrincipal db" where
  "replaceLauncherScopeWithLifecycle io fs euid config_roots launcherID scope entries =
     db_then (findLauncherByID io launcherID) (\<lambda>cur.
       db_then (resolveEffectivePrincipalRoots io fs config_roots (lw_PrincipalID cur)) (\<lambda>ceiling.
         replaceLauncherScope io fs euid (Some cur) scope entries ceiling))"

definition addLauncherAllowedRootWithLifecycle ::
    "db_io \<Rightarrow> host_fs \<Rightarrow> int \<Rightarrow> AllowedRootEntry list \<Rightarrow> string \<Rightarrow> string \<Rightarrow> AllowedRootAccess \<Rightarrow>
     (LauncherWithPrincipal \<times> bool \<times> AllowedRootEntry) db" where
  "addLauncherAllowedRootWithLifecycle io fs euid config_roots launcherID rootPath access =
     db_then (findLauncherByID io launcherID) (\<lambda>cur.
       db_then (resolveEffectivePrincipalRoots io fs config_roots (lw_PrincipalID cur)) (\<lambda>ceiling.
         addLauncherAllowedRoot io fs euid cur rootPath access ceiling))"

definition removeLauncherAllowedRootWithLifecycle :: "db_io \<Rightarrow> host_fs \<Rightarrow> string \<Rightarrow> string \<Rightarrow> (bool \<times> string) db" where
  "removeLauncherAllowedRootWithLifecycle io fs launcherID rootPath =
     db_then (findLauncherByID io launcherID) (\<lambda>_. removeLauncherAllowedRoot io fs launcherID rootPath)"

definition setLauncherAllowedRootAccessWithLifecycle ::
    "db_io \<Rightarrow> host_fs \<Rightarrow> string \<Rightarrow> string \<Rightarrow> AllowedRootAccess \<Rightarrow> (bool \<times> AllowedRootEntry) db" where
  "setLauncherAllowedRootAccessWithLifecycle io fs launcherID rootPath access =
     db_then (findLauncherByID io launcherID) (\<lambda>_. setLauncherAllowedRootAccess io fs launcherID rootPath access)"

section \<open>What the transactions change\<close>

lemma with_tx_store:
  assumes "with_tx_err ce io body s n = (s', n', r)"
  shows "s' = s \<and> (\<forall>b. r \<noteq> Inr b) \<or> (\<exists>m b. body s (Suc n) = (s', m, Inr b) \<and> (\<forall>c. r = Inr c \<longrightarrow> c = b))"
  using assms by (auto simp: with_tx_err_def split: prod.splits sum.splits db_outcome.splits if_splits)

lemma with_tx_rollback_store:
  assumes "with_tx_rollback io body s n = (s', n', r)"
  shows "s' = s \<and> (\<forall>b. r \<noteq> Inr b) \<or>
    (\<exists>m t b. body s (Suc n) = (t, m, Inr b) \<and> s' = (if snd b then t else s) \<and> (\<forall>c. r = Inr c \<longrightarrow> c = fst b))"
  using assms by (auto simp: with_tx_rollback_def split: prod.splits sum.splits db_outcome.splits if_splits)

lemma find_update_rows:
  assumes "\<And>r. P r \<Longrightarrow> Q (f r) \<longleftrightarrow> Q r"
  shows "find Q (update_rows P f rows) = map_option (\<lambda>r. if P r then f r else r) (find Q rows)"
  using assms by (induction rows) (auto simp: update_rows_def)

text \<open>A Launcher row after a committed change.\<close>

definition changed_launcher :: "string option \<Rightarrow> bool option \<Rightarrow> launcher_row \<Rightarrow> launcher_row" where
  "changed_launcher name enabled l = l\<lparr>la_name := (case name of None \<Rightarrow> la_name l | Some nm \<Rightarrow> nm),
     la_enabled := (case enabled of None \<Rightarrow> la_enabled l | Some b \<Rightarrow> b)\<rparr>"

definition relaunched :: "string \<Rightarrow> string option \<Rightarrow> bool option \<Rightarrow> store \<Rightarrow> store" where
  "relaunched i name enabled s =
     (if enabled = Some False then delete_sessions (\<lambda>y. se_launcher y = i) s else s)\<lparr>
       launchers := update_rows (\<lambda>l. la_id l = i) (changed_launcher name enabled) (launchers s)\<rparr>"

lemma update_rows_compose:
  assumes "\<And>r. P r \<Longrightarrow> P (f r)"
  shows "update_rows P g (update_rows P f rows) = update_rows P (\<lambda>r. g (f r)) rows"
  using assms by (simp add: update_rows_def)

lemma update_rows_cong: "(\<And>r. r \<in> set rows \<Longrightarrow> P r \<Longrightarrow> f r = g r) \<Longrightarrow> update_rows P f rows = update_rows P g rows"
  by (simp add: update_rows_def)

lemma update_rows_ident: "(\<And>r. r \<in> set rows \<Longrightarrow> P r \<Longrightarrow> f r = r) \<Longrightarrow> update_rows P f rows = rows"
  by (simp add: update_rows_def map_idI)

lemma launcher_enabled_tx_Inr:
  "launcher_enabled_tx io i current pen b s n = (s', n', Inr res) \<Longrightarrow>
     s' = (if b then s else delete_sessions (\<lambda>y. se_launcher y = i) s)\<lparr>launchers := (if current = b then launchers s
                 else update_rows (\<lambda>l. la_id l = i) (\<lambda>l. l\<lparr>la_enabled := b\<rparr>) (launchers s))\<rparr> \<and>
     lc_RevokedSessionIDs res = (if b then [] else session_ids_of (\<lambda>y. se_launcher y = i) s) \<and>
     lc_AdmissionClosed res = Some (\<not> pen \<or> \<not> b)"
  by (auto simp: launcher_enabled_tx_def db_then_Inr db_simps db_when_def delete_sessions_def split: if_splits)

lemma rename_launcher_Inr:
  "rename_launcher i nm s = Inr t \<Longrightarrow> t = s\<lparr>launchers := update_rows (\<lambda>l. la_id l = i) (\<lambda>l. l\<lparr>la_name := nm\<rparr>) (launchers s)\<rparr>"
  by (auto simp: rename_launcher_def split: if_splits)

lemma owner_of_updated:
  assumes "\<And>l. la_id l = i \<Longrightarrow> la_id (f l) = i \<and> la_principal (f l) = la_principal l"
    and "principals t = principals s" and "launchers t = update_rows (\<lambda>l. la_id l = i) f (launchers s)"
  shows "launcher_with_owner k t = map_option (\<lambda>(l, p). (if k = i then f l else l, p)) (launcher_with_owner k s)"
proof -
  have "launcher_by_id k t = map_option (\<lambda>l. if la_id l = i then f l else l) (launcher_by_id k s)"
    unfolding launcher_by_id_def assms(3) by (rule find_update_rows) (use assms(1) in auto)
  moreover have "la_id l = k" if "launcher_by_id k s = Some l" for l
    using that by (auto simp: launcher_by_id_def find_Some_iff)
  ultimately show ?thesis
    using assms(1,2) by (auto simp: launcher_with_owner_def principal_by_id_def option.map_comp comp_def option.map_id split: option.splits)
qed

lemma changed_launcher_name [simp]:
  "changed_launcher (Some nm) None = la_name_update (\<lambda>_. nm)" "changed_launcher None None l = l"
  by (simp_all add: changed_launcher_def fun_eq_iff)

lemma launcher_change_tx_Inr:
  assumes "store_ok s" and "launcher_change_tx io i name enabled s n = (s', n', Inr res)"
  shows "s' = relaunched i name enabled s" and "has_launcher i s"
    and "lc_RevokedSessionIDs res = (if enabled = Some False then session_ids_of (\<lambda>y. se_launcher y = i) s else [])"
    and "lc_AdmissionClosed res = map_option (\<lambda>_. launcher_closed s' i) enabled"
proof -
  obtain l p t k where own: "launcher_with_owner i s = Some (l, p)"
    and t: "case name of None \<Rightarrow> t = s | Some nm \<Rightarrow> rename_launcher i nm s = Inr t"
    and run: "(case enabled of
           None \<Rightarrow> db_return \<lparr>lc_Changed = False, lc_RevokedSessionIDs = [], lc_AdmissionClosed = None\<rparr>
         | Some newEnabled \<Rightarrow> launcher_enabled_tx io i (la_enabled l) (pr_enabled p) newEnabled) t k = (s', n', Inr res)"
    using assms(2) by (cases enabled; cases name) (auto simp: launcher_change_tx_def db_then_Inr db_simps split: option.splits)
  have l: "l \<in> set (launchers s)" "la_id l = i" using own launcher_with_owner_iff [OF assms(1)] by blast+
  have t': "t = relaunched i name None s"
    using t by (auto simp: relaunched_def update_rows_ident dest!: rename_launcher_Inr split: option.splits)
  show s': "s' = relaunched i name enabled s"
  proof (cases enabled)
    case None
    then show ?thesis using run t' by simp
  next
    case (Some b)
    have same: "la_enabled x = la_enabled l" if "x \<in> set (launchers s)" "la_id x = i" for x
      using launcher_key(1) [OF assms(1) that(1) l(1)] that(2) l(2) by simp
    have "launchers s' = update_rows (\<lambda>l. la_id l = i) (changed_launcher name (Some b)) (launchers s)"
      using run Some launcher_enabled_tx_Inr [of io i "la_enabled l" "pr_enabled p" b t k s' n' res] same
      by (auto simp: t' relaunched_def update_rows_compose changed_launcher_def intro!: update_rows_cong split: option.splits)
    then show ?thesis
      using run Some launcher_enabled_tx_Inr [of io i "la_enabled l" "pr_enabled p" b t k s' n' res]
      by (auto simp: t' relaunched_def delete_sessions_commute)
  qed
  show "has_launcher i s" using l by (auto simp: has_launcher_iff)
  have "launcher_with_owner i s' = Some (changed_launcher name enabled l, p)"
    using owner_of_updated [of i "changed_launcher name enabled" s' s i] own by (simp add: s' relaunched_def changed_launcher_def)
  then have cl: "launcher_closed s' i \<longleftrightarrow> \<not> pr_enabled p \<or> \<not> la_enabled (changed_launcher name enabled l)"
    by (simp add: launcher_closed_def)
  show "lc_RevokedSessionIDs res = (if enabled = Some False then session_ids_of (\<lambda>y. se_launcher y = i) s else [])"
    "lc_AdmissionClosed res = map_option (\<lambda>_. launcher_closed s' i) enabled"
    using run cl
    by (auto simp: t' relaunched_def session_ids_of_def changed_launcher_def split: option.splits dest!: launcher_enabled_tx_Inr)
qed

lemma persist_launcher_store:
  assumes "store_ok s" and "persistLauncherChange io i name enabled s n = (s', n', r)"
  obtains (unchanged) "s' = s" and "\<And>b. r \<noteq> Inr b"
    | (changed) "s' = relaunched i name enabled s" and "has_launcher i s"
      and "\<And>res. r = Inr res \<Longrightarrow>
        lc_RevokedSessionIDs res = (if enabled = Some False then session_ids_of (\<lambda>y. se_launcher y = i) s else [])"
      and "\<And>res. r = Inr res \<Longrightarrow> lc_AdmissionClosed res = map_option (\<lambda>_. launcher_closed s' i) enabled"
proof -
  consider "s' = s \<and> (\<forall>b. r \<noteq> Inr b)" | k where "with_tx io (launcher_change_tx io i name enabled) s k = (s', n', r)"
    using assms(2) by (auto simp: persistLauncherChange_def db_then_result split: if_splits option.splits sum.splits)
  then show thesis
  proof cases
    case 1
    then show thesis using unchanged by blast
  next
    case 2
    from with_tx_store [OF this] show thesis
    proof (elim disjE exE conjE)
      fix m b
      assume "launcher_change_tx io i name enabled s (Suc k) = (s', m, Inr b)" and "\<forall>c. r = Inr c \<longrightarrow> c = b"
      with launcher_change_tx_Inr [OF assms(1)] show thesis using changed by metis
    qed (use unchanged in blast)
  qed
qed

lemma closed_of_row:
  assumes "store_ok s" and "l \<in> set (launchers s)" and "p \<in> set (principals s)" and "pr_id p = la_principal l"
  shows "launcher_closed s (la_id l) \<longleftrightarrow> \<not> pr_enabled p \<or> \<not> la_enabled l"
proof -
  have "launcher_with_owner (la_id l) s = Some (l, p)" using launcher_with_owner_iff [OF assms(1)] assms by blast
  then show ?thesis by (simp add: launcher_closed_def)
qed

definition reenabled :: "int \<Rightarrow> bool \<Rightarrow> store \<Rightarrow> store" where
  "reenabled i b s = (if b then s else delete_sessions (owned_session i s) s)\<lparr>
     principals := update_rows (\<lambda>p. pr_id p = i) (\<lambda>p. p\<lparr>pr_enabled := b\<rparr>) (principals s)\<rparr>"

lemma reenabled_ok: "store_ok s \<Longrightarrow> store_ok (reenabled i b s)"
proof -
  assume "store_ok s"
  then have "store_ok (s\<lparr>principals := update_rows (\<lambda>p. pr_id p = i) (\<lambda>p. p\<lparr>pr_enabled := b\<rparr>) (principals s)\<rparr>)" (is "store_ok ?t")
    by (intro update_principals_ok) auto
  from delete_sessions_ok [OF this, of "owned_session i s"] this show ?thesis
    by (cases b) (simp_all add: reenabled_def delete_sessions_commute)
qed

lemma owned_session_principals [simp]: "owned_session i (s\<lparr>principals := ps\<rparr>) = owned_session i s"
  by (simp add: owned_session_def launcher_ids_of_def fun_eq_iff)

lemma principal_enabled_tx_Inr:
  "principal_enabled_tx io i current b s n = (t, n', Inr (res, commit)) \<Longrightarrow>
     ec_Changed res = (current \<noteq> b) \<and> commit = (current \<noteq> b) \<and> t = (if current = b then s else reenabled i b s) \<and>
     ec_RevokedSessionIDs res = (if current = b \<or> b then [] else session_ids_of (owned_session i s) s) \<and>
     ec_LauncherAdmissions res = map (\<lambda>l. \<lparr>ad_LauncherID = la_id l, ad_Closed = (\<not> b \<or> \<not> la_enabled l)\<rparr>)
       (filter (\<lambda>l. la_principal l = i) (launchers s))"
  by (auto simp: principal_enabled_tx_def db_then_Inr db_simps launcherAdmissionsInTx_def reenabled_def delete_sessions_def
      session_ids_of_def split: if_splits)

lemma principal_change_tx_Inr:
  assumes "store_ok s" and "principal_change_tx io u b s n = (t, n', Inr x)"
  obtains p k where "principal_by_username u s = Some p" and "principal_enabled_tx io (pr_id p) (pr_enabled p) b s k = (t, n', Inr x)"
proof -
  obtain p q k where p: "principal_by_username u s = Some p" "principal_by_id (pr_id p) s = Some q"
    and run: "principal_enabled_tx io (pr_id p) (pr_enabled q) b s k = (t, n', Inr x)"
    using assms(2) by (auto simp: principal_change_tx_def db_then_Inr db_simps findPrincipalIDByUsernameInTx_def split: option.splits)
  have "p = q"
    using p principal_lookup_iff [OF assms(1)] store_okD(1) [OF assms(1)] by (metis distinct_map_eqD principals_ok_def)
  then show thesis using that p run by blast
qed

lemma persist_principal_store:
  assumes "store_ok s" and "persistPrincipalEnabledChange io u b s n = (s', n', r)"
  obtains (unchanged) "s' = s" and "\<And>res. r \<noteq> Inr res"
    | (committed) p where "principal_by_username u s = Some p" and "s' = (if pr_enabled p = b then s else reenabled (pr_id p) b s)"
      and "\<And>res. r = Inr res \<Longrightarrow> ec_RevokedSessionIDs res =
         (if pr_enabled p = b \<or> b then [] else session_ids_of (owned_session (pr_id p) s) s) \<and> ec_Changed res = (pr_enabled p \<noteq> b) \<and>
         ec_LauncherAdmissions res = map (\<lambda>l. \<lparr>ad_LauncherID = la_id l, ad_Closed = (\<not> b \<or> \<not> la_enabled l)\<rparr>)
           (filter (\<lambda>l. la_principal l = pr_id p) (launchers s))"
proof (cases "u = []")
  case True
  then show thesis using assms(2) unchanged by (auto simp: persistPrincipalEnabledChange_def)
next
  case False
  from assms(2) [unfolded persistPrincipalEnabledChange_def if_not_P [OF False], THEN with_tx_rollback_store] show thesis
  proof (elim disjE exE conjE)
    fix m t x
    assume "principal_change_tx io u b s (Suc n) = (t, m, Inr x)" and s': "s' = (if snd x then t else s)" "\<forall>c. r = Inr c \<longrightarrow> c = fst x"
    then obtain p k where p: "principal_by_username u s = Some p"
      and run: "principal_enabled_tx io (pr_id p) (pr_enabled p) b s k = (t, m, Inr x)"
      using principal_change_tx_Inr [OF assms(1)] by blast
    from principal_enabled_tx_Inr [of io "pr_id p" "pr_enabled p" b s k t m "fst x" "snd x"] run s' p show thesis
      by (intro committed [of p]) auto
  qed (use unchanged in blast)
qed

lemma delete_principal_store:
  assumes "deletePrincipal io u s n = (s', n', r)"
  obtains (unchanged) "s' = s" and "\<And>ids. r \<noteq> Inr ids"
    | (deleted) p where "principal_by_username u s = Some p"
      and "delete_principal_row (pr_id p) (delete_sessions (owned_session (pr_id p) s) s) = Inr s'"
      and "\<And>ids. r = Inr ids \<Longrightarrow> ids = session_ids_of (owned_session (pr_id p) s) s"
  using assms [unfolded deletePrincipal_def, THEN with_tx_store]
proof (elim disjE exE conjE)
  fix m ids
  assume "delete_principal_tx io u s (Suc n) = (s', m, Inr ids)" and r: "\<forall>c. r = Inr c \<longrightarrow> c = ids"
  then obtain p where "principal_by_username u s = Some p"
      "delete_principal_row (pr_id p) (delete_sessions (owned_session (pr_id p) s) s) = Inr s'"
      "ids = session_ids_of (owned_session (pr_id p) s) s"
    by (auto simp: delete_principal_tx_def db_then_Inr db_simps findPrincipalIDByUsernameInTx_def split: option.splits)
  then show thesis using deleted r by blast
qed (use unchanged in blast)

lemma delete_launcher_row_store:
  assumes "deleteLauncherRow io i s n = (s', n', r)"
  obtains (unchanged) "s' = s" and "\<And>u. r \<noteq> Inr u"
    | (deleted) "has_launcher i s" and "delete_launcher i s = Inr s'"
  using assms [unfolded deleteLauncherRow_def, THEN with_tx_store]
proof (elim disjE exE conjE)
  fix m u
  assume "db_then (query io (\<lambda>s. Inr (length (filter (\<lambda>l. la_id l = i) (launchers s))))) (\<lambda>exists.
         if exists = 0 then db_fail ErrLauncherNotFound
         else exec io (\<lambda>s. no_result (or_fail (delete_launcher i s)))) s (Suc n) = (s', m, Inr u)"
  then have "filter (\<lambda>l. la_id l = i) (launchers s) \<noteq> []" "delete_launcher i s = Inr s'"
    by (auto simp: db_then_Inr db_simps split: if_splits)
  then show thesis using deleted by (auto simp: has_launcher_iff filter_empty_conv)
qed (use unchanged in blast)

end
