(* ===== verification/Sessions.thy ===== *)
theory Sessions
  imports Operator_Auth AppArmor Lifecycle
begin

text \<open>
  session.go and the create policy of session\_control.go: creating a Session under an authenticated
  authority, listing, finding and deleting Sessions within a scope, and the authentication of Session
  bearers. A create resolves its Launcher and effective policy, admits the workspace and the
  requested roots against that policy, issues the immutable snapshot, prepares the MAC boundaries and
  commits the Session row with its snapshot in one transaction that re-proves the Launcher, the
  Principal and the authorizing credential. The lifecycle lock is held throughout, so the program is
  sequential; the clock, in nanoseconds, the random source and the host filesystem are parameters.
\<close>

section \<open>Sessions\<close>

record Session =
  ses_ID :: string
  ses_Workspace :: string
  ses_CreatedAt :: int
  ses_ExpiresAt :: int
  ses_LauncherID :: string
  ses_LauncherName :: string
  ses_PrincipalName :: string

record CreatedSession =
  cs_Session :: Session
  cs_Token :: string
  cs_FilesystemSnapshot :: sessionFilesystemSnapshot

abbreviation second :: int where "second \<equiv> 1000000000"

text \<open>\<^verbatim>\<open>t.Unix()\<close>: whole seconds.\<close>

definition unix :: "int \<Rightarrow> int" where
  "unix t = t div second"

definition scanSessionWithOwnership :: "session_row \<times> launcher_row \<times> principal_row \<Rightarrow> Session" where
  "scanSessionWithOwnership r = (case r of (x, l, p) \<Rightarrow>
     \<lparr>ses_ID = se_id x, ses_Workspace = se_workspace x, ses_CreatedAt = se_created x * second,
      ses_ExpiresAt = se_expires x * second, ses_LauncherID = se_launcher x, ses_LauncherName = la_name l,
      ses_PrincipalName = pr_username p\<rparr>)"

text \<open>The rows of the one join every Session query uses.\<close>

definition sessionOwnershipProjection :: "store \<Rightarrow> (session_row \<times> launcher_row \<times> principal_row) list" where
  "sessionOwnershipProjection s =
     concat (map (\<lambda>x. case launcher_with_owner (se_launcher x) s of None \<Rightarrow> [] | Some (l, p) \<Rightarrow> [(x, l, p)]) (sessions s))"

definition sessionIDPrefix :: string where "sessionIDPrefix = ''dhs_''"
definition sessionIDHexLength :: nat where "sessionIDHexLength = 32"

definition generateOpaqueToken :: "nat list option \<Rightarrow> (go_error, string) result" where
  "generateOpaqueToken r = from_random ''dht_'' r"

definition generateSessionToken :: "nat list option \<Rightarrow> (go_error, string) result" where
  "generateSessionToken r = generateOpaqueToken r"

definition classifyCreateSessionError :: "go_error \<Rightarrow> string" where
  "classifyCreateSessionError e =
     (if errors_Is e ErrInvalidWorkspace then ''invalid_workspace''
      else if errors_Is e ErrInvalidSessionFilesystemPolicy then ''invalid_filesystem_policy''
      else if errors_Is e ErrLifecycleBusy then ''lifecycle_busy''
      else if errors_Is e ErrDatabase then ''database_error''
      else if errors_Is e ErrSystem then ''system_error''
      else if errors_Is e ErrMAC then ''mac_preparation_failed''
      else ''unknown_error'')"

section \<open>The create policy\<close>

record sessionFilesystemRootEntry =
  fr_Path :: string
  fr_Access :: string

record sessionCreateCredentialAuthority =
  ca_credentialID :: string
  ca_principalID :: int
  ca_launcherID :: string

record sessionCreatePolicy =
  cp_Workspace :: string
  cp_EffectiveAllowedRoots :: "AllowedRootEntry list"
  cp_EffectiveAllowedRootPaths :: "string list"
  cp_FilesystemRoots :: "sessionFilesystemRootEntry list"
  cp_LauncherID :: string
  cp_LauncherName :: string
  cp_PrincipalName :: string
  cp_Credential :: "sessionCreateCredentialAuthority option"

definition loadSessionOwnershipSnapshot :: "db_io \<Rightarrow> string \<Rightarrow> sessionOwnershipSnapshot db" where
  "loadSessionOwnershipSnapshot io launcherID =
     db_then (query io (\<lambda>s. case launcher_with_owner launcherID s of
         None \<Rightarrow> err ErrLauncherNotFound
       | Some (l, p) \<Rightarrow> Inr \<lparr>snap_launcherID = la_id l, snap_launcherName = la_name l, snap_launcherEnabled = la_enabled l,
           snap_launcherScope = la_scope l, snap_launcherRoots = [], snap_principalID = pr_id p,
           snap_principalName = pr_username p, snap_principalEnabled = pr_enabled p, snap_principalRoots = []\<rparr>)) (\<lambda>snap.
       db_then (if snap_launcherScope snap = LauncherScopeRestricted
                then query io (\<lambda>s. Inr (stored_roots launcherID (launcher_allowed_roots s))) else db_return []) (\<lambda>launcherRoots.
         db_then (query io (\<lambda>s. Inr (stored_roots (snap_principalID snap) (principal_allowed_roots s)))) (\<lambda>principalRoots.
           db_return (snap\<lparr>snap_launcherRoots := launcherRoots, snap_principalRoots := principalRoots\<rparr>))))"

definition resolveSessionOwnershipSnapshot :: "db_io \<Rightarrow> string \<Rightarrow> sessionOwnershipSnapshot db" where
  "resolveSessionOwnershipSnapshot io launcherID = with_tx io (loadSessionOwnershipSnapshot io launcherID)"

definition sessionCreateCredentialAuthorityOf ::
    "operatorAuthority option \<Rightarrow> (go_error, sessionCreateCredentialAuthority option) result" where
  "sessionCreateCredentialAuthorityOf auth =
     (case auth of
        None \<Rightarrow> Inr None
      | Some a \<Rightarrow>
          if oa_class a = operatorAuthorityPrincipal then
            (case oa_principal a of
               None \<Rightarrow> err GoPanic
             | Some p \<Rightarrow> Inr (Some \<lparr>ca_credentialID = pa_CredentialID p, ca_principalID = pa_PrincipalID p, ca_launcherID = []\<rparr>))
          else if oa_class a = operatorAuthorityLauncher then
            (case oa_launcher a of
               None \<Rightarrow> err GoPanic
             | Some l \<Rightarrow> Inr (Some \<lparr>ca_credentialID = ha_CredentialID l, ca_principalID = 0, ca_launcherID = ha_LauncherID l\<rparr>))
          else Inr None)"

definition resolveCreatePolicy ::
    "db_io \<Rightarrow> host_fs \<Rightarrow> AllowedRootEntry list \<Rightarrow> operatorAuthority option \<Rightarrow> createSelector \<Rightarrow> string \<Rightarrow>
     sessionFilesystemRootEntry list \<Rightarrow> sessionCreatePolicy db" where
  "resolveCreatePolicy io fs config_roots auth sel workspace filesystemRoots =
     db_then (resolveCreateLauncher io auth sel) (\<lambda>launcherID.
     db_then (resolveSessionOwnershipSnapshot io launcherID) (\<lambda>snap.
       if \<not> snap_launcherEnabled snap \<or> \<not> snap_principalEnabled snap then db_fail ErrLauncherUnavailable
       else case appResolvedGlobalRootEntries fs config_roots of
           Inl _ \<Rightarrow> db_fail ErrSystem
         | Inr globalEntries \<Rightarrow>
             db_then (db_result (effectiveLauncherAllowedRoots globalEntries snap)) (\<lambda>effectiveEntries.
             db_then (db_result (sessionCreateCredentialAuthorityOf auth)) (\<lambda>credential.
               db_return \<lparr>cp_Workspace = workspace, cp_EffectiveAllowedRoots = effectiveEntries,
                 cp_EffectiveAllowedRootPaths = allowedRootPaths effectiveEntries, cp_FilesystemRoots = filesystemRoots,
                 cp_LauncherID = snap_launcherID snap, cp_LauncherName = snap_launcherName snap,
                 cp_PrincipalName = snap_principalName snap, cp_Credential = credential\<rparr>))))"

section \<open>Admission of the workspace and the requested roots\<close>

definition host_Abs :: "host_fs \<Rightarrow> string \<Rightarrow> string option" where
  "host_Abs fs path =
     (if filepath_IsAbs path then Some (filepath_Clean path)
      else map_option (\<lambda>wd. filepath_Abs wd path) (fs_cwd fs))"

text \<open>The raw spelling is admitted lexically before the host filesystem is probed at all.\<close>

definition admitSessionWorkspace :: "host_fs \<Rightarrow> string \<Rightarrow> string list \<Rightarrow> (go_error, string) result" where
  "admitSessionWorkspace fs workspace roots =
     (case host_Abs fs workspace of
        None \<Rightarrow> err ErrInvalidWorkspace
      | Some absWorkspace \<Rightarrow>
         if roots = [] then err ErrInvalidWorkspace
         else let rawSpelling = filepath_Clean absWorkspace in
         if \<not> isWithinAnyAllowedRoot rawSpelling roots then err ErrInvalidWorkspace
         else case validateHostPathText rawSpelling of
           Inl _ \<Rightarrow> err ErrInvalidWorkspace
         | Inr _ \<Rightarrow>
            (case fs_eval fs absWorkspace of
               Inl _ \<Rightarrow> err ErrInvalidWorkspace
             | Inr resolved \<Rightarrow>
                (case fs_stat fs resolved of
                   Inl _ \<Rightarrow> err ErrInvalidWorkspace
                 | Inr k \<Rightarrow>
                    if k \<noteq> KindDir then err ErrInvalidWorkspace
                    else case validateHostPathText resolved of
                      Inl _ \<Rightarrow> err ErrInvalidWorkspace
                    | Inr _ \<Rightarrow>
                        if list_ex (\<lambda>root. resolved \<noteq> root \<and> pathWithin root resolved) roots then Inr resolved
                        else err ErrInvalidWorkspace)))"

definition canonicalize_root :: "host_fs \<Rightarrow> string list \<Rightarrow> sessionFilesystemRootEntry \<Rightarrow> (go_error, AllowedRootEntry) result" where
  "canonicalize_root fs ceilingPaths root =
     (if fr_Path root = [] \<or> \<not> filepath_IsAbs (fr_Path root) then err ErrInvalidSessionFilesystemPolicy
      else case parseAllowedRootAccess (fr_Access root) of
        Inl _ \<Rightarrow> err ErrInvalidSessionFilesystemPolicy
      | Inr access \<Rightarrow>
         (let cleaned = filepath_Clean (fr_Path root) in
          if \<not> isWithinAnyAllowedRoot cleaned ceilingPaths then err ErrInvalidSessionFilesystemPolicy
          else case validateHostPathText cleaned of
            Inl _ \<Rightarrow> err ErrInvalidSessionFilesystemPolicy
          | Inr _ \<Rightarrow>
             (case fs_eval fs cleaned of
                Inl _ \<Rightarrow> err ErrInvalidSessionFilesystemPolicy
              | Inr resolved \<Rightarrow>
                 (case fs_stat fs resolved of
                    Inl _ \<Rightarrow> err ErrInvalidSessionFilesystemPolicy
                  | Inr k \<Rightarrow>
                     if k \<noteq> KindDir \<and> k \<noteq> KindRegular then err ErrInvalidSessionFilesystemPolicy
                     else case validateHostPathText resolved of
                       Inl _ \<Rightarrow> err ErrInvalidSessionFilesystemPolicy
                     | Inr _ \<Rightarrow> Inr (mk_entry resolved access)))))"

fun canonicalize_roots_loop ::
    "host_fs \<Rightarrow> string list \<Rightarrow> sessionFilesystemRootEntry list \<Rightarrow> (go_error, AllowedRootEntry list) result" where
  "canonicalize_roots_loop fs ceilingPaths [] = Inr []"
| "canonicalize_roots_loop fs ceilingPaths (root # roots) =
     and_then (canonicalize_root fs ceilingPaths root) (\<lambda>e.
       and_then (canonicalize_roots_loop fs ceilingPaths roots) (\<lambda>es. Inr (e # es)))"

definition canonicalizeSessionFilesystemRoots ::
    "host_fs \<Rightarrow> sessionFilesystemRootEntry list \<Rightarrow> string list \<Rightarrow> (go_error, AllowedRootEntry list) result" where
  "canonicalizeSessionFilesystemRoots fs roots ceilingPaths =
     and_then (canonicalize_roots_loop fs ceilingPaths roots) (\<lambda>canonical.
       if validateCanonicalAllowedRootEntries canonical \<noteq> None then err ErrInvalidSessionFilesystemPolicy
       else Inr canonical)"

text \<open>The entries of the snapshot: requested roots narrowed by the ceiling, or the inherited derivation.\<close>

definition issueSessionSnapshot :: "host_fs \<Rightarrow> sessionCreatePolicy \<Rightarrow> string \<Rightarrow> (go_error, sessionFilesystemSnapshot) result" where
  "issueSessionSnapshot fs p absWorkspace =
     and_then
       (if cp_FilesystemRoots p \<noteq> [] then
          and_then (canonicalizeSessionFilesystemRoots fs (cp_FilesystemRoots p) (cp_EffectiveAllowedRootPaths p))
            (narrowSessionFilesystemPolicy (cp_EffectiveAllowedRoots p) absWorkspace)
        else (case deriveSessionFilesystemSnapshot (cp_EffectiveAllowedRoots p) absWorkspace of
            Inl _ \<Rightarrow> io_err | Inr derived \<Rightarrow> Inr (Entries derived)))
       (\<lambda>snapshotEntries.
          case newSessionFilesystemSnapshot absWorkspace snapshotEntries of Inl _ \<Rightarrow> io_err | Inr snapshot \<Rightarrow> Inr snapshot)"

section \<open>The commit\<close>

definition launcher_available :: "string \<Rightarrow> store \<Rightarrow> bool" where
  "launcher_available launcherID s =
     (case launcher_with_owner launcherID s of None \<Rightarrow> False | Some (l, p) \<Rightarrow> la_enabled l \<and> pr_enabled p)"

text \<open>The credential row that authenticated the request, under the owner it authenticated.\<close>

definition authorizing_row :: "sessionCreateCredentialAuthority \<Rightarrow> credential_row \<Rightarrow> bool" where
  "authorizing_row cred c \<longleftrightarrow> cr_id c = ca_credentialID cred \<and>
     (if ca_launcherID cred \<noteq> [] then cr_launcher c = Some (ca_launcherID cred)
      else cr_principal c = Some (ca_principalID cred) \<and> cr_launcher c = None)"

definition credential_live :: "sessionCreateCredentialAuthority option \<Rightarrow> store \<Rightarrow> bool" where
  "credential_live cred s =
     (case cred of
        None \<Rightarrow> True
      | Some ca \<Rightarrow> list_ex (\<lambda>c. authorizing_row ca c \<and> cr_revoked c = None) (credentials s))"

definition classifyStaleSessionCreateAuthority :: "db_io \<Rightarrow> sessionCreatePolicy \<Rightarrow> 'a db" where
  "classifyStaleSessionCreateAuthority io p =
     db_then (query io (\<lambda>s. Inr (launcher_available (cp_LauncherID p) s))) (\<lambda>available.
       if \<not> available then db_fail ErrLauncherUnavailable
       else case cp_Credential p of
           None \<Rightarrow> db_fail ErrDatabase
         | Some ca \<Rightarrow>
             db_then (query io (\<lambda>s. case find (authorizing_row ca) (credentials s) of
                 None \<Rightarrow> err ErrCredentialNotFound | Some c \<Rightarrow> Inr (cr_revoked c))) (\<lambda>revokedAt.
               if revokedAt \<noteq> None then db_fail ErrCredentialRevoked else db_fail ErrDatabase))"

definition insertSession ::
    "(string \<Rightarrow> string) \<Rightarrow> db_io \<Rightarrow> sessionCreatePolicy \<Rightarrow> session_row \<Rightarrow> AllowedRootEntry list \<Rightarrow> unit db" where
  "insertSession hash io p row entries =
     with_tx io
       (db_then (exec io (\<lambda>s.
            if launcher_available (cp_LauncherID p) s \<and> credential_live (cp_Credential p) s
            then (case insert_session row s of Inl _ \<Rightarrow> io_err | Inr s' \<Rightarrow> Inr (s', True))
            else Inr (s, False))) (\<lambda>inserted.
          if \<not> inserted then classifyStaleSessionCreateAuthority io p
          else insertSessionFilesystemSnapshot hash io (se_id row) entries))"

record session_inputs =
  in_id :: "nat list option"
  in_token :: "nat list option"
  in_now :: int
  in_ttl :: int

definition wrap_create_error :: "bool \<Rightarrow> go_error \<Rightarrow> go_error" where
  "wrap_create_error coordinated e =
     (if errors_Is e ErrLauncherUnavailable \<or> errors_Is e ErrCredentialRevoked \<or> errors_Is e ErrCredentialNotFound then e
      else if coordinated \<and> errors_Is e ErrMACPreparation then e @ [ErrMAC]
      else e @ [ErrDatabase])"

text \<open>
  The coordinator is nil where the host has no MAC back end (\<^term>\<open>coordinated\<close> is false).
\<close>

definition commitSession ::
    "'d mac_env \<Rightarrow> bool \<Rightarrow> sessionCreatePolicy \<Rightarrow> session_row \<Rightarrow> sessionFilesystemSnapshot \<Rightarrow> ('d, (go_error, unit) result) mac" where
  "commitSession env coordinated p row snapshot = do {
     r \<leftarrow> (if coordinated then do {
             b \<leftarrow> CreateSessionBinding env (se_id row) (sessionMACBoundaries snapshot)
                    (\<lambda>_. insertSession (me_hash env) (me_db env) p row (Entries snapshot));
             ret (map_sum id (\<lambda>_. ()) b) }
           else mac_db (insertSession (me_hash env) (me_db env) p row (Entries snapshot)));
     ret (map_sum (wrap_create_error coordinated) id r) }"

definition createSessionWithPolicyLocked ::
    "'d mac_env \<Rightarrow> bool \<Rightarrow> host_fs \<Rightarrow> session_inputs \<Rightarrow> sessionCreatePolicy \<Rightarrow> ('d, (go_error, CreatedSession) result) mac" where
  "createSessionWithPolicyLocked env coordinated fs x p =
     (if cp_Workspace p = [] then ret (err ErrInvalidWorkspace)
      else if cp_LauncherID p = [] then ret (err ErrInvalidWorkspace)
      else or_return (ret (admitSessionWorkspace fs (cp_Workspace p) (cp_EffectiveAllowedRootPaths p))) (\<lambda>absWorkspace.
        or_return (ret (issueSessionSnapshot fs p absWorkspace)) (\<lambda>snapshot.
        or_return (ret (case in_id x of None \<Rightarrow> err ErrSystem | Some b \<Rightarrow> Inr (sessionIDPrefix @ hex_encode b))) (\<lambda>sessionID.
        or_return (ret (case generateSessionToken (in_token x) of Inl e \<Rightarrow> Inl (e @ [ErrSystem]) | Inr t \<Rightarrow> Inr t)) (\<lambda>token.
        or_return (commitSession env coordinated p
            \<lparr>se_id = sessionID, se_hash = me_hash env token, se_workspace = absWorkspace, se_created = unix (in_now x),
             se_expires = unix (in_now x + in_ttl x), se_launcher = cp_LauncherID p\<rparr> snapshot) (\<lambda>_.
          ret (Inr \<lparr>cs_Session = \<lparr>ses_ID = sessionID, ses_Workspace = absWorkspace, ses_CreatedAt = in_now x,
              ses_ExpiresAt = in_now x + in_ttl x, ses_LauncherID = cp_LauncherID p, ses_LauncherName = cp_LauncherName p,
              ses_PrincipalName = cp_PrincipalName p\<rparr>, cs_Token = token, cs_FilesystemSnapshot = snapshot\<rparr>)))))))"

text \<open>\<^term>\<open>busy\<close>: the lifecycle lock is held by another transition.\<close>

definition createSessionAuthorized ::
    "'d mac_env \<Rightarrow> bool \<Rightarrow> host_fs \<Rightarrow> AllowedRootEntry list \<Rightarrow> session_inputs \<Rightarrow> bool \<Rightarrow> operatorAuthority option \<Rightarrow>
     createSelector \<Rightarrow> string \<Rightarrow> sessionFilesystemRootEntry list \<Rightarrow> ('d, (go_error, CreatedSession) result) mac" where
  "createSessionAuthorized env coordinated fs config_roots x busy auth sel workspace filesystemRoots =
     (if busy then ret (err ErrLifecycleBusy)
      else or_return (mac_db (resolveCreatePolicy (me_db env) fs config_roots auth sel workspace filesystemRoots))
             (createSessionWithPolicyLocked env coordinated fs x))"

section \<open>Scoped access\<close>

definition sessionScopePredicate :: "sessionControlScope \<Rightarrow> session_row \<times> launcher_row \<times> principal_row \<Rightarrow> bool" where
  "sessionScopePredicate scope r = (case r of (x, l, p) \<Rightarrow>
     if sc_admin scope then True
     else if sc_launcherID scope \<noteq> [] then se_launcher x = sc_launcherID scope
     else if sc_principalID scope \<noteq> 0 then la_principal l = sc_principalID scope
     else False)"

definition sessionDeletePredicate :: "sessionControlScope \<Rightarrow> store \<Rightarrow> session_row \<Rightarrow> bool" where
  "sessionDeletePredicate scope s x \<longleftrightarrow>
     (if sc_admin scope then True
      else if sc_launcherID scope \<noteq> [] then se_launcher x = sc_launcherID scope
      else if sc_principalID scope \<noteq> 0 then se_launcher x \<in> set (launcher_ids_of (sc_principalID scope) s)
      else False)"

definition listSessionsInScope :: "db_io \<Rightarrow> int \<Rightarrow> sessionControlScope \<Rightarrow> Session list db" where
  "listSessionsInScope io now scope =
     query io (\<lambda>s. Inr (map scanSessionWithOwnership (sort_key (\<lambda>(x, l, p). se_created x)
       (filter (\<lambda>(x, l, p). unix now < se_expires x \<and> sessionScopePredicate scope (x, l, p)) (sessionOwnershipProjection s)))))"

definition session_in_scope :: "string \<Rightarrow> sessionControlScope \<Rightarrow> store \<Rightarrow> Session option" where
  "session_in_scope i scope s =
     map_option scanSessionWithOwnership
       (find (\<lambda>(x, l, p). se_id x = i \<and> sessionScopePredicate scope (x, l, p)) (sessionOwnershipProjection s))"

text \<open>A failed lookup is the database error, the missing row the not-found error.\<close>

definition findSessionInScope :: "db_io \<Rightarrow> string \<Rightarrow> sessionControlScope \<Rightarrow> Session db" where
  "findSessionInScope io i scope =
     db_then (db_try (query io (\<lambda>s. Inr (session_in_scope i scope s)))) (\<lambda>r.
       case r of
         Inl e \<Rightarrow> db_result (Inl (e @ [ErrDatabase]))
       | Inr None \<Rightarrow> db_fail ErrSessionNotFound
       | Inr (Some x) \<Rightarrow> db_return x)"

text \<open>An error of the deletion itself is returned together with the Session found.\<close>

definition deleteSessionScoped ::
    "'d mac_env \<Rightarrow> bool \<Rightarrow> string \<Rightarrow> sessionControlScope \<Rightarrow> ('d, (go_error \<times> Session option, Session) result) mac" where
  "deleteSessionScoped env coordinated i scope = do {
     found \<leftarrow> mac_db (findSessionInScope (me_db env) i scope);
     case found of
       Inl e \<Rightarrow> ret (Inl (e, None))
     | Inr x \<Rightarrow> do {
         deleted \<leftarrow> mac_db (exec (me_db env) (\<lambda>s. let P = (\<lambda>r. se_id r = i \<and> sessionDeletePredicate scope s r) in
                       Inr (delete_sessions P s, length (filter P (sessions s)))));
         case deleted of
           Inl e \<Rightarrow> ret (Inl (e @ [ErrDatabase], Some x))
         | Inr rowsAffected \<Rightarrow>
             if rowsAffected = 0 then ret (Inl ([ErrSessionNotFound], None))
             else do {
               (if coordinated then ReleaseSessionBinding env i else ret ());
               ret (Inr x) } } }"

section \<open>The Session bearer\<close>

definition session_by_hash :: "int \<Rightarrow> string \<Rightarrow> store \<Rightarrow> Session option" where
  "session_by_hash now h s =
     map_option scanSessionWithOwnership
       (find (\<lambda>(x, l, p). se_hash x = h \<and> unix now < se_expires x \<and> la_enabled l \<and> pr_enabled p) (sessionOwnershipProjection s))"

definition findSessionByTokenQuerier :: "(string \<Rightarrow> string) \<Rightarrow> db_io \<Rightarrow> int \<Rightarrow> string \<Rightarrow> Session db" where
  "findSessionByTokenQuerier hash io now token =
     query io (\<lambda>s. case session_by_hash now (hash token) s of None \<Rightarrow> err ErrSessionNotFound | Some x \<Rightarrow> Inr x)"

definition findSessionByToken :: "(string \<Rightarrow> string) \<Rightarrow> db_io \<Rightarrow> int \<Rightarrow> string \<Rightarrow> Session db" where
  "findSessionByToken hash io now token = findSessionByTokenQuerier hash io now token"

definition resolveSessionExecutionIdentity :: "db_io \<Rightarrow> Session \<Rightarrow> (int \<times> int) db" where
  "resolveSessionExecutionIdentity io x =
     query io (\<lambda>s. case launcher_with_owner (ses_LauncherID x) s of
       None \<Rightarrow> err ErrDatabase | Some (l, p) \<Rightarrow> Inr (pr_uid p, pr_gid p))"

text \<open>The authority of one filesystem-consuming request: the live Session and its snapshot, of one transaction.\<close>

record sessionFilesystemAuthority =
  fa_Session :: Session
  fa_Snapshot :: sessionFilesystemSnapshot

datatype sessionAuthorityCaptureClass =
    sessionAuthorityCaptureNotFound | sessionAuthorityCaptureLookupDB | sessionAuthorityCaptureIntegrity
  | sessionAuthorityCaptureBegin | sessionAuthorityCaptureCommit

record sessionAuthorityCaptureError =
  ce_class :: sessionAuthorityCaptureClass
  ce_session :: "Session option"

definition captureSessionFilesystemAuthority ::
    "(string \<Rightarrow> string) \<Rightarrow> db_io \<Rightarrow> int \<Rightarrow> string \<Rightarrow>
     (sessionAuthorityCaptureError, sessionFilesystemAuthority) result db" where
  "captureSessionFilesystemAuthority hash io now token s n =
     (if io n \<noteq> Performed then (s, Suc n, Inr (Inl \<lparr>ce_class = sessionAuthorityCaptureBegin, ce_session = None\<rparr>))
      else case findSessionByTokenQuerier hash io now token s (Suc n) of
        (t, k, Inl e) \<Rightarrow>
          (t, k, Inr (Inl \<lparr>ce_class = (if errors_Is e ErrSessionNotFound then sessionAuthorityCaptureNotFound
                                     else sessionAuthorityCaptureLookupDB), ce_session = None\<rparr>))
      | (t, k, Inr x) \<Rightarrow>
         (case loadSessionFilesystemSnapshot hash io (ses_ID x) (ses_Workspace x) t k of
            (u, m, Inl e) \<Rightarrow> (u, m, Inr (Inl \<lparr>ce_class = sessionAuthorityCaptureIntegrity, ce_session = Some x\<rparr>))
          | (u, m, Inr snapshot) \<Rightarrow>
             (u, Suc m,
              if io m = Performed then Inr (Inr \<lparr>fa_Session = x, fa_Snapshot = snapshot\<rparr>)
              else Inr (Inl \<lparr>ce_class = sessionAuthorityCaptureCommit, ce_session = Some x\<rparr>))))"

section \<open>Runtime directories\<close>

definition sessionRuntimeDir :: "string \<Rightarrow> string \<Rightarrow> string" where
  "sessionRuntimeDir runtimeDir sessionID = filepath_Join [runtimeDir, ''sessions'', sessionID]"

definition sessionDockerDir :: "string \<Rightarrow> string \<Rightarrow> string" where
  "sessionDockerDir runtimeDir sessionID = filepath_Join [runtimeDir, ''sessions'', sessionID, ''docker'']"

text \<open>
  The entries of the sessions directory (name, and whether a directory) and the outcome of each
  removal are parameters; the result names the directories whose removal was attempted, in order.
\<close>

definition cleanupStaleSessionRuntimeDirs ::
    "db_io \<Rightarrow> int \<Rightarrow> string \<Rightarrow> (probe_error, (string \<times> bool) list) result \<Rightarrow> (string \<Rightarrow> bool) \<Rightarrow>
     (string list \<times> bool) db" where
  "cleanupStaleSessionRuntimeDirs io now runtimeDir readDir removed =
     db_then (query io (\<lambda>s. Inr (map se_id (filter (\<lambda>x. unix now < se_expires x) (sessions s))))) (\<lambda>active.
       case readDir of
         Inl ProbeNotExist \<Rightarrow> db_return ([], True)
       | Inl _ \<Rightarrow> db_result io_err
       | Inr entries \<Rightarrow>
           let stale = map (\<lambda>(name, d). filepath_Join [filepath_Join [runtimeDir, ''sessions''], name])
                 (filter (\<lambda>(name, d). d \<and> name \<notin> set active) entries)
           in db_return (stale, list_all removed stale))"

end
