(* ===== verification/Docker_Mount.thy ===== *)
theory Docker_Mount
  imports Go_Text Errors
begin

text \<open>
  docker\_mount\_spec.go: the one serializer of Docker \<^verbatim>\<open>--mount\<close> arguments. A mount is
  written as one CSV record with Go's encoding/csv, and the Docker command line reads that record with
  the same package. The writer and the reader of encoding/csv are modelled with the options both use:
  comma as separator, no comment character, strict quotes, no trimming and \<^verbatim>\<open>UseCRLF\<close> off.
\<close>

section \<open>Strings\<close>

fun strings_Contains :: "string \<Rightarrow> string \<Rightarrow> bool" where
  "strings_Contains [] sub = (sub = [])"
| "strings_Contains (c # cs) sub = (prefix sub (c # cs) \<or> strings_Contains cs sub)"

definition strings_TrimSuffix :: "string \<Rightarrow> string \<Rightarrow> string" where
  "strings_TrimSuffix s suf = (if suffix suf s then take (length s - length suf) s else s)"

text \<open>\<^verbatim>\<open>strings.Cut(s, "=")\<close>.\<close>

definition strings_Cut :: "char \<Rightarrow> string \<Rightarrow> string \<times> string \<times> bool" where
  "strings_Cut d s = (case dropWhile (\<lambda>c. c \<noteq> d) s of [] \<Rightarrow> (s, [], False) | _ # v \<Rightarrow> (takeWhile (\<lambda>c. c \<noteq> d) s, v, True))"

abbreviation CR :: char where "CR \<equiv> CHR 0x0D"
abbreviation LF :: char where "LF \<equiv> CHR 0x0A"
abbreviation dquote :: char where "dquote \<equiv> CHR 0x22"
abbreviation comma :: char where "comma \<equiv> CHR '',''"

section \<open>encoding/csv\<close>

definition csv_fieldNeedsQuotes :: "string \<Rightarrow> bool" where
  "csv_fieldNeedsQuotes field =
     (if field = [] then False
      else if field = [CHR 0x5C, CHR ''.''] then True
      else if list_ex (\<lambda>c. c = LF \<or> c = CR \<or> c = dquote \<or> c = comma) field then True
      else unicode_IsSpace (hd (rune_chunks field)))"

definition csv_escape :: "string \<Rightarrow> string" where
  "csv_escape field = concat (map (\<lambda>c. if c = dquote then [dquote, dquote] else [c]) field)"

definition csv_field :: "string \<Rightarrow> string" where
  "csv_field field = (if csv_fieldNeedsQuotes field then dquote # csv_escape field @ [dquote] else field)"

fun csv_record :: "string list \<Rightarrow> string" where
  "csv_record [] = []"
| "csv_record [f] = csv_field f"
| "csv_record (f # g # fs) = csv_field f @ comma # csv_record (g # fs)"

definition csv_Write :: "string list \<Rightarrow> string" where
  "csv_Write record_fields = csv_record record_fields @ [LF]"

text \<open>
  \<^verbatim>\<open>readLine\<close>: the next line with its newline, the rest of the input, and whether the input was at
  its end. A carriage return before the newline or before the end of the input is dropped.
\<close>

definition csv_normalize :: "string \<Rightarrow> string" where
  "csv_normalize line = (if suffix [CR, LF] line then take (length line - 2) line @ [LF] else line)"

definition csv_readLine :: "string \<Rightarrow> string \<times> string \<times> bool" where
  "csv_readLine inp =
     (case dropWhile (\<lambda>c. c \<noteq> LF) inp of
        [] \<Rightarrow> (if inp \<noteq> [] \<and> last inp = CR then butlast inp else inp, [], inp = [])
      | _ # rest \<Rightarrow> (csv_normalize (takeWhile (\<lambda>c. c \<noteq> LF) inp @ [LF]), rest, False))"

datatype csv_error = CsvEOF | CsvErrBareQuote | CsvErrQuote

lemma csv_normalize_length: "length (csv_normalize line) \<le> length line"
proof (cases "suffix [CR, LF] line")
  case True
  then obtain us where "line = us @ [CR, LF]" by (auto simp: suffix_def)
  then show ?thesis by (simp add: csv_normalize_def)
qed (simp add: csv_normalize_def)

lemma csv_readLine_size: "length (fst (csv_readLine inp)) + length (fst (snd (csv_readLine inp))) \<le> length inp"
proof (cases "dropWhile (\<lambda>c. c \<noteq> LF) inp")
  case Nil
  show ?thesis unfolding csv_readLine_def Nil by simp
next
  case (Cons c r)
  have "length (takeWhile (\<lambda>c. c \<noteq> LF) inp) + length (c # r) = length inp"
    using takeWhile_dropWhile_id [of "\<lambda>c. c \<noteq> LF" inp] Cons by (metis length_append)
  then show ?thesis
    using csv_normalize_length [of "takeWhile (\<lambda>c. c \<noteq> LF) inp @ [LF]"] unfolding csv_readLine_def Cons by simp
qed

lemma dropWhile_shorter: "dropWhile P xs = y # ys \<Longrightarrow> length ys < length xs"
  using length_dropWhile_le [of P xs] by simp

text \<open>
  The field loop of \<^verbatim>\<open>readRecord\<close>: the fields so far, the current line and the input after it. A
  quoted field may go on over several lines.
\<close>

function (sequential) csv_parseField :: "string list \<Rightarrow> string \<Rightarrow> string \<Rightarrow> (csv_error, string list \<times> string) result"
  and csv_quoted :: "string list \<Rightarrow> string \<Rightarrow> string \<Rightarrow> string \<Rightarrow> (csv_error, string list \<times> string) result" where
  "csv_parseField fs line inp =
     (if line \<noteq> [] \<and> hd line = dquote then csv_quoted fs [] (tl line) inp
      else case dropWhile (\<lambda>c. c \<noteq> comma) line of
          [] \<Rightarrow> (let field = (if line \<noteq> [] \<and> last line = LF then butlast line else line) in
                 if dquote \<in> set field then Inl CsvErrBareQuote else Inr (fs @ [field], inp))
        | _ # rest \<Rightarrow> (let field = takeWhile (\<lambda>c. c \<noteq> comma) line in
                       if dquote \<in> set field then Inl CsvErrBareQuote else csv_parseField (fs @ [field]) rest inp))"
| "csv_quoted fs buf line inp =
     (case dropWhile (\<lambda>c. c \<noteq> dquote) line of
        _ # rest \<Rightarrow>
          (let buf' = buf @ takeWhile (\<lambda>c. c \<noteq> dquote) line in
           if rest \<noteq> [] \<and> hd rest = dquote then csv_quoted fs (buf' @ [dquote]) (tl rest) inp
           else if rest \<noteq> [] \<and> hd rest = comma then csv_parseField (fs @ [buf']) (tl rest) inp
           else if rest = [] \<or> rest = [LF] then Inr (fs @ [buf'], inp)
           else Inl CsvErrQuote)
      | [] \<Rightarrow> if line \<noteq> [] then (case csv_readLine inp of (line', inp', _) \<Rightarrow> csv_quoted fs (buf @ line) line' inp')
             else Inl CsvErrQuote)"
  by pat_completeness auto

termination
proof (relation "measure (\<lambda>x. case x of Inl (_, line, inp) \<Rightarrow> length line + length inp
    | Inr (_, _, line, inp) \<Rightarrow> length line + length inp)", goal_cases)
  case (4 fs buf line inp)
  then show ?case using csv_readLine_size [of inp] by (cases line) (simp_all add: prod_eq_iff)
next
  case (5 fs buf line inp x rest)
  then show ?case using dropWhile_shorter [OF 5(1)] by (cases rest) simp_all
next
  case (6 fs buf line inp x rest)
  then show ?case using dropWhile_shorter [OF 6(1)] by (cases rest) simp_all
qed (simp_all add: dropWhile_shorter)

declare csv_parseField.simps [simp del] csv_quoted.simps [simp del]

text \<open>\<^verbatim>\<open>Read\<close>: empty lines are skipped; the record and the unread input.\<close>

function csv_Read :: "string \<Rightarrow> (csv_error, string list \<times> string) result" where
  "csv_Read inp =
     (case csv_readLine inp of
        (line, rest, eof) \<Rightarrow> if eof then Inl CsvEOF else if line = [LF] then csv_Read rest else csv_parseField [] line rest)"
  by auto
termination
proof (relation "measure length", goal_cases)
  case (2 inp)
  then have "length (fst (csv_readLine inp)) = 1" by (metis fst_conv length_Cons list.size(3) One_nat_def)
  then show ?case using 2 csv_readLine_size [of inp] by (simp add: prod_eq_iff)
qed simp

declare csv_Read.simps [simp del]

section \<open>The serializer\<close>

record dockerBindMount =
  bm_Source :: string
  bm_Target :: string
  bm_ReadOnly :: bool

definition dockerMountFieldRepresentable :: "string \<Rightarrow> (go_error, unit) result" where
  "dockerMountFieldRepresentable field =
     (if field = [] then io_err
      else if strings_Contains field [CHR 0x00] then io_err
      else if strings_Contains field [CR, LF] then io_err
      else let v = concat (strings_TrimSpace (rune_chunks field)) in
        if v \<noteq> field \<or> v = [] then io_err else Inr ())"

text \<open>Writing to the in-memory buffer cannot fail, and the default separator is valid.\<close>

definition dockerBindMountSpec :: "dockerBindMount \<Rightarrow> (go_error, string) result" where
  "dockerBindMountSpec m =
     and_then (dockerMountFieldRepresentable (bm_Source m)) (\<lambda>_.
       and_then (dockerMountFieldRepresentable (bm_Target m)) (\<lambda>_.
         let record_fields = [''type=bind'', ''source='' @ bm_Source m, ''target='' @ bm_Target m] @
               (if bm_ReadOnly m then [''readonly''] else [])
         in Inr (strings_TrimSuffix (csv_Write record_fields) [LF])))"

section \<open>Reading back a record\<close>

text \<open>Input in which the reader drops no carriage return: each is followed by a byte other than newline.\<close>

fun csv_plain :: "string \<Rightarrow> bool" where
  "csv_plain [] = True"
| "csv_plain (c # cs) = ((c = CR \<longrightarrow> cs \<noteq> [] \<and> hd cs \<noteq> LF) \<and> csv_plain cs)"

definition split_line :: "string \<Rightarrow> string \<times> string" where
  "split_line t = (if LF \<in> set t then (takeWhile (\<lambda>c. c \<noteq> LF) t @ [LF], tl (dropWhile (\<lambda>c. c \<noteq> LF) t)) else (t, []))"

lemma split_line_simps [simp]:
  "split_line [] = ([], [])"
  "split_line (LF # t) = ([LF], t)"
  "c \<noteq> LF \<Longrightarrow> split_line (c # t) = (c # fst (split_line t), snd (split_line t))"
  by (auto simp: split_line_def)

lemma split_line_Nil [simp]: "fst (split_line t) = [] \<longleftrightarrow> t = []"
  by (auto simp: split_line_def)

lemma split_line_hd [simp]: "t \<noteq> [] \<Longrightarrow> hd (fst (split_line t)) = hd t"
  by (cases t) (auto simp: split_line_def)

lemma csv_plain_last: "csv_plain t \<Longrightarrow> t \<noteq> [] \<Longrightarrow> last t \<noteq> CR"
  by (induction t) (auto split: if_splits)

lemma csv_plain_line: "csv_plain t \<Longrightarrow> LF \<in> set t \<Longrightarrow> \<not> suffix [CR, LF] (takeWhile (\<lambda>c. c \<noteq> LF) t @ [LF])"
proof (induction t)
  case (Cons c t)
  show ?case
  proof (cases "c = LF")
    case False
    then have "LF \<in> set t" and plain: "csv_plain t" and cr: "c = CR \<longrightarrow> hd t \<noteq> LF" "t \<noteq> []" using Cons.prems by auto
    then have IH: "\<not> suffix [CR, LF] (takeWhile (\<lambda>c. c \<noteq> LF) t @ [LF])" using Cons.IH by blast
    have "\<not> suffix [CR, LF] (c # w @ [LF])" if "\<not> suffix [CR, LF] (w @ [LF])" "w = [] \<Longrightarrow> c \<noteq> CR" for w
      using that by (cases w) (auto simp: suffix_Cons)
    moreover have "takeWhile (\<lambda>c. c \<noteq> LF) t = [] \<Longrightarrow> c \<noteq> CR" using cr by (cases t) (auto split: if_splits)
    ultimately show ?thesis using IH False by simp
  qed (simp add: suffix_Cons)
qed simp

lemma dropWhile_to: "d \<notin> set us \<Longrightarrow> dropWhile (\<lambda>c. c \<noteq> d) (us @ d # r) = d # r"
  by (induction us) auto

lemma takeWhile_to: "d \<notin> set us \<Longrightarrow> takeWhile (\<lambda>c. c \<noteq> d) (us @ d # r) = us"
  by (induction us) auto

lemma csv_readLine_plain: "csv_plain t \<Longrightarrow> t \<noteq> [] \<Longrightarrow> csv_readLine t = (fst (split_line t), snd (split_line t), False)"
proof (cases "LF \<in> set t")
  case True
  assume t: "csv_plain t" "t \<noteq> []"
  from True obtain us r where "t = us @ LF # r" "LF \<notin> set us" using split_list_first by fast
  then have "dropWhile (\<lambda>c. c \<noteq> LF) t = LF # r" by (simp add: dropWhile_to)
  then show ?thesis using True csv_plain_line [OF t(1) True] by (simp add: csv_readLine_def csv_normalize_def split_line_def)
next
  case False
  assume t: "csv_plain t" "t \<noteq> []"
  have d: "dropWhile (\<lambda>c. c \<noteq> LF) t = []" using False by auto
  show ?thesis unfolding csv_readLine_def d using False t csv_plain_last by (simp add: split_line_def)
qed

text \<open>The reader at the start of a text: its first line and the rest.\<close>

abbreviation csv_at :: "(string \<Rightarrow> string \<Rightarrow> 'a) \<Rightarrow> string \<Rightarrow> 'a" where
  "csv_at f t \<equiv> f (fst (split_line t)) (snd (split_line t))"

lemma split_line_append: "LF \<notin> set f \<Longrightarrow> split_line (f @ t) = (f @ fst (split_line t), snd (split_line t))"
  by (induction f) auto

lemma quoted_step:
  assumes "c \<noteq> dquote" and "l \<noteq> []"
  shows "csv_quoted fs buf (c # l) inp = csv_quoted fs (buf @ [c]) l inp"
proof (cases "dropWhile (\<lambda>c. c \<noteq> dquote) l")
  case Nil
  then have "dropWhile (\<lambda>c. c \<noteq> dquote) (c # l) = []" using assms(1) by simp
  then show ?thesis by (subst (1 2) csv_quoted.simps) (simp only: Nil assms, simp)
next
  case (Cons d r)
  then have "dropWhile (\<lambda>c. c \<noteq> dquote) (c # l) = d # r" using assms(1) by simp
  then show ?thesis by (subst (1 2) csv_quoted.simps) (simp only: Cons list.case, simp add: assms)
qed

lemma quoted_newline:
  assumes "csv_plain t" and "t \<noteq> []"
  shows "csv_quoted fs buf [LF] t = csv_at (csv_quoted fs (buf @ [LF])) t"
  by (subst csv_quoted.simps) (simp add: csv_readLine_plain [OF assms])

lemma quoted_char:
  assumes "c \<noteq> dquote" and "csv_plain t" and "t \<noteq> []"
  shows "csv_at (csv_quoted fs buf) (c # t) = csv_at (csv_quoted fs (buf @ [c])) t"
  using assms by (cases "c = LF") (simp_all add: quoted_step quoted_newline)

lemma quoted_dquote: "csv_quoted fs buf (dquote # dquote # l) inp = csv_quoted fs (buf @ [dquote]) l inp"
  by (subst csv_quoted.simps) simp

lemma quoted_comma: "csv_quoted fs buf (dquote # comma # l) inp = csv_parseField (fs @ [buf]) l inp"
  by (subst csv_quoted.simps) simp

lemma quoted_end: "csv_quoted fs buf [dquote] inp = Inr (fs @ [buf], inp)"
  by (subst csv_quoted.simps) simp

lemma csv_escape_simps [simp]:
  "csv_escape [] = []"
  "csv_escape (c # s) = (if c = dquote then [dquote, dquote] else [c]) @ csv_escape s"
  by (simp_all add: csv_escape_def)

lemma quoted_escape:
  "csv_plain (csv_escape s @ dquote # t) \<Longrightarrow>
   csv_at (csv_quoted fs buf) (csv_escape s @ dquote # t) = csv_at (csv_quoted fs (buf @ s)) (dquote # t)"
proof (induction s arbitrary: buf)
  case (Cons c s)
  then have "csv_plain (csv_escape s @ dquote # t)" by (auto split: if_splits)
  from Cons.IH [OF this, of "buf @ [c]"] this show ?case
    by (cases "c = dquote") (simp_all add: quoted_dquote quoted_char)
qed simp

lemma parse_quoted: "csv_parseField fs (dquote # l) inp = csv_quoted fs [] l inp"
  by (subst csv_parseField.simps) simp

lemma unquoted_chars: "\<not> csv_fieldNeedsQuotes f \<Longrightarrow> c \<in> {LF, CR, dquote, comma} \<Longrightarrow> c \<notin> set f"
  by (auto simp: csv_fieldNeedsQuotes_def list_ex_iff split: if_splits)

lemma parse_plain:
  assumes "dquote \<notin> set f" and "comma \<notin> set f"
  shows "csv_parseField fs (f @ comma # l) inp = csv_parseField (fs @ [f]) l inp"
proof -
  have "\<not> (f @ comma # l \<noteq> [] \<and> hd (f @ comma # l) = dquote)" using assms(1) by (cases f) auto
  then show ?thesis
    by (subst csv_parseField.simps) (simp only: dropWhile_to [OF assms(2)] takeWhile_to [OF assms(2)] if_False list.case Let_def assms(1))
qed

lemma parse_plain_end:
  assumes "dquote \<notin> set f" and "comma \<notin> set f" and "LF \<notin> set f"
  shows "csv_parseField fs f inp = Inr (fs @ [f], inp)"
proof -
  have "\<not> (f \<noteq> [] \<and> hd f = dquote)" "\<not> (f \<noteq> [] \<and> last f = LF)" using assms(1,3) by (auto dest: hd_in_set last_in_set)
  moreover have "dropWhile (\<lambda>c. c \<noteq> comma) f = []" using assms(2) by auto
  ultimately show ?thesis
    by (subst csv_parseField.simps) (simp only: if_False list.case Let_def assms(1))
qed

lemma parse_field:
  assumes "csv_plain (csv_field f @ comma # t)"
  shows "csv_at (csv_parseField fs) (csv_field f @ comma # t) = csv_at (csv_parseField (fs @ [f])) t"
proof (cases "csv_fieldNeedsQuotes f")
  case True
  then have "csv_plain (csv_escape f @ dquote # comma # t)" using assms by (simp add: csv_field_def)
  from quoted_escape [OF this, of fs "[]"] show ?thesis
    using True by (simp add: csv_field_def parse_quoted quoted_comma)
next
  case False
  then have "LF \<notin> set f" "dquote \<notin> set f" "comma \<notin> set f" by (simp_all add: unquoted_chars)
  then show ?thesis using False by (simp add: csv_field_def split_line_append parse_plain)
qed

lemma parse_last_field:
  assumes "csv_plain (csv_field f)"
  shows "csv_at (csv_parseField fs) (csv_field f) = Inr (fs @ [f], [])"
proof (cases "csv_fieldNeedsQuotes f")
  case True
  then have "csv_plain (csv_escape f @ dquote # [])" using assms by (simp add: csv_field_def)
  from quoted_escape [OF this, of fs "[]"] show ?thesis
    using True by (simp add: csv_field_def parse_quoted quoted_end)
next
  case False
  then have "LF \<notin> set f" "dquote \<notin> set f" "comma \<notin> set f" by (simp_all add: unquoted_chars)
  then show ?thesis using False split_line_append [of f "[]"] by (simp add: csv_field_def parse_plain_end)
qed

lemma parse_record:
  "csv_plain (csv_record rec) \<Longrightarrow> rec \<noteq> [] \<Longrightarrow> csv_at (csv_parseField fs) (csv_record rec) = Inr (fs @ rec, [])"
proof (induction rec arbitrary: fs rule: csv_record.induct)
  case (3 f g gs)
  have suffix: "csv_plain (u @ v) \<Longrightarrow> csv_plain v" for u v by (induction u) auto
  have "csv_plain (csv_record (g # gs))" using 3(2) suffix [of "csv_field f @ [comma]"] by simp
  then show ?case using 3 by (simp add: parse_field)
qed (simp_all add: parse_last_field)

lemma plain_append: "CR \<notin> set f \<Longrightarrow> csv_plain (f @ t) = csv_plain t"
  by (induction f) auto

lemma plain_escape:
  "\<not> strings_Contains s [CR, LF] \<Longrightarrow> csv_plain (dquote # t) \<Longrightarrow> csv_plain (csv_escape s @ dquote # t)"
proof (induction s)
  case (Cons c s)
  have "hd (csv_escape s @ dquote # t) = (if s = [] then dquote else hd s)" by (cases s) simp_all
  moreover have "c = CR \<Longrightarrow> s \<noteq> [] \<Longrightarrow> hd s \<noteq> LF" using Cons.prems(1) by (cases s) auto
  ultimately show ?case using Cons by auto
qed simp

lemma plain_field: "\<not> strings_Contains f [CR, LF] \<Longrightarrow> csv_plain t \<Longrightarrow> csv_plain (csv_field f @ t)"
  using plain_escape [of f t] unquoted_chars [of f CR] by (auto simp: csv_field_def plain_append)

lemma plain_record: "list_all (\<lambda>f. \<not> strings_Contains f [CR, LF]) rec \<Longrightarrow> csv_plain (csv_record rec)"
proof (induction rec rule: csv_record.induct)
  case (2 f)
  then show ?case using plain_field [of f "[]"] by simp
qed (simp_all add: plain_field)

text \<open>A record without a newline after its last field is read back, unless it is one empty field.\<close>

lemma csv_roundtrip:
  assumes "list_all (\<lambda>f. \<not> strings_Contains f [CR, LF]) rec" and "csv_record rec \<noteq> []" and "hd (csv_record rec) \<noteq> LF"
  shows "csv_Read (csv_record rec) = Inr (rec, [])"
proof -
  have plain: "csv_plain (csv_record rec)" using assms(1) by (rule plain_record)
  have "rec \<noteq> []" using assms(2) by auto
  moreover have "fst (split_line (csv_record rec)) \<noteq> [LF]" using assms(2,3) split_line_hd by (metis list.sel(1))
  ultimately show ?thesis
    using csv_readLine_plain [OF plain assms(2)] parse_record [OF plain, of "[]"] by (simp add: csv_Read.simps)
qed

section \<open>Injection freedom\<close>

lemma contains_single: "strings_Contains s [c] \<longleftrightarrow> c \<in> set s"
  by (induction s) auto

lemma contains_crlf_append: "CR \<notin> set u \<Longrightarrow> strings_Contains (u @ s) [CR, LF] = strings_Contains s [CR, LF]"
  by (induction u) auto

lemma representable_Inr:
  assumes "dockerMountFieldRepresentable f = Inr u"
  shows "f \<noteq> []" "CHR 0x00 \<notin> set f" "\<not> strings_Contains f [CR, LF]" "concat (strings_TrimSpace (rune_chunks f)) = f"
  using assms by (auto simp: dockerMountFieldRepresentable_def contains_single Let_def split: if_splits)

lemma csv_record_set: "set (csv_record rec) \<subseteq> {dquote, comma} \<union> (\<Union>f\<in>set rec. set f)"
proof -
  have field: "set (csv_field f) \<subseteq> insert dquote (set f)" for f
    by (auto simp: csv_field_def csv_escape_def split: if_splits)
  show ?thesis by (induction rec rule: csv_record.induct) (use field in fastforce)+
qed

definition mount_fields :: "dockerBindMount \<Rightarrow> string list" where
  "mount_fields m = [''type=bind'', ''source='' @ bm_Source m, ''target='' @ bm_Target m] @ (if bm_ReadOnly m then [''readonly''] else [])"

lemma spec_record:
  assumes "dockerBindMountSpec m = Inr spec"
  shows "spec = csv_record (mount_fields m)"
  using assms by (auto simp: dockerBindMountSpec_def mount_fields_def csv_Write_def strings_TrimSuffix_def Let_def suffix_def)

lemma type_field: "csv_field ''type=bind'' = ''type=bind''"
  by code_simp

lemma mount_record_hd: "csv_record (mount_fields m) \<noteq> []" "hd (csv_record (mount_fields m)) = CHR ''t''"
  by (simp_all add: mount_fields_def type_field)

lemma mount_spec_read:
  assumes "dockerBindMountSpec m = Inr spec"
  shows "csv_Read spec = Inr (mount_fields m, [])"
proof -
  have "\<not> strings_Contains (bm_Source m) [CR, LF]" "\<not> strings_Contains (bm_Target m) [CR, LF]"
    using assms representable_Inr(3) by (auto simp: dockerBindMountSpec_def)
  then have "list_all (\<lambda>f. \<not> strings_Contains f [CR, LF]) (mount_fields m)"
    using contains_crlf_append [of "''source=''"] contains_crlf_append [of "''target=''"] by (simp add: mount_fields_def)
  then show ?thesis using csv_roundtrip mount_record_hd by (simp add: spec_record [OF assms])
qed

text \<open>
  C8: The argument the serializer produces for a bind mount is read back by the Docker command line's CSV reader as exactly one
  record whose fields are the type, the source, the target and, when requested, the read-only flag, each with the value it was
  given: no byte of the source or the target can add an option, change a value or start a second record, and the argument carries
  no NUL byte.
\<close>

theorem mount_spec_exact:
  assumes "dockerBindMountSpec m = Inr spec"
  shows "(\<exists>fs. csv_Read spec = Inr (fs, []) \<and>
      map (strings_Cut (CHR ''='')) fs =
        [(''type'', ''bind'', True), (''source'', bm_Source m, True), (''target'', bm_Target m, True)] @
        (if bm_ReadOnly m then [(''readonly'', [], False)] else [])) \<and>
    CHR 0x00 \<notin> set spec"
proof
  show "\<exists>fs. csv_Read spec = Inr (fs, []) \<and>
      map (strings_Cut (CHR ''='')) fs =
        [(''type'', ''bind'', True), (''source'', bm_Source m, True), (''target'', bm_Target m, True)] @
        (if bm_ReadOnly m then [(''readonly'', [], False)] else [])"
    using mount_spec_read [OF assms] by (auto simp: mount_fields_def strings_Cut_def)
  have "CHR 0x00 \<notin> set (bm_Source m)" "CHR 0x00 \<notin> set (bm_Target m)"
    using assms representable_Inr(2) by (auto simp: dockerBindMountSpec_def)
  then have "CHR 0x00 \<notin> {dquote, comma} \<union> (\<Union>f\<in>set (mount_fields m). set f)" by (simp add: mount_fields_def)
  then show "CHR 0x00 \<notin> set spec" using csv_record_set by (auto simp: spec_record [OF assms])
qed

definition crafted_mount :: dockerBindMount where
  "crafted_mount = \<lparr>bm_Source = ''/srv/a,readonly'' @ [dquote, LF] @ ''source=/etc'', bm_Target = ''/data,target=/'', bm_ReadOnly = False\<rparr>"

definition crafted_spec :: string where
  "crafted_spec = ''type=bind,'' @ [dquote] @ ''source=/srv/a,readonly'' @ [dquote, dquote, LF] @ ''source=/etc'' @ [dquote, comma, dquote] @
     ''target=/data,target=/'' @ [dquote]"

lemma crafted_mount_spec: "dockerBindMountSpec crafted_mount = Inr crafted_spec"
  by code_simp

theorem mount_spec_exact_witness:
  "\<exists>fs. csv_Read crafted_spec = Inr (fs, []) \<and>
     map (strings_Cut (CHR ''='')) fs =
       [(''type'', ''bind'', True), (''source'', ''/srv/a,readonly'' @ [dquote, LF] @ ''source=/etc'', True), (''target'', ''/data,target=/'', True)]"
  using mount_spec_exact [OF crafted_mount_spec] by (simp add: crafted_mount_def)

end
