(* ===== verification/Run_Request.thy ===== *)
theory Run_Request
  imports Sessions Docker_Mount "HOL-Library.Word"
begin

text \<open>
  The decisions of run.go on a request to run a container, before anything is prepared for it: the
  validation of the request, the resolution of its mounts against the Session's issued filesystem
  snapshot, and the Docker command line built from the accepted plan; with the reserved labels of
  runtime\_labels.go and the trusted-CA overlap check of ca.go. The request is the decoded JSON body.
  A Go map is an association list with distinct keys.
\<close>

section \<open>Shared-memory size\<close>

definition is_digit :: "char \<Rightarrow> bool" where
  "is_digit c \<longleftrightarrow> CHR ''0'' \<le> c \<and> c \<le> CHR ''9''"

definition is_alpha :: "char \<Rightarrow> bool" where
  "is_alpha c \<longleftrightarrow> (CHR ''a'' \<le> c \<and> c \<le> CHR ''z'') \<or> (CHR ''A'' \<le> c \<and> c \<le> CHR ''Z'')"

definition ascii_lower :: "char \<Rightarrow> char" where
  "ascii_lower c = (if CHR ''A'' \<le> c \<and> c \<le> CHR ''Z'' then char_of ((of_char c :: nat) + 32) else c)"

text \<open>\<^verbatim>\<open>strconv.ParseUint(s, 10, 64)\<close>: digits only, and an error when the value does not fit.\<close>

definition strconv_ParseUint :: "string \<Rightarrow> 64 word option" where
  "strconv_ParseUint s =
     (if s = [] then None
      else case digits_value 0 s of None \<Rightarrow> None | Some v \<Rightarrow> if v < 2 ^ 64 then Some (word_of_int v) else None)"

definition maxShmSize :: "64 word" where "maxShmSize = 2 * 1024 * 1024 * 1024"

definition shm_multiplier :: "string \<Rightarrow> 64 word option" where
  "shm_multiplier u =
     (if u = [] then Some 1 else if u = ''k'' then Some 1024 else if u = ''m'' then Some (1024 * 1024)
      else if u = ''g'' then Some (1024 * 1024 * 1024) else None)"

text \<open>The numeric part and the unit: the product is checked for overflow before it is formed.\<close>

definition shm_total :: "string \<Rightarrow> string \<Rightarrow> (go_error, int) result" where
  "shm_total numStr u =
     (case strconv_ParseUint numStr of
        None \<Rightarrow> io_err
      | Some num \<Rightarrow>
         (case shm_multiplier u of
            None \<Rightarrow> io_err
          | Some multiplier \<Rightarrow>
             if 0 < multiplier \<and> (2 ^ 64 - 1) div multiplier < num then io_err
             else let total = num * multiplier
               in if total = 0 then io_err else if maxShmSize < total then io_err else Inr (sint total)))"

definition validateShmSize :: "string \<Rightarrow> (go_error, int) result" where
  "validateShmSize raw =
     (if raw = [] then Inr 0
      else if \<not> is_digit (hd raw) then io_err
      else let lettered = 1 < length raw \<and> is_alpha (last raw);
               u = (if lettered then [ascii_lower (last raw)] else []);
               numStr = (if lettered then butlast raw else raw)
        in if numStr = [] then io_err else shm_total numStr u)"

section \<open>Requests\<close>

record mountRequest =
  mr_Source :: string
  mr_Target :: string
  mr_ReadOnly :: bool

record runRequest =
  rq_Image :: string
  rq_Entrypoint :: string
  rq_Workdir :: string
  rq_Command :: "string list"
  rq_Environment :: "(string \<times> string) list"
  rq_Mounts :: "mountRequest list"
  rq_ShmSize :: string
  rq_HelperSocket :: bool

text \<open>The configuration the run handler reads.\<close>

record Config =
  TrustedCAInjection :: string
  TrustedCAPreparedDir :: string
  RuntimeDir :: string
  OperationLogMaxBytes :: int
  OperationRetentionTTL :: int
  OperationMaxCompleted :: int

definition maxRunMounts :: nat where "maxRunMounts = 16"

definition helperSocketContainerDir :: string where "helperSocketContainerDir = ''/run/docker-helper''"
definition helperSocketLocatorEnv :: string where "helperSocketLocatorEnv = ''DOCKER_HELPER_SOCKET_PATH''"
definition helperSocketLocatorEnvValue :: string where
  "helperSocketLocatorEnvValue = helperSocketContainerDir @ ''/docker-helper.sock''"

definition trustedCAContainerDir :: string where "trustedCAContainerDir = ''/run/docker-helper/trusted-ca''"
definition trustedCAEnvSSLDir :: string where "trustedCAEnvSSLDir = ''SSL_CERT_DIR''"
definition trustedCAEnvSSLDirValue :: string where
  "trustedCAEnvSSLDirValue = ''/run/docker-helper/trusted-ca:/etc/ssl/certs:/etc/pki/tls/certs''"
definition trustedCAEnvNodeExtra :: string where "trustedCAEnvNodeExtra = ''NODE_EXTRA_CA_CERTS''"
definition trustedCAEnvNodeExtraValue :: string where
  "trustedCAEnvNodeExtraValue = ''/run/docker-helper/trusted-ca/ca.pem''"

text \<open>The pattern \<^verbatim>\<open>^[A-Za-z_][A-Za-z0-9_]*$\<close>.\<close>

definition envNamePattern :: "string \<Rightarrow> bool" where
  "envNamePattern s =
     (case s of [] \<Rightarrow> False
      | c # cs \<Rightarrow> (is_alpha c \<or> c = CHR ''_'') \<and> list_all (\<lambda>d. is_alpha d \<or> is_digit d \<or> d = CHR ''_'') cs)"

text \<open>
  The checks of \<^verbatim>\<open>handleRun\<close> before capacity is reserved: the status and code of the refusal, or the
  shared-memory size in bytes.
\<close>

definition validateRunRequest :: "runRequest \<Rightarrow> (nat \<times> string, int) result" where
  "validateRunRequest req =
     (if rq_Image req = [] then Inl (400, ''invalid_image'')
      else if prefix ''-'' (rq_Image req) then Inl (400, ''invalid_image'')
      else if rq_Workdir req \<noteq> [] \<and> \<not> filepath_IsAbs (rq_Workdir req) then Inl (400, ''invalid_workdir'')
      else if \<not> list_all (\<lambda>p. envNamePattern (fst p)) (rq_Environment req) then Inl (400, ''invalid_environment'')
      else case validateShmSize (rq_ShmSize req) of
          Inl _ \<Rightarrow> Inl (400, ''invalid_shm_size'')
        | Inr shmSizeBytes \<Rightarrow>
            if rq_HelperSocket req \<and> (case map_of (rq_Environment req) helperSocketLocatorEnv of
                 None \<Rightarrow> False | Some v \<Rightarrow> v \<noteq> helperSocketLocatorEnvValue)
            then Inl (400, ''invalid_helper_socket'')
            else if maxRunMounts < length (rq_Mounts req) then Inl (400, ''too_many_mounts'')
            else Inr shmSizeBytes)"

section \<open>Mounts\<close>

definition isHelperSocketMountOverlap :: "string \<Rightarrow> bool" where
  "isHelperSocketMountOverlap target = (pathOverlap (filepath_Clean target) helperSocketContainerDir \<noteq> pathDisjoint)"

definition isTrustedCAMountOverlap :: "string \<Rightarrow> bool" where
  "isTrustedCAMountOverlap target =
     (let cleaned = filepath_Clean target in
      if cleaned = trustedCAContainerDir then True
      else case filepath_Rel trustedCAContainerDir cleaned of
          None \<Rightarrow> False
        | Some rel \<Rightarrow>
            if rel \<noteq> ''..'' \<and> \<not> prefix ''../'' rel then True
            else (case filepath_Rel cleaned trustedCAContainerDir of
                None \<Rightarrow> False
              | Some rel2 \<Rightarrow> rel2 \<noteq> ''..'' \<and> \<not> prefix ''../'' rel2))"

record resolvedMount =
  rm_SourcePath :: string
  rm_Target :: string
  rm_ReadOnly :: bool

text \<open>The lexical admission of a source spelling, before anything of the host filesystem is looked at.\<close>

definition admit_mount_source :: "host_fs \<Rightarrow> string \<Rightarrow> sessionFilesystemSnapshot \<Rightarrow> string \<Rightarrow> (go_error, string) result" where
  "admit_mount_source fs workspace snapshot source =
     (if \<not> filepath_IsAbs source then
        (case host_Abs fs (filepath_Join [workspace, source]) of
           None \<Rightarrow> io_err
         | Some joined \<Rightarrow> if \<not> pathWithin workspace joined then io_err else Inr joined)
      else let rawSource = filepath_Clean source in
        if \<not> isWithinAnyAllowedRoot rawSource (map Path (Entries snapshot)) then io_err else Inr rawSource)"

definition resolveMount :: "host_fs \<Rightarrow> mountRequest \<Rightarrow> string \<Rightarrow> sessionFilesystemSnapshot \<Rightarrow> (go_error, resolvedMount) result" where
  "resolveMount fs mount workspace snapshot =
     (if mr_Source mount = [] then io_err
      else if mr_Target mount = [] then io_err
      else if \<not> filepath_IsAbs (mr_Target mount) then io_err
      else let cleaned = filepath_Clean (mr_Target mount) in
        if cleaned = ''.'' \<or> cleaned = ''..'' then io_err
        else and_then (admit_mount_source fs workspace snapshot (mr_Source mount)) (\<lambda>admitted.
          case fs_eval fs admitted of
            Inl _ \<Rightarrow> io_err
          | Inr sourcePath \<Rightarrow>
              if \<not> filepath_IsAbs sourcePath then io_err
              else if \<not> filepath_IsAbs (mr_Source mount) \<and> \<not> pathWithin workspace sourcePath then io_err
              else (case fs_stat fs sourcePath of
                  Inl _ \<Rightarrow> io_err
                | Inr kind \<Rightarrow>
                    if kind \<noteq> KindDir \<and> kind \<noteq> KindRegular then io_err
                    else Inr \<lparr>rm_SourcePath = sourcePath, rm_Target = cleaned, rm_ReadOnly = mr_ReadOnly mount\<rparr>)))"

text \<open>
  The mount loop, with the targets seen so far. Every failure answers \<^verbatim>\<open>invalid_mount\<close>.
\<close>

fun resolve_run_mounts ::
    "host_fs \<Rightarrow> string \<Rightarrow> sessionFilesystemSnapshot \<Rightarrow> string list \<Rightarrow> mountRequest list \<Rightarrow> (nat \<times> string, resolvedMount list) result" where
  "resolve_run_mounts fs workspace snapshot seen [] = Inr []"
| "resolve_run_mounts fs workspace snapshot seen (mount # ms) =
     (case resolveMount fs mount workspace snapshot of
        Inl _ \<Rightarrow> Inl (400, ''invalid_mount'')
      | Inr resolved \<Rightarrow>
         (case dockerMountFieldRepresentable (rm_Target resolved) of
            Inl _ \<Rightarrow> Inl (400, ''invalid_mount'')
          | Inr _ \<Rightarrow>
             if rm_Target resolved \<in> set seen then Inl (400, ''invalid_mount'')
             else and_then (resolve_run_mounts fs workspace snapshot (rm_Target resolved # seen) ms) (\<lambda>rest.
               Inr (resolved # rest))))"

text \<open>The exposure of every resolved mount; the answer to a refusal depends on its error.\<close>

fun run_exposures ::
    "sessionFilesystemSnapshot \<Rightarrow> resolvedMount list \<Rightarrow> (nat \<times> string, sessionFilesystemExposure list) result" where
  "run_exposures snapshot [] = Inr []"
| "run_exposures snapshot (r # rs) =
     (case resolveSessionFilesystemExposure snapshot (rm_SourcePath r) (rm_Target r) (rm_ReadOnly r) of
        Inl e \<Rightarrow>
          if errors_Is e ErrReadOnlyRoot then Inl (400, ''read_only_root'')
          else if errors_Is e ErrOutsideSessionSnapshot then Inl (400, ''invalid_mount'')
          else Inl (500, ''internal_error'')
      | Inr exposure \<Rightarrow> and_then (run_exposures snapshot rs) (\<lambda>rest. Inr (exposure # rest)))"

text \<open>The mount part of \<^verbatim>\<open>handleRun\<close>, in its order.\<close>

definition plan_run_mounts ::
    "host_fs \<Rightarrow> Config \<Rightarrow> string \<Rightarrow> sessionFilesystemSnapshot \<Rightarrow> runRequest \<Rightarrow>
     (nat \<times> string, resolvedMount list \<times> sessionFilesystemExposure list) result" where
  "plan_run_mounts fs cfg workspace snapshot req =
     and_then (resolve_run_mounts fs workspace snapshot [] (rq_Mounts req)) (\<lambda>resolved.
       if TrustedCAInjection cfg = ''auto'' \<and> list_ex (\<lambda>m. isTrustedCAMountOverlap (mr_Target m)) (rq_Mounts req)
       then Inl (400, ''invalid_mount'')
       else if rq_HelperSocket req \<and> list_ex (\<lambda>m. isHelperSocketMountOverlap (mr_Target m)) (rq_Mounts req)
       then Inl (400, ''invalid_mount'')
       else and_then (run_exposures snapshot resolved) (\<lambda>plan. Inr (resolved, plan)))"

section \<open>The command line\<close>

definition env_default :: "string \<Rightarrow> string \<Rightarrow> (string \<times> string) list \<Rightarrow> (string \<times> string) list" where
  "env_default k v env = (if map_of env k = None then env @ [(k, v)] else env)"

definition trustedCAInjected :: "Config \<Rightarrow> bool" where
  "trustedCAInjected cfg \<longleftrightarrow> TrustedCAInjection cfg = ''auto'' \<and> TrustedCAPreparedDir cfg \<noteq> []"

definition run_environment :: "Config \<Rightarrow> runRequest \<Rightarrow> (string \<times> string) list" where
  "run_environment cfg req =
     (let env1 = (if trustedCAInjected cfg
                  then env_default trustedCAEnvNodeExtra trustedCAEnvNodeExtraValue
                         (env_default trustedCAEnvSSLDir trustedCAEnvSSLDirValue (rq_Environment req))
                  else rq_Environment req)
      in if rq_HelperSocket req then env_default helperSocketLocatorEnv helperSocketLocatorEnvValue env1 else env1)"

definition runtimeLabelSchema :: string where "runtimeLabelSchema = ''com.dockerhelper.schema''"
definition runtimeLabelSchemaValue :: string where "runtimeLabelSchemaValue = ''1''"
definition runtimeLabelSessionID :: string where "runtimeLabelSessionID = ''com.dockerhelper.session.id''"
definition runtimeLabelLauncherID :: string where "runtimeLabelLauncherID = ''com.dockerhelper.launcher.id''"
definition runtimeLabelPrincipalName :: string where "runtimeLabelPrincipalName = ''com.dockerhelper.principal.name''"
definition runtimeLabelOperationID :: string where "runtimeLabelOperationID = ''com.dockerhelper.operation.id''"

definition runtimeLabelsFor :: "Session \<Rightarrow> string list" where
  "runtimeLabelsFor s =
     [runtimeLabelSchema @ ''='' @ runtimeLabelSchemaValue, runtimeLabelSessionID @ ''='' @ ses_ID s,
      runtimeLabelLauncherID @ ''='' @ ses_LauncherID s, runtimeLabelPrincipalName @ ''='' @ ses_PrincipalName s]"

definition runtimeLabelsForRun :: "Session \<Rightarrow> string \<Rightarrow> string list" where
  "runtimeLabelsForRun s operationID = runtimeLabelsFor s @ [runtimeLabelOperationID @ ''='' @ operationID]"

definition format_int :: "int \<Rightarrow> string" where
  "format_int i = (if i < 0 then CHR ''-'' # decimal (nat (- i)) else decimal (nat i))"

definition workloadPrivilegeFloor :: "string list" where
  "workloadPrivilegeFloor = [''--cap-drop'', ''ALL'', ''--security-opt'', ''no-new-privileges:true'']"

definition options :: "string \<Rightarrow> string list \<Rightarrow> string list" where
  "options flag values = concat (map (\<lambda>v. [flag, v]) values)"

text \<open>\<^verbatim>\<open>if v != "" { args = append(args, flag, v) }\<close>.\<close>

definition given :: "string \<Rightarrow> string list" where
  "given v = (if v \<noteq> [] then [v] else [])"

text \<open>The serialized mounts: the trusted CA, the helper socket, and the user mounts; the first failure ends the run.\<close>

fun mount_specs :: "dockerBindMount list \<Rightarrow> (go_error, string list) result" where
  "mount_specs [] = Inr []"
| "mount_specs (m # ms) = and_then (dockerBindMountSpec m) (\<lambda>spec. and_then (mount_specs ms) (\<lambda>specs. Inr (spec # specs)))"

definition bind_mount :: "string \<Rightarrow> string \<Rightarrow> bool \<Rightarrow> dockerBindMount" where
  "bind_mount source target readOnly = \<lparr>bm_Source = source, bm_Target = target, bm_ReadOnly = readOnly\<rparr>"

definition run_bind_mounts :: "Config \<Rightarrow> runRequest \<Rightarrow> string list \<Rightarrow> sessionFilesystemExposure list \<Rightarrow> dockerBindMount list" where
  "run_bind_mounts cfg req mountSources plan =
     (if trustedCAInjected cfg then [bind_mount (TrustedCAPreparedDir cfg) trustedCAContainerDir True] else []) @
     (if rq_HelperSocket req then [bind_mount (RuntimeDir cfg) helperSocketContainerDir True] else []) @
     map (\<lambda>(source, x). bind_mount source (exposureTarget x) (RequestedReadOnly x)) (zip mountSources plan)"

text \<open>
  What the command line is built from besides the request: the Session, the execution identity, the
  Operation with its cidfile, the security options and bind sources of the prepared workload MAC state.
\<close>

record run_facts =
  rf_session :: Session
  rf_uid :: int
  rf_gid :: int
  rf_operationID :: string
  rf_cidfile :: string
  rf_securityOpts :: "string list"
  rf_mountSources :: "string list"

definition run_words :: "Config \<Rightarrow> runRequest \<Rightarrow> int \<Rightarrow> run_facts \<Rightarrow> string list \<Rightarrow> string list" where
  "run_words cfg req shm facts specs =
     [''--rm'', ''--user'', format_int (rf_uid facts) @ '':'' @ format_int (rf_gid facts)] @
     workloadPrivilegeFloor @ options ''--security-opt'' (rf_securityOpts facts) @
     options ''--label'' (runtimeLabelsForRun (rf_session facts) (rf_operationID facts)) @
     options ''--cidfile'' (given (rf_cidfile facts)) @ options ''--entrypoint'' (given (rq_Entrypoint req)) @
     options ''--workdir'' (given (rq_Workdir req)) @
     options ''--env'' (map (\<lambda>name. name @ ''='' @ the (map_of (run_environment cfg req) name))
       (sort (map fst (run_environment cfg req)))) @
     options ''--mount'' specs @ options ''--shm-size'' (if 0 < shm then [format_int shm] else [])"

definition run_argv ::
    "Config \<Rightarrow> runRequest \<Rightarrow> int \<Rightarrow> run_facts \<Rightarrow> sessionFilesystemExposure list \<Rightarrow> (go_error, string list) result" where
  "run_argv cfg req shmSizeBytes facts plan =
     and_then (mount_specs (run_bind_mounts cfg req (rf_mountSources facts) plan)) (\<lambda>specs.
       Inr ([''--config'', sessionDockerDir (RuntimeDir cfg) (ses_ID (rf_session facts)), ''run''] @
            run_words cfg req shmSizeBytes facts specs @ [rq_Image req] @ rq_Command req))"

section \<open>The size accepted\<close>

text \<open>The size a string denotes, without any machine arithmetic: decimal digits and an optional unit.\<close>

definition shm_scale :: "char \<Rightarrow> int option" where
  "shm_scale c =
     (if c \<in> {CHR ''k'', CHR ''K''} then Some (2 ^ 10) else if c \<in> {CHR ''m'', CHR ''M''} then Some (2 ^ 20)
      else if c \<in> {CHR ''g'', CHR ''G''} then Some (2 ^ 30) else None)"

definition decimal_value :: "string \<Rightarrow> int option" where
  "decimal_value s = (if s = [] then None else digits_value 0 s)"

definition shm_bytes :: "string \<Rightarrow> int option" where
  "shm_bytes raw =
     (case shm_scale (last raw) of
        Some f \<Rightarrow> map_option (\<lambda>v. v * f) (decimal_value (butlast raw))
      | None \<Rightarrow> decimal_value raw)"

lemma digit_value_Some: "digit_value c = Some d \<Longrightarrow> is_digit c \<and> 0 \<le> d"
  by (auto simp: digit_value_def is_digit_def less_eq_char_def split: if_splits)

lemma digits_value_Some: "digits_value acc s = Some v \<Longrightarrow> list_all is_digit s \<and> (0 \<le> acc \<longrightarrow> 0 \<le> v)"
  by (induction s arbitrary: acc) (fastforce dest: digit_value_Some split: option.splits)+

lemma digit_not_alpha: "is_digit c \<Longrightarrow> \<not> is_alpha c"
  by (auto simp: is_digit_def is_alpha_def less_eq_char_def)

lemma scale_alpha: "shm_scale c = Some f \<Longrightarrow> is_alpha c"
  by (auto simp: shm_scale_def is_alpha_def less_eq_char_def split: if_splits)

lemma ascii_lower_eq:
  assumes "(of_char u :: nat) + 32 = of_char l" and "CHR ''A'' \<le> u" "u \<le> CHR ''Z''" and "\<not> l \<le> CHR ''Z''"
  shows "ascii_lower c = l \<longleftrightarrow> c = l \<or> c = u"
proof (cases "CHR ''A'' \<le> c \<and> c \<le> CHR ''Z''")
  case True
  then have "(of_char (ascii_lower c) :: nat) = of_char c + 32" by (auto simp: ascii_lower_def less_eq_char_def)
  then have "ascii_lower c = l \<longleftrightarrow> (of_char c :: nat) + 32 = of_char l" by (metis char_of_char)
  then show ?thesis using True assms by (metis add_right_cancel char_of_char)
next
  case False
  then show ?thesis using assms by (auto simp: ascii_lower_def)
qed

lemma multiplier_scale: "map_option uint (shm_multiplier [ascii_lower c]) = shm_scale c"
proof -
  have "ascii_lower c = CHR ''k'' \<longleftrightarrow> c = CHR ''k'' \<or> c = CHR ''K''" "ascii_lower c = CHR ''m'' \<longleftrightarrow> c = CHR ''m'' \<or> c = CHR ''M''"
      "ascii_lower c = CHR ''g'' \<longleftrightarrow> c = CHR ''g'' \<or> c = CHR ''G''"
    by (rule ascii_lower_eq; simp add: less_eq_char_def)+
  then show ?thesis by (simp add: shm_multiplier_def shm_scale_def)
qed

lemma quotient_less: "0 < f \<Longrightarrow> a div f < v \<longleftrightarrow> a < v * f" for a f v :: int
proof -
  assume f: "0 < f"
  have "v \<le> a div f \<longleftrightarrow> v * f \<le> a"
  proof
    assume "v \<le> a div f"
    then have "v * f \<le> (a div f) * f" using f by simp
    also have "\<dots> \<le> a" using f minus_mod_eq_div_mult [of a f] pos_mod_sign [of f a] by linarith
    finally show "v * f \<le> a" .
  next
    assume "v * f \<le> a"
    then have "(v * f) div f \<le> a div f" using f by (rule zdiv_mono1)
    then show "v \<le> a div f" using f by simp
  qed
  then show "a div f < v \<longleftrightarrow> a < v * f" by linarith
qed

text \<open>The checked product: no wrapped value passes the overflow check.\<close>

lemma checked_product:
  assumes "0 \<le> v" "v < 2 ^ 64" and "uint m = f" "1 \<le> f" "f \<le> 2 ^ 30"
  shows "(if 0 < m \<and> (2 ^ 64 - 1) div m < (word_of_int v :: 64 word) then io_err
          else let total = word_of_int v * m
            in if total = 0 then io_err else if maxShmSize < total then io_err else Inr (sint total)) =
    (if 0 < v * f \<and> v * f \<le> 2 ^ 31 then Inr (v * f) else (io_err :: (go_error, int) result))"
proof -
  have num: "uint (word_of_int v :: 64 word) = v" using assms(1,2) by (simp add: uint_word_of_int take_bit_int_eq_self)
  have pos: "0 < m" using assms(3,4) by (simp add: word_less_def)
  have quot: "(2 ^ 64 - 1) div m < (word_of_int v :: 64 word) \<longleftrightarrow> (2 ^ 64 - 1) div f < v"
    using assms(3) num by (simp add: word_less_def uint_div)
  show ?thesis
  proof (cases "(2 ^ 64 - 1) div f < v")
    case True
    then have "2 ^ 64 - 1 < v * f" using assms(4) by (simp add: quotient_less)
    then show ?thesis using pos quot True by simp
  next
    case False
    then have le: "v * f \<le> 2 ^ 64 - 1" using assms(4) by (simp add: quotient_less not_less)
    have total: "uint (word_of_int v * m :: 64 word) = v * f"
      using le num assms by (simp add: uint_word_ariths take_bit_int_eq_self)
    have max: "uint maxShmSize = 2 ^ 31" by (simp add: maxShmSize_def)
    have "sint (word_of_int v * m :: 64 word) = v * f" if "v * f \<le> 2 ^ 31"
    proof -
      have "0 \<le> v * f" using assms(1,4) by simp
      then show ?thesis using that total signed_take_bit_int_eq_self [of 63 "v * f"] by (simp add: sint_uint)
    qed
    moreover have "0 < v * f \<longleftrightarrow> v * f \<noteq> 0" using assms(1,4) by (auto simp: zero_less_mult_iff)
    ultimately show ?thesis
      using quot False total max by (auto simp: Let_def word_less_def uint_0_iff [symmetric] not_less)
  qed
qed

lemma parsed_product:
  assumes "s \<noteq> []" and "shm_multiplier u = Some m" "uint m = f" "1 \<le> f" "f \<le> 2 ^ 30"
  shows "shm_total s u =
    (case decimal_value s of None \<Rightarrow> io_err
     | Some v \<Rightarrow> if 0 < v * f \<and> v * f \<le> 2 ^ 31 then Inr (v * f) else (io_err :: (go_error, int) result))"
proof (cases "decimal_value s")
  case None
  then show ?thesis using assms(1) by (simp add: shm_total_def decimal_value_def strconv_ParseUint_def)
next
  case (Some v)
  then have v: "digits_value 0 s = Some v" "0 \<le> v" using assms(1) digits_value_Some [of 0 s] by (auto simp: decimal_value_def)
  show ?thesis
  proof (cases "v < 2 ^ 64")
    case True
    then have "strconv_ParseUint s = Some (word_of_int v)" using v(1) assms(1) by (simp add: strconv_ParseUint_def)
    then show ?thesis using checked_product [OF v(2) True assms(3-5)] Some assms(2) by (simp add: shm_total_def)
  next
    case False
    then have none: "strconv_ParseUint s = None" using v(1) assms(1) by (simp add: strconv_ParseUint_def)
    have "v \<le> v * f" using mult_left_mono [of 1 f v] v(2) assms(4) by simp
    moreover have "(2 :: int) ^ 31 < 2 ^ 64" by simp
    ultimately have "\<not> v * f \<le> 2 ^ 31" using False by linarith
    then show ?thesis using none Some by (simp add: shm_total_def)
  qed
qed

lemma scale_bounds: "shm_scale c = Some f \<Longrightarrow> 1 \<le> f \<and> f \<le> 2 ^ 30"
  by (auto simp: shm_scale_def split: if_splits)

lemma decimal_digits: "decimal_value s = Some v \<Longrightarrow> s \<noteq> [] \<and> is_digit (hd s) \<and> is_digit (last s)"
  using digits_value_Some [of 0 s v] by (auto simp: decimal_value_def list_all_iff split: if_splits)

lemma shm_bytes_hd: "shm_bytes raw = Some n \<Longrightarrow> is_digit (hd raw)"
  by (cases raw) (auto simp: shm_bytes_def dest!: decimal_digits split: option.splits if_splits)

text \<open>
  C30: The shared-memory size of a run request is exact: the 64-bit computation accepts a string exactly when it denotes, in
  unbounded arithmetic, a positive number of bytes of at most 2 GiB, and the accepted value is that number; the empty string means
  no size. In particular no product that overflows is accepted.
\<close>

theorem shm_size_exact:
  "validateShmSize raw =
     (if raw = [] then Inr 0
      else case shm_bytes raw of
          None \<Rightarrow> io_err
        | Some n \<Rightarrow> if 0 < n \<and> n \<le> 2 * 1024 ^ 3 then Inr n else io_err)"
proof (cases "raw = []")
  case False
  let ?lettered = "1 < length raw \<and> is_alpha (last raw)"
  consider (hd) "\<not> is_digit (hd raw)" | (unit) f where "is_digit (hd raw)" "?lettered" "shm_scale (last raw) = Some f"
    | (letter) "is_digit (hd raw)" "?lettered" "shm_scale (last raw) = None" | (plain) "is_digit (hd raw)" "\<not> ?lettered" by blast
  then show ?thesis
  proof cases
    case hd
    then have "shm_bytes raw = None" using shm_bytes_hd by (metis option.exhaust)
    then show ?thesis using hd False by (simp add: validateShmSize_def)
  next
    case unit
    then obtain m where m: "shm_multiplier [ascii_lower (last raw)] = Some m" "uint m = f" using multiplier_scale [of "last raw"] by auto
    have "butlast raw \<noteq> []" using unit(2) by (cases raw) auto
    then show ?thesis
      using parsed_product [OF _ m, of "butlast raw"] scale_bounds [OF unit(3)] unit False
      by (auto simp: validateShmSize_def shm_bytes_def Let_def split: option.split)
  next
    case letter
    then have "shm_multiplier [ascii_lower (last raw)] = None" using multiplier_scale [of "last raw"] by simp
    moreover have "decimal_value raw = None" using letter(2) decimal_digits digit_not_alpha by (metis option.exhaust)
    ultimately show ?thesis using letter False by (simp add: validateShmSize_def shm_total_def shm_bytes_def Let_def split: option.split)
  next
    case plain
    have "shm_scale (last raw) = None"
    proof (cases "is_alpha (last raw)")
      case True
      then have "length raw = 1" using plain(2) False by (cases raw) auto
      then have "last raw = hd raw" by (cases raw) auto
      then show ?thesis using True plain(1) digit_not_alpha by auto
    qed (use scale_alpha in fastforce)
    moreover have "validateShmSize raw = shm_total raw []" using plain False unfolding validateShmSize_def Let_def by auto
    moreover have "shm_multiplier [] = Some 1" by (simp add: shm_multiplier_def)
    ultimately show ?thesis using parsed_product [of raw "[]" 1 1] False by (simp add: shm_bytes_def split: option.split)
  qed
qed (simp add: validateShmSize_def)

section \<open>Accepted mounts\<close>

lemma join_abs_canonical:
  assumes "filepath_IsAbs workspace"
  shows "canonical_path (filepath_Join [workspace, source])"
proof -
  have "filepath_IsAbs (join_sep (filter (\<lambda>w. w \<noteq> []) [workspace, source]))" and "workspace \<noteq> []"
    using assms by (auto simp: filepath_IsAbs_def prefix_def)
  then show ?thesis using canonical_path_Clean by (simp add: filepath_Join_def Let_def)
qed

lemma admitted_canonical:
  assumes "admit_mount_source fs workspace snapshot source = Inr p" and "canonical_path workspace"
  shows "canonical_path p"
proof (cases "filepath_IsAbs source")
  case True
  then show ?thesis using assms(1) canonical_path_Clean by (auto simp: admit_mount_source_def Let_def split: if_splits)
next
  case False
  have "canonical_path (filepath_Join [workspace, source])" using join_abs_canonical assms(2) by simp
  then show ?thesis using False assms(1) by (auto simp: admit_mount_source_def host_Abs_def split: if_splits)
qed

lemma resolveMount_Inr:
  assumes "resolveMount fs m workspace snapshot = Inr r"
  shows "filepath_IsAbs (mr_Target m)" "rm_Target r = filepath_Clean (mr_Target m)" "rm_ReadOnly r = mr_ReadOnly m"
    "\<exists>p. admit_mount_source fs workspace snapshot (mr_Source m) = Inr p \<and> fs_eval fs p = Inr (rm_SourcePath r)"
    "filepath_IsAbs (mr_Source m) \<or> pathWithin workspace (rm_SourcePath r)"
  using assms by (auto simp: resolveMount_def Let_def split: if_splits sum.splits)

lemma resolve_run_mounts_Inr:
  "resolve_run_mounts fs workspace snapshot seen ms = Inr rs \<Longrightarrow>
   list_all2 (\<lambda>m r. resolveMount fs m workspace snapshot = Inr r) ms rs \<and>
   distinct (map rm_Target rs) \<and> set (map rm_Target rs) \<inter> set seen = {}"
proof (induction ms arbitrary: seen rs)
  case (Cons m ms)
  then obtain r rest where r: "resolveMount fs m workspace snapshot = Inr r" "rm_Target r \<notin> set seen" "rs = r # rest"
      and rest: "resolve_run_mounts fs workspace snapshot (rm_Target r # seen) ms = Inr rest"
    by (auto split: sum.splits if_splits)
  then show ?case using Cons.IH [OF rest] by auto
qed simp

lemma run_exposures_Inr:
  "run_exposures snapshot rs = Inr xs \<Longrightarrow>
   list_all2 (\<lambda>r x. resolveSessionFilesystemExposure snapshot (rm_SourcePath r) (rm_Target r) (rm_ReadOnly r) = Inr x) rs xs"
  by (induction rs arbitrary: xs) (auto split: sum.splits if_splits)

lemma exposure_Inr:
  assumes "resolveSessionFilesystemExposure snapshot source target readOnly = Inr x"
  shows "SourcePath x = source" "exposureTarget x = target" "RequestedReadOnly x = readOnly"
    "LookupAccess snapshot source = Some (exposureAccess x)" "readOnly \<or> CanExposeWritable snapshot source"
  using assms by (auto simp: resolveSessionFilesystemExposure_def Let_def split: option.splits if_splits)

lemma rel_canonical_Some:
  assumes "canonical_path r" "canonical_path p"
  shows "filepath_Rel r p \<noteq> None"
proof -
  obtain bs ts where dc: "drop_common (path_comps r) (path_comps p) = (bs, ts)" by fastforce
  then obtain ps where "path_comps r = ps @ bs" using drop_common_spec by blast
  then have "bs = [] \<or> hd bs \<noteq> ''..''" using canonical_path_comps(2) [OF assms(1)] by (cases bs) (auto simp: clean_comp_def)
  moreover have "r \<noteq> ''.''" using assms(1) by (auto simp: canonical_path_def filepath_IsAbs_def)
  ultimately show ?thesis using assms dc by (auto simp: filepath_Rel_def Let_def)
qed

text \<open>The two overlap checks are the same relation, to different mount points.\<close>

lemma trusted_ca_overlap:
  assumes "filepath_IsAbs target"
  shows "isTrustedCAMountOverlap target \<longleftrightarrow> macBoundaryOverlap (filepath_Clean target) trustedCAContainerDir"
proof -
  let ?c = "filepath_Clean target" and ?d = trustedCAContainerDir
  have c: "canonical_path ?c" using assms by (rule canonical_path_Clean)
  have d: "canonical_path ?d" by code_simp
  obtain rel rel2 where "filepath_Rel ?d ?c = Some rel" "filepath_Rel ?c ?d = Some rel2"
    using rel_canonical_Some [OF d c] rel_canonical_Some [OF c d] by auto
  then show ?thesis
    by (auto simp: isTrustedCAMountOverlap_def macBoundaryOverlap_def pathOverlap_def pathWithin_def rel_stays_inside_def Let_def)
qed

lemma overlap_iff: "macBoundaryOverlap a b \<longleftrightarrow> pathWithin a b \<or> pathWithin b a"
  by (auto simp: macBoundaryOverlap_def pathOverlap_def pathWithin_def)

definition authorized_mount ::
    "string \<Rightarrow> sessionFilesystemSnapshot \<Rightarrow> mountRequest \<Rightarrow> sessionFilesystemExposure \<Rightarrow> bool" where
  "authorized_mount workspace snapshot m x \<longleftrightarrow>
     exposureTarget x = filepath_Clean (mr_Target m) \<and> RequestedReadOnly x = mr_ReadOnly m \<and>
     LookupAccess snapshot (SourcePath x) = Some (exposureAccess x) \<and>
     (mr_ReadOnly m \<or> (\<forall>p. canonical_path p \<longrightarrow> pathWithin (SourcePath x) p \<longrightarrow> LookupAccess snapshot p = Some RW)) \<and>
     (filepath_IsAbs (mr_Source m) \<or> pathWithin workspace (SourcePath x))"

lemma mount_authorized:
  assumes "fs_resolves_canonical fs" and "snapshot_ok snapshot" and "canonical_path workspace"
    and r: "resolveMount fs m workspace snapshot = Inr r"
    and x: "resolveSessionFilesystemExposure snapshot (rm_SourcePath r) (rm_Target r) (rm_ReadOnly r) = Inr x"
  shows "authorized_mount workspace snapshot m x"
proof -
  have "canonical_path (rm_SourcePath r)"
    using resolveMount_Inr(4) [OF r] admitted_canonical assms(1,3) unfolding fs_resolves_canonical_def by blast
  then show ?thesis
    using exposure_Inr [OF x] resolveMount_Inr [OF r] expose_writable_iff [OF assms(2)]
    unfolding authorized_mount_def by auto
qed

text \<open>
  C9: Every mount of an accepted run request is authorized by the Session's issued snapshot: its resolved source lies in the
  snapshot, it is writable only where every path at or below the source is \<^verbatim>\<open>read_write\<close>, a relative spelling stays in the
  workspace even through symbolic links, the mode and the cleaned target are those requested, no two mounts share a target, and
  none overlaps a mount point the server itself uses.
\<close>

theorem run_mounts_authorized:
  assumes "fs_resolves_canonical fs" and "newSessionFilesystemSnapshot workspace entries = Inr snapshot"
    and "plan_run_mounts fs cfg workspace snapshot req = Inr (resolved, plan)"
  shows "list_all2 (authorized_mount workspace snapshot) (rq_Mounts req) plan \<and>
    distinct (map exposureTarget plan) \<and>
    (\<forall>x\<in>set plan. canonical_path (exposureTarget x) \<and>
       (rq_HelperSocket req \<longrightarrow> \<not> pathWithin (exposureTarget x) helperSocketContainerDir \<and>
          \<not> pathWithin helperSocketContainerDir (exposureTarget x)) \<and>
       (TrustedCAInjection cfg = ''auto'' \<longrightarrow> \<not> pathWithin (exposureTarget x) trustedCAContainerDir \<and>
          \<not> pathWithin trustedCAContainerDir (exposureTarget x)))"
proof -
  have snap: "snapshot_ok snapshot" "canonical_path workspace" using assms(2) by (auto simp: newSnapshot_Inr_iff snapshot_ok_def)
  have rs: "resolve_run_mounts fs workspace snapshot [] (rq_Mounts req) = Inr resolved" and xs: "run_exposures snapshot resolved = Inr plan"
    and ca: "TrustedCAInjection cfg = ''auto'' \<Longrightarrow> \<forall>m\<in>set (rq_Mounts req). \<not> isTrustedCAMountOverlap (mr_Target m)"
    and sock: "rq_HelperSocket req \<Longrightarrow> \<forall>m\<in>set (rq_Mounts req). \<not> isHelperSocketMountOverlap (mr_Target m)"
    using assms(3) by (auto simp: plan_run_mounts_def list_ex_iff split: if_splits)
  note r = conjunct1 [OF resolve_run_mounts_Inr [OF rs]] and x = run_exposures_Inr [OF xs]
  have len: "length resolved = length (rq_Mounts req)" "length plan = length resolved"
    using list_all2_lengthD [OF r] list_all2_lengthD [OF x] by simp_all
  have targets: "map exposureTarget plan = map rm_Target resolved"
    using x by (induction rule: list_all2_induct) (simp_all add: exposure_Inr(2))
  have mount: "authorized_mount workspace snapshot (rq_Mounts req ! i) (plan ! i) \<and> filepath_IsAbs (mr_Target (rq_Mounts req ! i))"
    if "i < length plan" for i
    using mount_authorized [OF assms(1) snap list_all2_nthD [OF r] list_all2_nthD [OF x]] resolveMount_Inr(1) [OF list_all2_nthD [OF r]] that len by simp
  have "\<exists>m\<in>set (rq_Mounts req). exposureTarget x = filepath_Clean (mr_Target m) \<and> filepath_IsAbs (mr_Target m)" if "x \<in> set plan" for x
    using that mount len by (metis (no_types, lifting) authorized_mount_def in_set_conv_nth)
  then have "\<forall>x\<in>set plan. canonical_path (exposureTarget x) \<and>
      (rq_HelperSocket req \<longrightarrow> \<not> macBoundaryOverlap (exposureTarget x) helperSocketContainerDir) \<and>
      (TrustedCAInjection cfg = ''auto'' \<longrightarrow> \<not> macBoundaryOverlap (exposureTarget x) trustedCAContainerDir)"
    using ca sock trusted_ca_overlap canonical_path_Clean
    by (fastforce simp: isHelperSocketMountOverlap_def macBoundaryOverlap_def)
  moreover have "distinct (map exposureTarget plan)" using resolve_run_mounts_Inr [OF rs] by (simp add: targets)
  ultimately show ?thesis using mount len by (auto simp: list_all2_conv_all_nth overlap_iff)
qed

definition demo_run_config :: Config where
  "demo_run_config = \<lparr>TrustedCAInjection = ''auto'', TrustedCAPreparedDir = ''/var/lib/dh/ca'', RuntimeDir = ''/run/dh'',
     OperationLogMaxBytes = 1024, OperationRetentionTTL = 0, OperationMaxCompleted = 8\<rparr>"

definition demo_snapshot :: sessionFilesystemSnapshot where
  "demo_snapshot = \<lparr>Workspace = ''/w'', Entries = [mk_entry ''/ref'' RO, mk_entry ''/w'' RW]\<rparr>"

definition demo_run_fs :: host_fs where
  "demo_run_fs = \<lparr>fs_eval = (\<lambda>p. if p = ''/w/docs'' then Inr ''/w/src/docs'' else Inr p), fs_stat = (\<lambda>_. Inr KindDir), fs_cwd = Some ''/'', fs_home = None\<rparr>"

definition demo_run_request :: runRequest where
  "demo_run_request = \<lparr>rq_Image = ''alpine'', rq_Entrypoint = [], rq_Workdir = ''/data'', rq_Command = [''ls'', ''--all''],
     rq_Environment = [(''B'', ''--privileged''), (''A'', ''1'')],
     rq_Mounts = [\<lparr>mr_Source = ''docs'', mr_Target = ''/data/x,y/'', mr_ReadOnly = False\<rparr>, \<lparr>mr_Source = ''/ref/./a'', mr_Target = ''/ref'', mr_ReadOnly = True\<rparr>],
     rq_ShmSize = [], rq_HelperSocket = True\<rparr>"

definition demo_plan :: "sessionFilesystemExposure list" where
  "demo_plan =
     [\<lparr>SourcePath = ''/w/src/docs'', exposureTarget = ''/data/x,y'', RequestedReadOnly = False, exposureAccess = RW, WritableAllowed = True\<rparr>,
      \<lparr>SourcePath = ''/ref/a'', exposureTarget = ''/ref'', RequestedReadOnly = True, exposureAccess = RO, WritableAllowed = False\<rparr>]"

lemma demo_run_fs_canonical: "fs_resolves_canonical demo_run_fs"
proof -
  have "canonical_path ''/w/src/docs''" by code_simp
  then show ?thesis by (simp add: fs_resolves_canonical_def demo_run_fs_def)
qed

lemma demo_plan_value:
  "plan_run_mounts demo_run_fs demo_run_config ''/w'' demo_snapshot demo_run_request =
     Inr ([\<lparr>rm_SourcePath = ''/w/src/docs'', rm_Target = ''/data/x,y'', rm_ReadOnly = False\<rparr>,
           \<lparr>rm_SourcePath = ''/ref/a'', rm_Target = ''/ref'', rm_ReadOnly = True\<rparr>], demo_plan)"
  by code_simp

theorem run_mounts_authorized_witness:
  "list_all2 (authorized_mount ''/w'' demo_snapshot) (rq_Mounts demo_run_request) demo_plan \<and>
   distinct (map exposureTarget demo_plan)"
proof -
  have "newSessionFilesystemSnapshot ''/w'' [mk_entry ''/ref'' RO, mk_entry ''/w'' RW] = Inr demo_snapshot" by code_simp
  from run_mounts_authorized [OF demo_run_fs_canonical this demo_plan_value] show ?thesis by blast
qed

section \<open>Reading the command line\<close>

text \<open>
  The options of a \<^verbatim>\<open>docker run\<close> command line up to the image, the first word that is not an option: every option the
  daemon writes takes the next word as its value, except the flag \<^verbatim>\<open>--rm\<close>.
\<close>

fun read_options :: "string list \<Rightarrow> (string \<times> string) list \<times> string list" where
  "read_options [] = ([], [])"
| "read_options (a # as) =
     (if \<not> prefix ''-'' a then ([], a # as)
      else if a = ''--rm'' then (case read_options as of (os, rest) \<Rightarrow> ((a, []) # os, rest))
      else (case as of
          [] \<Rightarrow> ([(a, [])], [])
        | v # bs \<Rightarrow> (case read_options bs of (os, rest) \<Rightarrow> ((a, v) # os, rest))))"

lemma read_value [simp]:
  "prefix ''-'' a \<Longrightarrow> a \<noteq> ''--rm'' \<Longrightarrow>
   read_options (a # v # as) = ((a, v) # fst (read_options as), snd (read_options as))"
  by (simp split: prod.split)

lemma read_flag [simp]: "read_options (''--rm'' # as) = ((''--rm'', []) # fst (read_options as), snd (read_options as))"
  by (simp split: prod.split)

lemma read_image [simp]: "\<not> prefix ''-'' a \<Longrightarrow> read_options (a # as) = ([], a # as)"
  by simp

declare read_options.simps(2) [simp del]

lemma read_many [simp]:
  "prefix ''-'' a \<Longrightarrow> a \<noteq> ''--rm'' \<Longrightarrow>
   read_options (options a vs @ as) = (map (Pair a) vs @ fst (read_options as), snd (read_options as))"
  by (induction vs) (simp_all add: options_def)

text \<open>The options the daemon writes, in order.\<close>

definition run_options :: "Config \<Rightarrow> runRequest \<Rightarrow> int \<Rightarrow> run_facts \<Rightarrow> string list \<Rightarrow> (string \<times> string) list" where
  "run_options cfg req shm facts specs =
     [(''--rm'', []), (''--user'', format_int (rf_uid facts) @ '':'' @ format_int (rf_gid facts)),
      (''--cap-drop'', ''ALL''), (''--security-opt'', ''no-new-privileges:true'')] @
     map (Pair ''--security-opt'') (rf_securityOpts facts) @
     map (Pair ''--label'') (runtimeLabelsForRun (rf_session facts) (rf_operationID facts)) @
     map (Pair ''--cidfile'') (given (rf_cidfile facts)) @
     map (Pair ''--entrypoint'') (given (rq_Entrypoint req)) @
     map (Pair ''--workdir'') (given (rq_Workdir req)) @
     map (Pair ''--env'') (map (\<lambda>name. name @ ''='' @ the (map_of (run_environment cfg req) name))
       (sort (map fst (run_environment cfg req)))) @
     map (Pair ''--mount'') specs @
     map (Pair ''--shm-size'') (if 0 < shm then [format_int shm] else [])"

lemma argv_reads:
  assumes "run_argv cfg req shm facts plan = Inr args" and "\<not> prefix ''-'' (rq_Image req)"
  shows "\<exists>specs. mount_specs (run_bind_mounts cfg req (rf_mountSources facts) plan) = Inr specs \<and>
    take 3 args = [''--config'', sessionDockerDir (RuntimeDir cfg) (ses_ID (rf_session facts)), ''run''] \<and>
    read_options (drop 3 args) = (run_options cfg req shm facts specs, rq_Image req # rq_Command req)"
proof -
  obtain specs where specs: "mount_specs (run_bind_mounts cfg req (rf_mountSources facts) plan) = Inr specs"
    using assms(1) by (auto simp: run_argv_def)
  have "args = ''--config'' # sessionDockerDir (RuntimeDir cfg) (ses_ID (rf_session facts)) # ''run'' # run_words cfg req shm facts specs @
      rq_Image req # rq_Command req"
    using assms(1) specs by (simp add: run_argv_def)
  then show ?thesis
    using specs assms(2) by (simp add: numeral_3_eq_3 run_words_def workloadPrivilegeFloor_def run_options_def split del: if_split)
qed

lemma mount_specs_read:
  "mount_specs ms = Inr specs \<Longrightarrow> list_all2 (\<lambda>m spec. csv_Read spec = Inr (mount_fields m, [])) ms specs"
  by (induction ms arbitrary: specs) (auto intro: mount_spec_read)

lemma filter_pair [simp]: "filter (\<lambda>q. fst q = b) (map (Pair a) vs) = (if a = b then map (Pair a) vs else [])"
  by (induction vs) auto

text \<open>
  C10: The command line of an accepted run request is read by the Docker command line exactly as the daemon means it. No word of the
  request becomes an option: the option names are the fixed ones of the daemon, the words after the options are the image and the
  command, the container user is the Session's execution identity, all capabilities are dropped and privilege gain is forbidden
  whatever else is requested, the labels are those of the Session's owner chain and the Operation, and the mounts are read back as
  exactly the accepted plan with the server's own projections.
\<close>

theorem run_command_line_exact:
  assumes "validateRunRequest req = Inr shm" and "run_argv cfg req shm facts plan = Inr args"
  shows "\<exists>opts specs.
    take 3 args = [''--config'', sessionDockerDir (RuntimeDir cfg) (ses_ID (rf_session facts)), ''run''] \<and>
    read_options (drop 3 args) = (opts, rq_Image req # rq_Command req) \<and>
    fst ` set opts \<subseteq> {''--rm'', ''--user'', ''--cap-drop'', ''--security-opt'', ''--label'', ''--cidfile'', ''--entrypoint'',
      ''--workdir'', ''--env'', ''--mount'', ''--shm-size''} \<and>
    map snd (filter (\<lambda>q. fst q = ''--user'') opts) = [format_int (rf_uid facts) @ '':'' @ format_int (rf_gid facts)] \<and>
    map snd (filter (\<lambda>q. fst q = ''--cap-drop'') opts) = [''ALL''] \<and>
    map snd (filter (\<lambda>q. fst q = ''--security-opt'') opts) = ''no-new-privileges:true'' # rf_securityOpts facts \<and>
    map snd (filter (\<lambda>q. fst q = ''--label'') opts) = runtimeLabelsForRun (rf_session facts) (rf_operationID facts) \<and>
    map snd (filter (\<lambda>q. fst q = ''--mount'') opts) = specs \<and>
    list_all2 (\<lambda>m spec. csv_Read spec = Inr (mount_fields m, [])) (run_bind_mounts cfg req (rf_mountSources facts) plan) specs"
proof -
  have "\<not> prefix ''-'' (rq_Image req)" using assms(1) by (auto simp: validateRunRequest_def split: if_splits)
  then obtain specs where specs: "mount_specs (run_bind_mounts cfg req (rf_mountSources facts) plan) = Inr specs"
      and args: "take 3 args = [''--config'', sessionDockerDir (RuntimeDir cfg) (ses_ID (rf_session facts)), ''run'']"
        "read_options (drop 3 args) = (run_options cfg req shm facts specs, rq_Image req # rq_Command req)"
    using argv_reads [OF assms(2)] by blast
  let ?opts = "run_options cfg req shm facts specs"
  have names: "fst ` set ?opts \<subseteq> {''--rm'', ''--user'', ''--cap-drop'', ''--security-opt'', ''--label'', ''--cidfile'', ''--entrypoint'',
      ''--workdir'', ''--env'', ''--mount'', ''--shm-size''}" by (auto simp: run_options_def split del: if_split)
  have readings: "map snd (filter (\<lambda>q. fst q = ''--user'') ?opts) = [format_int (rf_uid facts) @ '':'' @ format_int (rf_gid facts)]"
    "map snd (filter (\<lambda>q. fst q = ''--cap-drop'') ?opts) = [''ALL'']"
    "map snd (filter (\<lambda>q. fst q = ''--security-opt'') ?opts) = ''no-new-privileges:true'' # rf_securityOpts facts"
    "map snd (filter (\<lambda>q. fst q = ''--label'') ?opts) = runtimeLabelsForRun (rf_session facts) (rf_operationID facts)"
    "map snd (filter (\<lambda>q. fst q = ''--mount'') ?opts) = specs"
    by (simp_all add: run_options_def comp_def split del: if_split)
  show ?thesis by (intro exI [of _ ?opts] exI [of _ specs] conjI args names readings mount_specs_read [OF specs])
qed

definition demo_run_facts :: run_facts where
  "demo_run_facts = \<lparr>rf_session = \<lparr>ses_ID = ''dhs_1'', ses_Workspace = ''/w'', ses_CreatedAt = 0, ses_ExpiresAt = 0, ses_LauncherID = ''l1'',
       ses_LauncherName = ''default'', ses_PrincipalName = ''alice''\<rparr>, rf_uid = 7, rf_gid = 8, rf_operationID = ''op_1'',
     rf_cidfile = ''/run/dh/op_1.cid'', rf_securityOpts = [''apparmor=dh-op_1''], rf_mountSources = [''/p/0'']\<rparr>"

definition plain_config :: Config where
  "plain_config = demo_run_config\<lparr>TrustedCAInjection := []\<rparr>"

definition plain_request :: runRequest where
  "plain_request = demo_run_request\<lparr>rq_HelperSocket := False\<rparr>"

definition demo_argv :: "string list" where
  "demo_argv = (case run_argv plain_config plain_request 0 demo_run_facts [hd demo_plan] of Inl _ \<Rightarrow> [] | Inr args \<Rightarrow> args)"

lemma demo_specs:
  "mount_specs (run_bind_mounts plain_config plain_request (rf_mountSources demo_run_facts) [hd demo_plan]) =
     Inr [''type=bind,source=/p/0,'' @ [dquote] @ ''target=/data/x,y'' @ [dquote]]"
  by code_simp

lemma demo_argv_value: "run_argv plain_config plain_request 0 demo_run_facts [hd demo_plan] = Inr demo_argv"
  unfolding demo_argv_def run_argv_def demo_specs by simp

theorem run_command_line_exact_witness:
  "\<exists>opts. read_options (drop 3 demo_argv) = (opts, [''alpine'', ''ls'', ''--all'']) \<and>
     map snd (filter (\<lambda>q. fst q = ''--cap-drop'') opts) = [''ALL''] \<and>
     map snd (filter (\<lambda>q. fst q = ''--security-opt'') opts) = [''no-new-privileges:true'', ''apparmor=dh-op_1'']"
proof -
  have valid: "validateRunRequest plain_request = Inr 0" by code_simp
  have eq: "rq_Image plain_request # rq_Command plain_request = [''alpine'', ''ls'', ''--all'']"
      "''no-new-privileges:true'' # rf_securityOpts demo_run_facts = [''no-new-privileges:true'', ''apparmor=dh-op_1'']"
    by code_simp+
  from run_command_line_exact [OF valid demo_argv_value] obtain opts where
    "read_options (drop 3 demo_argv) = (opts, rq_Image plain_request # rq_Command plain_request)"
    "map snd (filter (\<lambda>q. fst q = ''--cap-drop'') opts) = [''ALL'']"
    "map snd (filter (\<lambda>q. fst q = ''--security-opt'') opts) = ''no-new-privileges:true'' # rf_securityOpts demo_run_facts" by (elim exE conjE) metis
  then show ?thesis unfolding eq by (intro exI [of _ opts] conjI)
qed

end
