(* ===== verification/Container_Listing.thy ===== *)
theory Container_Listing
  imports Lifecycle
begin

text \<open>
  The output of \<^verbatim>\<open>docker ps\<close> as launcher\_lifecycle.go asks for it and decodes it: the
  decoder inverts the format.
\<close>

section \<open>The container listing\<close>

text \<open>
  The listing in the format the daemon asks for, \<^verbatim>\<open>{{.ID}} {{.State}}\<close> on one line per
  container, for identifiers and states without white space.
\<close>

definition ps_word :: "string \<Rightarrow> bool" where
  "ps_word w \<longleftrightarrow> w \<noteq> [] \<and> (\<forall>c\<in>set w. 0x20 < (of_char c :: nat) \<and> (of_char c :: nat) < 0x7F)"

definition ps_line :: "helperContainer \<Rightarrow> string" where
  "ps_line c = hc_ID c @ '' '' @ hc_State c"

definition ps_output :: "helperContainer list \<Rightarrow> string" where
  "ps_output cs = concat (map (\<lambda>c. ps_line c @ [CHR 0x0A]) cs)"

lemma ps_word_chunks:
  assumes "ps_word w"
  shows "\<forall>c\<in>set (map (\<lambda>c. [c]) w). \<not> unicode_IsSpace c \<and> c \<noteq> [CHR 0x0A] \<and> c \<noteq> [CHR '' '']" and "\<forall>c\<in>set w. (of_char c :: nat) < 0x80"
proof -
  have "\<not> unicode_IsSpace [c] \<and> c \<noteq> CHR 0x0A \<and> c \<noteq> CHR '' '' \<and> (of_char c :: nat) < 0x80" if "c \<in> set w" for c
  proof -
    have c: "0x20 < (of_char c :: nat)" "(of_char c :: nat) < 0x7F" using assms that by (auto simp: ps_word_def)
    then show ?thesis using space_ascii [of c] by auto
  qed
  then show "\<forall>c\<in>set (map (\<lambda>c. [c]) w). \<not> unicode_IsSpace c \<and> c \<noteq> [CHR 0x0A] \<and> c \<noteq> [CHR '' '']" "\<forall>c\<in>set w. (of_char c :: nat) < 0x80"
    by auto
qed

abbreviation chunks :: "string \<Rightarrow> string list" where "chunks w \<equiv> map (\<lambda>c. [c]) w"

definition ps_container :: "helperContainer \<Rightarrow> bool" where
  "ps_container c \<longleftrightarrow> ps_word (hc_ID c) \<and> ps_word (hc_State c)"

fun ps_lines :: "helperContainer list \<Rightarrow> string" where
  "ps_lines [] = []"
| "ps_lines [c] = ps_line c"
| "ps_lines (c # d # cs) = ps_line c @ CHR 0x0A # ps_lines (d # cs)"

lemma ps_output_lines: "cs \<noteq> [] \<Longrightarrow> ps_output cs = ps_lines cs @ [CHR 0x0A]"
  by (induction cs rule: ps_lines.induct) (simp_all add: ps_output_def)

lemma concat_chunks [simp]: "concat (chunks w) = w"
  by (induction w) simp_all

lemma line_fields:
  assumes "ps_container c"
  shows "strings_Fields (chunks (ps_line c)) = [hc_ID c, hc_State c]"
proof -
  have w: "ps_word (hc_ID c)" "ps_word (hc_State c)" using assms by (simp_all add: ps_container_def)
  have "unicode_IsSpace [CHR '' '']" by code_simp
  then have "split_chunks unicode_IsSpace [] (chunks (ps_line c)) = [chunks (hc_ID c), chunks (hc_State c)]"
    using split_chunks_sep [of "chunks (hc_ID c)" unicode_IsSpace "[]"]
      split_chunks_sep [of "chunks (hc_State c)" unicode_IsSpace "[]" "[]"] ps_word_chunks(1) [OF w(1)] ps_word_chunks(1) [OF w(2)]
    by (simp add: ps_line_def)
  then show ?thesis using w by (simp add: strings_Fields_def ps_word_def)
qed

lemma trim_inner:
  assumes "xs \<noteq> []" and "\<not> unicode_IsSpace (hd xs)" and "\<not> unicode_IsSpace (last xs)" and "\<forall>y\<in>set ys. unicode_IsSpace y"
  shows "strings_TrimSpace (xs @ ys) = xs"
proof -
  have "dropWhile unicode_IsSpace (xs @ ys) = xs @ ys" using assms(1,2) by (cases xs) simp_all
  moreover have "dropWhile unicode_IsSpace (rev ys @ rev xs) = dropWhile unicode_IsSpace (rev xs)"
    using assms(4) by (intro dropWhile_append2) simp
  moreover have "dropWhile unicode_IsSpace (rev xs) = rev xs"
    using assms(1,3) by (cases xs rule: rev_cases) simp_all
  ultimately show ?thesis by (simp add: strings_TrimSpace_def)
qed

lemma ps_line_ends:
  assumes "ps_container c"
  shows "ps_line c \<noteq> []" "\<not> unicode_IsSpace [hd (ps_line c)]" "\<not> unicode_IsSpace [last (ps_line c)]"
    "\<forall>d\<in>set (ps_line c). d \<noteq> CHR 0x0A \<and> (of_char d :: nat) < 0x80"
proof -
  have w: "ps_word (hc_ID c)" "ps_word (hc_State c)" using assms by (simp_all add: ps_container_def)
  have ne: "hc_ID c \<noteq> []" "hc_State c \<noteq> []" using w by (simp_all add: ps_word_def)
  note in1 = ps_word_chunks [OF w(1)] and in2 = ps_word_chunks [OF w(2)]
  show "ps_line c \<noteq> []" by (simp add: ps_line_def)
  show "\<not> unicode_IsSpace [hd (ps_line c)]" using in1(1) ne(1) by (simp add: ps_line_def)
  show "\<not> unicode_IsSpace [last (ps_line c)]" using in2(1) ne(2) by (simp add: ps_line_def)
  show "\<forall>d\<in>set (ps_line c). d \<noteq> CHR 0x0A \<and> (of_char d :: nat) < 0x80"
    using in1 in2 by (auto simp: ps_line_def)
qed

lemma ps_lines_ends:
  assumes "cs \<noteq> []" and "\<forall>c\<in>set cs. ps_container c"
  shows "ps_lines cs \<noteq> [] \<and> \<not> unicode_IsSpace [hd (ps_lines cs)] \<and> \<not> unicode_IsSpace [last (ps_lines cs)] \<and>
    (\<forall>d\<in>set (ps_lines cs). (of_char d :: nat) < 0x80)"
  using assms by (induction cs rule: ps_lines.induct) (auto simp: ps_line_ends)

lemma split_lines:
  assumes "cs \<noteq> []" and "\<forall>c\<in>set cs. ps_container c"
  shows "split_chunks (\<lambda>c. c = [CHR 0x0A]) [] (chunks (ps_lines cs)) = map (\<lambda>c. chunks (ps_line c)) cs"
  using assms
proof (induction cs rule: ps_lines.induct)
  case (2 c)
  then show ?case using split_chunks_sep [of "chunks (ps_line c)" "\<lambda>c. c = [CHR 0x0A]" "[]" "[]"] ps_line_ends(4) [of c] by simp
next
  case (3 c d cs)
  have "split_chunks (\<lambda>c. c = [CHR 0x0A]) [] (chunks (ps_line c) @ [CHR 0x0A] # chunks (ps_lines (d # cs))) =
      split_chunks (\<lambda>c. c = [CHR 0x0A]) ([] @ chunks (ps_line c)) ([CHR 0x0A] # chunks (ps_lines (d # cs)))"
    by (rule split_chunks_sep) (use 3(3) ps_line_ends(4) [of c] in auto)
  then show ?case using 3 by simp
qed simp

lemma parse_lines: "\<forall>c\<in>set cs. ps_container c \<Longrightarrow> parse_ps_lines (map (\<lambda>c. chunks (ps_line c)) cs) = Inr cs"
proof (induction cs)
  case (Cons c cs)
  then have c: "ps_container c" by simp
  have "strings_TrimSpace (chunks (ps_line c)) = chunks (ps_line c)"
    using trim_inner [of "chunks (ps_line c)" "[]"] ps_line_ends [OF c] by (simp add: hd_map last_map)
  then show ?case using Cons line_fields [OF c] ps_line_ends(1) [OF c] by simp
qed simp

text \<open>
  the container listing is read back exactly. For every list of containers whose identifiers and
  states are words of printable ASCII characters, decoding the listing the daemon asks the Docker CLI
  for yields those containers in order; the classification of a listed state therefore never depends
  on the decoding.
\<close>

theorem container_listing_roundtrip:
  assumes "\<forall>c\<in>set cs. ps_word (hc_ID c) \<and> ps_word (hc_State c)"
  shows "parse_ps_output (ps_output cs) = Inr cs"
proof (cases "cs = []")
  case True
  have "parse_ps_output (ps_output []) = Inr []" by (simp add: parse_ps_output_def ps_output_def strings_TrimSpace_def)
  then show ?thesis using True by simp
next
  case False
  have ok: "\<forall>c\<in>set cs. ps_container c" using assms by (simp add: ps_container_def)
  note ends = ps_lines_ends [OF False ok]
  have "rune_chunks (ps_output cs) = chunks (ps_lines cs) @ [[CHR 0x0A]]"
    using rune_chunks_ascii [of "ps_output cs"] ends unfolding ps_output_lines [OF False] by simp
  moreover have "unicode_IsSpace [CHR 0x0A]" by code_simp
  ultimately have "strings_TrimSpace (rune_chunks (ps_output cs)) = chunks (ps_lines cs)"
    using trim_inner [of "chunks (ps_lines cs)" "[[CHR 0x0A]]"] ends by (simp add: hd_map last_map)
  then show ?thesis using split_lines [OF False ok] parse_lines [OF ok] ends by (simp add: parse_ps_output_def)
qed

theorem container_listing_roundtrip_witness:
  "ps_output [\<lparr>hc_ID = ''4fa3'', hc_State = ''exited''\<rparr>, \<lparr>hc_ID = ''b01c'', hc_State = ''running''\<rparr>] =
     ''4fa3 exited'' @ [CHR 0x0A] @ ''b01c running'' @ [CHR 0x0A] \<and>
   parse_ps_output (''4fa3 exited'' @ [CHR 0x0A] @ ''b01c running'' @ [CHR 0x0A]) =
     Inr [\<lparr>hc_ID = ''4fa3'', hc_State = ''exited''\<rparr>, \<lparr>hc_ID = ''b01c'', hc_State = ''running''\<rparr>]"
proof -
  let ?cs = "[\<lparr>hc_ID = ''4fa3'', hc_State = ''exited''\<rparr>, \<lparr>hc_ID = ''b01c'', hc_State = ''running''\<rparr>]"
  have out: "ps_output ?cs = ''4fa3 exited'' @ [CHR 0x0A] @ ''b01c running'' @ [CHR 0x0A]" by code_simp
  have "\<forall>c\<in>set ?cs. ps_word (hc_ID c) \<and> ps_word (hc_State c)" by code_simp
  from container_listing_roundtrip [OF this] show ?thesis unfolding out by blast
qed

end
