(* ===== verification/Run_Cleanup.thy ===== *)
theory Run_Cleanup
  imports Run_Request Container_Listing
begin

text \<open>
  What a run holds while it is prepared and while its container may exist: capacity of the supervisor, a
  session-use lease of the MAC coordinator, pinned mount sources, workload MAC state in the kernel and its durable
  ownership record. mount\_pin\_linux.go pins a source, workload\_mac.go prepares the workload MAC state and
  reconciles at startup what an earlier daemon left, run\_cleanup.go releases everything in one fixed order.

  The state has the supervisor, the coordinator and the live resources. The outcomes of system calls, of the Docker
  CLI and of the MAC back end are parameters numbered by a call counter, and every access to the supervisor is
  preceded by arbitrary steps of other goroutines. The coordinator is used by one request at a time. Every cleanup
  owner runs at most once for an Operation, so the once guards of pins and prepared state have nothing to guard.
\<close>

section \<open>State\<close>

record preparedWorkloadMAC =
  SecurityOpts :: "string list"
  MountSources :: "string list"

text \<open>
  The fields of an Operation that hold its prepared resources: the prepared workload MAC state, the pinned paths, the
  key of the lease and the cidfile.
\<close>

record run_op =
  ro_ID :: string
  ro_SessionID :: string
  ro_workloadMAC :: "preparedWorkloadMAC option"
  ro_pinnedMounts :: "string list"
  ro_macLease :: "string option"
  ro_cidfile :: string

record workloadMACRecord =
  wr_Schema :: int
  wr_OperationID :: string
  wr_SessionID :: string
  wr_Backend :: string

datatype workloadCleanupStageName =
    cleanupStageCapacity | cleanupStageContainerProof | cleanupStageWorkloadMAC | cleanupStageSourcePins
  | cleanupStageOwnershipState | cleanupStageWorkspaceLease | cleanupStageCidfile

text \<open>
  The live resources: the attached pins by their path, the Operations with workload MAC state in the kernel, the
  committed ownership records. Removed cidfiles, removed containers, started
  processes with their arguments, audit events and the stages the operational log reports as retained are logs.
\<close>

record 'd run_world =
  rw_sup :: sup_world
  rw_mac :: "'d sessionMACCoordinator"
  rw_calls :: nat
  rw_pins :: "string list"
  rw_workload :: "string list"
  rw_records :: "workloadMACRecord list"
  rw_unlinked :: "string list"
  rw_removed :: "string list"
  rw_started :: "(nat \<times> string list) list"
  rw_audit :: "(string \<times> string) list"
  rw_log :: "(string \<times> workloadCleanupStageName) list"

record workloadPreparation =
  wp_OperationID :: string
  wp_SessionID :: string
  wp_Exposures :: "sessionFilesystemExposure list"
  wp_PinnedSources :: "string list"

datatype prepareFailure = PrepareFailed | PrepareRetained

datatype removalResult = Removed | RemovalInProgress | RemovalFailed

text \<open>
  The environment: the steps of other goroutines on the supervisor, the coordinator's environment, the success of
  system calls, whether a failed directory removal took the record with it, the Docker CLI (\<^const>\<open>None\<close> from the
  listing is a failure, from the removal a success), the number of polls that fit in the settle window, the back end (\<^const>\<open>Inl\<close>
  \<^const>\<open>True\<close> is a preparation whose rollback it could not prove), file kinds, directory listings and the
  back end's validation of owned state.
\<close>

record 'd run_env =
  ex_others :: "nat \<Rightarrow> sup_world \<Rightarrow> sup_world"
  ex_mac :: "'d mac_env"
  ex_sys :: "nat \<Rightarrow> bool"
  ex_partial :: "nat \<Rightarrow> bool"
  ex_ps :: "nat \<Rightarrow> string list \<Rightarrow> string option"
  ex_rm :: "nat \<Rightarrow> string list \<Rightarrow> string option"
  ex_polls :: nat
  ex_backend :: string
  ex_prepare :: "nat \<Rightarrow> workloadPreparation \<Rightarrow> (bool, preparedWorkloadMAC) result"
  ex_kind :: "nat \<Rightarrow> string \<Rightarrow> (probe_error, file_kind) result"
  ex_readdir :: "nat \<Rightarrow> string \<Rightarrow> string list"
  ex_owned :: "nat \<Rightarrow> workloadMACRecord \<Rightarrow> bool"

type_synonym ('d, 'a) run = "('d run_world, 'a) state"

text \<open>An outside outcome, an access to the supervisor, a call of the coordinator, reading and changing live resources.\<close>

definition outcome :: "(nat \<Rightarrow> 'a) \<Rightarrow> ('d, 'a) run" where
  "outcome f = state.State (\<lambda>w. (f (rw_calls w), w\<lparr>rw_calls := Suc (rw_calls w)\<rparr>))"

definition sup_access :: "'d run_env \<Rightarrow> (sup_world \<Rightarrow> 'a \<times> sup_world) \<Rightarrow> ('d, 'a) run" where
  "sup_access env f = state.State (\<lambda>w. case f (ex_others env (rw_calls w) (rw_sup w)) of
     (r, s) \<Rightarrow> (r, w\<lparr>rw_sup := s, rw_calls := Suc (rw_calls w)\<rparr>))"

definition mac_access :: "('d, 'a) mac \<Rightarrow> ('d, 'a) run" where
  "mac_access m = state.State (\<lambda>w. case run_state m (rw_mac w) of (r, c) \<Rightarrow> (r, w\<lparr>rw_mac := c\<rparr>))"

definition look :: "('d run_world \<Rightarrow> 'a) \<Rightarrow> ('d, 'a) run" where
  "look f = state.State (\<lambda>w. (f w, w))"

definition resources :: "('d run_world \<Rightarrow> 'd run_world) \<Rightarrow> ('d, unit) run" where
  "resources f = state.State (\<lambda>w. ((), f w))"

definition sys :: "'d run_env \<Rightarrow> ('d, (go_error, unit) result) run" where
  "sys env = outcome (\<lambda>n. if ex_sys env n then Inr () else io_err)"

text \<open>An error return that first runs a rollback whose own error is only joined to it.\<close>

definition or_rollback ::
    "('s, (go_error, 'a) result) state \<Rightarrow> ('s, unit) state \<Rightarrow> ('a \<Rightarrow> ('s, (go_error, 'b) result) state) \<Rightarrow> ('s, (go_error, 'b) result) state" where
  "or_rollback m rollback f = do { r \<leftarrow> m; case r of Inl e \<Rightarrow> do { rollback; ret (Inl e) } | Inr b \<Rightarrow> f b }"

section \<open>Pinning a mount source\<close>

definition pin_path :: "string \<Rightarrow> string \<Rightarrow> nat \<Rightarrow> string" where
  "pin_path runtimeDir operationID mountIndex = filepath_Join [filepath_Join [runtimeDir, ''mounts'', operationID], decimal mountIndex]"

text \<open>
  \<^verbatim>\<open>rollbackDest\<close> removes the destination and then the directory; neither is a resource, only an attached mount is.
\<close>

definition rollbackDest :: "'d run_env \<Rightarrow> ('d, unit) run" where
  "rollbackDest env = do { sys env; sys env; ret () }"

text \<open>Creating the destination fails when it exists, as it does under an attached pin.\<close>

definition create_destination :: "'d run_env \<Rightarrow> string \<Rightarrow> ('d, (go_error, unit) result) run" where
  "create_destination env pinnedPath = do {
     attached \<leftarrow> look (\<lambda>w. pinnedPath \<in> set (rw_pins w));
     if attached then ret io_err else sys env }"

definition pinMountSource :: "'d run_env \<Rightarrow> string \<Rightarrow> string \<Rightarrow> string \<Rightarrow> nat \<Rightarrow> ('d, (go_error, string) result) run" where
  "pinMountSource env sourcePath runtimeDir operationID mountIndex =
     (if \<not> isOperationIDSafe operationID then ret io_err
      else if \<not> filepath_IsAbs sourcePath then ret io_err
      else if \<not> filepath_IsAbs runtimeDir then ret io_err
      else or_return (sys env) (\<lambda>rootFD.
        or_return (sys env) (\<lambda>sourceFD.
        or_return (outcome (\<lambda>n. map_sum (\<lambda>_. []) id (ex_kind env n sourcePath))) (\<lambda>kind.
        if kind \<noteq> KindDir \<and> kind \<noteq> KindRegular then ret io_err
        else let pinnedPath = pin_path runtimeDir operationID mountIndex in
          or_return (sys env) (\<lambda>mkdirAll.
          or_return (create_destination env pinnedPath) (\<lambda>createdDest.
          or_rollback (sys env) (rollbackDest env) (\<lambda>destDirFD.
          or_rollback (sys env) (rollbackDest env) (\<lambda>treeFD.
          or_rollback (sys env) (rollbackDest env) (\<lambda>moveMount. do {
            resources (\<lambda>w. w\<lparr>rw_pins := rw_pins w @ [pinnedPath]\<rparr>);
            ret (Inr pinnedPath) })))))))))"

text \<open>
  \<^verbatim>\<open>cleanupPinnedMount\<close>: the mount is detached first (a path that is no mount counts as detached); a failure to remove
  the destination afterwards is an error although the mount is gone.
\<close>

definition cleanupPinnedMount :: "'d run_env \<Rightarrow> string \<Rightarrow> ('d, (go_error, unit) result) run" where
  "cleanupPinnedMount env pinnedPath =
     or_return (sys env) (\<lambda>umountDetach. do {
       resources (\<lambda>w. w\<lparr>rw_pins := removeAll pinnedPath (rw_pins w)\<rparr>);
       or_return (sys env) (\<lambda>remove. sys env) })"

text \<open>All pins are tried, last first; the errors are joined.\<close>

fun cleanup_pins :: "'d run_env \<Rightarrow> string list \<Rightarrow> ('d, (go_error, unit) result) run" where
  "cleanup_pins env [] = ret (Inr ())"
| "cleanup_pins env (p # ps) = do {
     r \<leftarrow> cleanupPinnedMount env p;
     rest \<leftarrow> cleanup_pins env ps;
     ret (case r of Inl e \<Rightarrow> Inl e | Inr _ \<Rightarrow> rest) }"

definition cleanupPinnedMounts :: "'d run_env \<Rightarrow> run_op \<Rightarrow> ('d, (go_error, unit) result) run" where
  "cleanupPinnedMounts env op = cleanup_pins env (rev (ro_pinnedMounts op))"

section \<open>Workload MAC state\<close>

definition workloadMACStateSchema :: int where "workloadMACStateSchema = 1"

text \<open>
  The durable directory carries the record and is removed last. A removal of the directory that fails may have taken
  the record with it.
\<close>

definition removeWorkloadMACState :: "'d run_env \<Rightarrow> string \<Rightarrow> ('d, (go_error, unit) result) run" where
  "removeWorkloadMACState env operationID =
     or_return (sys env) (\<lambda>runtimeRemoved.
       do {
         stateRemoved \<leftarrow> sys env;
         partial \<leftarrow> outcome (ex_partial env);
         st_when (stateRemoved = Inr () \<or> partial)
           (resources (\<lambda>w. w\<lparr>rw_records := filter (\<lambda>rec. wr_OperationID rec \<noteq> operationID) (rw_records w)\<rparr>));
         ret stateRemoved })"

text \<open>The back end's cleanup of owned kernel state.\<close>

definition cleanupOwnedState :: "'d run_env \<Rightarrow> string \<Rightarrow> ('d, (go_error, unit) result) run" where
  "cleanupOwnedState env operationID =
     or_return (sys env) (\<lambda>cleaned. do {
       resources (\<lambda>w. w\<lparr>rw_workload := removeAll operationID (rw_workload w)\<rparr>);
       ret (Inr ()) })"

text \<open>
  \<^verbatim>\<open>Prepare\<close>. The state directory must be new, so no record of the Operation exists. The record is committed before
  the back end creates anything. A back end that fails may have left kernel state behind: it counts as live until a
  cleanup has succeeded.
\<close>

definition new_state_dir :: "'d run_env \<Rightarrow> string \<Rightarrow> ('d, (go_error, unit) result) run" where
  "new_state_dir env operationID = do {
     known \<leftarrow> look (\<lambda>w. operationID \<in> wr_OperationID ` set (rw_records w));
     if known then ret io_err else sys env }"

definition prepare_record :: "'d run_env \<Rightarrow> workloadPreparation \<Rightarrow> ('d, (go_error, unit) result) run" where
  "prepare_record env p =
     or_return (sys env) (\<lambda>stateRoot.
     or_return (sys env) (\<lambda>runtimeRoot.
     or_return (new_state_dir env (wp_OperationID p)) (\<lambda>stateDir.
     or_rollback (sys env) (do { sys env; ret () }) (\<lambda>runtimeDir.
     or_rollback (sys env) (do { sys env; sys env; ret () }) (\<lambda>written. do {
       resources (\<lambda>w. w\<lparr>rw_records := rw_records w @ [\<lparr>wr_Schema = workloadMACStateSchema, wr_OperationID = wp_OperationID p,
         wr_SessionID = wp_SessionID p, wr_Backend = ex_backend env\<rparr>]\<rparr>);
       ret (Inr ()) })))))"

definition Prepare :: "'d run_env \<Rightarrow> workloadPreparation \<Rightarrow> ('d, (prepareFailure, preparedWorkloadMAC) result) run" where
  "Prepare env p = do {
     recorded \<leftarrow> prepare_record env p;
     case recorded of
       Inl _ \<Rightarrow> ret (Inl PrepareFailed)
     | Inr _ \<Rightarrow> do {
         resources (\<lambda>w. w\<lparr>rw_workload := rw_workload w @ [wp_OperationID p]\<rparr>);
         r \<leftarrow> outcome (\<lambda>n. ex_prepare env n p);
         case r of
           Inr prepared \<Rightarrow> ret (Inr prepared)
         | Inl rollbackRetained \<Rightarrow>
             if rollbackRetained then ret (Inl PrepareRetained)
             else do {
               c \<leftarrow> cleanupOwnedState env (wp_OperationID p);
               ret (Inl (case c of Inl _ \<Rightarrow> PrepareRetained | Inr _ \<Rightarrow> PrepareFailed)) } } }"

text \<open>\<^verbatim>\<open>Cleanup\<close> of the prepared state runs the back end's cleanup; without prepared state it does nothing.\<close>

definition workload_Cleanup :: "'d run_env \<Rightarrow> run_op \<Rightarrow> ('d, (go_error, unit) result) run" where
  "workload_Cleanup env op =
     (case ro_workloadMAC op of None \<Rightarrow> ret (Inr ()) | Some _ \<Rightarrow> cleanupOwnedState env (ro_ID op))"

section \<open>Proof of absence\<close>

definition ps_filter :: "string \<Rightarrow> string \<Rightarrow> string list" where
  "ps_filter key val = [''--filter'', ''label='' @ key @ ''='' @ val]"

definition inspect_args :: "string \<Rightarrow> string \<Rightarrow> string list" where
  "inspect_args operationID sessionID = [''ps'', ''-a''] @ ps_filter runtimeLabelSchema runtimeLabelSchemaValue @
     ps_filter runtimeLabelOperationID operationID @ ps_filter runtimeLabelSessionID sessionID @ [''--format'', ''{{.ID}} {{.State}}'']"

text \<open>What the Docker CLI answers to the inspection made as call \<^term>\<open>n\<close>.\<close>

definition correlated :: "'d run_env \<Rightarrow> string \<Rightarrow> string \<Rightarrow> nat \<Rightarrow> (go_error, helperContainer list) result" where
  "correlated env operationID sessionID n =
     (case ex_ps env n (inspect_args operationID sessionID) of None \<Rightarrow> io_err | Some out \<Rightarrow> parse_ps_output out)"

definition inspectCorrelatedContainers :: "'d run_env \<Rightarrow> string \<Rightarrow> string \<Rightarrow> ('d, (go_error, helperContainer list) result) run" where
  "inspectCorrelatedContainers env operationID sessionID = outcome (correlated env operationID sessionID)"

text \<open>The Docker CLI reports a removal that Docker itself has under way only in its error text.\<close>

definition removal_result :: "string option \<Rightarrow> removalResult" where
  "removal_result failure =
     (case failure of
        None \<Rightarrow> Removed
      | Some stderrText \<Rightarrow>
          if strings_Contains stderrText ''removal of container'' \<and> strings_Contains stderrText ''is already in progress''
          then RemovalInProgress else RemovalFailed)"

definition forceRemoveCorrelatedContainer :: "'d run_env \<Rightarrow> string \<Rightarrow> ('d, removalResult) run" where
  "forceRemoveCorrelatedContainer env containerID = do {
     resources (\<lambda>w. w\<lparr>rw_removed := rw_removed w @ [containerID]\<rparr>);
     outcome (\<lambda>n. removal_result (ex_rm env n [''rm'', ''-f'', containerID])) }"

text \<open>The settle loop.\<close>

primrec settle :: "'d run_env \<Rightarrow> string \<Rightarrow> string \<Rightarrow> nat \<Rightarrow> ('d, (go_error, unit) result) run" where
  "settle env operationID sessionID 0 = ret io_err"
| "settle env operationID sessionID (Suc polls) =
     or_return (inspectCorrelatedContainers env operationID sessionID) (\<lambda>after.
       if after = [] then ret (Inr ()) else settle env operationID sessionID polls)"

definition proveOperationContainerAbsent :: "'d run_env \<Rightarrow> string \<Rightarrow> string \<Rightarrow> ('d, (go_error, unit) result) run" where
  "proveOperationContainerAbsent env operationID sessionID =
     or_return (inspectCorrelatedContainers env operationID sessionID) (\<lambda>containers.
       case containers of
         [] \<Rightarrow> ret (Inr ())
       | [container] \<Rightarrow>
           if classifyHelperContainerState (hc_State container) = helperStateUnknown then ret io_err
           else do {
             r \<leftarrow> forceRemoveCorrelatedContainer env (hc_ID container);
             if r = RemovalFailed then ret io_err else settle env operationID sessionID (Suc (ex_polls env)) }
       | _ \<Rightarrow> ret io_err)"

section \<open>The cleanup sequence\<close>

definition canonicalWorkloadCleanupOrder :: "workloadCleanupStageName list" where
  "canonicalWorkloadCleanupOrder = [cleanupStageCapacity, cleanupStageContainerProof, cleanupStageWorkloadMAC, cleanupStageSourcePins,
     cleanupStageOwnershipState, cleanupStageWorkspaceLease, cleanupStageCidfile]"

type_synonym 'd cleanupStage = "workloadCleanupStageName \<times> ('d, (go_error, unit) result) run"

text \<open>The position of a stage in the order, and the loop that panics (\<^const>\<open>False\<close>) on an unknown or misplaced one.\<close>

fun stage_pos :: "workloadCleanupStageName list \<Rightarrow> int \<Rightarrow> workloadCleanupStageName \<Rightarrow> int option" where
  "stage_pos [] i name = None"
| "stage_pos (n # ns) i name = (if n = name then Some i else stage_pos ns (i + 1) name)"

fun stages_ordered :: "int \<Rightarrow> workloadCleanupStageName list \<Rightarrow> bool" where
  "stages_ordered prev [] = True"
| "stages_ordered prev (name # names) =
     (case stage_pos canonicalWorkloadCleanupOrder 0 name of
        None \<Rightarrow> False
      | Some p \<Rightarrow> if p \<le> prev then False else stages_ordered p names)"

datatype runCleanupOutcome = CleanupCompleted | CleanupRetained workloadCleanupStageName | CleanupPanic

fun run_stages :: "'d cleanupStage list \<Rightarrow> ('d, runCleanupOutcome) run" where
  "run_stages [] = ret CleanupCompleted"
| "run_stages ((name, stage) # stages) = do {
     r \<leftarrow> stage;
     case r of Inl _ \<Rightarrow> ret (CleanupRetained name) | Inr _ \<Rightarrow> run_stages stages }"

definition runCleanupSequence :: "'d cleanupStage list \<Rightarrow> ('d, runCleanupOutcome) run" where
  "runCleanupSequence stages = (if stages_ordered (- 1) (map fst stages) then run_stages stages else ret CleanupPanic)"

text \<open>A completed cleanup is silent, a retained stage is reported.\<close>

definition logRunCleanupOutcome :: "string \<Rightarrow> runCleanupOutcome \<Rightarrow> ('d, unit) run" where
  "logRunCleanupOutcome operationID out =
     (case out of CleanupRetained stage \<Rightarrow> resources (\<lambda>w. w\<lparr>rw_log := rw_log w @ [(operationID, stage)]\<rparr>) | _ \<Rightarrow> ret ())"

definition release_op_lease :: "'d run_env \<Rightarrow> run_op \<Rightarrow> ('d, (go_error, unit) result) run" where
  "release_op_lease env op = do {
     (case ro_macLease op of None \<Rightarrow> ret () | Some key \<Rightarrow> mac_access (releaseSessionUse (ex_mac env) key));
     ret (Inr ()) }"

definition cleanupCidfile :: "run_op \<Rightarrow> ('d, (go_error, unit) result) run" where
  "cleanupCidfile op = do {
     st_when (ro_cidfile op \<noteq> []) (resources (\<lambda>w. w\<lparr>rw_unlinked := rw_unlinked w @ [ro_cidfile op]\<rparr>));
     ret (Inr ()) }"

definition resource_stages :: "'d run_env \<Rightarrow> run_op \<Rightarrow> 'd cleanupStage list" where
  "resource_stages env op =
     [(cleanupStageWorkloadMAC, workload_Cleanup env op),
      (cleanupStageSourcePins, cleanupPinnedMounts env op),
      (cleanupStageOwnershipState, removeWorkloadMACState env (ro_ID op)),
      (cleanupStageWorkspaceLease, release_op_lease env op),
      (cleanupStageCidfile, cleanupCidfile op)]"

definition cleanupAfterRunProcess :: "'d run_env \<Rightarrow> run_op \<Rightarrow> ('d, runCleanupOutcome) run" where
  "cleanupAfterRunProcess env op = do {
     out \<leftarrow> runCleanupSequence
       ((cleanupStageContainerProof, proveOperationContainerAbsent env (ro_ID op) (ro_SessionID op)) # resource_stages env op);
     logRunCleanupOutcome (ro_ID op) out;
     ret out }"

definition release_op_capacity :: "'d run_env \<Rightarrow> nat \<Rightarrow> ('d, unit) run" where
  "release_op_capacity env p = sup_access env (\<lambda>s. ((), releaseCapacity p s))"

definition capacity_stage :: "'d run_env \<Rightarrow> nat \<Rightarrow> ('d, (go_error, unit) result) run" where
  "capacity_stage env p = do { release_op_capacity env p; ret (Inr ()) }"

definition rollbackRunPreparation :: "'d run_env \<Rightarrow> nat \<Rightarrow> run_op \<Rightarrow> ('d, runCleanupOutcome) run" where
  "rollbackRunPreparation env p op = do {
     out \<leftarrow> runCleanupSequence ((cleanupStageCapacity, capacity_stage env p) # resource_stages env op);
     logRunCleanupOutcome (ro_ID op) out;
     ret out }"


section \<open>Runs of the primitives\<close>

lemma run_primitives [simp]:
  "run_state (outcome f) w = (f (rw_calls w), w\<lparr>rw_calls := Suc (rw_calls w)\<rparr>)"
  "run_state (look g) w = (g w, w)"
  "run_state (resources u) w = ((), u w)"
  "run_state (sys env) w = (if ex_sys env (rw_calls w) then Inr () else io_err, w\<lparr>rw_calls := Suc (rw_calls w)\<rparr>)"
  by (simp_all add: outcome_def look_def resources_def sys_def)

lemma run_or_return [simp]:
  "run_state (or_return m f) w = (case run_state m w of (Inl e, w') \<Rightarrow> (Inl e, w') | (Inr b, w') \<Rightarrow> run_state (f b) w')"
  by (simp add: or_return_def split: prod.split sum.split)

lemma run_or_rollback [simp]:
  "run_state (or_rollback m c f) w =
     (case run_state m w of (Inl e, w') \<Rightarrow> (Inl e, snd (run_state c w')) | (Inr b, w') \<Rightarrow> run_state (f b) w')"
  by (simp add: or_rollback_def split: prod.split sum.split)

text \<open>Releasing a lease removes its key from the table of leases and no other.\<close>

definition keeps_leases :: "('d, 'a) mac \<Rightarrow> bool" where
  "keeps_leases m \<longleftrightarrow> (\<forall>c. sessionUseLeases (snd (run_state m c)) = sessionUseLeases c)"

lemma keeps_leasesD: "keeps_leases m \<Longrightarrow> run_state m c = (r, c') \<Longrightarrow> sessionUseLeases c' = sessionUseLeases c"
  by (metis keeps_leases_def snd_conv)

named_theorems lease_intros \<open>programs of the coordinator that keep the table of leases\<close>

lemma keeps_leases_basic [lease_intros]:
  "keeps_leases (ret a)" "keeps_leases (drv f)" "keeps_leases (own_query env g)" "keeps_leases (own_exec env h)" "keeps_leases (coord k)"
  "keeps_leases (mac_db m)" "(\<And>c. sessionUseLeases (u c) = sessionUseLeases c) \<Longrightarrow> keeps_leases (change u)"
  by (auto simp: keeps_leases_def drv_def own_query_def own_exec_def coord_def change_def mac_db_def split: prod.splits)

lemma keeps_leases_bind [lease_intros]:
  "keeps_leases m \<Longrightarrow> (\<And>a. keeps_leases (f a)) \<Longrightarrow> keeps_leases (State_Monad.bind m f)"
  by (auto simp: keeps_leases_def split: prod.splits) (metis snd_conv)

lemma keeps_leases_cases [lease_intros]:
  "keeps_leases m \<Longrightarrow> keeps_leases m' \<Longrightarrow> keeps_leases (if b then m else m')"
  "(\<And>e. keeps_leases (f e)) \<Longrightarrow> (\<And>b. keeps_leases (g b)) \<Longrightarrow> keeps_leases (case r of Inl e \<Rightarrow> f e | Inr b \<Rightarrow> g b)"
  "keeps_leases m \<Longrightarrow> (\<And>a. keeps_leases (h a)) \<Longrightarrow> keeps_leases (case y of None \<Rightarrow> m | Some a \<Rightarrow> h a)"
  "(\<And>a b. keeps_leases (k a b)) \<Longrightarrow> keeps_leases (case q of (a, b) \<Rightarrow> k a b)"
  by (auto split: sum.split option.split prod.split)

lemma keeps_leases_control [lease_intros]:
  "keeps_leases m \<Longrightarrow> keeps_leases (st_when b m)" "(\<And>a. keeps_leases (f a)) \<Longrightarrow> keeps_leases (st_each f xs)"
  by (simp add: st_when_def keeps_leases_basic) (induction xs, auto intro: lease_intros)

lemma keeps_leases_or_return [lease_intros]:
  "keeps_leases m \<Longrightarrow> (\<And>a. keeps_leases (f a)) \<Longrightarrow> keeps_leases (or_return m f)"
  unfolding or_return_def by (intro lease_intros)

lemma pending_keeps_leases [lease_intros]: "keeps_leases (pendingWorkloadCoverage env)"
proof -
  have "keeps_leases (pending_roots_loop env is)" for "is"
    by (induction "is") (auto intro!: lease_intros)
  then show ?thesis unfolding pendingWorkloadCoverage_def by (intro lease_intros)
qed

lemma removal_keeps_leases [lease_intros]: "keeps_leases (removeOwnedBoundary env b)"
  unfolding removeOwnedBoundary_def ownedBoundaryRemovalKind_def boundaryOwnedKind_def convergeLegacyOwnedKind_def
    recordBoundaryOwnership_def forgetBoundaryOwnership_def
  by (intro lease_intros; simp)

lemma release_keeps_leases: "keeps_leases (release_coverage env cs)"
  unfolding release_coverage_def conditionalReleaseBoundary_def retryDeferredBoundaries_def retry_one_def
    try_remove_def defer_boundary_def isBoundaryOwnedByHelper_def
  by (intro lease_intros; simp)

lemma map_del_absent: "map_of m k = None \<Longrightarrow> map_del k m = m"
  by (force simp: map_del_def map_of_eq_None_iff filter_id_conv)

lemma map_of_map_del [simp]: "map_of (map_del k m) j = (if j = k then None else map_of m j)"
  by (induction m) (auto simp: map_del_def)

lemma release_lease_table:
  assumes "run_state (releaseSessionUse env key) c = (u, c')"
  shows "sessionUseLeases c' = map_del key (sessionUseLeases c)"
proof (cases "map_of (sessionUseLeases c) key")
  case None
  with assms show ?thesis by (simp add: releaseSessionUse_def coord_def map_del_absent)
next
  case (Some cs)
  with assms have "c' = snd (run_state (release_coverage env cs) (c\<lparr>sessionUseLeases := map_del key (sessionUseLeases c)\<rparr>))"
    by (simp add: releaseSessionUse_def coord_def change_def)
  then show ?thesis using release_keeps_leases [of env cs] by (simp add: keeps_leases_def)
qed

section \<open>What each stage changes\<close>

lemma owned_state_run:
  assumes "run_state (cleanupOwnedState env i) w = (r, w')"
  obtains (failed) n e where "r = Inl e" "w' = w\<lparr>rw_calls := n\<rparr>"
    | (cleaned) n where "r = Inr ()" "w' = w\<lparr>rw_calls := n, rw_workload := removeAll i (rw_workload w)\<rparr>"
  using assms by (auto simp: cleanupOwnedState_def split: if_splits)

lemma workload_cleanup_run:
  assumes "run_state (workload_Cleanup env op) w = (r, w')" and "ro_workloadMAC op = None \<Longrightarrow> ro_ID op \<notin> set (rw_workload w)"
  obtains (failed) n e where "r = Inl e" "w' = w\<lparr>rw_calls := n\<rparr>"
    | (cleaned) n where "r = Inr ()" "w' = w\<lparr>rw_calls := n, rw_workload := removeAll (ro_ID op) (rw_workload w)\<rparr>"
proof (cases "ro_workloadMAC op")
  case None
  with assms have "r = Inr ()" "w' = w\<lparr>rw_calls := rw_calls w, rw_workload := removeAll (ro_ID op) (rw_workload w)\<rparr>"
    by (simp_all add: workload_Cleanup_def)
  then show thesis by (rule cleaned)
next
  case (Some m)
  with assms(1) have "run_state (cleanupOwnedState env (ro_ID op)) w = (r, w')" by (simp add: workload_Cleanup_def)
  then show thesis by (rule owned_state_run) (fact failed, fact cleaned)
qed

lemma pin_cleanup_run:
  assumes "run_state (cleanupPinnedMount env p) w = (r, w')"
  obtains n D where "w' = w\<lparr>rw_pins := filter (\<lambda>q. q \<notin> D) (rw_pins w), rw_calls := n\<rparr>" "D \<subseteq> {p}" "r = Inr () \<Longrightarrow> D = {p}"
proof -
  have all: "removeAll p qs = filter (\<lambda>q. q \<notin> {p}) qs" for qs by (auto simp: removeAll_filter_not_eq intro: filter_cong)
  have "w' = w\<lparr>rw_pins := filter (\<lambda>q. q \<notin> (if ex_sys env (rw_calls w) then {p} else {})) (rw_pins w), rw_calls := rw_calls w'\<rparr>"
    and ok: "r = Inr () \<Longrightarrow> ex_sys env (rw_calls w)"
    using assms by (auto simp: cleanupPinnedMount_def all split: if_splits)
  from this(1) show thesis by (rule that) (use ok in \<open>auto split: if_splits\<close>)
qed

lemma pins_cleanup_run:
  assumes "run_state (cleanup_pins env ps) w = (r, w')"
  obtains n D where "w' = w\<lparr>rw_pins := filter (\<lambda>q. q \<notin> D) (rw_pins w), rw_calls := n\<rparr>" "D \<subseteq> set ps" "r = Inr () \<Longrightarrow> D = set ps"
proof -
  have "\<exists>n D. w' = w\<lparr>rw_pins := filter (\<lambda>q. q \<notin> D) (rw_pins w), rw_calls := n\<rparr> \<and> D \<subseteq> set ps \<and> (r = Inr () \<longrightarrow> D = set ps)"
    using assms
  proof (induction ps arbitrary: w r w')
    case Nil
    then show ?case by (intro exI [of _ "rw_calls w"] exI [of _ "{}"]) simp
  next
    case (Cons p ps)
    obtain r1 w1 where one: "run_state (cleanupPinnedMount env p) w = (r1, w1)" by fastforce
    obtain r2 w2 where two: "run_state (cleanup_pins env ps) w1 = (r2, w2)" by fastforce
    from Cons.prems one two have w': "w' = w2" and r: "r = (case r1 of Inl e \<Rightarrow> Inl e | Inr _ \<Rightarrow> r2)" by simp_all
    from one obtain n1 D1 where w1: "w1 = w\<lparr>rw_pins := filter (\<lambda>q. q \<notin> D1) (rw_pins w), rw_calls := n1\<rparr>" "D1 \<subseteq> {p}" "r1 = Inr () \<longrightarrow> D1 = {p}"
      by (rule pin_cleanup_run) blast
    from Cons.IH [OF two] obtain n D where w2: "w2 = w1\<lparr>rw_pins := filter (\<lambda>q. q \<notin> D) (rw_pins w1), rw_calls := n\<rparr>" "D \<subseteq> set ps"
      "r2 = Inr () \<longrightarrow> D = set ps" by blast
    have "w' = w\<lparr>rw_pins := filter (\<lambda>q. q \<notin> D1 \<union> D) (rw_pins w), rw_calls := n\<rparr>"
      using w' w1(1) w2(1) by (simp add: conj_commute)
    moreover have "r = Inr () \<longrightarrow> D1 \<union> D = set (p # ps)" using r w1(3) w2(3) by (auto split: sum.splits)
    ultimately show ?case using w1(2) w2(2) by (intro exI [of _ n] exI [of _ "D1 \<union> D"]) auto
  qed
  then show thesis using that by blast
qed

lemma record_removal_run:
  assumes "run_state (removeWorkloadMACState env i) w = (r, w')"
  obtains (failed) n e where "r = Inl e" "w' = w\<lparr>rw_calls := n\<rparr> \<or>
      w' = w\<lparr>rw_calls := n, rw_records := filter (\<lambda>rec. wr_OperationID rec \<noteq> i) (rw_records w)\<rparr>"
    | (removed) n where "r = Inr ()" "w' = w\<lparr>rw_calls := n, rw_records := filter (\<lambda>rec. wr_OperationID rec \<noteq> i) (rw_records w)\<rparr>"
  using assms by (auto simp: removeWorkloadMACState_def st_when_def split: if_splits)


lemma lease_release_run:
  assumes "run_state (release_op_lease env op) w = (r, w')"
  obtains c where "r = Inr ()" "w' = w\<lparr>rw_mac := c\<rparr>"
    "\<forall>k. map_of (sessionUseLeases c) k = (if ro_macLease op = Some k then None else map_of (sessionUseLeases (rw_mac w)) k)"
proof (cases "ro_macLease op")
  case None
  then show thesis using that [of "rw_mac w"] assms by (simp add: release_op_lease_def)
next
  case (Some key)
  obtain u c where c: "run_state (releaseSessionUse (ex_mac env) key) (rw_mac w) = (u, c)" by (metis surj_pair)
  then show thesis using that [of c] assms Some release_lease_table [OF c] by (simp add: release_op_lease_def mac_access_def)
qed

section \<open>Dependency order\<close>

text \<open>
  What a cleanup leaves: a resource that is still held keeps everything it depends on exactly as it was, the
  resources of other Operations stay.
\<close>

definition held_pins :: "run_op \<Rightarrow> 'd run_world \<Rightarrow> string set" where
  "held_pins op w = set (ro_pinnedMounts op) \<inter> set (rw_pins w)"

definition retained_for :: "run_op \<Rightarrow> 'd run_world \<Rightarrow> 'd run_world \<Rightarrow> bool" where
  "retained_for op w w' \<longleftrightarrow>
     (ro_ID op \<in> set (rw_workload w') \<longrightarrow> rw_pins w' = rw_pins w) \<and>
     (ro_ID op \<in> set (rw_workload w') \<or> held_pins op w' \<noteq> {} \<longrightarrow> rw_records w' = rw_records w) \<and>
     (ro_ID op \<in> set (rw_workload w') \<or> held_pins op w' \<noteq> {} \<or> ro_ID op \<in> wr_OperationID ` set (rw_records w') \<longrightarrow>
        rw_mac w' = rw_mac w \<and> rw_unlinked w' = rw_unlinked w)"

definition owns_nothing :: "run_op \<Rightarrow> 'd run_world \<Rightarrow> bool" where
  "owns_nothing op w \<longleftrightarrow> ro_ID op \<notin> set (rw_workload w) \<and> held_pins op w = {} \<and> ro_ID op \<notin> wr_OperationID ` set (rw_records w) \<and>
     (case ro_macLease op of None \<Rightarrow> True | Some key \<Rightarrow> map_of (sessionUseLeases (rw_mac w)) key = None)"

definition others_untouched :: "run_op \<Rightarrow> 'd run_world \<Rightarrow> 'd run_world \<Rightarrow> bool" where
  "others_untouched op w w' \<longleftrightarrow>
     removeAll (ro_ID op) (rw_workload w') = removeAll (ro_ID op) (rw_workload w) \<and>
     filter (\<lambda>q. q \<notin> set (ro_pinnedMounts op)) (rw_pins w') = filter (\<lambda>q. q \<notin> set (ro_pinnedMounts op)) (rw_pins w) \<and>
     filter (\<lambda>rec. wr_OperationID rec \<noteq> ro_ID op) (rw_records w') = filter (\<lambda>rec. wr_OperationID rec \<noteq> ro_ID op) (rw_records w) \<and>
     (\<forall>k. ro_macLease op \<noteq> Some k \<longrightarrow> map_of (sessionUseLeases (rw_mac w')) k = map_of (sessionUseLeases (rw_mac w)) k)"

lemmas order_defs = held_pins_def retained_for_def owns_nothing_def others_untouched_def

lemmas stage_defs = resource_stages_def workload_Cleanup_def cleanupOwnedState_def cleanupPinnedMounts_def cleanupPinnedMount_def
  removeWorkloadMACState_def release_op_lease_def cleanupCidfile_def st_when_def

lemma order_log [simp]:
  "retained_for op w (v\<lparr>rw_log := lg\<rparr>) = retained_for op w v" "others_untouched op w (v\<lparr>rw_log := lg\<rparr>) = others_untouched op w v"
  "owns_nothing op (v\<lparr>rw_log := lg\<rparr>) = owns_nothing op v"
  by (simp_all add: order_defs split: option.split)

lemma stages_accepted:
  "stages_ordered (- 1) (map fst ((cleanupStageContainerProof, m) # resource_stages env op))"
  "stages_ordered (- 1) (map fst ((cleanupStageCapacity, m) # resource_stages env op))"
  by (simp_all add: resource_stages_def canonicalWorkloadCleanupOrder_def)

lemma sequences_accepted:
  "runCleanupSequence ((cleanupStageContainerProof, m) # resource_stages env op) = run_stages ((cleanupStageContainerProof, m) # resource_stages env op)"
  "runCleanupSequence ((cleanupStageCapacity, m) # resource_stages env op) = run_stages ((cleanupStageCapacity, m) # resource_stages env op)"
  by (simp_all only: runCleanupSequence_def stages_accepted if_True)

lemma logged_run:
  assumes "run_state (do { out \<leftarrow> m; logRunCleanupOutcome i out; ret out }) w = (out, w')"
  obtains v where "run_state m w = (out, v)"
    "w' = v\<lparr>rw_log := rw_log v @ (case out of CleanupRetained stage \<Rightarrow> [(i, stage)] | _ \<Rightarrow> [])\<rparr>"
  using assms by (auto simp: logRunCleanupOutcome_def split: prod.splits runCleanupOutcome.splits)

lemma filter_diff: "D \<subseteq> E \<Longrightarrow> filter (\<lambda>q. q \<notin> D \<and> q \<notin> E) qs = filter (\<lambda>q. q \<notin> E) qs"
  by (induction qs) auto

text \<open>The last stages, once the workload MAC state is gone.\<close>

lemma tail_stages_run:
  assumes run: "run_state (run_stages (tl (resource_stages env op))) w = (out, w')" and gone: "ro_ID op \<notin> set (rw_workload w)"
  shows "out \<noteq> CleanupPanic" and "retained_for op w w'" and "others_untouched op w w'" and "out = CleanupCompleted \<Longrightarrow> owns_nothing op w'"
    and "rw_workload w' = rw_workload w"
proof -
  obtain r1 w1 where one: "run_state (cleanup_pins env (rev (ro_pinnedMounts op))) w = (r1, w1)" by fastforce
  obtain r2 w2 where two: "run_state (removeWorkloadMACState env (ro_ID op)) w1 = (r2, w2)" by fastforce
  obtain r3 w3 where three: "run_state (release_op_lease env op) w2 = (r3, w3)" by fastforce
  obtain n D where w1: "w1 = w\<lparr>rw_pins := filter (\<lambda>q. q \<notin> D) (rw_pins w), rw_calls := n\<rparr>"
    and D: "D \<subseteq> set (ro_pinnedMounts op)" and all: "r1 = Inr () \<longrightarrow> D = set (ro_pinnedMounts op)"
    using one by (rule pins_cleanup_run) auto
  obtain c where r3: "r3 = Inr ()" and w3: "w3 = w2\<lparr>rw_mac := c\<rparr>" and c: "\<forall>k. map_of (sessionUseLeases c) k =
      (if ro_macLease op = Some k then None else map_of (sessionUseLeases (rw_mac w2)) k)"
    using three by (rule lease_release_run)
  let ?goal = "out \<noteq> CleanupPanic \<and> retained_for op w w' \<and> others_untouched op w w' \<and> (out = CleanupCompleted \<longrightarrow> owns_nothing op w') \<and>
    rw_workload w' = rw_workload w"
  note unfold = resource_stages_def cleanupPinnedMounts_def order_defs cleanupCidfile_def st_when_def
  have ?goal
  proof (cases r1)
    case (Inl e)
    with run one have "out = CleanupRetained cleanupStageSourcePins" "w' = w1" by (simp_all add: unfold)
    then show ?thesis using gone D by (simp add: w1 order_defs filter_diff)
  next
    case (Inr u)
    then have D_all: "D = set (ro_pinnedMounts op)" using all by simp
    from two show ?thesis
    proof (cases rule: record_removal_run)
      case (failed m e)
      with run one Inr two have "out = CleanupRetained cleanupStageOwnershipState" "w' = w2" by (simp_all add: unfold)
      then show ?thesis using gone failed by (auto simp: w1 order_defs D_all)
    next
      case (removed m)
      with run one Inr two three r3 have "out = CleanupCompleted \<and> (w' = w3 \<or> w' = w3\<lparr>rw_unlinked := rw_unlinked w3 @ [ro_cidfile op]\<rparr>)"
        by (auto simp: unfold split: if_splits)
      then have "out = CleanupCompleted" "rw_mac w' = c" "rw_workload w' = rw_workload w" "rw_pins w' = filter (\<lambda>q. q \<notin> D) (rw_pins w)"
        "rw_records w' = filter (\<lambda>rec. wr_OperationID rec \<noteq> ro_ID op) (rw_records w)" "rw_mac w2 = rw_mac w"
        by (auto simp: w3 removed w1)
      then show ?thesis using gone c
        by (auto simp: order_defs D_all split: option.split)
    qed
  qed
  then show "out \<noteq> CleanupPanic" "retained_for op w w'" "others_untouched op w w'" "out = CleanupCompleted \<Longrightarrow> owns_nothing op w'"
    "rw_workload w' = rw_workload w" by simp_all
qed


lemma resource_stages_run:
  assumes run: "run_state (run_stages (resource_stages env op)) w = (out, w')"
    and prepared: "ro_workloadMAC op = None \<Longrightarrow> ro_ID op \<notin> set (rw_workload w)"
  shows "out \<noteq> CleanupPanic \<and> retained_for op w w' \<and> others_untouched op w w' \<and> (out = CleanupCompleted \<longrightarrow> owns_nothing op w')"
proof -
  obtain r w1 where one: "run_state (workload_Cleanup env op) w = (r, w1)" by fastforce
  show ?thesis
  proof (cases rule: workload_cleanup_run [OF one prepared])
    case failed: (2 n e)
    with run one show ?thesis by (auto simp: resource_stages_def order_defs)
  next
    case cleaned: (3 n)
    have "run_state (run_stages (tl (resource_stages env op))) w1 = (out, w')"
      using run one cleaned by (simp add: resource_stages_def)
    note tail = tail_stages_run [OF this]
    have "ro_ID op \<notin> set (rw_workload w1)" by (simp add: cleaned)
    note tail = tail [OF this]
    have "retained_for op w w'" "others_untouched op w w'"
      using tail(2,3,5) by (auto simp: order_defs cleaned)
    then show ?thesis using tail by simp
  qed
qed

text \<open>The proof of absence: what a success shows, and what it removes.\<close>

lemma settle_run:
  assumes "run_state (settle env i sid k) w = (r, w')"
  shows "\<exists>n. w' = w\<lparr>rw_calls := n\<rparr> \<and> rw_calls w \<le> n \<and> (r = Inr () \<longrightarrow> (\<exists>m. rw_calls w \<le> m \<and> m < n \<and> correlated env i sid m = Inr []))"
  using assms
proof (induction k arbitrary: w)
  case 0
  then show ?case by (intro exI [of _ "rw_calls w"]) auto
next
  case (Suc k)
  show ?case
  proof (cases "correlated env i sid (rw_calls w)")
    case (Inl e)
    with Suc.prems show ?thesis by (intro exI [of _ "Suc (rw_calls w)"]) (auto simp: inspectCorrelatedContainers_def)
  next
    case (Inr cs)
    show ?thesis
    proof (cases "cs = []")
      case True
      with Suc.prems Inr show ?thesis by (intro exI [of _ "Suc (rw_calls w)"]) (auto simp: inspectCorrelatedContainers_def)
    next
      case False
      with Suc.prems Inr have "run_state (settle env i sid k) (w\<lparr>rw_calls := Suc (rw_calls w)\<rparr>) = (r, w')"
        by (simp add: inspectCorrelatedContainers_def)
      from Suc.IH [OF this] show ?thesis by (fastforce dest: Suc_leD)
    qed
  qed
qed

definition removal_justified :: "'d run_env \<Rightarrow> string \<Rightarrow> string \<Rightarrow> 'd run_world \<Rightarrow> 'd run_world \<Rightarrow> bool" where
  "removal_justified env i sid w w' \<longleftrightarrow> rw_removed w' = rw_removed w \<or>
     (\<exists>c. correlated env i sid (rw_calls w) = Inr [c] \<and> classifyHelperContainerState (hc_State c) \<noteq> helperStateUnknown \<and>
        rw_removed w' = rw_removed w @ [hc_ID c])"

lemma absence_run:
  assumes run: "run_state (proveOperationContainerAbsent env i sid) w = (r, w')"
  shows "\<exists>n rm. w' = w\<lparr>rw_removed := rm, rw_calls := n\<rparr> \<and> rw_calls w \<le> n \<and>
      (r = Inr () \<longrightarrow> (\<exists>m. rw_calls w \<le> m \<and> m < n \<and> correlated env i sid m = Inr []))" and "removal_justified env i sid w w'"
proof -
  note unfold = proveOperationContainerAbsent_def inspectCorrelatedContainers_def forceRemoveCorrelatedContainer_def
  let ?P = "\<lambda>w'. \<exists>n rm. w' = w\<lparr>rw_removed := rm, rw_calls := n\<rparr> \<and> rw_calls w \<le> n \<and>
      (r = Inr () \<longrightarrow> (\<exists>m. rw_calls w \<le> m \<and> m < n \<and> correlated env i sid m = Inr []))"
  let ?w1 = "w\<lparr>rw_calls := Suc (rw_calls w)\<rparr>"
  have stop: "?P w' \<and> removal_justified env i sid w w'" if "w' = ?w1" "r \<noteq> Inr () \<or> correlated env i sid (rw_calls w) = Inr []"
    using that by (intro conjI exI [of _ "Suc (rw_calls w)"] exI [of _ "rw_removed w"]) (auto simp: removal_justified_def)
  have "?P w' \<and> removal_justified env i sid w w'"
  proof (cases "correlated env i sid (rw_calls w)")
    case (Inl e)
    with run show ?thesis by (intro stop) (auto simp: unfold)
  next
    case (Inr cs)
    consider "cs = []" | c where "cs = [c]" | c d ds where "cs = c # d # ds" by (metis list.exhaust)
    then show ?thesis
    proof cases
      case (2 c)
      show ?thesis
      proof (cases "classifyHelperContainerState (hc_State c) = helperStateUnknown")
        case True
        with run Inr 2 show ?thesis by (intro stop) (auto simp: unfold)
      next
        case False
        let ?w2 = "w\<lparr>rw_removed := rw_removed w @ [hc_ID c], rw_calls := Suc (Suc (rw_calls w))\<rparr>"
        have "w' = ?w2 \<and> r \<noteq> Inr () \<or> run_state (settle env i sid (Suc (ex_polls env))) ?w2 = (r, w')"
          using run Inr 2 False by (auto simp: unfold split: if_splits)
        then have "?P w' \<and> rw_removed w' = rw_removed w @ [hc_ID c]"
        proof
          assume "w' = ?w2 \<and> r \<noteq> Inr ()"
          then show ?thesis by (intro conjI exI [of _ "Suc (Suc (rw_calls w))"] exI [of _ "rw_removed w @ [hc_ID c]"]) auto
        next
          assume "run_state (settle env i sid (Suc (ex_polls env))) ?w2 = (r, w')"
          from settle_run [OF this] show ?thesis by (fastforce dest: Suc_leD)
        qed
        then show ?thesis using Inr 2 False by (auto simp: removal_justified_def)
      qed
    next
      case 1
      with run Inr show ?thesis by (intro stop) (auto simp: unfold)
    next
      case 3
      with run Inr show ?thesis by (intro stop) (auto simp: unfold)
    qed
  qed
  then show "?P w'" and "removal_justified env i sid w w'" by simp_all
qed

lemma first_stage_run:
  assumes "run_state m w = (r, w1)" and run: "run_state (run_stages ((name, m) # resource_stages env op)) w = (out, w')"
    and same: "rw_mac w1 = rw_mac w" "rw_pins w1 = rw_pins w" "rw_workload w1 = rw_workload w" "rw_records w1 = rw_records w"
      "rw_unlinked w1 = rw_unlinked w"
    and prepared: "ro_workloadMAC op = None \<Longrightarrow> ro_ID op \<notin> set (rw_workload w)"
  shows "out \<noteq> CleanupPanic \<and> retained_for op w w' \<and> others_untouched op w w' \<and> (out = CleanupCompleted \<longrightarrow> owns_nothing op w')"
proof (cases r)
  case (Inl e)
  with assms(1) run have "out = CleanupRetained name" "w' = w1" by simp_all
  with same show ?thesis by (simp add: order_defs)
next
  case (Inr u)
  with assms(1) run have "run_state (run_stages (resource_stages env op)) w1 = (out, w')" by simp
  from resource_stages_run [OF this] prepared same show ?thesis by (simp add: order_defs)
qed

lemma after_process_order:
  assumes prepared: "ro_workloadMAC op = None \<Longrightarrow> ro_ID op \<notin> set (rw_workload w)"
    and run: "run_state (cleanupAfterRunProcess env op) w = (out, w')"
  shows "out \<noteq> CleanupPanic \<and> retained_for op w w' \<and> others_untouched op w w' \<and> (out = CleanupCompleted \<longrightarrow> owns_nothing op w')"
proof -
  obtain r w1 where one: "run_state (proveOperationContainerAbsent env (ro_ID op) (ro_SessionID op)) w = (r, w1)" by fastforce
  obtain n rm where w1: "w1 = w\<lparr>rw_removed := rm, rw_calls := n\<rparr>" using absence_run(1) [OF one] by blast
  then have same: "rw_mac w1 = rw_mac w" "rw_pins w1 = rw_pins w" "rw_workload w1 = rw_workload w" "rw_records w1 = rw_records w"
    "rw_unlinked w1 = rw_unlinked w" by simp_all
  from run [unfolded cleanupAfterRunProcess_def sequences_accepted] show ?thesis
    by (rule logged_run) (drule first_stage_run [OF one _ same prepared], simp_all)
qed

lemma rollback_order:
  assumes prepared: "ro_workloadMAC op = None \<Longrightarrow> ro_ID op \<notin> set (rw_workload w)"
    and run: "run_state (rollbackRunPreparation env p op) w = (out, w')"
  shows "out \<noteq> CleanupPanic \<and> retained_for op w w' \<and> others_untouched op w w' \<and> (out = CleanupCompleted \<longrightarrow> owns_nothing op w')"
proof -
  obtain r w1 where one: "run_state (capacity_stage env p) w = (r, w1)" by fastforce
  then have same: "rw_mac w1 = rw_mac w" "rw_pins w1 = rw_pins w" "rw_workload w1 = rw_workload w" "rw_records w1 = rw_records w"
    "rw_unlinked w1 = rw_unlinked w" by (auto simp: capacity_stage_def release_op_capacity_def sup_access_def)
  from run [unfolded rollbackRunPreparation_def sequences_accepted] show ?thesis
    by (rule logged_run) (drule first_stage_run [OF one _ same prepared], simp_all)
qed

text \<open>
  C12: No cleanup of a run, neither after its process nor before its start, ever releases something that a
  resource still held depends on. While workload MAC state of the Operation is live, its pins, its ownership record,
  its session-use lease and its cidfile are left exactly as they were; while a pin is attached, so are record, lease
  and cidfile; while the record exists, so are lease and cidfile. A completed cleanup leaves nothing of the Operation,
  a stage list is never refused, and the pins, records, workload MAC state and leases of other Operations stay.
\<close>

theorem cleanup_dependency_order:
  assumes "ro_workloadMAC op = None \<Longrightarrow> ro_ID op \<notin> set (rw_workload w)"
    and "run_state (cleanupAfterRunProcess env op) w = (out, w') \<or> run_state (rollbackRunPreparation env p op) w = (out, w')"
  shows "out \<noteq> CleanupPanic \<and> retained_for op w w' \<and> others_untouched op w w' \<and> (out = CleanupCompleted \<longrightarrow> owns_nothing op w')"
  using assms(2) by (elim disjE) (rule after_process_order [OF assms(1)], assumption+, rule rollback_order [OF assms(1)], assumption+)

text \<open>A run with one pin, seen by an environment whose system calls fail at chosen points.\<close>

definition quiet_mac_env :: "unit mac_env" where
  "quiet_mac_env = \<lparr>me_driver = \<lparr>ensureCoverage = (\<lambda>_ d. (io_err, d)), verifyCoverage = (\<lambda>_ d. (io_err, d)),
       removeBoundary = (\<lambda>_ _ d. (io_err, d)), discoverHelperOwnedBoundaries = (\<lambda>d. (Inr [], d)),
       proveOwnedKind = (\<lambda>_ d. (Inr None, d)), driver_backend = ''apparmor''\<rparr>,
     me_db = fault_free, me_hash = (\<lambda>x. x), me_order = (\<lambda>_ xs. xs), me_pending = (\<lambda>_. None), me_now = 0\<rparr>"

definition demo_run_env :: "(nat \<Rightarrow> bool) \<Rightarrow> unit run_env" where
  "demo_run_env ok = \<lparr>ex_others = (\<lambda>_ s. s), ex_mac = quiet_mac_env, ex_sys = ok, ex_partial = (\<lambda>_. False), ex_ps = (\<lambda>_ _. Some []), ex_rm = (\<lambda>_ _. None),
     ex_polls = 50, ex_backend = ''apparmor'', ex_prepare = (\<lambda>_ p. Inr \<lparr>SecurityOpts = [], MountSources = wp_PinnedSources p\<rparr>),
     ex_kind = (\<lambda>_ _. Inr KindDir), ex_readdir = (\<lambda>_ _. []), ex_owned = (\<lambda>_ _. True)\<rparr>"

definition demo_op :: run_op where
  "demo_op = \<lparr>ro_ID = ''op_1'', ro_SessionID = ''s'', ro_workloadMAC = Some \<lparr>SecurityOpts = [], MountSources = [''/r/0'']\<rparr>,
     ro_pinnedMounts = [''/r/0''], ro_macLease = Some ''k'', ro_cidfile = ''/r/c''\<rparr>"

definition demo_world :: "unit run_world" where
  "demo_world = \<lparr>rw_sup = newOperationSupervisor\<lparr>op_mem := [newRunOperation ''op_1'' ''s'' ''i'' 1 ''p'' ''l'' ''n'' 0]\<rparr>,
     rw_mac = (newSessionMACCoordinator empty_store [] ())\<lparr>sessionUseLeases := [(''k'', [])]\<rparr>,
     rw_calls = 0, rw_pins = [''/r/0''], rw_workload = [''op_1''],
     rw_records = [\<lparr>wr_Schema = 1, wr_OperationID = ''op_1'', wr_SessionID = ''s'', wr_Backend = ''apparmor''\<rparr>],
     rw_unlinked = [], rw_removed = [], rw_started = [], rw_audit = [], rw_log = []\<rparr>"

lemma demo_run_env_simps [simp]:
  "ex_others (demo_run_env ok) = (\<lambda>_ s. s)" "ex_mac (demo_run_env ok) = quiet_mac_env" "ex_sys (demo_run_env ok) = ok"
  "ex_partial (demo_run_env ok) = (\<lambda>_. False)"
  by (simp_all add: demo_run_env_def)

lemmas demo_run_defs = demo_op_def demo_world_def newSessionMACCoordinator_def

lemma demo_lease_release:
  "run_state (releaseSessionUse quiet_mac_env ''k'') (rw_mac demo_world) = ((), newSessionMACCoordinator empty_store [] ())"
  by (simp add: releaseSessionUse_def coord_def change_def release_coverage_def retryDeferredBoundaries_def pendingWorkloadCoverage_def
      quiet_mac_env_def demo_run_defs map_del_def)

text \<open>The pin cannot be detached: the record and the lease stay with it.\<close>

lemma demo_rollback:
  "run_state (rollbackRunPreparation (demo_run_env (\<lambda>n. n \<noteq> 2)) 0 demo_op) demo_world =
     (CleanupRetained cleanupStageSourcePins,
      demo_world\<lparr>rw_calls := 3, rw_workload := [], rw_log := [(''op_1'', cleanupStageSourcePins)]\<rparr>)"
  unfolding rollbackRunPreparation_def sequences_accepted
  by (simp add: logRunCleanupOutcome_def stage_defs capacity_stage_def release_op_capacity_def
      sup_access_def releaseCapacity_def newRunOperation_def newOperation_def demo_run_defs)

theorem cleanup_dependency_order_witness:
  "held_pins demo_op (snd (run_state (rollbackRunPreparation (demo_run_env (\<lambda>n. n \<noteq> 2)) 0 demo_op) demo_world)) = {''/r/0''} \<and>
   retained_for demo_op demo_world (snd (run_state (rollbackRunPreparation (demo_run_env (\<lambda>n. n \<noteq> 2)) 0 demo_op) demo_world))"
proof -
  let ?w = "demo_world\<lparr>rw_calls := 3, rw_workload := [], rw_log := [(''op_1'', cleanupStageSourcePins)]\<rparr>"
  have "CleanupRetained cleanupStageSourcePins \<noteq> CleanupPanic \<and> retained_for demo_op demo_world ?w \<and> others_untouched demo_op demo_world ?w \<and>
    (CleanupRetained cleanupStageSourcePins = CleanupCompleted \<longrightarrow> owns_nothing demo_op ?w)"
    by (rule cleanup_dependency_order [OF _ disjI2 [OF demo_rollback]]) (simp add: demo_op_def)
  moreover have "held_pins demo_op ?w = {''/r/0''}" by (simp add: held_pins_def demo_op_def demo_world_def)
  ultimately show ?thesis by (simp only: demo_rollback snd_conv simp_thms)
qed

section \<open>Absence before release\<close>

text \<open>Programs that leave a part of the state alone; the call counter never goes back.\<close>

definition spares :: "('d run_world \<Rightarrow> 'b) \<Rightarrow> ('d, 'a) run \<Rightarrow> bool" where
  "spares f m \<longleftrightarrow> (\<forall>w. f (snd (run_state m w)) = f w)"

definition advances :: "('d, 'a) run \<Rightarrow> bool" where
  "advances m \<longleftrightarrow> (\<forall>w. rw_calls w \<le> rw_calls (snd (run_state m w)))"

lemma sparesD: "spares f m \<Longrightarrow> run_state m w = (r, w') \<Longrightarrow> f w' = f w"
  by (metis spares_def snd_conv)

lemma advancesD: "advances m \<Longrightarrow> run_state m w = (r, w') \<Longrightarrow> rw_calls w \<le> rw_calls w'"
  by (metis advances_def snd_conv)

named_theorems frame_intros \<open>programs that leave a part of the state alone\<close>

lemma keeps_bind [frame_intros]: "spares f m \<Longrightarrow> (\<And>a. spares f (g a)) \<Longrightarrow> spares f (State_Monad.bind m g)"
  by (auto simp: spares_def split: prod.split) (metis snd_conv)

lemma advances_bind [frame_intros]: "advances m \<Longrightarrow> (\<And>a. advances (g a)) \<Longrightarrow> advances (State_Monad.bind m g)"
  by (auto simp: advances_def split: prod.split) (metis le_trans snd_conv)

lemma frame_basic [frame_intros]:
  "spares f (ret a)" "spares f (look q)" "(\<And>w n. f (w\<lparr>rw_calls := n\<rparr>) = f w) \<Longrightarrow> spares f (outcome h)"
  "(\<And>w n. f (w\<lparr>rw_calls := n\<rparr>) = f w) \<Longrightarrow> spares f (sys env)" "(\<And>w c. f (w\<lparr>rw_mac := c\<rparr>) = f w) \<Longrightarrow> spares f (mac_access k)"
  "(\<And>w. f (u w) = f w) \<Longrightarrow> spares f (resources u)"
  "advances (ret a)" "advances (look q)" "advances (outcome h)" "advances (sys env)" "advances (mac_access k)"
  "(\<And>w. rw_calls (u w) = rw_calls w) \<Longrightarrow> advances (resources u)"
  by (auto simp: spares_def advances_def sys_def mac_access_def split: prod.split)

lemma frame_or_return [frame_intros]:
  "spares f m \<Longrightarrow> (\<And>a. spares f (g a)) \<Longrightarrow> spares f (or_return m g)"
  "advances m \<Longrightarrow> (\<And>a. advances (g a)) \<Longrightarrow> advances (or_return m g)"
  unfolding or_return_def by (intro frame_intros; auto split: sum.split intro: frame_intros)+

lemma stages_frame:
  "list_all (\<lambda>s. spares f (snd s)) stages \<Longrightarrow> spares f (run_stages stages)"
  "list_all (\<lambda>s. advances (snd s)) stages \<Longrightarrow> advances (run_stages stages)"
  by (induction stages rule: run_stages.induct) (auto intro!: frame_intros split: sum.split)

text \<open>The parts of the state that no resource stage touches.\<close>

lemma resource_stages_advance: "advances (run_stages (resource_stages env op))"
proof -
  have "advances (cleanup_pins env ps)" for ps
    by (induction ps) (auto simp: cleanupPinnedMount_def intro!: frame_intros)
  then show ?thesis by (intro stages_frame) (auto simp: stage_defs intro!: frame_intros split: option.split)
qed

lemma resource_stages_keep: "spares (\<lambda>w. (rw_sup w, rw_removed w, rw_started w, rw_audit w, rw_log w)) (run_stages (resource_stages env op))"
proof -
  have "spares (\<lambda>w. (rw_sup w, rw_removed w, rw_started w, rw_audit w, rw_log w)) (cleanup_pins env ps)" for ps
    by (induction ps) (auto simp: cleanupPinnedMount_def intro!: frame_intros)
  then show ?thesis by (intro stages_frame) (auto simp: stage_defs intro!: frame_intros split: option.split)
qed

text \<open>
  C14: After the process of a run has ended nothing it holds is touched before Docker has shown that its container is
  gone. When the cleanup changes workload MAC state, pins, ownership records, the coordinator or cidfiles, then one of its
  own inspections, filtered by the labels of exactly this Operation and Session, listed no container. It force-removes
  at most one container, and only the single correlated one, in a state it can classify.
\<close>

theorem absence_before_release:
  assumes run: "run_state (cleanupAfterRunProcess env op) w = (out, w')"
  shows "removal_justified env (ro_ID op) (ro_SessionID op) w w' \<and>
    (rw_workload w' = rw_workload w \<and> rw_pins w' = rw_pins w \<and> rw_records w' = rw_records w \<and> rw_mac w' = rw_mac w \<and>
       rw_unlinked w' = rw_unlinked w \<or>
     (\<exists>n. rw_calls w \<le> n \<and> n < rw_calls w' \<and> correlated env (ro_ID op) (ro_SessionID op) n = Inr []))"
proof -
  obtain r w1 where one: "run_state (proveOperationContainerAbsent env (ro_ID op) (ro_SessionID op)) w = (r, w1)" by fastforce
  obtain n rm where w1: "w1 = w\<lparr>rw_removed := rm, rw_calls := n\<rparr>"
    and found: "r = Inr () \<longrightarrow> (\<exists>m. rw_calls w \<le> m \<and> m < n \<and> correlated env (ro_ID op) (ro_SessionID op) m = Inr [])"
    using absence_run(1) [OF one] by blast
  note just = absence_run(2) [OF one]
  show ?thesis
  proof (cases r)
    case (Inl e)
    from run [unfolded cleanupAfterRunProcess_def sequences_accepted] obtain lg where "w' = w1\<lparr>rw_log := lg\<rparr>"
      by (rule logged_run) (use one Inl in auto)
    then show ?thesis using just by (simp add: w1 removal_justified_def)
  next
    case (Inr u)
    from run [unfolded cleanupAfterRunProcess_def sequences_accepted] obtain v lg
      where rest: "run_state (run_stages (resource_stages env op)) w1 = (out, v)" and w': "w' = v\<lparr>rw_log := lg\<rparr>"
      by (rule logged_run) (use one Inr in auto)
    have "n \<le> rw_calls w'" "rw_removed w' = rw_removed w1"
      using advancesD [OF resource_stages_advance rest] sparesD [OF resource_stages_keep rest] by (simp_all add: w1 w')
    then show ?thesis using just found Inr by (fastforce simp: removal_justified_def)
  qed
qed

lemma demo_ps: "correlated (demo_run_env (\<lambda>n. True)) i sid n = Inr []"
  by (simp add: correlated_def demo_run_env_def parse_ps_output_def strings_TrimSpace_def)

lemma demo_cleanup:
  "run_state (cleanupAfterRunProcess (demo_run_env (\<lambda>n. True)) demo_op) demo_world =
     (CleanupCompleted, demo_world\<lparr>rw_mac := newSessionMACCoordinator empty_store [] (), rw_calls := 8, rw_workload := [], rw_pins := [],
        rw_records := [], rw_unlinked := [''/r/c'']\<rparr>)"
proof -
  have "run_state (mac_access (releaseSessionUse quiet_mac_env ''k'')) (demo_world\<lparr>rw_calls := n, rw_workload := [], rw_pins := [], rw_records := []\<rparr>) =
    ((), demo_world\<lparr>rw_mac := newSessionMACCoordinator empty_store [] (), rw_calls := n, rw_workload := [], rw_pins := [], rw_records := []\<rparr>)" for n
    using demo_lease_release by (simp add: mac_access_def)
  then show ?thesis unfolding cleanupAfterRunProcess_def sequences_accepted
    by (simp add: logRunCleanupOutcome_def stage_defs proveOperationContainerAbsent_def
      inspectCorrelatedContainers_def demo_ps demo_run_defs)
qed

theorem absence_before_release_witness:
  "\<exists>n. rw_calls demo_world \<le> n \<and> n < rw_calls (snd (run_state (cleanupAfterRunProcess (demo_run_env (\<lambda>n. True)) demo_op) demo_world)) \<and>
     correlated (demo_run_env (\<lambda>n. True)) ''op_1'' ''s'' n = Inr []"
  unfolding demo_cleanup snd_conv using absence_before_release [OF demo_cleanup] by (simp add: demo_op_def demo_world_def)

end
