(* ===== verification/Run_Handler.thy ===== *)
theory Run_Handler
  imports Run_Cleanup Operation_Invariants
begin

text \<open>
  \<^verbatim>\<open>handleRun\<close> and \<^verbatim>\<open>waitRunCompletion\<close> of run.go: the whole run request, from the Session bearer to the started process
  and its completion. Authentication, validation, capacity, the session-use lease, the mount plan, the execution
  identity, pins, workload MAC state, command line, admission and start are the definitions of the other theories; here
  is their composition, with the release each early return makes.
\<close>

section \<open>The request\<close>

text \<open>
  The daemon around one request: the environment of the resources, the host filesystem, the configuration, the
  \<^verbatim>\<open>Authorization\<close> header, random bytes, clock, the iteration order of the registered Operations and whether the
  process starts.
\<close>

record 'd handler_env =
  hx_run :: "'d run_env"
  hx_fs :: host_fs
  hx_cfg :: Config
  hx_header :: string
  hx_random :: "nat \<Rightarrow> nat list"
  hx_now :: "nat \<Rightarrow> int"
  hx_order :: "nat \<Rightarrow> nat list"
  hx_start :: "nat \<Rightarrow> bool"

datatype run_answer = Refused nat string | Created string operationState | Panicked

abbreviation internal_refusal :: run_answer where
  "internal_refusal \<equiv> Refused 500 ''internal_error''"

definition sv_call :: "'d handler_env \<Rightarrow> (sup_world \<Rightarrow> sup_world \<times> 'a) \<Rightarrow> ('d, 'a) run" where
  "sv_call x f = sup_access (hx_run x) (\<lambda>s. case f s of (s', r) \<Rightarrow> (r, s'))"

definition sv_do :: "'d handler_env \<Rightarrow> (sup_world \<Rightarrow> sup_world) \<Rightarrow> ('d, unit) run" where
  "sv_do x f = sup_access (hx_run x) (\<lambda>s. ((), f s))"

definition store_call :: "'d handler_env \<Rightarrow> 'a db \<Rightarrow> ('d, (go_error, 'a) result) run" where
  "store_call x m = mac_access (mac_db m)"

definition writeOperationAdmissionRejected :: "admissionDecision \<Rightarrow> run_answer" where
  "writeOperationAdmissionRejected decision =
     (case decision of
        admissionRefusedShutdown \<Rightarrow> Refused 503 ''shutting_down''
      | admissionRefusedQuiesced \<Rightarrow> Refused 422 ''launcher_unavailable''
      | admissionRefusedCapacity \<Rightarrow> Refused 429 ''capacity_unavailable''
      | admissionAccepted \<Rightarrow> internal_refusal)"

text \<open>The Session bearer; only an unknown or dead Session answers 401.\<close>

definition requireSessionFilesystemCapability :: "'d handler_env \<Rightarrow> ('d, (run_answer, sessionFilesystemAuthority) result) run" where
  "requireSessionFilesystemCapability x =
     (case parseBearerToken (hx_header x) of
        None \<Rightarrow> ret (Inl (Refused 401 ''unauthorized''))
      | Some token \<Rightarrow> do {
          now \<leftarrow> outcome (hx_now x);
          r \<leftarrow> store_call x (captureSessionFilesystemAuthority (me_hash (ex_mac (hx_run x))) (me_db (ex_mac (hx_run x))) now token);
          ret (case r of
                 Inr (Inr authority) \<Rightarrow> Inr authority
               | Inr (Inl cerr) \<Rightarrow> Inl (if ce_class cerr = sessionAuthorityCaptureNotFound then Refused 401 ''unauthorized'' else internal_refusal)
               | Inl _ \<Rightarrow> Inl internal_refusal) })"

section \<open>Start and completion\<close>

text \<open>
  \<^verbatim>\<open>pruneCompleted\<close> selects in one critical section, over the registered Operations in the order of the map, and
  removes in a second one; a negative cap panics.
\<close>

definition registered :: "sup_world \<Rightarrow> nat list \<Rightarrow> nat list" where
  "registered s order = filter (\<lambda>q. q < length (op_mem s) \<and> ops s (op_ID (op_mem s ! q)) = Some q) order"

definition prune_operations :: "'d handler_env \<Rightarrow> ('d, bool) run" where
  "prune_operations x = do {
     now \<leftarrow> outcome (hx_now x);
     order \<leftarrow> outcome (hx_order x);
     selected \<leftarrow> sv_call x (\<lambda>s. (s, prune_select s (registered s order) now (OperationRetentionTTL (hx_cfg x)) (OperationMaxCompleted (hx_cfg x))));
     case selected of
       None \<Rightarrow> ret False
     | Some toRemove \<Rightarrow> do { sv_do x (prune_remove toRemove); ret True } }"

definition fail_operation :: "'d handler_env \<Rightarrow> nat \<Rightarrow> string \<Rightarrow> int option \<Rightarrow> string option \<Rightarrow> ('d, unit) run" where
  "fail_operation x p resultCode exitCode duration = do {
     now \<leftarrow> outcome (hx_now x);
     sv_do x (\<lambda>s. fst (fail p resultCode exitCode duration now s)) }"

definition created_answer :: "'d handler_env \<Rightarrow> nat \<Rightarrow> run_op \<Rightarrow> ('d, run_answer) run" where
  "created_answer x p op = sv_call x (\<lambda>s. (s, Created (ro_ID op) (State (op_mem s ! p))))"

text \<open>After the admission: pruning, the audit event, the start of the process.\<close>

definition run_start :: "'d handler_env \<Rightarrow> nat \<Rightarrow> run_op \<Rightarrow> string list \<Rightarrow> ('d, run_answer) run" where
  "run_start x p op args = do {
     pruned \<leftarrow> prune_operations x;
     if \<not> pruned then ret Panicked
     else do {
       resources (\<lambda>w. w\<lparr>rw_audit := rw_audit w @ [(''run.start'', ro_ID op)]\<rparr>);
       now \<leftarrow> outcome (hx_now x);
       ok \<leftarrow> outcome (hx_start x);
       started \<leftarrow> sv_call x (startOperationProcess p ok now);
       case started of
         StartTerminated \<Rightarrow> do {
           rollbackRunPreparation (hx_run x) p op;
           why \<leftarrow> sv_call x (\<lambda>s. (s, reason (op_mem s ! p)));
           fail_operation x p (if why = terminationCancelled then ''cancelled'' else ''docker_run_failed'') None None;
           created_answer x p op }
       | StartErr \<Rightarrow> do {
           rollbackRunPreparation (hx_run x) p op;
           fail_operation x p ''docker_run_failed'' None None;
           created_answer x p op }
       | StartOk \<Rightarrow> do {
           resources (\<lambda>w. w\<lparr>rw_started := rw_started w @ [(p, args)]\<rparr>);
           ret (Created (ro_ID op) operationRunning) } } }"

text \<open>
  \<^verbatim>\<open>waitRunCompletion\<close>, of the goroutine that waits for the process: \<^const>\<open>None\<close> is a process that succeeded, otherwise its
  exit code if it has one.
\<close>

definition waitRunCompletion :: "'d handler_env \<Rightarrow> nat \<Rightarrow> run_op \<Rightarrow> int option option \<Rightarrow> string \<Rightarrow> ('d, unit) run" where
  "waitRunCompletion x p op waitErr duration = do {
     cleanupAfterRunProcess (hx_run x) op;
     wasCancelled \<leftarrow> sv_call x (\<lambda>s. (s, reason (op_mem s ! p) = terminationCancelled));
     case waitErr of
       None \<Rightarrow> do { now \<leftarrow> outcome (hx_now x); sv_do x (\<lambda>s. fst (succeed p (Some duration) now s)) }
     | Some exitCode \<Rightarrow>
         if wasCancelled then fail_operation x p ''cancelled'' exitCode (Some duration)
         else fail_operation x p
           (if exitCode \<noteq> None \<and> exitCode \<noteq> Some 125 then ''container_exit_nonzero'' else ''docker_run_failed'') exitCode (Some duration) }"

section \<open>Preparation\<close>

definition roll_back :: "'d handler_env \<Rightarrow> nat \<Rightarrow> run_op \<Rightarrow> run_answer \<Rightarrow> ('d, run_answer) run" where
  "roll_back x p op answer = do { rollbackRunPreparation (hx_run x) p op; ret answer }"

text \<open>
  With the workload MAC state prepared: the command line, the admission. A back end that returned fewer bind sources
  than the plan has mounts is an index panic.
\<close>

definition run_admit ::
    "'d handler_env \<Rightarrow> runRequest \<Rightarrow> int \<Rightarrow> run_facts \<Rightarrow> sessionFilesystemExposure list \<Rightarrow> nat option \<Rightarrow> nat \<Rightarrow> run_op \<Rightarrow> ('d, run_answer) run" where
  "run_admit x req shmSizeBytes facts plan reservation p op =
     (if length (rf_mountSources facts) < length plan then ret Panicked
      else case run_argv (hx_cfg x) req shmSizeBytes facts plan of
        Inl _ \<Rightarrow> roll_back x p op internal_refusal
      | Inr args \<Rightarrow> do {
          decision \<leftarrow> sv_call x (admitReserved p reservation);
          if decision \<noteq> admissionAccepted then roll_back x p op (writeOperationAdmissionRejected decision)
          else run_start x p op args })"

text \<open>Pins are appended to the Operation one by one, so that a rollback sees what is attached.\<close>

fun pin_all :: "'d handler_env \<Rightarrow> run_op \<Rightarrow> nat \<Rightarrow> resolvedMount list \<Rightarrow> ('d, bool \<times> run_op) run" where
  "pin_all x op i [] = ret (True, op)"
| "pin_all x op i (m # ms) = do {
     r \<leftarrow> pinMountSource (hx_run x) (rm_SourcePath m) (RuntimeDir (hx_cfg x)) (ro_ID op) i;
     case r of
       Inl _ \<Rightarrow> ret (False, op)
     | Inr path \<Rightarrow> pin_all x (op\<lparr>ro_pinnedMounts := ro_pinnedMounts op @ [path]\<rparr>) (Suc i) ms }"

text \<open>With the Operation created: pins and workload MAC state. Retained workload MAC state spares everything but the capacity.\<close>

definition run_prepare ::
    "'d handler_env \<Rightarrow> Session \<Rightarrow> runRequest \<Rightarrow> int \<Rightarrow> int \<times> int \<Rightarrow> resolvedMount list \<Rightarrow> sessionFilesystemExposure list \<Rightarrow>
     nat option \<Rightarrow> nat \<Rightarrow> run_op \<Rightarrow> ('d, run_answer) run" where
  "run_prepare x session req shmSizeBytes ident resolved plan reservation p op = do {
     (pinned, op) \<leftarrow> pin_all x op 0 resolved;
     if \<not> pinned then roll_back x p op internal_refusal
     else do {
       prepared \<leftarrow> Prepare (hx_run x) \<lparr>wp_OperationID = ro_ID op, wp_SessionID = ses_ID session, wp_Exposures = plan,
         wp_PinnedSources = ro_pinnedMounts op\<rparr>;
       case prepared of
         Inl PrepareRetained \<Rightarrow> do {
           resources (\<lambda>w. w\<lparr>rw_log := rw_log w @ [(ro_ID op, cleanupStageWorkloadMAC)]\<rparr>);
           release_op_capacity (hx_run x) p;
           ret internal_refusal }
       | Inl PrepareFailed \<Rightarrow> roll_back x p op internal_refusal
       | Inr mac \<Rightarrow>
           run_admit x req shmSizeBytes
             \<lparr>rf_session = session, rf_uid = fst ident, rf_gid = snd ident, rf_operationID = ro_ID op, rf_cidfile = ro_cidfile op,
               rf_securityOpts = SecurityOpts mac, rf_mountSources = MountSources mac\<rparr>
             plan reservation p (op\<lparr>ro_workloadMAC := Some mac\<rparr>) } }"

text \<open>
  The new Operation, not yet registered: it takes the lease and the release of the reservation, and a cidfile in the
  runtime directory.
\<close>

definition new_run_op :: "'d handler_env \<Rightarrow> Session \<Rightarrow> runRequest \<Rightarrow> string \<Rightarrow> nat option \<Rightarrow> ('d, nat \<times> run_op) run" where
  "new_run_op x session req leaseKey reservation = do {
     random \<leftarrow> outcome (hx_random x);
     now \<leftarrow> outcome (hx_now x);
     let opID = generateOperationID random;
     let path = (if RuntimeDir (hx_cfg x) = [] then [] else filepath_Join [RuntimeDir (hx_cfg x), opID @ ''.cid'']);
     p \<leftarrow> sv_call x (\<lambda>s. (s\<lparr>op_mem := op_mem s @ [newRunOperation opID (ses_ID session) (rq_Image req) (OperationLogMaxBytes (hx_cfg x))
            (ses_PrincipalName session) (ses_LauncherID session) (ses_LauncherName session) now]\<rparr>, length (op_mem s)));
     sv_do x (\<lambda>s. setCidfile p path (takeReservation p reservation s));
     ret (p, \<lparr>ro_ID = opID, ro_SessionID = ses_ID session, ro_workloadMAC = None, ro_pinnedMounts = [], ro_macLease = Some leaseKey,
       ro_cidfile = path\<rparr>) }"

text \<open>Before the Operation exists a failure releases the lease and the reservation.\<close>

definition releasePreparation :: "'d handler_env \<Rightarrow> string \<Rightarrow> nat option \<Rightarrow> run_answer \<Rightarrow> ('d, run_answer) run" where
  "releasePreparation x leaseKey reservation answer = do {
     mac_access (releaseSessionUse (ex_mac (hx_run x)) leaseKey);
     sv_do x (reservation_Release reservation);
     ret answer }"

definition run_leased ::
    "'d handler_env \<Rightarrow> sessionFilesystemAuthority \<Rightarrow> runRequest \<Rightarrow> int \<Rightarrow> nat option \<Rightarrow> string \<Rightarrow> ('d, run_answer) run" where
  "run_leased x authority req shmSizeBytes reservation leaseKey =
     (let session = fa_Session authority in
      case plan_run_mounts (hx_fs x) (hx_cfg x) (ses_Workspace session) (fa_Snapshot authority) req of
        Inl (status, code) \<Rightarrow> releasePreparation x leaseKey reservation (Refused status code)
      | Inr (resolved, plan) \<Rightarrow> do {
          ident \<leftarrow> store_call x (resolveSessionExecutionIdentity (me_db (ex_mac (hx_run x))) session);
          case ident of
            Inl _ \<Rightarrow> releasePreparation x leaseKey reservation internal_refusal
          | Inr ident \<Rightarrow> do {
              dockerDir \<leftarrow> sys (hx_run x);
              case dockerDir of
                Inl _ \<Rightarrow> releasePreparation x leaseKey reservation internal_refusal
              | Inr _ \<Rightarrow> do {
                  (p, op) \<leftarrow> new_run_op x session req leaseKey reservation;
                  run_prepare x session req shmSizeBytes ident resolved plan reservation p op } } })"

text \<open>The handler; \<^const>\<open>None\<close> is a body that does not decode.\<close>

definition handleRun :: "'d handler_env \<Rightarrow> runRequest option \<Rightarrow> ('d, run_answer) run" where
  "handleRun x body = do {
     r \<leftarrow> requireSessionFilesystemCapability x;
     case r of
       Inl answer \<Rightarrow> ret answer
     | Inr authority \<Rightarrow>
        (case body of
           None \<Rightarrow> ret (Refused 400 ''invalid_json'')
         | Some req \<Rightarrow>
            (case validateRunRequest req of
               Inl (status, code) \<Rightarrow> ret (Refused status code)
             | Inr shmSizeBytes \<Rightarrow> do {
                 let session = fa_Session authority;
                 (reservation, decision) \<leftarrow> sv_call x (reserve (ses_ID session) (ses_LauncherID session) operationKindRun);
                 if decision \<noteq> admissionAccepted then ret (writeOperationAdmissionRejected decision)
                 else do {
                   random \<leftarrow> outcome (hx_random x);
                   lease \<leftarrow> mac_access (AcquireSessionUse (ex_mac (hx_run x)) random (ses_ID session) (ses_Workspace session));
                   case lease of
                     Inl _ \<Rightarrow> do { sv_do x (reservation_Release reservation); ret internal_refusal }
                   | Inr leaseKey \<Rightarrow> run_leased x authority req shmSizeBytes reservation leaseKey } })) }"


section \<open>What starts\<close>

lemma run_sup [simp]:
  "run_state (sv_call x f) w = (case f (ex_others (hx_run x) (rw_calls w) (rw_sup w)) of
     (s, r) \<Rightarrow> (r, w\<lparr>rw_sup := s, rw_calls := Suc (rw_calls w)\<rparr>))"
  "run_state (sv_do x g) w = ((), w\<lparr>rw_sup := g (ex_others (hx_run x) (rw_calls w) (rw_sup w)), rw_calls := Suc (rw_calls w)\<rparr>)"
  "run_state (release_op_capacity env p) w =
     ((), w\<lparr>rw_sup := releaseCapacity p (ex_others env (rw_calls w) (rw_sup w)), rw_calls := Suc (rw_calls w)\<rparr>)"
  by (auto simp: sv_call_def sv_do_def release_op_capacity_def sup_access_def split: prod.split)

lemma frame_sup [frame_intros]:
  "(\<And>w s n. f (w\<lparr>rw_sup := s, rw_calls := n\<rparr>) = f w) \<Longrightarrow> spares f (sv_call x g)"
  "(\<And>w s n. f (w\<lparr>rw_sup := s, rw_calls := n\<rparr>) = f w) \<Longrightarrow> spares f (sv_do x h)"
  "(\<And>w s n. f (w\<lparr>rw_sup := s, rw_calls := n\<rparr>) = f w) \<Longrightarrow> spares f (release_op_capacity env p)"
  by (auto simp: spares_def split: prod.split)

lemma frame_cases [frame_intros]:
  "spares f m \<Longrightarrow> spares f m' \<Longrightarrow> spares f (if b then m else m')"
  "(\<And>e. spares f (g e)) \<Longrightarrow> (\<And>b. spares f (h b)) \<Longrightarrow> spares f (case r of Inl e \<Rightarrow> g e | Inr b \<Rightarrow> h b)"
  "spares f m \<Longrightarrow> (\<And>a. spares f (k a)) \<Longrightarrow> spares f (case y of None \<Rightarrow> m | Some a \<Rightarrow> k a)"
  "(\<And>a b. spares f (q a b)) \<Longrightarrow> spares f (case z of (a, b) \<Rightarrow> q a b)"
  by (auto split: sum.split option.split prod.split)

lemma frame_or_rollback [frame_intros]:
  "spares f m \<Longrightarrow> spares f c \<Longrightarrow> (\<And>a. spares f (g a)) \<Longrightarrow> spares f (or_rollback m c g)"
  unfolding or_rollback_def by (intro frame_intros)

lemma frame_rollback [frame_intros]: "spares rw_started (rollbackRunPreparation env p op)"
proof -
  have "spares rw_started (run_stages (resource_stages env op))"
    using resource_stages_keep [of env op] by (simp add: spares_def)
  then have "spares rw_started (run_stages ((cleanupStageCapacity, capacity_stage env p) # resource_stages env op))"
    by (auto simp: capacity_stage_def intro!: frame_intros)
  then show ?thesis unfolding rollbackRunPreparation_def sequences_accepted
    by (intro frame_intros) (auto simp: logRunCleanupOutcome_def intro!: frame_intros split: runCleanupOutcome.split)
qed


text \<open>Only a successful start is recorded, and nothing is released on the way to it.\<close>

abbreviation held :: "'d run_world \<Rightarrow> 'd sessionMACCoordinator \<times> string list \<times> string list \<times> workloadMACRecord list" where
  "held w \<equiv> (rw_mac w, rw_pins w, rw_workload w, rw_records w)"

lemma prune_keeps: "spares held (prune_operations x)" "spares rw_started (prune_operations x)" "spares rw_log (prune_operations x)"
  unfolding prune_operations_def by (intro frame_intros; simp)+

lemma finish_keeps [frame_intros]:
  "spares rw_started (fail_operation x p rc ec d)" "spares rw_started (created_answer x p op)" "spares rw_started (roll_back x p op ans)"
  unfolding fail_operation_def created_answer_def roll_back_def by (intro frame_intros; simp)+

lemma start_run:
  assumes "run_state (run_start x p op args) w = (ans, w')"
  shows "rw_started w' = rw_started w \<or> rw_started w' = rw_started w @ [(p, args)] \<and> ans = Created (ro_ID op) operationRunning \<and> held w' = held w"
proof -
  obtain b w1 where one: "run_state (prune_operations x) w = (b, w1)" by fastforce
  note same = sparesD [OF prune_keeps(1) one] sparesD [OF prune_keeps(2) one]
  show ?thesis
  proof (cases b)
    case False
    with assms one same show ?thesis by (simp add: run_start_def)
  next
    case True
    let ?go = "\<lambda>started. case started of
         StartTerminated \<Rightarrow> do {
           rollbackRunPreparation (hx_run x) p op;
           why \<leftarrow> sv_call x (\<lambda>s. (s, reason (op_mem s ! p)));
           fail_operation x p (if why = terminationCancelled then ''cancelled'' else ''docker_run_failed'') None None;
           created_answer x p op }
       | StartErr \<Rightarrow> do {
           rollbackRunPreparation (hx_run x) p op;
           fail_operation x p ''docker_run_failed'' None None;
           created_answer x p op }
       | StartOk \<Rightarrow> do {
           resources (\<lambda>w. w\<lparr>rw_started := rw_started w @ [(p, args)]\<rparr>);
           ret (Created (ro_ID op) operationRunning) }"
    obtain started w2 where two: "run_state (?go started) w2 = (ans, w')" and same2: "held w2 = held w1" "rw_started w2 = rw_started w1"
      using assms one True by (auto simp: run_start_def split: prod.splits)
    show ?thesis
    proof (cases started)
      case StartOk
      with two same same2 show ?thesis by auto
    next
      case StartErr
      then have "spares rw_started (?go started)" by (auto intro!: frame_intros)
      from sparesD [OF this two] same same2 show ?thesis by simp
    next
      case StartTerminated
      then have "spares rw_started (?go started)" by (auto intro!: frame_intros)
      from sparesD [OF this two] same same2 show ?thesis by simp
    qed
  qed
qed

lemma admit_run:
  assumes "run_state (run_admit x req shm facts plan res p op) w = (ans, w')" and "rw_started w' \<noteq> rw_started w"
  obtains args where "run_argv (hx_cfg x) req shm facts plan = Inr args" "length plan \<le> length (rf_mountSources facts)"
    "rw_started w' = rw_started w @ [(p, args)]" "ans = Created (ro_ID op) operationRunning" "held w' = held w"
proof -
  have rolled: "rw_started v' = rw_started v" if "run_state (roll_back x p op a) v = (b, v')" for a b v v'
    using sparesD [OF finish_keeps(3) that] .
  have few: "\<not> length (rf_mountSources facts) < length plan" using assms by (auto simp: run_admit_def)
  with assms(1) obtain args where args: "run_argv (hx_cfg x) req shm facts plan = Inr args"
    using rolled assms(2) by (cases "run_argv (hx_cfg x) req shm facts plan") (auto simp: run_admit_def)
  obtain s d where d: "admitReserved p res (ex_others (hx_run x) (rw_calls w) (rw_sup w)) = (s, d)" by fastforce
  let ?w1 = "w\<lparr>rw_sup := s, rw_calls := Suc (rw_calls w)\<rparr>"
  have "d = admissionAccepted"
  proof (rule ccontr)
    assume "d \<noteq> admissionAccepted"
    with assms(1) few args d have "run_state (roll_back x p op (writeOperationAdmissionRejected d)) ?w1 = (ans, w')" by (simp add: run_admit_def)
    from rolled [OF this] assms(2) show False by simp
  qed
  with assms(1) few args d have "run_state (run_start x p op args) ?w1 = (ans, w')" by (simp add: run_admit_def)
  from start_run [OF this] assms(2) show thesis using that [OF args] few by auto
qed


lemma pin_run:
  assumes "run_state (pinMountSource env src rd i k) w = (r, w')"
  shows "\<exists>n. case r of Inl e \<Rightarrow> w' = w\<lparr>rw_calls := n\<rparr>
    | Inr path \<Rightarrow> path = pin_path rd i k \<and> path \<notin> set (rw_pins w) \<and> w' = w\<lparr>rw_calls := n, rw_pins := rw_pins w @ [path]\<rparr>"
  using assms
  by (auto simp: pinMountSource_def create_destination_def rollbackDest_def Let_def
      split: if_splits sum.splits prod.splits intro: exI [of _ "rw_calls w"])


lemma pin_all_run:
  assumes "run_state (pin_all x op i ms) w = ((b, op'), w')"
  shows "\<exists>n ps. op' = op\<lparr>ro_pinnedMounts := ro_pinnedMounts op @ ps\<rparr> \<and> w' = w\<lparr>rw_calls := n, rw_pins := rw_pins w @ ps\<rparr> \<and>
    set ps \<inter> set (rw_pins w) = {} \<and> (b \<longrightarrow> ps = map (pin_path (RuntimeDir (hx_cfg x)) (ro_ID op)) [i..<i + length ms])"
  using assms
proof (induction ms arbitrary: op i w)
  case Nil
  then show ?case by (intro exI [of _ "rw_calls w"] exI [of _ "[]"]) simp
next
  case (Cons m ms)
  obtain r w1 where one: "run_state (pinMountSource (hx_run x) (rm_SourcePath m) (RuntimeDir (hx_cfg x)) (ro_ID op) i) w = (r, w1)" by fastforce
  from pin_run [OF one] obtain n where n: "case r of Inl e \<Rightarrow> w1 = w\<lparr>rw_calls := n\<rparr>
    | Inr path \<Rightarrow> path = pin_path (RuntimeDir (hx_cfg x)) (ro_ID op) i \<and> path \<notin> set (rw_pins w) \<and>
        w1 = w\<lparr>rw_calls := n, rw_pins := rw_pins w @ [path]\<rparr>" ..
  show ?case
  proof (cases r)
    case (Inl e)
    with Cons.prems one n show ?thesis by (intro exI [of _ n] exI [of _ "[]"]) simp
  next
    case (Inr path)
    let ?op = "op\<lparr>ro_pinnedMounts := ro_pinnedMounts op @ [path]\<rparr>"
    from Inr Cons.prems one have "run_state (pin_all x ?op (Suc i) ms) w1 = ((b, op'), w')" by simp
    from Cons.IH [OF this] obtain k ps where IH: "op' = ?op\<lparr>ro_pinnedMounts := ro_pinnedMounts ?op @ ps\<rparr>"
      "w' = w1\<lparr>rw_calls := k, rw_pins := rw_pins w1 @ ps\<rparr>" "set ps \<inter> set (rw_pins w1) = {}"
      "b \<longrightarrow> ps = map (pin_path (RuntimeDir (hx_cfg x)) (ro_ID ?op)) [Suc i..<Suc i + length ms]" by blast
    have "[i..<i + length (m # ms)] = i # [Suc i..<Suc i + length ms]" by (simp add: upt_rec)
    then show ?thesis using IH n Inr by (intro exI [of _ k] exI [of _ "path # ps"]) auto
  qed
qed

lemma prepare_record_run:
  assumes "run_state (prepare_record env p) w = (r, w')"
  shows "\<exists>n. case r of Inl e \<Rightarrow> w' = w\<lparr>rw_calls := n\<rparr>
    | Inr u \<Rightarrow> wp_OperationID p \<notin> wr_OperationID ` set (rw_records w) \<and>
        w' = w\<lparr>rw_calls := n, rw_records := rw_records w @ [\<lparr>wr_Schema = workloadMACStateSchema, wr_OperationID = wp_OperationID p,
          wr_SessionID = wp_SessionID p, wr_Backend = ex_backend env\<rparr>]\<rparr>"
  using assms
  by (auto simp: prepare_record_def new_state_dir_def split: if_splits sum.splits prod.splits intro: exI [of _ "rw_calls w"])

text \<open>What a preparation leaves, on each of its outcomes.\<close>

lemma prepare_keeps: "spares (\<lambda>w. (rw_sup w, rw_mac w, rw_pins w, rw_log w, rw_started w)) (Prepare env p)"
  unfolding Prepare_def prepare_record_def new_state_dir_def cleanupOwnedState_def by (intro frame_intros; simp)

lemma prepare_run:
  assumes run: "run_state (Prepare env p) w = (r, w')"
  shows "case r of
      Inr mac \<Rightarrow> (\<exists>n. ex_prepare env n p = Inr mac) \<and> rw_workload w' = rw_workload w @ [wp_OperationID p] \<and>
        wp_OperationID p \<in> wr_OperationID ` set (rw_records w') \<and>
        filter (\<lambda>rec. wr_OperationID rec \<noteq> wp_OperationID p) (rw_records w') = filter (\<lambda>rec. wr_OperationID rec \<noteq> wp_OperationID p) (rw_records w)
    | Inl PrepareFailed \<Rightarrow> (wp_OperationID p \<notin> set (rw_workload w) \<longrightarrow> rw_workload w' = rw_workload w) \<and>
        filter (\<lambda>rec. wr_OperationID rec \<noteq> wp_OperationID p) (rw_records w') = filter (\<lambda>rec. wr_OperationID rec \<noteq> wp_OperationID p) (rw_records w)
    | Inl PrepareRetained \<Rightarrow> True"
proof -
  obtain q w1 where one: "run_state (prepare_record env p) w = (q, w1)" by fastforce
  from prepare_record_run [OF one] obtain n where n: "case q of Inl e \<Rightarrow> w1 = w\<lparr>rw_calls := n\<rparr>
    | Inr u \<Rightarrow> wp_OperationID p \<notin> wr_OperationID ` set (rw_records w) \<and>
        w1 = w\<lparr>rw_calls := n, rw_records := rw_records w @ [\<lparr>wr_Schema = workloadMACStateSchema, wr_OperationID = wp_OperationID p,
          wr_SessionID = wp_SessionID p, wr_Backend = ex_backend env\<rparr>]\<rparr>" ..
  show ?thesis
  proof (cases q)
    case (Inl e)
    with run one n show ?thesis by (auto simp: Prepare_def)
  next
    case (Inr u)
    with run one n show ?thesis
      by (auto simp: Prepare_def cleanupOwnedState_def split: sum.splits if_splits prepareFailure.splits prod.splits)
  qed
qed


definition op_pins :: "'d handler_env \<Rightarrow> string \<Rightarrow> resolvedMount list \<Rightarrow> string list" where
  "op_pins x operationID resolved = map (pin_path (RuntimeDir (hx_cfg x)) operationID) [0..<length resolved]"

lemma prepare_started:
  assumes run: "run_state (run_prepare x session req shm ident resolved plan res p op) w = (ans, w')"
    and started: "rw_started w' \<noteq> rw_started w" and none: "ro_pinnedMounts op = []"
  shows "\<exists>n mac args. ex_prepare (hx_run x) n \<lparr>wp_OperationID = ro_ID op, wp_SessionID = ses_ID session, wp_Exposures = plan,
         wp_PinnedSources = op_pins x (ro_ID op) resolved\<rparr> = Inr mac \<and>
      run_argv (hx_cfg x) req shm \<lparr>rf_session = session, rf_uid = fst ident, rf_gid = snd ident, rf_operationID = ro_ID op,
         rf_cidfile = ro_cidfile op, rf_securityOpts = SecurityOpts mac, rf_mountSources = MountSources mac\<rparr> plan = Inr args \<and>
      length plan \<le> length (MountSources mac) \<and>
      rw_started w' = rw_started w @ [(p, args)] \<and> ans = Created (ro_ID op) operationRunning \<and> rw_mac w' = rw_mac w \<and>
      set (op_pins x (ro_ID op) resolved) \<subseteq> set (rw_pins w') \<and> ro_ID op \<in> set (rw_workload w') \<and>
      ro_ID op \<in> wr_OperationID ` set (rw_records w')"
proof -
  obtain b op1 w1 where one: "run_state (pin_all x op 0 resolved) w = ((b, op1), w1)" by (metis surj_pair)
  from pin_all_run [OF one] none obtain n ps where pins: "op1 = op\<lparr>ro_pinnedMounts := ps\<rparr>" "w1 = w\<lparr>rw_calls := n, rw_pins := rw_pins w @ ps\<rparr>"
    "b \<longrightarrow> ps = op_pins x (ro_ID op) resolved" by (auto simp: op_pins_def)
  have rolled: "rw_started v' = rw_started v" if "run_state (roll_back x p o' a) v = (c, v')" for o' a c v v'
    using sparesD [OF finish_keeps(3) that] .
  have b: "b" using run one started pins(2) rolled by (cases b) (auto simp: run_prepare_def)
  let ?wp = "\<lparr>wp_OperationID = ro_ID op1, wp_SessionID = ses_ID session, wp_Exposures = plan, wp_PinnedSources = ro_pinnedMounts op1\<rparr>"
  obtain r w2 where two: "run_state (Prepare (hx_run x) ?wp) w1 = (r, w2)" by fastforce
  note kept = sparesD [OF prepare_keeps two]
  obtain mac where mac: "r = Inr mac"
  proof (cases r)
    case (Inl e)
    have "rw_started w' = rw_started w2"
      using run one two b Inl rolled by (cases e) (auto simp: run_prepare_def)
    with kept pins(2) started show thesis by simp
  qed (rule that)
  let ?facts = "\<lparr>rf_session = session, rf_uid = fst ident, rf_gid = snd ident, rf_operationID = ro_ID op1, rf_cidfile = ro_cidfile op1,
    rf_securityOpts = SecurityOpts mac, rf_mountSources = MountSources mac\<rparr>"
  have "run_state (run_admit x req shm ?facts plan res p (op1\<lparr>ro_workloadMAC := Some mac\<rparr>)) w2 = (ans, w')"
    using run one two b mac by (simp add: run_prepare_def)
  then obtain args where "run_argv (hx_cfg x) req shm ?facts plan = Inr args" "length plan \<le> length (MountSources mac)"
    "rw_started w' = rw_started w2 @ [(p, args)]" "ans = Created (ro_ID op1) operationRunning" "held w' = held w2"
    using started kept pins(2) by (auto elim: admit_run)
  moreover from prepare_run [OF two] mac obtain m where "ex_prepare (hx_run x) m ?wp = Inr mac" "ro_ID op1 \<in> set (rw_workload w2)"
    "ro_ID op1 \<in> wr_OperationID ` set (rw_records w2)" by auto
  ultimately show ?thesis using kept pins b by (intro exI [of _ m] exI [of _ mac] exI [of _ args]) auto
qed

lemma new_op_run:
  assumes "run_state (new_run_op x session req key res) w = ((p, op), w')"
  shows "held w' = held w \<and> rw_started w' = rw_started w \<and> rw_log w' = rw_log w \<and> ro_ID op = generateOperationID (hx_random x (rw_calls w)) \<and>
    ro_SessionID op = ses_ID session \<and> ro_workloadMAC op = None \<and> ro_pinnedMounts op = [] \<and> ro_macLease op = Some key"
  using assms by (auto simp: new_run_op_def Let_def)

lemma acquire_run:
  assumes "run_state (AcquireSessionUse env random sid ws) c = (r, c')"
  shows "case r of Inl e \<Rightarrow> sessionUseLeases c' = sessionUseLeases c
    | Inr key \<Rightarrow> key = generateLeaseKey random \<and> (\<exists>cs. sessionUseLeases c' = map_put key cs (sessionUseLeases c))"
proof (cases "map_of (sessionBindings c) sid")
  case None
  with assms show ?thesis by (auto simp: AcquireSessionUse_def coord_def)
next
  case (Some cs)
  obtain q c1 where q: "run_state (mac_db (sessionExistsExact env sid ws)) c = (q, c1)" by (metis surj_pair)
  have "sessionUseLeases c1 = sessionUseLeases c" by (rule keeps_leasesD [OF _ q]) (rule lease_intros)
  with assms Some q show ?thesis by (cases q) (auto simp: AcquireSessionUse_def coord_def change_def split: if_splits)
qed

lemma map_of_map_put [simp]: "map_of (map_put k v m) j = (if j = k then Some v else map_of m j)"
proof -
  have "map_of (filter (\<lambda>p. fst p \<noteq> k) m) j = (if j = k then None else map_of m j)" by (induction m) auto
  then show ?thesis by (simp add: map_put_def map_add_def split: option.split)
qed

lemma store_call_leases [frame_intros]: "spares (\<lambda>w. sessionUseLeases (rw_mac w)) (store_call x m)"
proof -
  have "sessionUseLeases c' = sessionUseLeases c" if "run_state (mac_db m) c = (r, c')" for c r c'
    by (rule keeps_leasesD [OF _ that]) (rule lease_intros)
  then show ?thesis by (auto simp: spares_def store_call_def mac_access_def split: prod.split)
qed

lemma store_call_frame: "(\<And>w c. f (w\<lparr>rw_mac := c\<rparr>) = f w) \<Longrightarrow> spares f (store_call x m)"
  unfolding store_call_def by (intro frame_intros)


lemma release_preparation_started: "spares rw_started (releasePreparation x key res ans)"
  unfolding releasePreparation_def by (intro frame_intros; simp)

text \<open>
  The part of a run that holds a lease, when it starts a process: the plan, the preparation and the command line it was
  started with.
\<close>

lemma leased_started:
  assumes run: "run_state (run_leased x authority req shm res key) w = (ans, w')" and started: "rw_started w' \<noteq> rw_started w"
  obtains resolved plan i n mac facts args p where
    "plan_run_mounts (hx_fs x) (hx_cfg x) (ses_Workspace (fa_Session authority)) (fa_Snapshot authority) req = Inr (resolved, plan)"
    "ex_prepare (hx_run x) n \<lparr>wp_OperationID = i, wp_SessionID = ses_ID (fa_Session authority), wp_Exposures = plan,
       wp_PinnedSources = op_pins x i resolved\<rparr> = Inr mac"
    "rf_session facts = fa_Session authority \<and> rf_operationID facts = i \<and> rf_securityOpts facts = SecurityOpts mac \<and>
       rf_mountSources facts = MountSources mac" "length plan \<le> length (MountSources mac)"
    "run_argv (hx_cfg x) req shm facts plan = Inr args" "rw_started w' = rw_started w @ [(p, args)]" "ans = Created i operationRunning"
    "set (op_pins x i resolved) \<subseteq> set (rw_pins w')" "i \<in> set (rw_workload w')" "i \<in> wr_OperationID ` set (rw_records w')"
    "sessionUseLeases (rw_mac w') = sessionUseLeases (rw_mac w)"
proof -
  have gone: "rw_started v' = rw_started v" if "run_state (releasePreparation x key res a) v = (b, v')" for a b v v'
    using sparesD [OF release_preparation_started that] .
  let ?plan = "plan_run_mounts (hx_fs x) (hx_cfg x) (ses_Workspace (fa_Session authority)) (fa_Snapshot authority) req"
  obtain resolved plan where plan: "?plan = Inr (resolved, plan)"
    using run started gone by (cases ?plan) (auto simp: run_leased_def Let_def split: prod.splits)
  obtain r w1 where one: "run_state (store_call x (resolveSessionExecutionIdentity (me_db (ex_mac (hx_run x))) (fa_Session authority))) w = (r, w1)"
    by fastforce
  have same: "rw_started w1 = rw_started w" "sessionUseLeases (rw_mac w1) = sessionUseLeases (rw_mac w)"
    using sparesD [OF store_call_frame one, of rw_started] sparesD [OF store_call_leases one] by simp_all
  obtain ident where ident: "r = Inr ident"
    using run started gone one plan same by (cases r) (auto simp: run_leased_def Let_def)
  let ?w2 = "w1\<lparr>rw_calls := Suc (rw_calls w1)\<rparr>"
  have dir: "ex_sys (hx_run x) (rw_calls w1)"
  proof (rule ccontr)
    assume no: "\<not> ex_sys (hx_run x) (rw_calls w1)"
    then have "run_state (releasePreparation x key res internal_refusal) ?w2 = (ans, w')"
      using run one plan ident by (simp add: run_leased_def Let_def)
    from gone [OF this] started same show False by simp
  qed
  obtain p op w3 where three: "run_state (new_run_op x (fa_Session authority) req key res) ?w2 = ((p, op), w3)" by (metis surj_pair)
  note new = new_op_run [OF three]
  have "run_state (run_prepare x (fa_Session authority) req shm ident resolved plan res p op) w3 = (ans, w')"
    using run one plan ident dir three by (simp add: run_leased_def Let_def)
  from prepare_started [OF this] started new same(1) obtain n mac args where
    mac: "ex_prepare (hx_run x) n \<lparr>wp_OperationID = ro_ID op, wp_SessionID = ses_ID (fa_Session authority), wp_Exposures = plan,
       wp_PinnedSources = op_pins x (ro_ID op) resolved\<rparr> = Inr mac"
    and argv: "run_argv (hx_cfg x) req shm \<lparr>rf_session = fa_Session authority, rf_uid = fst ident, rf_gid = snd ident, rf_operationID = ro_ID op,
         rf_cidfile = ro_cidfile op, rf_securityOpts = SecurityOpts mac, rf_mountSources = MountSources mac\<rparr> plan = Inr args"
    and rest: "length plan \<le> length (MountSources mac)" "rw_started w' = rw_started w3 @ [(p, args)]" "ans = Created (ro_ID op) operationRunning"
      "rw_mac w' = rw_mac w3" "set (op_pins x (ro_ID op) resolved) \<subseteq> set (rw_pins w')" "ro_ID op \<in> set (rw_workload w')"
      "ro_ID op \<in> wr_OperationID ` set (rw_records w')" by auto
  show thesis by (rule that [OF plan mac _ rest(1) argv]) (use rest new same in simp_all)
qed


lemma authority_run:
  assumes run: "run_state (requireSessionFilesystemCapability x) w = (r, w')"
  shows "rw_started w' = rw_started w"
    and "r = Inr authority \<Longrightarrow> \<exists>token now. parseBearerToken (hx_header x) = Some token \<and>
      db_value (captureSessionFilesystemAuthority (me_hash (ex_mac (hx_run x))) (me_db (ex_mac (hx_run x))) now token)
        (mc_store (rw_mac w)) (mc_calls (rw_mac w)) = Inr (Inr authority)"
proof -
  show "rw_started w' = rw_started w"
    by (rule sparesD [OF _ run]) (unfold requireSessionFilesystemCapability_def, intro frame_intros store_call_frame; simp)
  assume r: "r = Inr authority"
  show "\<exists>token now. parseBearerToken (hx_header x) = Some token \<and>
      db_value (captureSessionFilesystemAuthority (me_hash (ex_mac (hx_run x))) (me_db (ex_mac (hx_run x))) now token)
        (mc_store (rw_mac w)) (mc_calls (rw_mac w)) = Inr (Inr authority)"
  proof (cases "parseBearerToken (hx_header x)")
    case None
    with run r show ?thesis by (simp add: requireSessionFilesystemCapability_def)
  next
    case (Some token)
    with run r show ?thesis
      by (intro exI [of _ token] exI [of _ "hx_now x (rw_calls w)"])
        (auto simp: requireSessionFilesystemCapability_def store_call_def mac_access_def mac_db_def split: prod.splits sum.splits if_splits)
  qed
qed

text \<open>How far a request got: authentication and validation, the reservation, the lease, or the leased part.\<close>

abbreviation run_reserve :: "sessionFilesystemAuthority \<Rightarrow> sup_world \<Rightarrow> sup_world \<times> nat option \<times> admissionDecision" where
  "run_reserve authority \<equiv> reserve (ses_ID (fa_Session authority)) (ses_LauncherID (fa_Session authority)) operationKindRun"

abbreviation run_acquire :: "'d handler_env \<Rightarrow> sessionFilesystemAuthority \<Rightarrow> nat list \<Rightarrow> ('d, (go_error, string) result) mac" where
  "run_acquire x authority random \<equiv>
     AcquireSessionUse (ex_mac (hx_run x)) random (ses_ID (fa_Session authority)) (ses_Workspace (fa_Session authority))"

lemma handle_cases:
  assumes run: "run_state (handleRun x body) w = (ans, w')"
  obtains (early) r where "run_state (requireSessionFilesystemCapability x) w = (r, w')"
  | (denied) r authority w1 s res d where "run_state (requireSessionFilesystemCapability x) w = (r, w1)"
      "run_reserve authority (ex_others (hx_run x) (rw_calls w1) (rw_sup w1)) = (s, res, d)" "d \<noteq> admissionAccepted"
      "w' = w1\<lparr>rw_sup := s, rw_calls := Suc (rw_calls w1)\<rparr>"
  | (unleased) r authority w1 s res random e c where "run_state (requireSessionFilesystemCapability x) w = (r, w1)"
      "run_reserve authority (ex_others (hx_run x) (rw_calls w1) (rw_sup w1)) = (s, res, admissionAccepted)"
      "run_state (run_acquire x authority random) (rw_mac w1) = (Inl e, c)"
      "w' = w1\<lparr>rw_sup := reservation_Release res (ex_others (hx_run x) (Suc (Suc (rw_calls w1))) s), rw_calls := Suc (Suc (Suc (rw_calls w1))), rw_mac := c\<rparr>"
  | (leased) authority w1 s res random key c req shm where "run_state (requireSessionFilesystemCapability x) w = (Inr authority, w1)"
      "body = Some req" "validateRunRequest req = Inr shm"
      "run_reserve authority (ex_others (hx_run x) (rw_calls w1) (rw_sup w1)) = (s, res, admissionAccepted)"
      "random = hx_random x (Suc (rw_calls w1))" "run_state (run_acquire x authority random) (rw_mac w1) = (Inr key, c)"
      "run_state (run_leased x authority req shm res key) (w1\<lparr>rw_sup := s, rw_calls := Suc (Suc (rw_calls w1)), rw_mac := c\<rparr>) = (ans, w')"
proof -
  obtain r w1 where one: "run_state (requireSessionFilesystemCapability x) w = (r, w1)" by fastforce
  show thesis
  proof (cases "\<exists>authority req shm. r = Inr authority \<and> body = Some req \<and> validateRunRequest req = Inr shm")
    case False
    with run one have "w' = w1"
      by (cases r; cases body; cases "validateRunRequest (the body)") (auto simp: handleRun_def split: prod.splits)
    with one show thesis using early by blast
  next
    case True
    then obtain authority req shm where auth: "r = Inr authority" and req: "body = Some req" and shm: "validateRunRequest req = Inr shm" by blast
    obtain s res d where d: "run_reserve authority (ex_others (hx_run x) (rw_calls w1) (rw_sup w1)) = (s, res, d)" by (metis prod_cases3)
    let ?random = "hx_random x (Suc (rw_calls w1))"
    obtain k c where k: "run_state (run_acquire x authority ?random) (rw_mac w1) = (k, c)" by (metis surj_pair)
    note steps = run one auth req shm d k
    show thesis
    proof (cases "d = admissionAccepted")
      case False
      with steps have "w' = w1\<lparr>rw_sup := s, rw_calls := Suc (rw_calls w1)\<rparr>" by (auto simp: handleRun_def Let_def)
      then show thesis using denied [OF one d False] by blast
    next
      case True
      show thesis
      proof (cases k)
        case (Inl e)
        with steps True have "w' = w1\<lparr>rw_sup := reservation_Release res (ex_others (hx_run x) (Suc (Suc (rw_calls w1))) s),
          rw_calls := Suc (Suc (Suc (rw_calls w1))), rw_mac := c\<rparr>" by (auto simp: handleRun_def Let_def mac_access_def)
        then show thesis using unleased [OF one d [unfolded True] k [unfolded Inl]] by blast
      next
        case (Inr key)
        with steps True have "run_state (run_leased x authority req shm res key) (w1\<lparr>rw_sup := s, rw_calls := Suc (Suc (rw_calls w1)), rw_mac := c\<rparr>) = (ans, w')"
          by (simp add: handleRun_def Let_def mac_access_def)
        then show thesis using leased [OF one [unfolded auth] req shm d [unfolded True] refl k [unfolded Inr]] by blast
      qed
    qed
  qed
qed


section \<open>What a refusal leaves\<close>

abbreviation leases :: "'d run_world \<Rightarrow> string \<rightharpoonup> sessionMACCoverage list" where
  "leases w \<equiv> map_of (sessionUseLeases (rw_mac w))"

definition as_before :: "'d run_world \<Rightarrow> 'd run_world \<Rightarrow> bool" where
  "as_before w v \<longleftrightarrow> rw_pins v = rw_pins w \<and> rw_workload v = rw_workload w \<and> rw_records v = rw_records w \<and> leases v = leases w"

text \<open>What an Operation in preparation has added to the live resources.\<close>

definition prepared_from :: "'d run_world \<Rightarrow> run_op \<Rightarrow> 'd run_world \<Rightarrow> bool" where
  "prepared_from w op v \<longleftrightarrow>
     rw_pins v = rw_pins w @ ro_pinnedMounts op \<and> set (ro_pinnedMounts op) \<inter> set (rw_pins w) = {} \<and>
     rw_workload v = rw_workload w @ (if ro_workloadMAC op = None then [] else [ro_ID op]) \<and> ro_ID op \<notin> set (rw_workload w) \<and>
     filter (\<lambda>rec. wr_OperationID rec \<noteq> ro_ID op) (rw_records v) = rw_records w \<and>
     (\<exists>key cs. ro_macLease op = Some key \<and> leases v = (leases w)(key \<mapsto> cs) \<and> leases w key = None) \<and> rw_log v = rw_log w"

lemma rollback_log:
  assumes "run_state (rollbackRunPreparation env p op) v = (out, v')"
  shows "rw_log v' = rw_log v @ (case out of CleanupRetained stage \<Rightarrow> [(ro_ID op, stage)] | _ \<Rightarrow> [])"
proof -
  have "spares rw_log (run_stages (resource_stages env op))" using resource_stages_keep [of env op] by (simp add: spares_def)
  then have "spares rw_log (run_stages ((cleanupStageCapacity, capacity_stage env p) # resource_stages env op))"
    by (auto simp: capacity_stage_def intro!: frame_intros)
  note same = sparesD [OF this]
  from assms [unfolded rollbackRunPreparation_def sequences_accepted] show ?thesis
    by (rule logged_run) (drule same, simp)
qed

lemma filter_own: "filter P xs = ys \<Longrightarrow> \<forall>x\<in>set xs. P x \<Longrightarrow> xs = ys"
  by (metis filter_True)

lemma rollback_restores:
  assumes from_w: "prepared_from w op v" and run: "run_state (rollbackRunPreparation env p op) v = (out, v')" and silent: "rw_log v' = rw_log w"
  shows "as_before w v'"
proof -
  have prepared: "ro_workloadMAC op = None \<Longrightarrow> ro_ID op \<notin> set (rw_workload v)" using from_w by (simp add: prepared_from_def)
  note order = rollback_order [OF prepared run]
  have "out = CleanupCompleted"
    using order rollback_log [OF run] silent from_w by (cases out) (auto simp: prepared_from_def)
  with order have own: "owns_nothing op v'" and others: "others_untouched op v v'" by simp_all
  have "removeAll (ro_ID op) (rw_workload v') = rw_workload w" "ro_ID op \<notin> set (rw_workload v')"
    using others own from_w by (auto simp: others_untouched_def prepared_from_def owns_nothing_def)
  moreover have "filter (\<lambda>q. q \<notin> set (ro_pinnedMounts op)) (rw_pins v') = rw_pins w"
  proof -
    have "filter (\<lambda>q. q \<notin> set (ro_pinnedMounts op)) (rw_pins w) = rw_pins w" using from_w by (auto simp: prepared_from_def filter_id_conv)
    then show ?thesis using others from_w by (simp add: others_untouched_def prepared_from_def)
  qed
  moreover have "\<forall>q\<in>set (rw_pins v'). q \<notin> set (ro_pinnedMounts op)" "\<forall>rec\<in>set (rw_records v'). wr_OperationID rec \<noteq> ro_ID op"
    using own by (force simp: owns_nothing_def held_pins_def)+
  moreover have "filter (\<lambda>rec. wr_OperationID rec \<noteq> ro_ID op) (rw_records v') = rw_records w"
    using others from_w by (simp add: others_untouched_def prepared_from_def)
  moreover have "leases v' = leases w"
  proof
    fix k
    from from_w obtain key cs where "ro_macLease op = Some key" "leases v = (leases w)(key \<mapsto> cs)" "leases w key = None"
      by (auto simp: prepared_from_def)
    with own others show "leases v' k = leases w k"
      by (cases "k = key") (simp_all add: owns_nothing_def others_untouched_def)
  qed
  ultimately show ?thesis unfolding as_before_def by (auto intro: filter_own)
qed

lemma roll_back_restores:
  "prepared_from w op v \<Longrightarrow> run_state (roll_back x p op a) v = (ans, v') \<Longrightarrow> rw_log v' = rw_log w \<Longrightarrow> as_before w v'"
  by (auto simp: roll_back_def split: prod.splits intro: rollback_restores)

lemma start_never_refuses: "run_state (run_start x p op args) w \<noteq> (Refused status code, w')"
  by (auto simp: run_start_def created_answer_def split: prod.splits startResult.splits)

lemma prepared_from_frame:
  "prepared_from w op v \<Longrightarrow> rw_mac u = rw_mac v \<Longrightarrow> rw_pins u = rw_pins v \<Longrightarrow> rw_workload u = rw_workload v \<Longrightarrow> rw_records u = rw_records v \<Longrightarrow>
   rw_log u = rw_log v \<Longrightarrow> prepared_from w op u"
  by (simp add: prepared_from_def)

lemma admit_refused:
  assumes "run_state (run_admit x req shm facts plan res p op) v = (Refused status code, v')" and "prepared_from w op v" and "rw_log v' = rw_log w"
  shows "as_before w v'"
proof -
  have few: "\<not> length (rf_mountSources facts) < length plan" using assms(1) by (auto simp: run_admit_def)
  show ?thesis
  proof (cases "run_argv (hx_cfg x) req shm facts plan")
    case (Inl e)
    with assms few show ?thesis by (auto simp: run_admit_def intro: roll_back_restores)
  next
    case (Inr args)
    obtain s d where d: "admitReserved p res (ex_others (hx_run x) (rw_calls v) (rw_sup v)) = (s, d)" by fastforce
    let ?v = "v\<lparr>rw_sup := s, rw_calls := Suc (rw_calls v)\<rparr>"
    have "d \<noteq> admissionAccepted" using assms(1) few Inr d by (auto simp: run_admit_def start_never_refuses)
    then have "run_state (roll_back x p op (writeOperationAdmissionRejected d)) ?v = (Refused status code, v')"
      using assms(1) few Inr d by (simp add: run_admit_def)
    moreover have "prepared_from w op ?v" by (rule prepared_from_frame [OF assms(2)]) simp_all
    ultimately show ?thesis using assms(3) by (blast intro: roll_back_restores)
  qed
qed


lemma prepare_refused:
  assumes run: "run_state (run_prepare x session req shm ident resolved plan res p op) v = (Refused status code, v')"
    and none: "ro_pinnedMounts op = []" "ro_workloadMAC op = None" and from_w: "prepared_from w op v" and silent: "rw_log v' = rw_log w"
  shows "as_before w v'"
proof -
  obtain b op1 v1 where one: "run_state (pin_all x op 0 resolved) v = ((b, op1), v1)" by (metis surj_pair)
  from pin_all_run [OF one] none obtain n ps where pins: "op1 = op\<lparr>ro_pinnedMounts := ps\<rparr>" "v1 = v\<lparr>rw_calls := n, rw_pins := rw_pins v @ ps\<rparr>"
    "set ps \<inter> set (rw_pins v) = {}" by auto
  have from1: "prepared_from w op1 v1" using from_w none pins by (simp add: prepared_from_def)
  show ?thesis
  proof (cases b)
    case False
    with run one have "run_state (roll_back x p op1 internal_refusal) v1 = (Refused status code, v')" by (simp add: run_prepare_def)
    from roll_back_restores [OF from1 this silent] show ?thesis .
  next
    case True
    let ?wp = "\<lparr>wp_OperationID = ro_ID op1, wp_SessionID = ses_ID session, wp_Exposures = plan, wp_PinnedSources = ro_pinnedMounts op1\<rparr>"
    obtain r v2 where two: "run_state (Prepare (hx_run x) ?wp) v1 = (r, v2)" by fastforce
    note kept = sparesD [OF prepare_keeps two]
    note prep = prepare_run [OF two]
    show ?thesis
    proof (cases r)
      case (Inr mac)
      let ?op = "op1\<lparr>ro_workloadMAC := Some mac\<rparr>"
      have "prepared_from w ?op v2" using from1 kept prep none pins(1) Inr by (simp add: prepared_from_def)
      moreover obtain facts where "run_state (run_admit x req shm facts plan res p ?op) v2 = (Refused status code, v')"
        using run one True two Inr by (auto simp: run_prepare_def)
      ultimately show ?thesis using silent by (blast intro: admit_refused)
    next
      case (Inl e)
      show ?thesis
      proof (cases e)
        case PrepareRetained
        with run one True two Inl kept have "rw_log v' = rw_log v1 @ [(ro_ID op1, cleanupStageWorkloadMAC)]" by (auto simp: run_prepare_def)
        with silent from1 show ?thesis by (simp add: prepared_from_def)
      next
        case PrepareFailed
        have "prepared_from w op1 v2" using from1 kept prep none pins(1) Inl PrepareFailed by (simp add: prepared_from_def)
        moreover have "run_state (roll_back x p op1 internal_refusal) v2 = (Refused status code, v')"
          using run one True two Inl PrepareFailed by (simp add: run_prepare_def)
        ultimately show ?thesis using silent by (blast intro: roll_back_restores)
      qed
    qed
  qed
qed

text \<open>A lease taken from \<^term>\<open>w\<close>, and nothing else.\<close>

definition leased_from :: "'d run_world \<Rightarrow> string \<Rightarrow> 'd run_world \<Rightarrow> bool" where
  "leased_from w key v \<longleftrightarrow> rw_pins v = rw_pins w \<and> rw_workload v = rw_workload w \<and> rw_records v = rw_records w \<and> rw_log v = rw_log w \<and>
     leases w key = None \<and> (\<exists>cs. leases v = (leases w)(key \<mapsto> cs))"

lemma release_preparation_restores:
  assumes "leased_from w key v" and run: "run_state (releasePreparation x key res a) v = (ans, v')"
  shows "as_before w v'"
proof -
  obtain u c where c: "run_state (releaseSessionUse (ex_mac (hx_run x)) key) (rw_mac v) = (u, c)" by (metis surj_pair)
  from run c have "rw_mac v' = c" "rw_pins v' = rw_pins v" "rw_workload v' = rw_workload v" "rw_records v' = rw_records v"
    by (auto simp: releasePreparation_def mac_access_def)
  moreover have "map_of (sessionUseLeases c) = (leases v)(key := None)" using release_lease_table [OF c] by (auto simp: fun_eq_iff)
  ultimately show ?thesis using assms(1) by (auto simp: as_before_def leased_from_def fun_eq_iff)
qed


definition fresh_ids :: "'d handler_env \<Rightarrow> 'd run_world \<Rightarrow> bool" where
  "fresh_ids x w \<longleftrightarrow> (\<forall>n. generateOperationID (hx_random x n) \<notin> set (rw_workload w) \<and>
     generateOperationID (hx_random x n) \<notin> wr_OperationID ` set (rw_records w) \<and> leases w (generateLeaseKey (hx_random x n)) = None)"

lemma leased_from_frame:
  "leased_from w key v \<Longrightarrow> leases u = leases v \<Longrightarrow> rw_pins u = rw_pins v \<Longrightarrow> rw_workload u = rw_workload v \<Longrightarrow> rw_records u = rw_records v \<Longrightarrow>
   rw_log u = rw_log v \<Longrightarrow> leased_from w key u"
  by (simp add: leased_from_def)

lemma store_call_same:
  assumes "run_state (store_call x m) v = (r, v')"
  shows "leases v' = leases v" "rw_pins v' = rw_pins v" "rw_workload v' = rw_workload v" "rw_records v' = rw_records v" "rw_log v' = rw_log v"
  using sparesD [OF store_call_leases assms] sparesD [OF store_call_frame assms, of rw_pins] sparesD [OF store_call_frame assms, of rw_workload]
    sparesD [OF store_call_frame assms, of rw_records] sparesD [OF store_call_frame assms, of rw_log] by simp_all

lemma leased_refused:
  assumes run: "run_state (run_leased x authority req shm res key) v = (Refused status code, v')" and from_w: "leased_from w key v"
    and fresh: "fresh_ids x w" and silent: "rw_log v' = rw_log w"
  shows "as_before w v'"
proof -
  let ?plan = "plan_run_mounts (hx_fs x) (hx_cfg x) (ses_Workspace (fa_Session authority)) (fa_Snapshot authority) req"
  let ?ident = "store_call x (resolveSessionExecutionIdentity (me_db (ex_mac (hx_run x))) (fa_Session authority))"
  obtain r v1 where one: "run_state ?ident v = (r, v1)" by fastforce
  let ?v2 = "v1\<lparr>rw_calls := Suc (rw_calls v1)\<rparr>"
  have from1: "leased_from w key v1" by (rule leased_from_frame [OF from_w]) (use store_call_same [OF one] in simp_all)
  have from2: "leased_from w key ?v2" by (rule leased_from_frame [OF from1]) simp_all
  consider (planless) a where "run_state (releasePreparation x key res a) v = (Refused status code, v')"
    | (nobody) "run_state (releasePreparation x key res internal_refusal) v1 = (Refused status code, v')"
    | (dirless) "run_state (releasePreparation x key res internal_refusal) ?v2 = (Refused status code, v')"
    | (created) resolved plan ident where "?plan = Inr (resolved, plan)" "r = Inr ident" "ex_sys (hx_run x) (rw_calls v1)"
    using run one by (cases ?plan; cases r; cases "ex_sys (hx_run x) (rw_calls v1)") (auto simp: run_leased_def Let_def split: prod.splits)
  then show ?thesis
  proof cases
    case created
    obtain p op v3 where three: "run_state (new_run_op x (fa_Session authority) req key res) ?v2 = ((p, op), v3)" by (metis surj_pair)
    note new = new_op_run [OF three]
    have "ro_ID op \<notin> set (rw_workload w)" "ro_ID op \<notin> wr_OperationID ` set (rw_records w)" using new fresh by (simp_all add: fresh_ids_def)
    moreover from this(2) have "filter (\<lambda>rec. wr_OperationID rec \<noteq> ro_ID op) (rw_records w) = rw_records w" by (force simp: filter_id_conv)
    ultimately have "prepared_from w op v3" using new from2 by (auto simp: prepared_from_def leased_from_def)
    moreover have "run_state (run_prepare x (fa_Session authority) req shm ident resolved plan res p op) v3 = (Refused status code, v')"
      using run one created three by (simp add: run_leased_def Let_def)
    ultimately show ?thesis using new silent by (blast intro: prepare_refused)
  qed (blast intro: release_preparation_restores from_w from1 from2)+
qed


section \<open>Capacity\<close>

text \<open>One unit of capacity taken from \<^term>\<open>s0\<close>, as the lease \<^term>\<open>l\<close>.\<close>

definition slot_taken :: "sup_world \<Rightarrow> string \<Rightarrow> nat \<Rightarrow> sup_world \<Rightarrow> bool" where
  "slot_taken s0 sid l s \<longleftrightarrow> globalRunning s = globalRunning s0 + 1 \<and> sessionRunning s = (sessionRunning s0)(sid \<mapsto> running_at s0 sid + 1) \<and>
     globalBuildCount s = globalBuildCount s0 \<and> l < length (lease_mem s) \<and> lease_mem s ! l = \<lparr>l_session = sid, l_build = False, l_released = False\<rparr>"

definition same_counters :: "sup_world \<Rightarrow> sup_world \<Rightarrow> bool" where
  "same_counters s t \<longleftrightarrow> globalRunning t = globalRunning s \<and> sessionRunning t = sessionRunning s \<and> globalBuildCount t = globalBuildCount s"

lemma accounted_bounds:
  assumes "accounted s"
  shows "0 \<le> globalRunning s" "0 \<le> running_at s sid" "sessionRunning s sid = (if running_at s sid = 0 then None else Some (running_at s sid))"
proof -
  have pos: "0 \<le> live_count P s" for P by (simp add: live_count_def count_if_def)
  have "sessionRunning s sid = (if live_count (\<lambda>l. l_session l = sid) s = 0 then None else Some (live_count (\<lambda>l. l_session l = sid) s))"
    using assms by (simp add: accounted_def)
  then show "0 \<le> running_at s sid" "sessionRunning s sid = (if running_at s sid = 0 then None else Some (running_at s sid))"
    using pos by (simp_all add: running_at_def)
  show "0 \<le> globalRunning s" using assms pos by (simp add: accounted_def)
qed

lemma release_returns:
  assumes "accounted s0" and taken: "slot_taken s0 sid l s"
  shows "same_counters s0 (release_lease l s)"
proof -
  have "running_at s sid = running_at s0 sid + 1" using taken by (simp add: slot_taken_def running_at_def)
  then show ?thesis using taken accounted_bounds [OF assms(1)]
    by (auto simp: same_counters_def release_lease_def slot_taken_def Let_def fun_eq_iff)
qed

lemma reserve_takes:
  assumes "reserve sid lid operationKindRun s = (t, res, d)"
  shows "if d = admissionAccepted then \<exists>r l. res = Some r \<and> slot_taken s sid l t \<and> r < length (reservation_mem t) \<and> reservation_mem t ! r = Some l
    else t = s"
  using assms by (auto simp: reserve_def reserveCapacityLocked_def slot_taken_def operationKindRun_def operationKindBuild_def split: if_splits)

lemma reservation_returns:
  assumes "accounted s0" "slot_taken s0 sid l s" "r < length (reservation_mem s)" "reservation_mem s ! r = Some l"
  shows "same_counters s0 (reservation_Release (Some r) s)"
  using release_returns [OF assms(1,2)] assms(4) by (simp add: reservation_Release_def same_counters_def)

text \<open>The Operation takes the reservation over, and its own release returns it.\<close>

lemma operation_returns:
  assumes "accounted s0" "slot_taken s0 sid l s" "r < length (reservation_mem s)" "reservation_mem s ! r = Some l" "p = length (op_mem s)"
  shows "same_counters s0 (releaseCapacity p (setCidfile p path (takeReservation p (Some r) (s\<lparr>op_mem := op_mem s @ [op]\<rparr>))))"
proof -
  let ?t = "setCidfile p path (takeReservation p (Some r) (s\<lparr>op_mem := op_mem s @ [op]\<rparr>))"
  have "capacityRelease (op_mem ?t ! p) = Some l" using assms by (simp add: setCidfile_def takeReservation_def)
  moreover have "slot_taken s0 sid l ?t" using assms by (simp add: slot_taken_def setCidfile_def takeReservation_def)
  ultimately show ?thesis using release_returns [OF assms(1)] by (simp add: releaseCapacity_def same_counters_def)
qed

lemma rollback_sup:
  assumes "run_state (rollbackRunPreparation env p op) v = (out, v')"
  shows "rw_sup v' = releaseCapacity p (ex_others env (rw_calls v) (rw_sup v))"
proof -
  have stages: "spares rw_sup (run_stages (resource_stages env op))" using resource_stages_keep [of env op] by (simp add: spares_def)
  from assms [unfolded rollbackRunPreparation_def sequences_accepted] show ?thesis
  proof (rule logged_run)
    fix u
    assume "run_state (run_stages ((cleanupStageCapacity, capacity_stage env p) # resource_stages env op)) v = (out, u)"
      and "v' = u\<lparr>rw_log := rw_log u @ (case out of CleanupRetained stage \<Rightarrow> [(ro_ID op, stage)] | _ \<Rightarrow> [])\<rparr>"
    then show ?thesis using sparesD [OF stages] by (auto simp: capacity_stage_def)
  qed
qed

lemma roll_back_sup:
  "run_state (roll_back x p op a) v = (ans, v') \<Longrightarrow> rw_sup v' = releaseCapacity p (ex_others (hx_run x) (rw_calls v) (rw_sup v))"
  by (auto simp: roll_back_def split: prod.splits dest: rollback_sup)

lemma admit_refused_sup:
  assumes "run_state (run_admit x req shm facts plan res p op) v = (Refused status code, v')" and alone: "\<And>n s. ex_others (hx_run x) n s = s"
  shows "rw_sup v' = releaseCapacity p (rw_sup v)"
proof -
  have refused: "s = t" if "admitReserved p res t = (s, d)" "d \<noteq> admissionAccepted" for s t d
    using that by (auto simp: admitReserved_def Let_def split: if_splits option.splits)
  show ?thesis using assms(1)
    by (auto simp: run_admit_def start_never_refuses alone split: if_splits sum.splits prod.splits dest!: roll_back_sup dest: refused)
qed

lemma prepare_refused_sup:
  assumes run: "run_state (run_prepare x session req shm ident resolved plan res p op) v = (Refused status code, v')"
    and alone: "\<And>n s. ex_others (hx_run x) n s = s"
  shows "rw_sup v' = releaseCapacity p (rw_sup v)"
proof -
  obtain b op1 v1 where one: "run_state (pin_all x op 0 resolved) v = ((b, op1), v1)" by (metis surj_pair)
  have "rw_sup v1 = rw_sup v" using pin_all_run [OF one] by auto
  moreover obtain r v2 where two: "run_state (Prepare (hx_run x) \<lparr>wp_OperationID = ro_ID op1, wp_SessionID = ses_ID session, wp_Exposures = plan,
      wp_PinnedSources = ro_pinnedMounts op1\<rparr>) v1 = (r, v2)" by fastforce
  moreover have "rw_sup v2 = rw_sup v1" using sparesD [OF prepare_keeps two] by simp
  moreover have "rw_sup v' = releaseCapacity p (rw_sup v1) \<or> rw_sup v' = releaseCapacity p (rw_sup v2)"
    using run one two
    by (auto simp: run_prepare_def alone split: if_splits sum.splits prepareFailure.splits dest!: roll_back_sup admit_refused_sup [OF _ alone])
  ultimately show ?thesis by auto
qed


lemma leased_refused_sup:
  assumes run: "run_state (run_leased x authority req shm (Some r) key) v = (Refused status code, v')"
    and alone: "\<And>n s. ex_others (hx_run x) n s = s"
    and taken: "accounted s0" "slot_taken s0 sid l (rw_sup v)" "r < length (reservation_mem (rw_sup v))" "reservation_mem (rw_sup v) ! r = Some l"
  shows "same_counters s0 (rw_sup v')"
proof -
  let ?plan = "plan_run_mounts (hx_fs x) (hx_cfg x) (ses_Workspace (fa_Session authority)) (fa_Snapshot authority) req"
  let ?ident = "store_call x (resolveSessionExecutionIdentity (me_db (ex_mac (hx_run x))) (fa_Session authority))"
  obtain q v1 where one: "run_state ?ident v = (q, v1)" by fastforce
  have sup1: "rw_sup v1 = rw_sup v" using sparesD [OF store_call_frame one, of rw_sup] by simp
  let ?v2 = "v1\<lparr>rw_calls := Suc (rw_calls v1)\<rparr>"
  have released: "same_counters s0 (rw_sup v')" if "run_state (releasePreparation x key (Some r) a) u = (ans, v')" "rw_sup u = rw_sup v" for a u ans
    using that reservation_returns [OF taken] by (auto simp: releasePreparation_def mac_access_def alone split: prod.splits)
  consider (early) a u where "run_state (releasePreparation x key (Some r) a) u = (Refused status code, v')" "rw_sup u = rw_sup v"
    | (created) resolved plan ident where "?plan = Inr (resolved, plan)" "q = Inr ident" "ex_sys (hx_run x) (rw_calls v1)"
    using run one sup1 by (cases ?plan; cases q; cases "ex_sys (hx_run x) (rw_calls v1)") (fastforce simp: run_leased_def Let_def split: prod.splits)+
  then show ?thesis
  proof cases
    case created
    obtain p op v3 where three: "run_state (new_run_op x (fa_Session authority) req key (Some r)) ?v2 = ((p, op), v3)" by (metis surj_pair)
    then obtain path op' where "p = length (op_mem (rw_sup v))"
      "rw_sup v3 = setCidfile p path (takeReservation p (Some r) ((rw_sup v)\<lparr>op_mem := op_mem (rw_sup v) @ [op']\<rparr>))"
      by (auto simp: new_run_op_def Let_def alone sup1)
    moreover have "run_state (run_prepare x (fa_Session authority) req shm ident resolved plan (Some r) p op) v3 = (Refused status code, v')"
      using run one created three by (simp add: run_leased_def Let_def)
    ultimately show ?thesis using operation_returns [OF taken] prepare_refused_sup [OF _ alone] by simp
  qed (rule released)
qed



section \<open>Witnesses\<close>

text \<open>A live Session asks for one mount of its workspace; the back end accepts, or fails and is cleaned up.\<close>

definition demo_handler :: "bool \<Rightarrow> unit handler_env" where
  "demo_handler accepts = \<lparr>hx_run = (demo_run_env (\<lambda>_. True))\<lparr>ex_prepare := (\<lambda>_ p.
       if accepts then Inr \<lparr>SecurityOpts = [], MountSources = wp_PinnedSources p\<rparr> else Inl False)\<rparr>,
     hx_fs = demo_run_fs, hx_cfg = plain_config, hx_header = ''Bearer h1'', hx_random = (\<lambda>_. [7]), hx_now = (\<lambda>_. 15000000000),
     hx_order = (\<lambda>_. []), hx_start = (\<lambda>_. True)\<rparr>"

definition demo_body :: runRequest where
  "demo_body = \<lparr>rq_Image = ''i'', rq_Entrypoint = [], rq_Workdir = [], rq_Command = [], rq_Environment = [],
     rq_Mounts = [\<lparr>mr_Source = ''s'', mr_Target = ''/d'', mr_ReadOnly = False\<rparr>], rq_ShmSize = [], rq_HelperSocket = False\<rparr>"

definition demo_issued :: store where
  "demo_issued = backfilled (\<lambda>x. x) demo_live"

definition demo_daemon :: "unit run_world" where
  "demo_daemon = \<lparr>rw_sup = newOperationSupervisor,
     rw_mac = (newSessionMACCoordinator demo_issued [] ())\<lparr>sessionBindings := [(''dhs_1'', [])]\<rparr>,
     rw_calls = 0, rw_pins = [], rw_workload = [], rw_records = [], rw_unlinked = [], rw_removed = [], rw_started = [], rw_audit = [], rw_log = []\<rparr>"

definition demo_auth :: sessionFilesystemAuthority where
  "demo_auth = \<lparr>fa_Session = scanSessionWithOwnership (demo_session, demo_launcher, demo_principal), fa_Snapshot = compatibility_snapshot demo_session\<rparr>"

lemma demo_hash: "session_by_hash 15000000000 ''h1'' demo_issued = Some (fa_Session demo_auth)"
  by code_simp

lemma demo_valid: "validateRunRequest demo_body = Inr 0"
  by code_simp

definition demo_mount :: resolvedMount where
  "demo_mount = \<lparr>rm_SourcePath = ''/home/alice/ws/s'', rm_Target = ''/d'', rm_ReadOnly = False\<rparr>"

definition demo_run_plan :: "sessionFilesystemExposure list" where
  "demo_run_plan = [\<lparr>SourcePath = ''/home/alice/ws/s'', exposureTarget = ''/d'', RequestedReadOnly = False, exposureAccess = RW, WritableAllowed = True\<rparr>]"

lemma demo_mounts:
  "plan_run_mounts demo_run_fs plain_config (ses_Workspace (fa_Session demo_auth)) (fa_Snapshot demo_auth) demo_body = Inr ([demo_mount], demo_run_plan)"
  by code_simp


lemma demo_capture:
  "captureSessionFilesystemAuthority (\<lambda>x. x) fault_free 15000000000 ''h1'' demo_issued 0 = (demo_issued, 5, Inr (Inr demo_auth))"
proof -
  have "demo_session \<in> set (sessions demo_live)" by simp
  note load = load_held [OF backfilled_holds [OF demo_live_ok this, of "\<lambda>x. x"] compatibility_snapshot_ok [OF demo_workspace_canonical], of "Suc (Suc 0)"]
  have "ses_ID (fa_Session demo_auth) = se_id demo_session" "ses_Workspace (fa_Session demo_auth) = Workspace (compatibility_snapshot demo_session)"
    by code_simp+
  with load show ?thesis
    by (simp add: captureSessionFilesystemAuthority_def findSessionByTokenQuerier_def query_def demo_hash demo_issued_def [symmetric] demo_auth_def)
qed


lemma demo_handler_simps [simp]:
  "hx_fs (demo_handler b) = demo_run_fs" "hx_cfg (demo_handler b) = plain_config" "hx_header (demo_handler b) = ''Bearer h1''"
  "hx_random (demo_handler b) = (\<lambda>_. [7])" "hx_now (demo_handler b) = (\<lambda>_. 15000000000)" "hx_order (demo_handler b) = (\<lambda>_. [])"
  "hx_start (demo_handler b) = (\<lambda>_. True)" "ex_others (hx_run (demo_handler b)) = (\<lambda>_ s. s)" "ex_mac (hx_run (demo_handler b)) = quiet_mac_env"
  "ex_sys (hx_run (demo_handler b)) = (\<lambda>_. True)" "ex_kind (hx_run (demo_handler b)) = (\<lambda>_ _. Inr KindDir)"
  "ex_prepare (hx_run (demo_handler b)) = (\<lambda>_ p. if b then Inr \<lparr>SecurityOpts = [], MountSources = wp_PinnedSources p\<rparr> else Inl False)"
  by (simp_all add: demo_handler_def demo_run_env_def)

lemma quiet_simps [simp]: "me_hash quiet_mac_env = (\<lambda>x. x)" "me_db quiet_mac_env = fault_free" "me_now quiet_mac_env = 0"
  by (simp_all add: quiet_mac_env_def)

definition demo_mac :: "nat \<Rightarrow> unit sessionMACCoordinator" where
  "demo_mac n = (newSessionMACCoordinator demo_issued [] ())\<lparr>sessionBindings := [(''dhs_1'', [])], mc_calls := n\<rparr>"

lemma demo_bearer:
  "run_state (requireSessionFilesystemCapability (demo_handler b)) demo_daemon = (Inr demo_auth, demo_daemon\<lparr>rw_calls := 1, rw_mac := demo_mac 5\<rparr>)"
proof -
  have "parseBearerToken ''Bearer h1'' = Some ''h1''" by code_simp
  then show ?thesis
    by (simp add: requireSessionFilesystemCapability_def store_call_def mac_access_def mac_db_def demo_daemon_def demo_mac_def
        newSessionMACCoordinator_def demo_capture)
qed

definition demo_sup :: sup_world where
  "demo_sup = fst (run_reserve demo_auth newOperationSupervisor)"

lemma demo_reserve: "run_reserve demo_auth newOperationSupervisor = (demo_sup, Some 0, admissionAccepted)"
  by (simp add: demo_sup_def reserve_def reserveCapacityLocked_def newOperationSupervisor_def running_at_def maxConcurrentOperationsGlobal_def
      maxConcurrentOperationsPerSession_def operationKindRun_def operationKindBuild_def)

lemma demo_acquire:
  "run_state (run_acquire (demo_handler b) demo_auth [7]) (demo_mac 5) =
     (Inr (generateLeaseKey [7]), (demo_mac 6)\<lparr>sessionUseLeases := [(generateLeaseKey [7], [])]\<rparr>)"
proof -
  have "ses_ID (fa_Session demo_auth) = ''dhs_1''"
    "list_ex (\<lambda>y. se_id y = ''dhs_1'' \<and> se_workspace y = ses_Workspace (fa_Session demo_auth) \<and> 0 < se_expires y) (sessions demo_issued)" by code_simp+
  then show ?thesis
    by (simp add: AcquireSessionUse_def coord_def change_def mac_db_def sessionExistsExact_def query_def demo_mac_def
        newSessionMACCoordinator_def add_consumers_def map_put_def)
qed

lemma demo_identity:
  "resolveSessionExecutionIdentity fault_free (fa_Session demo_auth) demo_issued n = (demo_issued, Suc n, Inr (pr_uid demo_principal, pr_gid demo_principal))"
proof -
  have "launcher_with_owner (ses_LauncherID (fa_Session demo_auth)) demo_issued = Some (demo_launcher, demo_principal)" by code_simp
  then show ?thesis by (simp add: resolveSessionExecutionIdentity_def query_def)
qed


definition demo_made :: run_op where
  "demo_made = \<lparr>ro_ID = generateOperationID [7], ro_SessionID = ses_ID (fa_Session demo_auth), ro_workloadMAC = None, ro_pinnedMounts = [],
     ro_macLease = Some (generateLeaseKey [7]), ro_cidfile = filepath_Join [RuntimeDir plain_config, generateOperationID [7] @ ''.cid'']\<rparr>"

definition demo_made_sup :: sup_world where
  "demo_made_sup = setCidfile 0 (ro_cidfile demo_made) (takeReservation 0 (Some 0) (demo_sup\<lparr>op_mem :=
     [newRunOperation (ro_ID demo_made) (ro_SessionID demo_made) (rq_Image demo_body) (OperationLogMaxBytes plain_config)
       (ses_PrincipalName (fa_Session demo_auth)) (ses_LauncherID (fa_Session demo_auth)) (ses_LauncherName (fa_Session demo_auth)) 15000000000]\<rparr>))"

definition demo_pinned :: "unit run_world" where
  "demo_pinned = demo_daemon\<lparr>rw_mac := (demo_mac 7)\<lparr>sessionUseLeases := [(generateLeaseKey [7], [])]\<rparr>, rw_sup := demo_made_sup,
     rw_calls := Suc (Suc (Suc (Suc (Suc (Suc (Suc (Suc 0)))))))\<rparr>"

lemma demo_until_pins:
  "run_state (handleRun (demo_handler b) (Some demo_body)) demo_daemon =
     run_state (run_prepare (demo_handler b) (fa_Session demo_auth) demo_body 0 (pr_uid demo_principal, pr_gid demo_principal)
       [demo_mount] demo_run_plan (Some 0) 0 demo_made) demo_pinned"
proof -
  have dir: "RuntimeDir plain_config \<noteq> []" by code_simp
  have sup: "rw_sup demo_daemon = newOperationSupervisor" "rw_calls demo_daemon = 0" "op_mem demo_sup = []"
    by (simp_all add: demo_daemon_def demo_sup_def reserve_def reserveCapacityLocked_def newOperationSupervisor_def)
  have mac: "mc_store (demo_mac n) = demo_issued" "mc_calls (demo_mac n) = n"
    "(demo_mac n)\<lparr>sessionUseLeases := ls, mc_store := demo_issued, mc_calls := k\<rparr> = (demo_mac k)\<lparr>sessionUseLeases := ls\<rparr>" for n k ls
    by (simp_all add: demo_mac_def newSessionMACCoordinator_def)
  show ?thesis
    by (simp add: handleRun_def demo_bearer demo_valid Let_def sup demo_reserve mac_access_def demo_acquire [simplified] run_leased_def demo_mounts
        store_call_def mac_db_def mac demo_identity new_run_op_def dir demo_pinned_def demo_made_def demo_made_sup_def)
qed


abbreviation demo_pin :: string where
  "demo_pin \<equiv> pin_path (RuntimeDir plain_config) (generateOperationID [7]) 0"

lemma demo_pins:
  "run_state (pin_all (demo_handler b) demo_made 0 [demo_mount]) demo_pinned =
     ((True, demo_made\<lparr>ro_pinnedMounts := [demo_pin]\<rparr>), demo_pinned\<lparr>rw_calls := 8 + rw_calls demo_pinned, rw_pins := [demo_pin]\<rparr>)"
proof -
  have "isOperationIDSafe (generateOperationID [7])" "filepath_IsAbs (rm_SourcePath demo_mount)" "filepath_IsAbs (RuntimeDir plain_config)"
    by code_simp+
  moreover have "rw_pins demo_pinned = []" by (simp add: demo_pinned_def demo_daemon_def)
  moreover have "ro_ID demo_made = generateOperationID [7]" "ro_pinnedMounts demo_made = []" by (simp_all add: demo_made_def)
  ultimately show ?thesis by (simp add: pinMountSource_def create_destination_def Let_def eval_nat_numeral)
qed

definition demo_facts :: run_facts where
  "demo_facts = \<lparr>rf_session = fa_Session demo_auth, rf_uid = pr_uid demo_principal, rf_gid = pr_gid demo_principal, rf_operationID = ro_ID demo_made,
     rf_cidfile = ro_cidfile demo_made, rf_securityOpts = [], rf_mountSources = [demo_pin]\<rparr>"

definition demo_args :: "string list" where
  "demo_args = (case run_argv plain_config demo_body 0 demo_facts demo_run_plan of Inl _ \<Rightarrow> [] | Inr args \<Rightarrow> args)"

lemma demo_args_value: "run_argv plain_config demo_body 0 demo_facts demo_run_plan = Inr demo_args"
proof -
  have "mount_specs (run_bind_mounts plain_config demo_body (rf_mountSources demo_facts) demo_run_plan) = Inr [''type=bind,source=/run/dh/mounts/op_07/0,target=/d'']"
    by code_simp
  then show ?thesis unfolding demo_args_def run_argv_def by simp
qed

lemma demo_admit:
  "\<exists>s. admitReserved 0 (Some 0) demo_made_sup = (s, admissionAccepted) \<and> \<not> terminated (op_mem s ! 0)"
  by (simp add: admitReserved_def demo_made_sup_def demo_sup_def setCidfile_def takeReservation_def reserve_def reserveCapacityLocked_def
      newOperationSupervisor_def newRunOperation_def newOperation_def running_at_def maxConcurrentOperationsGlobal_def
      maxConcurrentOperationsPerSession_def operationKindRun_def operationKindBuild_def Let_def)

lemma demo_started:
  "rw_started (snd (run_state (handleRun (demo_handler True) (Some demo_body)) demo_daemon)) = [(0, demo_args)]"
proof -
  obtain s where s: "admitReserved 0 (Some 0) demo_made_sup = (s, admissionAccepted)" "\<not> terminated (op_mem s ! 0)" using demo_admit by blast
  have empty: "rw_records demo_pinned = []" "rw_sup demo_pinned = demo_made_sup" "rw_started demo_pinned = []"
    by (simp_all add: demo_pinned_def demo_daemon_def)
  have plan: "length demo_run_plan = 1" "prune_select t [] now ttl (OperationMaxCompleted plain_config) = Some []" "prune_remove [] t = t" for t now ttl
    by (simp_all add: demo_run_plan_def prune_select_def prune_completed_of_def prune_remove_def plain_config_def demo_run_config_def)
  show ?thesis unfolding demo_until_pins
    by (simp add: run_prepare_def demo_pins Prepare_def prepare_record_def new_state_dir_def empty run_admit_def demo_args_value [unfolded demo_facts_def]
        plan s run_start_def prune_operations_def registered_def startOperationProcess_def del: pin_all.simps)
qed


text \<open>A rollback completes when no system call fails.\<close>

definition succeeds :: "('d, (go_error, unit) result) run \<Rightarrow> bool" where
  "succeeds m \<longleftrightarrow> (\<forall>w. fst (run_state m w) = Inr ())"

lemma stages_complete: "list_all (\<lambda>s. succeeds (snd s)) stages \<Longrightarrow> fst (run_state (run_stages stages) w) = CleanupCompleted"
proof (induction stages arbitrary: w rule: run_stages.induct)
  case (2 name stage stages)
  obtain r w1 where one: "run_state stage w = (r, w1)" by fastforce
  have "succeeds stage" using 2 by simp
  with one have "r = Inr ()" by (metis fst_conv succeeds_def)
  with 2 one show ?case by simp
qed simp

lemma rollback_completes:
  assumes ok: "\<And>n. ex_sys env n"
  shows "fst (run_state (rollbackRunPreparation env p op) w) = CleanupCompleted"
proof -
  have pin: "succeeds (cleanupPinnedMount env q)" for q by (simp add: succeeds_def cleanupPinnedMount_def ok)
  have "fst (run_state (cleanup_pins env ps) w) = Inr ()" for ps w
  proof (induction ps arbitrary: w)
    case (Cons q ps)
    obtain r w1 where one: "run_state (cleanupPinnedMount env q) w = (r, w1)" by fastforce
    with pin [of q] have "r = Inr ()" by (metis fst_conv succeeds_def)
    then show ?case using Cons.IH [of w1] one by (simp split: prod.split)
  qed simp
  then have "list_all (\<lambda>s. succeeds (snd s)) ((cleanupStageCapacity, capacity_stage env p) # resource_stages env op)"
    by (auto simp: succeeds_def stage_defs capacity_stage_def ok split: prod.split option.split)
  note complete = stages_complete [OF this]
  obtain out w' where run: "run_state (rollbackRunPreparation env p op) w = (out, w')" by fastforce
  from run [unfolded rollbackRunPreparation_def sequences_accepted] have "out = CleanupCompleted"
    by (rule logged_run) (metis complete fst_conv)
  with run show ?thesis by simp
qed

lemma demo_refused:
  "\<exists>w'. run_state (handleRun (demo_handler False) (Some demo_body)) demo_daemon = (Refused 500 ''internal_error'', w') \<and> rw_log w' = []"
proof -
  have empty: "rw_records demo_pinned = []" "rw_workload demo_pinned = []" "rw_log demo_pinned = []"
    by (simp_all add: demo_pinned_def demo_daemon_def)
  let ?op = "demo_made\<lparr>ro_pinnedMounts := [demo_pin]\<rparr>"
  let ?v = "demo_pinned\<lparr>rw_pins := [demo_pin], rw_records := [\<lparr>wr_Schema = workloadMACStateSchema, wr_OperationID = ro_ID demo_made,
    wr_SessionID = ses_ID (fa_Session demo_auth), wr_Backend = ex_backend (hx_run (demo_handler False))\<rparr>],
    rw_calls := 15 + rw_calls demo_pinned, rw_workload := []\<rparr>"
  have v: "rw_log ?v = []" "run_state (handleRun (demo_handler False) (Some demo_body)) demo_daemon =
      run_state (roll_back (demo_handler False) 0 ?op internal_refusal) ?v"
    unfolding demo_until_pins
    by (simp_all add: run_prepare_def demo_pins Prepare_def prepare_record_def new_state_dir_def cleanupOwnedState_def empty del: pin_all.simps)
  obtain out w' where w': "run_state (rollbackRunPreparation (hx_run (demo_handler False)) 0 ?op) ?v = (out, w')" by fastforce
  have "out = CleanupCompleted" using rollback_completes [of "hx_run (demo_handler False)" 0 ?op ?v] w' by simp
  then show ?thesis using v w' rollback_log [OF w'] by (simp add: roll_back_def)
qed




end
