(* ===== verification/Session_Safety.thy ===== *)
theory Session_Safety
  imports Sessions
begin

text \<open>
  What the programs of session.go guarantee: the coordinator never writes the ownership store, so a
  create is its policy resolution followed by one transaction; a created Session stays within the
  delegation chain; the scope of an authority bounds what can be listed and deleted.
\<close>

section \<open>The coordinator does not write the ownership store\<close>

text \<open>Programs of the coordinator that leave the store alone: the MAC transitions around an insertion.\<close>

definition keeps_store :: "('d, 'a) mac \<Rightarrow> bool" where
  "keeps_store m \<longleftrightarrow> (\<forall>c. mc_store (snd (run_state m c)) = mc_store c)"

named_theorems store_intros \<open>programs of the coordinator that keep the store\<close>

lemma keeps_storeD: "keeps_store m \<Longrightarrow> run_state m c = (r, c') \<Longrightarrow> mc_store c' = mc_store c"
  by (metis keeps_store_def snd_conv)

lemma keeps_store_basic [store_intros]:
  "keeps_store (ret a)" "keeps_store (drv f)" "keeps_store (own_query env g)" "keeps_store (own_exec env h)" "keeps_store (coord k)"
  "reads m \<Longrightarrow> keeps_store (mac_db m)" "(\<And>c. mc_store (u c) = mc_store c) \<Longrightarrow> keeps_store (change u)"
  by (auto simp: keeps_store_def drv_def own_query_def own_exec_def coord_def change_def mac_db_def reads_def split: prod.splits)
    (metis fst_conv)

lemma keeps_store_bind [store_intros]:
  "keeps_store m \<Longrightarrow> (\<And>a. keeps_store (f a)) \<Longrightarrow> keeps_store (State_Monad.bind m f)"
  by (auto simp: keeps_store_def split: prod.splits) (metis snd_conv)

lemma keeps_store_cases [store_intros]:
  "keeps_store m \<Longrightarrow> keeps_store m' \<Longrightarrow> keeps_store (if b then m else m')"
  "(\<And>e. keeps_store (f e)) \<Longrightarrow> (\<And>b. keeps_store (g b)) \<Longrightarrow> keeps_store (case r of Inl e \<Rightarrow> f e | Inr b \<Rightarrow> g b)"
  "keeps_store m \<Longrightarrow> (\<And>a. keeps_store (h a)) \<Longrightarrow> keeps_store (case y of None \<Rightarrow> m | Some a \<Rightarrow> h a)"
  "(\<And>a b. keeps_store (k a b)) \<Longrightarrow> keeps_store (case q of (a, b) \<Rightarrow> k a b)"
  by (auto split: sum.split option.split prod.split)

lemma keeps_store_when [store_intros]: "keeps_store m \<Longrightarrow> keeps_store (st_when b m)"
  by (simp add: st_when_def keeps_store_basic)

lemma keeps_store_each [store_intros]: "(\<And>a. keeps_store (f a)) \<Longrightarrow> keeps_store (st_each f xs)"
  by (induction xs) (auto intro: store_intros)

lemma keeps_store_or_return [store_intros]:
  "keeps_store m \<Longrightarrow> (\<And>a. keeps_store (f a)) \<Longrightarrow> keeps_store (or_return m f)"
  unfolding or_return_def by (intro store_intros)

lemma reads_bound_roots [db_intros]: "reads (sessionBoundCoverageRoots env i)"
  unfolding sessionBoundCoverageRoots_def by (intro db_intros) 

lemma pending_keeps_store [store_intros]: "keeps_store (pendingWorkloadCoverage env)"
proof -
  have "keeps_store (pending_roots_loop env is)" for "is"
    by (induction "is") (auto intro!: store_intros db_intros)
  then show ?thesis unfolding pendingWorkloadCoverage_def by (intro store_intros)
qed

lemma removal_keeps_store [store_intros]: "keeps_store (removeOwnedBoundary env b)"
  unfolding removeOwnedBoundary_def ownedBoundaryRemovalKind_def boundaryOwnedKind_def convergeLegacyOwnedKind_def
    recordBoundaryOwnership_def forgetBoundaryOwnership_def
  by (intro store_intros; simp)

lemma release_keeps_store [store_intros]:
  "keeps_store (conditionalReleaseBoundary env b own)" "keeps_store (retryDeferredBoundaries env)"
  "keeps_store (rollbackPreparedBoundaries env bs)"
  unfolding conditionalReleaseBoundary_def retryDeferredBoundaries_def retry_one_def rollbackPreparedBoundaries_def
    try_remove_def defer_boundary_def isBoundaryOwnedByHelper_def
  by (intro store_intros; simp)+

lemma ensure_keeps_store [store_intros]: "keeps_store (ensureSessionCoverage env trees)"
proof -
  have "keeps_store (ensureBoundaryWithOwnership env t)" for t
    unfolding ensureBoundaryWithOwnership_def recordBoundaryOwnership_def isBoundaryOwnedByHelper_def by (intro store_intros; simp)
  then have "keeps_store (ensure_trees env rs ps trees)" for rs ps
    by (induction trees arbitrary: rs ps) (auto intro!: store_intros)
  then show ?thesis unfolding ensureSessionCoverage_def .
qed

lemma binding_release_keeps_store [store_intros]: "keeps_store (ReleaseSessionBinding env sid)"
  unfolding ReleaseSessionBinding_def release_coverage_def by (intro store_intros; simp)

section \<open>The commit\<close>

lemma binding_store:
  assumes "run_state (CreateSessionBinding env sid bs ins) c = (r, c')"
  obtains (refused) e where "r = Inl e" and "mc_store c' = mc_store c"
    | (ran) cov n n' q where "ins cov (mc_store c) n = (mc_store c', n', q)" and "r = map_sum id (\<lambda>_. cov) q"
proof -
  obtain v c1 where v: "run_state (ensureSessionCoverage env bs) c = (v, c1)" by fastforce
  then have s1: "mc_store c1 = mc_store c" by (rule keeps_storeD [OF ensure_keeps_store])
  show thesis
  proof (cases v)
    case (Inl e)
    with assms v s1 show thesis by (auto simp: CreateSessionBinding_def or_return_def intro: refused)
  next
    case (Inr b)
    obtain cov prepared where b: "b = (cov, prepared)" by fastforce
    obtain t k q where ins: "ins cov (mc_store c1) (mc_calls c1) = (t, k, q)" by (metis prod_cases3)
    have "keeps_store (rollbackPreparedBoundaries env prepared)" "keeps_store (bind_session sid cov)"
      by (auto simp: bind_session_def intro!: store_intros)
    then have "mc_store c' = t \<and> r = map_sum id (\<lambda>_. cov) q"
      using assms v ins unfolding Inr b CreateSessionBinding_def or_return_def
      by (cases q) (auto simp: mac_db_def dest!: keeps_storeD split: prod.splits)
    with ins s1 show thesis using ran by metis
  qed
qed

lemma commit_store:
  assumes "run_state (commitSession env coordinated p row sn) c = (r, c')"
  obtains (refused) e where "r = Inl e" and "mc_store c' = mc_store c"
    | (ran) n n' q where "insertSession (me_hash env) (me_db env) p row (Entries sn) (mc_store c) n = (mc_store c', n', q)"
        and "r = map_sum (wrap_create_error coordinated) id q"
proof (cases coordinated)
  case True
  obtain b c1 where b: "run_state (CreateSessionBinding env (se_id row) (sessionMACBoundaries sn)
      (\<lambda>_. insertSession (me_hash env) (me_db env) p row (Entries sn))) c = (b, c1)" by fastforce
  then have r: "c' = c1" "r = map_sum (wrap_create_error True) (\<lambda>_. ()) b"
    using assms True by (auto simp: commitSession_def sum.map_comp comp_def)
  from b show thesis
  proof (cases rule: binding_store)
    case (refused e)
    then show ?thesis using that(1) r by simp
  next
    case (ran cov n n' q)
    then show ?thesis using that(2) [of n n' q] r True by (simp add: sum.map_comp comp_def id_def)
  qed
next
  case False
  then show thesis using assms that(2) by (auto simp: commitSession_def mac_db_def split: prod.splits)
qed

lemma stale_fails: "classifyStaleSessionCreateAuthority io p s n \<noteq> (s', n', Inr a)"
  by (auto simp: classifyStaleSessionCreateAuthority_def db_then_Inr db_simps split: option.splits if_splits)

lemma insertSession_Inr:
  assumes "insertSession hash io p row es s n = (s', n', Inr u)"
  obtains t k m where "launcher_available (cp_LauncherID p) s" and "credential_live (cp_Credential p) s"
    and "insert_session row s = Inr t" and "insertSessionFilesystemSnapshot hash io (se_id row) es t k = (s', m, Inr ())"
  using assms
  by (auto simp: stale_fails insertSession_def with_tx_Inr db_then_Inr db_simps intro: that split: if_splits sum.splits)

lemma insertSession_undone: "reported io \<Longrightarrow> undone (insertSession hash io p row es)"
  unfolding insertSession_def by (rule undone_tx)

lemma keeps_insertSession: "keeps store_ok (insertSession hash io p row es)"
proof -
  have "reads (classifyStaleSessionCreateAuthority io p :: unit db)"
    unfolding classifyStaleSessionCreateAuthority_def by (intro db_intros)
  then have "keeps store_ok (classifyStaleSessionCreateAuthority io p :: unit db)" by (rule reads_keeps)
  moreover have "keeps store_ok (exec io (\<lambda>s.
            if launcher_available (cp_LauncherID p) s \<and> credential_live (cp_Credential p) s
            then (case insert_session row s of Inl _ \<Rightarrow> io_err | Inr s' \<Rightarrow> Inr (s', True))
            else Inr (s, False)))"
    by (rule keeps_exec) (auto split: if_splits sum.splits intro: insert_session_ok)
  ultimately show ?thesis unfolding insertSession_def by (intro db_intros) auto
qed

section \<open>What a successful create resolved\<close>

text \<open>The authority may act for the Launcher: it is the administrator, its Principal, or the Launcher itself.\<close>

definition authority_covers :: "operatorAuthority \<Rightarrow> launcher_row \<Rightarrow> bool" where
  "authority_covers a l \<longleftrightarrow>
     oa_class a = operatorAuthorityAdmin \<or>
     oa_class a = operatorAuthorityPrincipal \<and> map_option pa_PrincipalID (oa_principal a) = Some (la_principal l) \<or>
     oa_class a = operatorAuthorityLauncher \<and> map_option ha_LauncherID (oa_launcher a) = Some (la_id l)"

lemma launcher_with_ownerD:
  assumes "launcher_with_owner i s = Some (l, p)"
  shows "l \<in> set (launchers s)" and "la_id l = i" and "p \<in> set (principals s)" and "pr_id p = la_principal l"
  using assms by (auto simp: launcher_with_owner_def launcher_by_id_def principal_by_id_def find_Some_iff split: option.splits)

lemma create_launcher_Inr:
  assumes "resolveCreateLauncher io (Some a) sel s n = (s', n', Inr i)" and "store_ok s"
    and "launcher_with_owner i s = Some (l, p)"
  shows "authority_covers a l"
proof -
  note l = launcher_with_ownerD [OF assms(3)]
  have unique: "l' = l" if "l' \<in> set (launchers s)" "la_id l' = i" for l'
    using that l(1,2) store_okD(3) [OF assms(2)] by (auto simp: launchers_ok_def distinct_map dest: inj_onD)
  show ?thesis
    using assms(1) l(2) unique
    by (auto simp: resolveCreateLauncher_def authority_covers_def class_defs resolveLauncherWithinPrincipal_def
        findDefaultLauncher_def default_launcher_def launcher_by_id_def db_then_Inr db_simps find_Some_iff
        split: if_splits option.splits) (metis nth_mem)+
qed

lemma ownership_Inr:
  assumes "resolveSessionOwnershipSnapshot io i s n = (s', n', Inr snap)"
  obtains l p where "s' = s" and "launcher_with_owner i s = Some (l, p)"
    and "snap = (ownership_of s l p)\<lparr>snap_launcherRoots := if la_scope l = LauncherScopeRestricted
           then stored_roots (la_id l) (launcher_allowed_roots s) else []\<rparr>"
proof -
  obtain l p where lp: "s' = s" "launcher_with_owner i s = Some (l, p)"
    and "snap = (ownership_of s l p)\<lparr>snap_launcherRoots := if la_scope l = LauncherScopeRestricted
           then stored_roots i (launcher_allowed_roots s) else []\<rparr>"
    using assms by (auto simp: resolveSessionOwnershipSnapshot_def loadSessionOwnershipSnapshot_def ownership_of_def
        with_tx_Inr db_then_Inr db_simps split: option.splits if_splits)
  then show thesis using that launcher_with_ownerD(2) by metis
qed

lemma create_policy_Inr:
  assumes "resolveCreatePolicy io fs config_roots auth sel w roots s n = (s', n', Inr pol)" and "store_ok s"
  obtains a l p g snap where "s' = s" and "auth = Some a" and "launcher_with_owner (cp_LauncherID pol) s = Some (l, p)"
    and "la_enabled l" and "pr_enabled p" and "authority_covers a l"
    and "sessionCreateCredentialAuthorityOf auth = Inr (cp_Credential pol)"
    and "appResolvedGlobalRootEntries fs config_roots = Inr g"
    and "snap = (ownership_of s l p)\<lparr>snap_launcherRoots := if la_scope l = LauncherScopeRestricted
           then stored_roots (la_id l) (launcher_allowed_roots s) else []\<rparr>"
    and "effectiveLauncherAllowedRoots g snap = Inr (cp_EffectiveAllowedRoots pol)"
    and "cp_EffectiveAllowedRootPaths pol = allowedRootPaths (cp_EffectiveAllowedRoots pol)"
    and "cp_Workspace pol = w" and "cp_FilesystemRoots pol = roots"
    and "cp_LauncherName pol = la_name l" and "cp_PrincipalName pol = pr_username p"
proof -
  have "auth \<noteq> None" using assms(1)
    by (cases auth) (auto simp: resolveCreatePolicy_def resolveCreateLauncher_def db_then_Inr split: if_splits)
  then obtain a where a: "auth = Some a" by blast
  have rd: "reads (resolveCreateLauncher io auth sel)"
    unfolding resolveCreateLauncher_def resolveLauncherWithinPrincipal_def findDefaultLauncher_def findPrincipalIDByUsername_def a
    by (auto simp: reads_def db_try_def db_then_def query_def db_result_def split: option.split prod.split sum.split)
  obtain i t k snap t' k' g eff where run: "resolveCreateLauncher io auth sel s n = (t, k, Inr i)"
    "resolveSessionOwnershipSnapshot io i t k = (t', k', Inr snap)" "snap_launcherEnabled snap" "snap_principalEnabled snap"
    "appResolvedGlobalRootEntries fs config_roots = Inr g" "effectiveLauncherAllowedRoots g snap = Inr eff"
    and cred: "sessionCreateCredentialAuthorityOf auth = Inr (cp_Credential pol)" and "s' = t'"
    and pol: "cp_Workspace pol = w" "cp_EffectiveAllowedRoots pol = eff" "cp_EffectiveAllowedRootPaths pol = allowedRootPaths eff"
      "cp_FilesystemRoots pol = roots" "cp_LauncherID pol = snap_launcherID snap" "cp_LauncherName pol = snap_launcherName snap"
      "cp_PrincipalName pol = snap_principalName snap"
    using assms(1) by (auto simp: resolveCreatePolicy_def db_then_Inr split: if_splits sum.splits) metis
  have t: "t = s" using rd run(1) readsD by blast
  obtain l p where lp: "t' = s" "launcher_with_owner i s = Some (l, p)"
    and snap: "snap = (ownership_of s l p)\<lparr>snap_launcherRoots := if la_scope l = LauncherScopeRestricted
           then stored_roots (la_id l) (launcher_allowed_roots s) else []\<rparr>"
    using run(2) unfolding t by (rule ownership_Inr) blast
  have id: "cp_LauncherID pol = i" using pol(5) snap launcher_with_ownerD(2) [OF lp(2)] by (simp add: ownership_of_def)
  show thesis
  proof (rule that [of a l p g snap])
    show "authority_covers a l" using create_launcher_Inr [OF run(1) [unfolded a] assms(2) lp(2)] .
  qed (use run lp snap pol cred a id \<open>s' = t'\<close> in \<open>simp_all add: ownership_of_def\<close>)
qed

lemma create_Inr:
  assumes "run_state (createSessionAuthorized env coordinated fs config_roots x busy auth sel w roots) c = (Inr cs, c')"
    and "store_ok (mc_store c)"
  obtains n n' pol row k k' where
    "resolveCreatePolicy (me_db env) fs config_roots auth sel w roots (mc_store c) n = (mc_store c, n', Inr pol)"
    and "admitSessionWorkspace fs w (cp_EffectiveAllowedRootPaths pol) = Inr (se_workspace row)"
    and "issueSessionSnapshot fs pol (se_workspace row) = Inr (cs_FilesystemSnapshot cs)"
    and "insertSession (me_hash env) (me_db env) pol row (Entries (cs_FilesystemSnapshot cs)) (mc_store c) k = (mc_store c', k', Inr ())"
    and "se_id row = ses_ID (cs_Session cs)" and "se_hash row = me_hash env (cs_Token cs)"
    and "se_workspace row = ses_Workspace (cs_Session cs)" and "se_launcher row = cp_LauncherID pol"
    and "se_created row = unix (in_now x)" and "se_expires row = unix (in_now x + in_ttl x)"
    and "ses_LauncherID (cs_Session cs) = cp_LauncherID pol"
proof -
  obtain s1 n1 q where q: "resolveCreatePolicy (me_db env) fs config_roots auth sel w roots (mc_store c) (mc_calls c) = (s1, n1, q)"
    by (metis prod_cases3)
  then obtain pol where pol: "q = Inr pol"
    and run: "run_state (createSessionWithPolicyLocked env coordinated fs x pol) (c\<lparr>mc_store := s1, mc_calls := n1\<rparr>) = (Inr cs, c')"
    using assms(1) by (cases q) (auto simp: createSessionAuthorized_def or_return_def mac_db_def split: if_splits)
  have s1: "s1 = mc_store c" "cp_Workspace pol = w"
    using create_policy_Inr [OF q [unfolded pol] assms(2)] by metis+
  obtain ws sn i t where parts: "admitSessionWorkspace fs w (cp_EffectiveAllowedRootPaths pol) = Inr ws"
    "issueSessionSnapshot fs pol ws = Inr sn" "in_id x = Some i" "generateSessionToken (in_token x) = Inr t"
    using run unfolding createSessionWithPolicyLocked_def s1(2) [symmetric]
    by (auto simp: or_return_def split: if_splits sum.splits option.splits)
  define row where "row = \<lparr>se_id = sessionIDPrefix @ hex_encode i, se_hash = me_hash env t, se_workspace = ws,
    se_created = unix (in_now x), se_expires = unix (in_now x + in_ttl x), se_launcher = cp_LauncherID pol\<rparr>"
  obtain r c1 where com: "run_state (commitSession env coordinated pol row sn) (c\<lparr>mc_store := s1, mc_calls := n1\<rparr>) = (r, c1)"
    by fastforce
  then have r: "r = Inr ()" "c1 = c'" and cs: "cs_Token cs = t" "cs_FilesystemSnapshot cs = sn" "ses_ID (cs_Session cs) = se_id row"
      "ses_Workspace (cs_Session cs) = ws" "ses_LauncherID (cs_Session cs) = cp_LauncherID pol"
    using run parts unfolding createSessionWithPolicyLocked_def s1(2) row_def
    by (auto simp: or_return_def split: if_splits sum.splits)
  from com obtain k k' where "insertSession (me_hash env) (me_db env) pol row (Entries sn) (mc_store c) k = (mc_store c', k', Inr ())"
  proof (cases rule: commit_store)
    case (refused e)
    then show ?thesis using r by simp
  next
    case (ran n n' q)
    then show ?thesis using r s1 that by (cases q) auto
  qed
  then show thesis
    using that [of "mc_calls c" n1 pol row k k'] q pol s1 parts cs by (simp add: row_def)
qed

lemma reads_tx [db_intros]: "reads body \<Longrightarrow> reads (with_tx_err ce io body)"
  unfolding reads_def with_tx_err_def
  by (auto split: prod.splits sum.splits db_outcome.splits dest: spec) (metis fst_conv)+

lemma reads_try [db_intros]: "reads m \<Longrightarrow> reads (db_try m)"
  by (auto simp: reads_def db_try_def split: prod.splits) (metis fst_conv)

lemma reads_sum [db_intros]:
  "(\<And>e. reads (f e)) \<Longrightarrow> (\<And>a. reads (g a)) \<Longrightarrow> reads (case r of Inl e \<Rightarrow> f e | Inr a \<Rightarrow> g a)"
  by (cases r) auto

lemma reads_create_launcher [db_intros]: "reads (resolveCreateLauncher io auth sel)"
  unfolding resolveCreateLauncher_def resolveLauncherWithinPrincipal_def findDefaultLauncher_def
  by (intro db_intros)

lemma reads_create_policy [db_intros]: "reads (resolveCreatePolicy io fs config_roots auth sel w roots)"
  unfolding resolveCreatePolicy_def resolveSessionOwnershipSnapshot_def loadSessionOwnershipSnapshot_def
  by (intro db_intros)

lemma create_undone:
  assumes "run_state (createSessionAuthorized env coordinated fs config_roots x busy auth sel w roots) c = (Inl e, c')"
    and "reported (me_db env)"
  shows "mc_store c' = mc_store c"
proof (cases busy)
  case False
  have commit: "mc_store c2 = mc_store c1" if "run_state (commitSession env coordinated pol row sn) c1 = (Inl e', c2)" for pol row sn c1 c2 e'
    using that
  proof (cases rule: commit_store)
    case (ran n n' q)
    then show ?thesis using undoneD [OF insertSession_undone [OF assms(2)]] by (cases q) auto
  qed
  have policy: "mc_store c2 = mc_store c1" if "run_state (createSessionWithPolicyLocked env coordinated fs x pol) c1 = (Inl e', c2)" for pol c1 c2 e'
    using that commit unfolding createSessionWithPolicyLocked_def
    by (auto simp: or_return_def split: if_splits sum.splits prod.splits) 
  obtain s1 n1 q where q: "resolveCreatePolicy (me_db env) fs config_roots auth sel w roots (mc_store c) (mc_calls c) = (s1, n1, q)"
    by (metis prod_cases3)
  have "s1 = mc_store c" using readsD [OF reads_create_policy q] .
  with q show ?thesis using assms(1) False policy
    by (cases q) (auto simp: createSessionAuthorized_def or_return_def mac_db_def dest!: policy)
qed (use assms(1) in \<open>simp add: createSessionAuthorized_def\<close>)

section \<open>The committed Session\<close>

lemma launcher_with_owner_frame:
  "launchers s' = launchers s \<Longrightarrow> principals s' = principals s \<Longrightarrow> launcher_with_owner i s' = launcher_with_owner i s"
  by (simp add: launcher_with_owner_def launcher_by_id_def principal_by_id_def cong: option.case_cong)

lemma projection_mem:
  "(x, l, p) \<in> set (sessionOwnershipProjection s) \<longleftrightarrow> x \<in> set (sessions s) \<and> launcher_with_owner (se_launcher x) s = Some (l, p)"
  by (auto simp: sessionOwnershipProjection_def split: option.splits)

text \<open>Selection by a unique column of the Session table.\<close>

lemma find_projection:
  assumes "distinct (map f (sessions s))" and "x \<in> set (sessions s)" and "launcher_with_owner (se_launcher x) s = Some (l, p)"
    and "Q (x, l, p)"
  shows "find (\<lambda>(y, m, q). f y = f x \<and> Q (y, m, q)) (sessionOwnershipProjection s) = Some (x, l, p)"
proof (rule find_unique)
  show "(x, l, p) \<in> set (sessionOwnershipProjection s)" using assms(2,3) by (simp add: projection_mem)
  show "z = (x, l, p)" if "z \<in> set (sessionOwnershipProjection s)" "case z of (y, m, q) \<Rightarrow> f y = f x \<and> Q (y, m, q)" for z
    using that assms(1-3) by (auto simp: projection_mem distinct_map dest: inj_onD)
qed (use assms(4) in simp)

lemma inserted_session:
  assumes "insertSession hash io pol row (Entries sn) s n = (s', n', Inr u)" and "store_ok s"
    and "snapshot_ok sn" and "Workspace sn = se_workspace row"
  shows "sessions s' = sessions s @ [row]" and "launchers s' = launchers s" and "principals s' = principals s"
    and "credentials s' = credentials s" and "store_ok s'"
    and "loadSessionFilesystemSnapshot hash fault_free (se_id row) (se_workspace row) s' m = (s', Suc (Suc m), Inr sn)"
proof -
  obtain t k j where t: "insert_session row s = Inr t"
    and ins: "insertSessionFilesystemSnapshot hash io (se_id row) (Entries sn) t k = (s', j, Inr ())"
    using insertSession_Inr [OF assms(1)] by metis
  have t_eq: "t = s\<lparr>sessions := sessions s @ [row]\<rparr>" and fresh: "\<not> has_session (se_id row) s"
    using t by (auto simp: insert_session_def has_session_def list_ex_iff split: if_splits)
  note s' = insert_snapshot_Inr [OF ins]
  show "sessions s' = sessions s @ [row]" "launchers s' = launchers s" "principals s' = principals s" "credentials s' = credentials s"
    unfolding s' t_eq by simp_all
  show "store_ok s'" using keepsD [OF keeps_insertSession assms(2,1)] .
  have "no_snapshot (se_id row) t" using no_snapshot_fresh [OF assms(2) fresh] by (simp add: t_eq no_snapshot_def)
  then have "holds_snapshot hash (se_id row) sn s'" using inserted_rows [OF ins] by (simp add: holds_snapshot_def)
  then show "loadSessionFilesystemSnapshot hash fault_free (se_id row) (se_workspace row) s' m = (s', Suc (Suc m), Inr sn)"
    using load_held assms(3,4) by metis
qed

lemma rewrap_Inr: "(case r of Inl _ \<Rightarrow> Inl e | Inr x \<Rightarrow> Inr (f x)) = Inr y \<longleftrightarrow> (\<exists>x. r = Inr x \<and> f x = y)"
  by (cases r) auto

lemma issue_Inr:
  "issueSessionSnapshot fs pol w = Inr sn \<longleftrightarrow> snapshot_ok sn \<and> Workspace sn = w \<and>
     (if cp_FilesystemRoots pol \<noteq> [] then
        \<exists>req. canonicalizeSessionFilesystemRoots fs (cp_FilesystemRoots pol) (cp_EffectiveAllowedRootPaths pol) = Inr req \<and>
              narrowSessionFilesystemPolicy (cp_EffectiveAllowedRoots pol) w req = Inr (Entries sn)
      else \<exists>d. deriveSessionFilesystemSnapshot (cp_EffectiveAllowedRoots pol) w = Inr d \<and> Entries d = Entries sn)"
  unfolding issueSessionSnapshot_def and_then_Inr_iff rewrap_Inr newSnapshot_Inr_iff by (auto simp: rewrap_Inr)

lemma issued_snapshot:
  assumes "issueSessionSnapshot fs pol w = Inr sn"
  shows "snapshot_ok sn" and "Workspace sn = w"
  using assms by (auto simp: issue_Inr)

text \<open>A snapshot issued under a policy authorizes nothing the policy does not.\<close>

lemma issued_within_policy:
  assumes "issueSessionSnapshot fs pol w = Inr sn" and "scope_ok (cp_EffectiveAllowedRoots pol)" and "canonical_path q"
    and "LookupAccess sn q \<noteq> None"
  shows "lookupAllowedRootAccess (cp_EffectiveAllowedRoots pol) q \<noteq> None"
proof -
  let ?eff = "cp_EffectiveAllowedRoots pol"
  have w: "canonical_path w" using issued_snapshot [OF assms(1)] by (auto simp: snapshot_ok_def)
  have valid: "validateCanonicalAllowedRootEntries ?eff = None" using assms(2) by (simp add: validate_None_iff)
  show ?thesis
  proof (cases "cp_FilesystemRoots pol = []")
    case False
    then obtain req where "narrowSessionFilesystemPolicy ?eff w req = Inr (Entries sn)"
      using assms(1) by (auto simp: issue_Inr)
    from narrow_only_narrows [OF this valid w assms(3)] show ?thesis using assms(4) by (simp add: LookupAccess_def)
  next
    case True
    then obtain d where d: "deriveSessionFilesystemSnapshot ?eff w = Inr d" "Entries sn = Entries d"
      using assms(1) by (auto simp: issue_Inr)
    then obtain mode where mode: "lookupAllowedRootAccess ?eff w = Some mode"
      using valid by (auto simp: deriveSessionFilesystemSnapshot_def split: if_splits option.splits)
    let ?C = "mk_entry w mode # below_entries w ?eff"
    have "access_isValid mode" using lookup_valid [OF assms(2) w mode] by (auto simp: access_isValid_def)
    note cok = inherited_scope_ok [OF assms(2) w this]
    have "Entries sn = normalizeAllowedRootEntries ?C"
      using d unfolding derive_eq [OF assms(2) w mode] newSnapshot_Inr_iff by simp
    then have "lookupAllowedRootAccess ?C q \<noteq> None"
      using assms(4) normalize_authority [OF cok assms(3)] by (simp add: LookupAccess_def)
    then show ?thesis using inherited_lookup [OF assms(2) w mode assms(3)] by (simp split: if_splits)
  qed
qed

section \<open>Properties of creation\<close>

text \<open>
  C4: A Session create that succeeds has committed exactly one Session: for a Launcher that exists and
  is enabled with its Principal, that the authenticated authority covers, and with the authorizing
  credential still active at the commit. The returned bearer authenticates as that Session until it
  expires, the persisted snapshot loads back as the returned one, and the store keeps its integrity.
  A create that reports an error has changed nothing in the ownership store, provided every database
  call that takes effect is reported.
\<close>

theorem create_session_atomic:
  assumes "store_ok (mc_store c)"
    and "run_state (createSessionAuthorized env coordinated fs config_roots x busy auth sel w roots) c = (r, c')"
  shows "(\<forall>cs. r = Inr cs \<longrightarrow> (\<exists>a l p cred row.
        auth = Some a \<and> launcher_with_owner (ses_LauncherID (cs_Session cs)) (mc_store c) = Some (l, p) \<and>
        la_enabled l \<and> pr_enabled p \<and> authority_covers a l \<and>
        sessionCreateCredentialAuthorityOf auth = Inr cred \<and> credential_live cred (mc_store c) \<and>
        sessions (mc_store c') = sessions (mc_store c) @ [row] \<and> store_ok (mc_store c') \<and>
        se_id row = ses_ID (cs_Session cs) \<and> se_workspace row = ses_Workspace (cs_Session cs) \<and> se_launcher row = la_id l \<and>
        loadSessionFilesystemSnapshot (me_hash env) fault_free (se_id row) (se_workspace row) (mc_store c') k =
          (mc_store c', Suc (Suc k), Inr (cs_FilesystemSnapshot cs)) \<and>
        (unix now < unix (in_now x + in_ttl x) \<longrightarrow>
           db_value (findSessionByToken (me_hash env) fault_free now (cs_Token cs)) (mc_store c') k =
             Inr (scanSessionWithOwnership (row, l, p))))) \<and>
    (\<forall>e. r = Inl e \<longrightarrow> reported (me_db env) \<longrightarrow> mc_store c' = mc_store c)"
proof (intro conjI allI impI, goal_cases)
  case (1 cs)
  note r = 1
  obtain n n' pol row i i' where pol: "resolveCreatePolicy (me_db env) fs config_roots auth sel w roots (mc_store c) n = (mc_store c, n', Inr pol)"
    and issue: "issueSessionSnapshot fs pol (se_workspace row) = Inr (cs_FilesystemSnapshot cs)"
    and ins: "insertSession (me_hash env) (me_db env) pol row (Entries (cs_FilesystemSnapshot cs)) (mc_store c) i = (mc_store c', i', Inr ())"
    and row: "se_id row = ses_ID (cs_Session cs)" "se_hash row = me_hash env (cs_Token cs)"
      "se_workspace row = ses_Workspace (cs_Session cs)" "se_launcher row = cp_LauncherID pol"
      "se_expires row = unix (in_now x + in_ttl x)" "ses_LauncherID (cs_Session cs) = cp_LauncherID pol"
    by (rule create_Inr [OF assms(2) [unfolded r] assms(1)])
  obtain a l p where owner: "auth = Some a" "launcher_with_owner (cp_LauncherID pol) (mc_store c) = Some (l, p)" "la_enabled l" "pr_enabled p"
      "authority_covers a l" "sessionCreateCredentialAuthorityOf auth = Inr (cp_Credential pol)"
    using create_policy_Inr [OF pol assms(1)] by metis
  note new = inserted_session [OF ins assms(1) issued_snapshot [OF issue]]
  have "credential_live (cp_Credential pol) (mc_store c)" using insertSession_Inr [OF ins] by metis
  moreover have "db_value (findSessionByToken (me_hash env) fault_free now (cs_Token cs)) (mc_store c') k =
      Inr (scanSessionWithOwnership (row, l, p))" if "unix now < unix (in_now x + in_ttl x)"
  proof -
    have "launcher_with_owner (se_launcher row) (mc_store c') = Some (l, p)"
      using owner(2) row(4) launcher_with_owner_frame [OF new(2,3)] by simp
    then have "find (\<lambda>(y, m, q). se_hash y = se_hash row \<and> (case (y, m, q) of (y, m, q) \<Rightarrow> unix now < se_expires y \<and> la_enabled m \<and> pr_enabled q))
        (sessionOwnershipProjection (mc_store c')) = Some (row, l, p)"
      by (intro find_projection) (use store_okD(6) [OF new(5)] new(1) owner(3,4) that row(5) in \<open>auto simp: sessions_ok_def\<close>)
    then show ?thesis using row(2) by (simp add: findSessionByToken_def findSessionByTokenQuerier_def session_by_hash_def query_def)
  qed
  ultimately show ?case
    using owner row new(1,5,6) launcher_with_ownerD(2) [OF owner(2)]
    by (intro exI [of _ a] exI [of _ l] exI [of _ p] exI [of _ "cp_Credential pol"] exI [of _ row]) simp
next
  case (2 e)
  then show ?case using assms(2) create_undone by blast
qed


definition demo_delegation :: store where
  "demo_delegation = demo_owned\<lparr>principal_allowed_roots := [\<lparr>rr_owner = 1, rr_entry = mk_entry ''/home/alice'' RW\<rparr>]\<rparr>"

definition demo_authority :: operatorAuthority where
  "demo_authority = \<lparr>oa_class = operatorAuthorityPrincipal,
     oa_principal = Some \<lparr>pa_PrincipalID = 1, pa_PrincipalName = ''alice'', pa_CredentialID = ''dhcr_1''\<rparr>, oa_launcher = None\<rparr>"

definition demo_inputs :: session_inputs where
  "demo_inputs = \<lparr>in_id = Some [1], in_token = Some [2], in_now = 5000000000, in_ttl = 60000000000\<rparr>"

definition demo_create :: "(go_error, CreatedSession) result \<times> apparmor sessionMACCoordinator" where
  "demo_create = run_state (createSessionAuthorized demo_mac_env True demo_fs [mk_entry ''/home'' RW] demo_inputs False
     (Some demo_authority) \<lparr>sel_launcherID = la_id demo_launcher, sel_principal = []\<rparr> ''/home/alice/ws'' [])
     (newSessionMACCoordinator demo_delegation [] demo_apparmor)"

lemma demo_delegation_ok: "store_ok demo_delegation"
  by (rule store_ok_frame [OF demo_owned_ok])
    (simp_all add: demo_delegation_def demo_owned_def demo_store_def empty_store_def principal_roots_ok_def demo_principal_def owner_simps access_isValid_def)

lemma demo_create_value:
  "fst demo_create = Inr \<lparr>cs_Session = \<lparr>ses_ID = ''dhs_01'', ses_Workspace = ''/home/alice/ws'', ses_CreatedAt = 5000000000,
     ses_ExpiresAt = 65000000000, ses_LauncherID = la_id demo_launcher, ses_LauncherName = ''ci'', ses_PrincipalName = ''alice''\<rparr>,
     cs_Token = ''dht_02'', cs_FilesystemSnapshot = \<lparr>Workspace = ''/home/alice/ws'', Entries = [mk_entry ''/home/alice/ws'' RW]\<rparr>\<rparr>"
  by code_simp

lemma demo_create_run:
  "run_state (createSessionAuthorized demo_mac_env True demo_fs [mk_entry ''/home'' RW] demo_inputs False
     (Some demo_authority) \<lparr>sel_launcherID = la_id demo_launcher, sel_principal = []\<rparr> ''/home/alice/ws'' [])
     (newSessionMACCoordinator demo_delegation [] demo_apparmor) = (fst demo_create, snd demo_create)"
  "mc_store (newSessionMACCoordinator demo_delegation [] demo_apparmor) = demo_delegation"
  by (simp_all add: demo_create_def newSessionMACCoordinator_def)

theorem create_session_atomic_witness:
  "\<exists>y. db_value (findSessionByToken (\<lambda>x. x) fault_free 5000000000 ''dht_02'') (mc_store (snd demo_create)) 0 = Inr y \<and>
     ses_ID y = ''dhs_01'' \<and> map se_id (sessions (mc_store (snd demo_create))) = [''dhs_01''] \<and>
     store_ok (mc_store (snd demo_create))"
proof -
  have "sessions demo_delegation = []" "me_hash demo_mac_env = (\<lambda>x. x)"
    by (simp_all add: demo_delegation_def demo_owned_def demo_store_def empty_store_def demo_mac_env_def)
  moreover have "unix 5000000000 < unix (in_now demo_inputs + in_ttl demo_inputs)" by (simp add: demo_inputs_def unix_def)
  ultimately show ?thesis
    using create_session_atomic [where k = 0 and now = 5000000000, OF _ demo_create_run(1), unfolded demo_create_run(2), OF demo_delegation_ok, THEN conjunct1, rule_format, OF demo_create_value]
    by (auto simp: scanSessionWithOwnership_def)
qed


section \<open>Scopes\<close>

lemma reads_control_target [db_intros]: "reads (resolvePrincipalControlTarget io auth u)"
  unfolding resolvePrincipalControlTarget_def by (intro db_intros)

lemma launcher_unique: "store_ok s \<Longrightarrow> l \<in> set (launchers s) \<Longrightarrow> l' \<in> set (launchers s) \<Longrightarrow> la_id l' = la_id l \<Longrightarrow> l' = l"
  using store_okD(3) [of s] by (metis launchers_ok_def distinct_map_eqD)

lemma launcher_row_owner:
  assumes "store_ok s" and "l \<in> set (launchers s)"
  obtains p where "launcher_with_owner (la_id l) s = Some (l, p)"
proof -
  have "launcher_by_id (la_id l) s = Some l"
    unfolding launcher_by_id_def by (rule find_unique) (use assms launcher_unique in blast)+
  moreover have "has_principal (la_principal l) s" using assms store_okD(3) by (auto simp: launchers_ok_def)
  then have "principal_by_id (la_principal l) s \<noteq> None"
    unfolding principal_by_id_def find_None_none by (auto simp: has_principal_iff)
  ultimately show thesis using that by (auto simp: launcher_with_owner_def)
qed

lemma session_owner:
  assumes "store_ok s" and "x \<in> set (sessions s)"
  obtains l p where "launcher_with_owner (se_launcher x) s = Some (l, p)"
proof -
  have "se_launcher x \<in> la_id ` set (launchers s)"
    using store_okD(6) [OF assms(1)] assms(2) by (simp add: sessions_ok_def has_launcher_iff)
  then show thesis using that launcher_row_owner [OF assms(1)] by (metis imageE)
qed

text \<open>The two SQL predicates select the same Sessions: the join of the lookups and the subquery of the deletion.\<close>

lemma delete_predicate_eq:
  assumes "store_ok s" and "launcher_with_owner (se_launcher x) s = Some (l, p)"
  shows "sessionDeletePredicate scope s x \<longleftrightarrow> sessionScopePredicate scope (x, l, p)"
proof -
  note l = launcher_with_ownerD(1,2) [OF assms(2)]
  have "se_launcher x \<in> set (launcher_ids_of i s) \<longleftrightarrow> la_principal l = i" for i
    using l launcher_unique [OF assms(1) l(1)] unfolding launcher_ids_of_iff by metis
  then show ?thesis by (simp add: sessionDeletePredicate_def sessionScopePredicate_def)
qed

text \<open>A Launcher selector resolves to a Launcher of the selected Principal.\<close>

lemma launcherFromRow_Inr:
  assumes "launcherFromRow io row s n = (s', n', Inr lw)"
  obtains l p where "row s = Some (l, p)" and "lw_ID lw = la_id l"
  using assms by (auto simp: launcherFromRow_def readLauncherAllowedRoots_def scanLauncherBase_def db_then_Inr db_simps split: option.splits)

lemma launcher_where_Some: "launcher_where Q s = Some (l, p) \<Longrightarrow> l \<in> set (launchers s) \<and> Q l"
  by (auto simp: launcher_where_def dest: find_Some_in split: option.splits)

lemma selector_Inr:
  assumes "resolveLauncherSelector io pid sel s n = (s', n', Inr lw)" and "store_ok s"
  obtains l p where "launcher_with_owner (lw_ID lw) s = Some (l, p)" and "la_id l = sel \<or> la_name l = sel"
    and "pid = None \<or> pid = Some (la_principal l)"
proof -
  have "\<exists>l. lw_ID lw = la_id l \<and> l \<in> set (launchers s) \<and> (la_id l = sel \<or> la_name l = sel) \<and> (pid = None \<or> pid = Some (la_principal l))"
  proof (cases pid)
    case None
    then have "launcherFromRow io (launcher_with_owner sel) s n = (s', n', Inr lw)"
      using assms(1) by (auto simp: resolveLauncherSelector_def findLauncherByID_def split: if_splits)
    then show ?thesis using None launcher_with_ownerD(1,2) by (metis launcherFromRow_Inr)
  next
    case (Some i)
    then obtain Q where "launcherFromRow io (launcher_where Q) s n = (s', n', Inr lw)"
        and "\<And>l. Q l \<Longrightarrow> la_principal l = i \<and> (la_id l = sel \<or> la_name l = sel)"
      using assms(1) by (auto simp: resolveLauncherSelector_def findLauncherForPrincipal_def findLauncherByIDUnderPrincipal_def
          findLauncherByNameUnderPrincipal_def split: if_splits sum.splits)
    then show ?thesis using Some launcher_where_Some [of Q s] by (auto elim!: launcherFromRow_Inr)
  qed
  then show thesis using that launcher_row_owner [OF assms(2)] by metis
qed

lemma narrow_Inr:
  assumes "narrowSessionScopeToLauncher io pid lsel s n = (s', n', Inr scope)" and "store_ok s"
    and "launcher_with_owner (se_launcher x) s = Some (l, p)" and "sessionScopePredicate scope (x, l, p)"
  shows "la_id l = lsel \<or> la_name l = lsel" and "pid = 0 \<or> pid = la_principal l"
proof -
  obtain t k lw where sel: "resolveLauncherSelector io (if pid \<noteq> 0 then Some pid else None) lsel s n = (t, k, Inr lw)"
    and scope: "scope = emptySessionScope\<lparr>sc_launcherID := lw_ID lw\<rparr>"
    using assms(1) by (auto simp: narrowSessionScopeToLauncher_def db_then_Inr)
  obtain l' p' where l': "launcher_with_owner (lw_ID lw) s = Some (l', p')" "la_id l' = lsel \<or> la_name l' = lsel"
      "(if pid \<noteq> 0 then Some pid else None) = None \<or> (if pid \<noteq> 0 then Some pid else None) = Some (la_principal l')"
    by (rule selector_Inr [OF sel assms(2)])
  have "se_launcher x = lw_ID lw"
    using assms(4) by (auto simp: scope sessionScopePredicate_def emptySessionScope_def split: if_splits)
  then have "l' = l" using l'(1) assms(3) by simp
  then show "la_id l = lsel \<or> la_name l = lsel" "pid = 0 \<or> pid = la_principal l" using l' by (auto split: if_splits)
qed

lemma admin_target_Inr:
  assumes "resolvePrincipalControlTarget io (Some a) u s n = (s', n', Inr t)" and "oa_class a = operatorAuthorityAdmin" and "store_ok s"
  shows "p \<in> set (principals s) \<Longrightarrow> pr_id p = ct_ID t \<Longrightarrow> pr_username p = u" and "ct_ID t \<noteq> 0"
proof -
  obtain q where q: "principal_by_username u s = Some q" "ct_ID t = pr_id q"
    using assms(1,2) by (auto simp: resolvePrincipalControlTarget_def findPrincipalIDByUsername_def db_then_Inr db_simps split: if_splits option.splits)
  then have "q \<in> set (principals s)" "pr_username q = u" by (auto simp: principal_by_username_def dest: find_Some_in)
  then show "p \<in> set (principals s) \<Longrightarrow> pr_id p = ct_ID t \<Longrightarrow> pr_username p = u" "ct_ID t \<noteq> 0"
    using q(2) store_okD(1) [OF assms(3)] unfolding principals_ok_def by (metis distinct_map_eqD, force)
qed

lemma admin_scope_Inr:
  assumes "resolveSessionListScope io (Some a) psel lsel s n = (s', n', Inr scope)" and "store_ok s"
    and lp: "launcher_with_owner (se_launcher x) s = Some (l, p)" and "oa_class a = operatorAuthorityAdmin"
  shows "sessionScopePredicate scope (x, l, p) \<Longrightarrow>
      (psel = [] \<or> pr_username p = psel) \<and> (lsel = [] \<or> la_id l = lsel \<or> la_name l = lsel)"
    and "psel = [] \<Longrightarrow> lsel = [] \<Longrightarrow> sessionScopePredicate scope (x, l, p)"
proof -
  note l = launcher_with_ownerD [OF lp]
  let ?base = "emptySessionScope\<lparr>sc_admin := True\<rparr>"
  have base: "resolveSessionControlScope (Some a) = Inr ?base" using assms(4) by (simp add: resolveSessionControlScope_def)
  obtain t k pid where head: "(if psel = [] then db_return 0
      else db_then (resolvePrincipalControlTarget io (Some a) psel) (\<lambda>target. db_return (ct_ID target))) s n = (t, k, Inr pid)"
    and tail: "(if lsel = [] then if pid \<noteq> 0 then db_return (emptySessionScope\<lparr>sc_principalID := pid\<rparr>) else db_return ?base
       else narrowSessionScopeToLauncher io pid lsel) t k = (s', n', Inr scope)"
    using assms(1) unfolding resolveSessionListScope_def base
    by (auto simp: db_then_Inr db_then_result emptySessionScope_def split: if_splits)
  have t: "t = s"
    using head readsD [OF reads_control_target] by (auto simp: db_then_Inr split: if_splits)
  have sel: "psel = [] \<and> pid = 0 \<or> pid \<noteq> 0 \<and> (pr_id p = pid \<longrightarrow> pr_username p = psel)"
    using head admin_target_Inr [OF _ assms(4,2)] l(3) by (auto simp: db_then_Inr split: if_splits)
  show "(psel = [] \<or> pr_username p = psel) \<and> (lsel = [] \<or> la_id l = lsel \<or> la_name l = lsel)"
    if within: "sessionScopePredicate scope (x, l, p)"
  proof (cases "lsel = []")
    case True
    then show ?thesis using within sel tail l(4)
      by (auto simp: sessionScopePredicate_def emptySessionScope_def split: if_splits)
  next
    case False
    then have "narrowSessionScopeToLauncher io pid lsel s k = (s', n', Inr scope)" using tail t by simp
    from narrow_Inr [OF this assms(2) lp within] show ?thesis using sel l(4) by auto
  qed
  show "sessionScopePredicate scope (x, l, p)" if "psel = []" "lsel = []"
    using that head tail by (simp add: sessionScopePredicate_def)
qed

lemma list_scope_Inr:
  assumes "resolveSessionListScope io (Some a) psel lsel s n = (s', n', Inr scope)" and "store_ok s"
    and lp: "launcher_with_owner (se_launcher x) s = Some (l, p)"
  shows "sessionScopePredicate scope (x, l, p) \<Longrightarrow>
      authority_covers a l \<and> (psel = [] \<or> pr_username p = psel) \<and> (lsel = [] \<or> la_id l = lsel \<or> la_name l = lsel)"
    and "psel = [] \<Longrightarrow> lsel = [] \<Longrightarrow> authority_covers a l \<Longrightarrow> sessionScopePredicate scope (x, l, p)"
proof -
  note l = launcher_with_ownerD [OF lp]
  note pos = store_okD(1) [OF assms(2), unfolded principals_ok_def, THEN conjunct2, THEN conjunct2, THEN conjunct1, rule_format, OF l(3)]
  obtain base where base: "resolveSessionControlScope (Some a) = Inr base"
    using assms(1) by (cases "resolveSessionControlScope (Some a)") (auto simp: resolveSessionListScope_def db_then_result)
  consider (admin) "oa_class a = operatorAuthorityAdmin" "base = emptySessionScope\<lparr>sc_admin := True\<rparr>"
    | (launcher) la where "oa_class a = operatorAuthorityLauncher" "oa_launcher a = Some la" "base = emptySessionScope\<lparr>sc_launcherID := ha_LauncherID la\<rparr>"
    | (principal) pa where "oa_class a = operatorAuthorityPrincipal" "oa_principal a = Some pa" "base = emptySessionScope\<lparr>sc_principalID := pa_PrincipalID pa\<rparr>"
    using base by (auto simp: resolveSessionControlScope_def split: if_splits option.splits)
  then have both: "(sessionScopePredicate scope (x, l, p) \<longrightarrow>
      authority_covers a l \<and> (psel = [] \<or> pr_username p = psel) \<and> (lsel = [] \<or> la_id l = lsel \<or> la_name l = lsel)) \<and>
    (psel = [] \<and> lsel = [] \<and> authority_covers a l \<longrightarrow> sessionScopePredicate scope (x, l, p))"
  proof cases
    case admin
    then show ?thesis using admin_scope_Inr [OF assms] by (auto simp: authority_covers_def)
  next
    case launcher
    then show ?thesis using assms(1) base l
      by (auto simp: resolveSessionListScope_def db_then_Inr authority_covers_def class_defs sessionScopePredicate_def emptySessionScope_def split: if_splits)
  next
    case principal
    show ?thesis
    proof (cases "lsel = []")
      case True
      then show ?thesis using principal assms(1) base l
        by (auto simp: resolveSessionListScope_def db_then_Inr authority_covers_def class_defs sessionScopePredicate_def emptySessionScope_def split: if_splits)
    next
      case False
      then have narrow: "narrowSessionScopeToLauncher io (pa_PrincipalID pa) lsel s n = (s', n', Inr scope)" and "psel = []" "pa_PrincipalID pa \<noteq> 0"
        using principal assms(1) base by (auto simp: resolveSessionListScope_def db_then_Inr emptySessionScope_def split: if_splits)
      then show ?thesis using narrow_Inr [OF narrow assms(2) lp] principal(1,2) False by (auto simp: authority_covers_def)
    qed
  qed
  show "sessionScopePredicate scope (x, l, p) \<Longrightarrow>
      authority_covers a l \<and> (psel = [] \<or> pr_username p = psel) \<and> (lsel = [] \<or> la_id l = lsel \<or> la_name l = lsel)"
    and "psel = [] \<Longrightarrow> lsel = [] \<Longrightarrow> authority_covers a l \<Longrightarrow> sessionScopePredicate scope (x, l, p)" using both by blast+
qed

section \<open>Properties of scoped access\<close>

text \<open>
  C6: The Session list of an authority never shows a foreign Session. Every listed Session is stored,
  unexpired and owned by a Launcher the authority covers, and satisfies the Principal and Launcher
  selectors of the request; without selectors every such Session is listed. The selectors of a
  request therefore only narrow what the authority may see.
\<close>

theorem session_list_within_authority:
  assumes "store_ok s" and "resolveSessionListScope io (Some a) psel lsel s n = (s', n', Inr scope)"
    and "db_value (listSessionsInScope io now scope) s k = Inr ys"
  shows "(\<forall>y\<in>set ys. \<exists>x l p. x \<in> set (sessions s) \<and> launcher_with_owner (se_launcher x) s = Some (l, p) \<and>
        y = scanSessionWithOwnership (x, l, p) \<and> unix now < se_expires x \<and> authority_covers a l \<and>
        (psel = [] \<or> pr_username p = psel) \<and> (lsel = [] \<or> la_id l = lsel \<or> la_name l = lsel)) \<and>
    (psel = [] \<and> lsel = [] \<longrightarrow> (\<forall>x l p. x \<in> set (sessions s) \<and> launcher_with_owner (se_launcher x) s = Some (l, p) \<and>
        unix now < se_expires x \<and> authority_covers a l \<longrightarrow> scanSessionWithOwnership (x, l, p) \<in> set ys))"
proof -
  have ys: "set ys = scanSessionWithOwnership ` {(x, l, p). x \<in> set (sessions s) \<and>
      launcher_with_owner (se_launcher x) s = Some (l, p) \<and> unix now < se_expires x \<and> sessionScopePredicate scope (x, l, p)}"
  proof -
    have "set ys = scanSessionWithOwnership ` set (filter (\<lambda>(x, l, p). unix now < se_expires x \<and> sessionScopePredicate scope (x, l, p))
        (sessionOwnershipProjection s))"
      using assms(3) by (auto simp: listSessionsInScope_def query_def split: if_splits)
    also have "\<dots> = scanSessionWithOwnership ` {(x, l, p). x \<in> set (sessions s) \<and>
      launcher_with_owner (se_launcher x) s = Some (l, p) \<and> unix now < se_expires x \<and> sessionScopePredicate scope (x, l, p)}"
      by (rule arg_cong [where f = "image scanSessionWithOwnership"]) (auto simp: projection_mem)
    finally show ?thesis .
  qed
  show ?thesis unfolding ys using list_scope_Inr [OF assms(2,1)] by (auto simp: image_iff) 
qed


text \<open>
  No probe outside the ceiling. Whatever a request names as workspace or filesystem roots, the
  outcome depends on the host filesystem only at spellings that lie lexically inside the effective
  roots: two hosts that agree there, on the resolution and on the type of what they resolve to, give
  the same answer, so a refused request discloses nothing about any other path.
\<close>

theorem create_probes_only_ceiling:
  assumes "\<forall>p. isWithinAnyAllowedRoot (filepath_Clean p) ceiling \<longrightarrow>
      fs_eval host p = fs_eval host' p \<and> (\<forall>q. fs_eval host p = Inr q \<longrightarrow> fs_stat host q = fs_stat host' q)"
    and "fs_cwd host = fs_cwd host'"
  shows "admitSessionWorkspace host workspace ceiling = admitSessionWorkspace host' workspace ceiling \<and>
     canonicalizeSessionFilesystemRoots host requested ceiling = canonicalizeSessionFilesystemRoots host' requested ceiling"
proof
  have ab: "host_Abs host p = host_Abs host' p" for p using assms(2) by (simp add: host_Abs_def)
  show "admitSessionWorkspace host workspace ceiling = admitSessionWorkspace host' workspace ceiling"
  proof (cases "host_Abs host workspace")
    case (Some q)
    have same: "fs_eval host q = fs_eval host' q" "\<And>z. fs_eval host' q = Inr z \<Longrightarrow> fs_stat host z = fs_stat host' z"
      if "isWithinAnyAllowedRoot (filepath_Clean q) ceiling" using assms(1) that by auto
    show ?thesis
      unfolding admitSessionWorkspace_def ab [symmetric] Some Let_def option.case
      by (cases "isWithinAnyAllowedRoot (filepath_Clean q) ceiling") (auto simp: same simp del: validateHostPathText_Inr split: sum.split)
  qed (simp add: admitSessionWorkspace_def ab [symmetric])
  have one: "canonicalize_root host ceiling e = canonicalize_root host' ceiling e" for e
  proof (cases "filepath_IsAbs (fr_Path e) \<and> isWithinAnyAllowedRoot (filepath_Clean (fr_Path e)) ceiling")
    case True
    then have same: "fs_eval host (filepath_Clean (fr_Path e)) = fs_eval host' (filepath_Clean (fr_Path e))"
      "\<And>z. fs_eval host' (filepath_Clean (fr_Path e)) = Inr z \<Longrightarrow> fs_stat host z = fs_stat host' z"
      using assms(1) [rule_format, of "filepath_Clean (fr_Path e)"] canonical_path_Clean [of "fr_Path e"] by auto
    then show ?thesis using True by (auto simp: canonicalize_root_def Let_def parseAllowedRootAccess_def simp del: validateHostPathText_Inr split: sum.split)
  qed (auto simp: canonicalize_root_def Let_def parseAllowedRootAccess_def simp del: validateHostPathText_Inr split: sum.split)
  have "canonicalize_roots_loop host ceiling es = canonicalize_roots_loop host' ceiling es" for es
    by (induction es) (simp_all add: one)
  then show "canonicalizeSessionFilesystemRoots host requested ceiling = canonicalizeSessionFilesystemRoots host' requested ceiling"
    by (simp add: canonicalizeSessionFilesystemRoots_def)
qed


section \<open>Witnesses\<close>

abbreviation demo_scope :: sessionControlScope where
  "demo_scope \<equiv> emptySessionScope\<lparr>sc_launcherID := la_id demo_launcher\<rparr>"

theorem session_list_within_authority_witness:
  "resolveSessionListScope fault_free (Some demo_authority) [] ''ci'' demo_live 0 = (demo_live, 2, Inr demo_scope) \<and>
   db_value (listSessionsInScope fault_free 15000000000 demo_scope) demo_live 0 =
     Inr [scanSessionWithOwnership (demo_session, demo_launcher, demo_principal)] \<and>
   (\<exists>l. authority_covers demo_authority l \<and> la_name l = ''ci'')"
proof -
  have scope: "resolveSessionListScope fault_free (Some demo_authority) [] ''ci'' demo_live 0 = (demo_live, 2, Inr demo_scope)"
    and list: "db_value (listSessionsInScope fault_free 15000000000 demo_scope) demo_live 0 =
     Inr [scanSessionWithOwnership (demo_session, demo_launcher, demo_principal)]" by code_simp+
  from session_list_within_authority [OF demo_live_ok scope list] obtain l where
    "authority_covers demo_authority l" "la_id l = ''ci'' \<or> la_name l = ''ci''" "l \<in> set (launchers demo_live)"
    by (auto dest: launcher_with_ownerD(1))
  then show ?thesis using scope list by (auto simp: demo_live_def demo_owned_def demo_launcher_def)
qed


definition closed_fs :: host_fs where
  "closed_fs = demo_fs\<lparr>fs_eval := (\<lambda>p. if isWithinAnyAllowedRoot (filepath_Clean p) [''/home''] then Inr p else Inl ProbePermission)\<rparr>"

theorem create_probes_only_ceiling_witness:
  "admitSessionWorkspace demo_fs ''/etc/ssh'' [''/home''] = admitSessionWorkspace closed_fs ''/etc/ssh'' [''/home''] \<and>
   admitSessionWorkspace closed_fs ''/home/alice'' [''/home''] = Inr ''/home/alice'' \<and> fs_eval demo_fs ''/etc/ssh'' \<noteq> fs_eval closed_fs ''/etc/ssh''"
proof -
  have "\<forall>p. isWithinAnyAllowedRoot (filepath_Clean p) [''/home''] \<longrightarrow>
      fs_eval demo_fs p = fs_eval closed_fs p \<and> (\<forall>q. fs_eval demo_fs p = Inr q \<longrightarrow> fs_stat demo_fs q = fs_stat closed_fs q)"
    "fs_cwd demo_fs = fs_cwd closed_fs"
    by (simp_all add: closed_fs_def demo_fs_def)
  then have "admitSessionWorkspace demo_fs ''/etc/ssh'' [''/home''] = admitSessionWorkspace closed_fs ''/etc/ssh'' [''/home'']"
    by (rule create_probes_only_ceiling [THEN conjunct1])
  moreover have "admitSessionWorkspace closed_fs ''/home/alice'' [''/home''] = Inr ''/home/alice''"
    "fs_eval demo_fs ''/etc/ssh'' \<noteq> fs_eval closed_fs ''/etc/ssh''" by code_simp+
  ultimately show ?thesis by blast
qed


end
