(* ===== verification/Lifecycle_Safety.thy ===== *)
theory Lifecycle_Safety
  imports Lifecycle
begin

text \<open>
  What the lifecycle mutations guarantee under database faults, Docker failures and the concurrent
  Operations of other requests: rules for their programs, the admission gates of disabled Launchers,
  and checked deletion.
\<close>

section \<open>Programs and interference\<close>

text \<open>
  \<^term>\<open>valid P m Q\<close>: started in a state of P, the program ends in a state of Q. What the mutations
  rely on of other goroutines: they take supervisor steps, but only the holder of
  \<^verbatim>\<open>lifecycleMu\<close> opens or closes an admission gate.
\<close>

named_theorems lc_rules \<open>rules for the steps of a lifecycle program\<close>

definition rely :: "outside \<Rightarrow> bool" where
  "rely x \<longleftrightarrow> (\<forall>n w. (\<lambda>u v. sup_step u v \<and> quiesced v = quiesced u)\<^sup>*\<^sup>* w (x_others x n w))"

lemma valid_db:
  assumes "\<And>a s n r. P a \<Longrightarrow> m (a_store a) (a_calls a) = (s, n, r) \<Longrightarrow> Q r (a\<lparr>a_store := s, a_calls := n\<rparr>)"
  shows "valid P (db_call m) Q"
  using assms by (auto simp: valid_def db_call_def split: prod.split)

lemma others_quiesced: "rely x \<Longrightarrow> quiesced (x_others x n w) = quiesced w"
proof -
  assume "rely x"
  then have "(\<lambda>u v. sup_step u v \<and> quiesced v = quiesced u)\<^sup>*\<^sup>* w (x_others x n w)" by (simp add: rely_def)
  then show ?thesis by (induction rule: rtranclp_induct) auto
qed

lemma others_inv: "rely x \<Longrightarrow> sup_inv w \<Longrightarrow> sup_inv (x_others x n w)"
proof -
  assume "rely x" and inv: "sup_inv w"
  then have "(\<lambda>u v. sup_step u v \<and> quiesced v = quiesced u)\<^sup>*\<^sup>* w (x_others x n w)" by (simp add: rely_def)
  then show ?thesis using inv by (induction rule: rtranclp_induct) (auto intro: inv_sup_step)
qed

lemma others_idle:
  assumes "rely x" and "sup_inv w" and "quiesced w lid" and "\<not> hasRunningForLauncher lid w"
  shows "\<not> hasRunningForLauncher lid (x_others x n w)"
proof -
  have "(\<lambda>u v. sup_step u v \<and> quiesced v = quiesced u)\<^sup>*\<^sup>* w (x_others x n w)" using assms(1) by (simp add: rely_def)
  then have "(\<lambda>u v. sup_step u v \<and> quiesced v lid)\<^sup>*\<^sup>* w (x_others x n w)"
    using assms(3)
  proof (induction rule: rtranclp_induct)
    case (step y z)
    then have "quiesced y lid" by (metis (mono_tags, lifting) rtranclp.cases)
    then show ?case using step by (metis (mono_tags, lifting) rtranclp.rtrancl_into_rtrancl)
  qed simp
  from quiesced_idle_steps [OF this assms(2-4)] show ?thesis by blast
qed

lemma running_ignores_gates [simp]:
  "hasRunningForLauncher lid (w\<lparr>quiesced := q\<rparr>) = hasRunningForLauncher lid w"
  by (simp add: hasRunningForLauncher_def)

lemma valid_sup:
  assumes "\<And>a. P a \<Longrightarrow> case f (x_others x (a_calls a) (a_sup a)) of (w, r) \<Rightarrow> Q r (a\<lparr>a_sup := w, a_calls := Suc (a_calls a)\<rparr>)"
  shows "valid P (sup_call x f) Q"
  using assms by (fastforce simp: valid_def sup_call_def split: prod.splits)

section \<open>Admission is never open for a disabled Launcher\<close>

definition app_ok :: "app \<Rightarrow> bool" where
  "app_ok a \<longleftrightarrow> store_ok (a_store a) \<and> sup_inv (a_sup a)"

definition guarded :: "string \<Rightarrow> app \<Rightarrow> bool" where
  "guarded lid a \<longleftrightarrow> (launcher_closed (a_store a) lid \<longrightarrow> quiesced (a_sup a) lid)"

text \<open>With the flag off, only the integrity of store and supervisor is tracked.\<close>

abbreviation safe :: "bool \<Rightarrow> string \<Rightarrow> app \<Rightarrow> bool" where
  "safe g lid a \<equiv> app_ok a \<and> (g \<longrightarrow> guarded lid a)"

lemma app_fields [simp]:
  "app_ok (a\<lparr>a_released := rs\<rparr>) = app_ok a" "app_ok (a\<lparr>a_removed := rs\<rparr>) = app_ok a" "app_ok (a\<lparr>a_calls := n\<rparr>) = app_ok a"
  "guarded lid (a\<lparr>a_released := rs\<rparr>) = guarded lid a" "guarded lid (a\<lparr>a_removed := rs\<rparr>) = guarded lid a"
  "guarded lid (a\<lparr>a_calls := n\<rparr>) = guarded lid a"
  by (simp_all add: app_ok_def guarded_def)

lemma inv_ignores_gates [simp]: "sup_inv (w\<lparr>quiesced := q\<rparr>) = sup_inv w"
proof
  show "sup_inv w \<Longrightarrow> sup_inv (w\<lparr>quiesced := q\<rparr>)" by (rule inv_gates [of w]) simp_all
  show "sup_inv (w\<lparr>quiesced := q\<rparr>) \<Longrightarrow> sup_inv w" by (rule inv_gates [of "w\<lparr>quiesced := q\<rparr>" w]) simp_all
qed

lemmas gate_defs = quiesceLauncher_def setQuiesced_def app_ok_def guarded_def

lemma quiesce_valid:
  assumes "rely x"
  shows "valid (\<lambda>a. safe g lid a \<and> (\<forall>k\<in>K. quiesced (a_sup a) k) \<and> R (a_store a)) (quiesce x i)
    (\<lambda>_ a. safe g lid a \<and> (\<forall>k\<in>insert i K. quiesced (a_sup a) k) \<and> R (a_store a))"
  unfolding quiesce_def
  by (rule valid_sup) (use others_quiesced [OF assms] others_inv [OF assms] in \<open>auto simp: gate_defs\<close>)

lemma release_valid: "(\<And>a rs. P (a\<lparr>a_released := rs\<rparr>) = P a) \<Longrightarrow> valid P (releaseSessionBindings ids) (\<lambda>_. P)"
  by (simp add: valid_def releaseSessionBindings_def)

lemma set_gate_valid:
  assumes "rely x"
  shows "valid (\<lambda>a. safe g lid a \<and> R (a_store a) \<and> closed = launcher_closed (a_store a) i)
    (sup_call x (\<lambda>w. (setQuiesced i closed w, ()))) (\<lambda>_ a. safe g lid a \<and> R (a_store a))"
  by (rule valid_sup) (use others_quiesced [OF assms] others_inv [OF assms] in \<open>auto simp: gate_defs\<close>)

lemma sync_valid:
  assumes "rely x"
  shows "valid (\<lambda>a. safe g lid a \<and> R (a_store a)) (restoreLauncherAdmissionAfterRefusal x i) (\<lambda>_ a. safe g lid a \<and> R (a_store a))"
proof -
  let ?I = "\<lambda>a. safe g lid a \<and> R (a_store a)"
  have "valid ?I (db_call (effectiveLauncherClosed (x_db x) i))
      (\<lambda>r a. ?I a \<and> (case r of Inl _ \<Rightarrow> True | Inr c \<Rightarrow> c = launcher_closed (a_store a) i))"
    by (rule valid_db) (auto simp: effectiveLauncherClosed_def query_def app_ok_def guarded_def split: if_splits)
  then have "valid ?I (syncLauncherAdmission x i) (\<lambda>_. ?I)"
    unfolding syncLauncherAdmission_def
  proof (rule valid_or_return)
    show "valid (\<lambda>a. ?I a \<and> (case Inr c of Inl _ \<Rightarrow> True | Inr c \<Rightarrow> c = launcher_closed (a_store a) i))
        (do { sup_call x (\<lambda>w. (setQuiesced i c w, ())); ret (Inr ()) }) (\<lambda>_. ?I)" for c
      by (rule valid_bind [where R = "\<lambda>_. ?I"])
        (auto intro: valid_ret valid_conseq [OF set_gate_valid [OF assms, of g lid R c i]])
  qed simp
  then show ?thesis
    unfolding restoreLauncherAdmissionAfterRefusal_def by (rule valid_bind) (auto intro: valid_ret)
qed

lemma restore_all_valid:
  assumes "rely x"
  shows "valid (\<lambda>a. safe g lid a \<and> R (a_store a)) (restoreLauncherAdmissionAfterPrincipalRefusal x ls) (\<lambda>_ a. safe g lid a \<and> R (a_store a))"
  unfolding restoreLauncherAdmissionAfterPrincipalRefusal_def by (intro valid_each sync_valid assms)

lemma quiesce_all_valid:
  assumes "rely x"
  shows "valid (\<lambda>a. safe g lid a \<and> R (a_store a)) (st_each (quiesce x) ls)
    (\<lambda>_ a. safe g lid a \<and> (\<forall>k\<in>set ls. quiesced (a_sup a) k) \<and> R (a_store a))"
proof -
  have "valid (\<lambda>a. safe g lid a \<and> (\<forall>k\<in>K. quiesced (a_sup a) k) \<and> R (a_store a)) (st_each (quiesce x) ls)
      (\<lambda>_ a. safe g lid a \<and> (\<forall>k\<in>K \<union> set ls. quiesced (a_sup a) k) \<and> R (a_store a))" for K
  proof (induction ls arbitrary: K)
    case (Cons i ls)
    show ?case
      unfolding st_each.simps by (rule valid_bind [OF quiesce_valid [OF assms]]) (use Cons [of "insert i K"] in simp)
  qed (auto intro: valid_ret)
  from this [of "{}"] show ?thesis by simp
qed

subsection \<open>Launcher changes\<close>

lemma persist_launcher_keeps [db_intros]: "keeps store_ok (persistLauncherChange io i name enabled)"
proof -
  have "keeps store_ok (exec io (\<lambda>s. no_result (or_exists ErrLauncherExists (rename_launcher i nm s))))" for nm
    by (rule keeps_exec) (auto intro: rename_launcher_ok)
  moreover have "keeps store_ok (exec io (\<lambda>s. Inr (s\<lparr>launchers := update_rows P (\<lambda>l. l\<lparr>la_enabled := b\<rparr>) (launchers s)\<rparr>, ())))" for P b
    by (rule keeps_exec) (auto intro!: update_launchers_ok)
  ultimately show ?thesis
    unfolding persistLauncherChange_def launcher_change_tx_def launcher_enabled_tx_def by (intro db_intros)
qed

lemma relaunched_fields [simp]:
  "principals (relaunched i name enabled s) = principals s"
  "principal_by_username u (relaunched i name enabled s) = principal_by_username u s"
  "launcher_ids_of j (relaunched i name enabled s) = launcher_ids_of j s"
proof -
  have "filter (\<lambda>l. la_principal l = j) (update_rows (\<lambda>l. la_id l = i) (changed_launcher name enabled) ls) =
      map (\<lambda>l. if la_id l = i then changed_launcher name enabled l else l) (filter (\<lambda>l. la_principal l = j) ls)" for ls
    by (induction ls) (auto simp: update_rows_def changed_launcher_def)
  then show "launcher_ids_of j (relaunched i name enabled s) = launcher_ids_of j s"
    by (simp add: launcher_ids_of_def relaunched_def changed_launcher_def)
qed (simp_all add: relaunched_def principal_by_username_def)

lemma relaunched_closed:
  assumes "launcher_closed (relaunched i name enabled s) k" and "\<not> launcher_closed s k"
  shows "k = i \<and> enabled = Some False"
proof -
  have "launcher_with_owner k (relaunched i name enabled s) =
      map_option (\<lambda>(l, p). (if k = i then changed_launcher name enabled l else l, p)) (launcher_with_owner k s)"
    by (rule owner_of_updated) (simp_all add: relaunched_def, simp_all add: changed_launcher_def)
  then show ?thesis
    using assms by (auto simp: launcher_closed_def changed_launcher_def split: option.splits if_splits)
qed

lemma persist_launcher_valid:
  assumes "\<And>s. R s \<Longrightarrow> R (relaunched i name enabled s)"
  shows "valid (\<lambda>a. safe g lid a \<and> (enabled = Some False \<longrightarrow> quiesced (a_sup a) i) \<and> (b \<longrightarrow> quiesced (a_sup a) lid) \<and> R (a_store a))
    (db_call (persistLauncherChange io i name enabled))
    (\<lambda>r a. safe g lid a \<and> (b \<longrightarrow> quiesced (a_sup a) lid) \<and> R (a_store a) \<and>
       (case r of Inl _ \<Rightarrow> True | Inr res \<Rightarrow> lc_AdmissionClosed res = map_option (\<lambda>_. launcher_closed (a_store a) i) enabled))"
proof (rule valid_db)
  fix a s n r
  assume pre: "safe g lid a \<and> (enabled = Some False \<longrightarrow> quiesced (a_sup a) i) \<and> (b \<longrightarrow> quiesced (a_sup a) lid) \<and> R (a_store a)"
    and run: "persistLauncherChange io i name enabled (a_store a) (a_calls a) = (s, n, r)"
  have ok: "store_ok (a_store a)" using pre by (simp add: app_ok_def)
  then have s: "store_ok s" using keepsD [OF persist_launcher_keeps _ run] by blast
  show "safe g lid (a\<lparr>a_store := s, a_calls := n\<rparr>) \<and> (b \<longrightarrow> quiesced (a_sup (a\<lparr>a_store := s, a_calls := n\<rparr>)) lid) \<and>
      R (a_store (a\<lparr>a_store := s, a_calls := n\<rparr>)) \<and>
      (case r of Inl _ \<Rightarrow> True | Inr res \<Rightarrow>
         lc_AdmissionClosed res = map_option (\<lambda>_. launcher_closed (a_store (a\<lparr>a_store := s, a_calls := n\<rparr>)) i) enabled)"
  proof (cases rule: persist_launcher_store [OF ok run])
    case 2
    have "g \<longrightarrow> launcher_closed s lid \<longrightarrow> quiesced (a_sup a) lid"
      using relaunched_closed [of i name enabled "a_store a" lid] pre unfolding 2(1) guarded_def by blast
    then show ?thesis using pre s assms 2 by (auto simp: app_ok_def guarded_def split: sum.split)
  qed (use pre in \<open>auto simp: app_ok_def guarded_def split: sum.split\<close>)
qed

lemma valid_reads:
  assumes "reads m" and "\<And>a n. P (a\<lparr>a_calls := n\<rparr>) = P a"
  shows "valid P (db_call m) (\<lambda>_. P)"
proof (rule valid_db)
  fix a s n r
  assume "P a" and "m (a_store a) (a_calls a) = (s, n, r)"
  moreover from this(2) have "s = a_store a" by (rule readsD [OF assms(1)])
  ultimately show "P (a\<lparr>a_store := s, a_calls := n\<rparr>)" using assms(2) [where a = a and n = n] by simp
qed

lemma update_launcher_safe:
  assumes "rely x"
  shows "valid (safe g lid) (updateLauncherWithLifecycle x i name enabled) (\<lambda>_. safe g lid)"
  unfolding updateLauncherWithLifecycle_def
proof (rule valid_or_return [where R = "\<lambda>_. safe g lid"], goal_cases)
  case 1
  show ?case by (rule valid_reads) (simp_all add: launcher_reads)
next
  have q: "valid (safe g lid) (st_when (enabled = Some False) (quiesce x i))
      (\<lambda>_ a. safe g lid a \<and> (enabled = Some False \<longrightarrow> quiesced (a_sup a) i))"
    by (rule valid_when) (auto intro: valid_conseq [OF quiesce_valid [OF assms, of g lid "{}" "\<lambda>_. True" i]])
  have p: "valid (\<lambda>a. safe g lid a \<and> (enabled = Some False \<longrightarrow> quiesced (a_sup a) i))
      (db_call (persistLauncherChange (x_db x) i name enabled))
      (\<lambda>r a. safe g lid a \<and> (case r of Inl _ \<Rightarrow> True | Inr res \<Rightarrow>
         lc_AdmissionClosed res = map_option (\<lambda>_. launcher_closed (a_store a) i) enabled))"
    by (rule valid_conseq [OF persist_launcher_valid [of "\<lambda>_. True" i name enabled g lid False]]) auto
  have restore: "valid (safe g lid) (st_when b (restoreLauncherAdmissionAfterRefusal x i)) (\<lambda>_. safe g lid)" for b
    by (rule valid_when) (auto intro: valid_conseq [OF sync_valid [OF assms, of g lid "\<lambda>_. True" i]])
  have rel: "valid (\<lambda>a. safe g lid a \<and> Q (a_store a)) (st_when b (releaseSessionBindings ids)) (\<lambda>_ a. safe g lid a \<and> Q (a_store a))" for b ids Q
    by (rule valid_when) (auto intro: release_valid)
  have gate: "valid (\<lambda>a. safe g lid a \<and> c = map_option (\<lambda>_. launcher_closed (a_store a) i) enabled)
      (case (enabled, c) of (Some True, Some closed) \<Rightarrow> sup_call x (\<lambda>w. (setQuiesced i closed w, ())) | _ \<Rightarrow> ret ()) (\<lambda>_. safe g lid)" for c
    by (auto intro!: valid_ret intro: valid_conseq [OF set_gate_valid [OF assms, of g lid "\<lambda>_. True"]] split: option.splits bool.splits)
  case (3 cur)
  show ?case
  proof (rule valid_bind [OF q], rule valid_bind [OF p], goal_cases)
    case (1 u r)
    show ?case
    proof (cases r)
      case (Inl e)
      then show ?thesis by (auto intro!: valid_bind [OF restore] valid_ret)
    next
      case (Inr result)
      show ?thesis
        unfolding Inr sum.case
        by (rule valid_bind [OF rel [of "\<lambda>s. lc_AdmissionClosed result = map_option (\<lambda>_. launcher_closed s i) enabled"]])
          (rule valid_bind [OF gate], rule valid_ret, simp)
    qed
  qed
qed simp

subsection \<open>Deletion and the Principal transitions\<close>

lemma disable_launcher_valid:
  assumes "rely x" and "\<And>s. R s \<Longrightarrow> R (relaunched i None (Some False) s)"
  shows "valid (\<lambda>a. safe g lid a \<and> (b \<longrightarrow> quiesced (a_sup a) lid) \<and> R (a_store a)) (disableLauncherLocked x i)
    (\<lambda>r a. safe g lid a \<and> R (a_store a) \<and> (case r of Inl _ \<Rightarrow> True | Inr _ \<Rightarrow> b \<longrightarrow> quiesced (a_sup a) lid))"
proof -
  let ?I = "\<lambda>a. safe g lid a \<and> (b \<longrightarrow> quiesced (a_sup a) lid) \<and> R (a_store a)"
  have q: "valid ?I (quiesce x i) (\<lambda>_ a. ?I a \<and> quiesced (a_sup a) i)"
    by (rule valid_conseq [OF quiesce_valid [OF assms(1), of g lid "{k. k = lid \<and> b}" R i]]) auto
  have rel: "valid ?I (st_when c (releaseSessionBindings ids)) (\<lambda>_. ?I)" for c ids
    by (rule valid_when) (auto intro: release_valid)
  have p: "valid (\<lambda>a. ?I a \<and> quiesced (a_sup a) i) (applyLauncherEnabledChange x i False) (\<lambda>_. ?I)"
    unfolding applyLauncherEnabledChange_def
  proof (rule valid_or_return [where R = "\<lambda>_. ?I"])
    show "valid (\<lambda>a. ?I a \<and> quiesced (a_sup a) i) (db_call (persistLauncherChange (x_db x) i None (Some False))) (\<lambda>_. ?I)"
      by (rule valid_conseq [OF persist_launcher_valid [where R = R and lid = lid and b = b]]) (use assms(2) in auto)
  qed (simp, rule valid_bind [OF rel], rule valid_ret, simp)
  show ?thesis
    unfolding disableLauncherLocked_def
  proof (rule valid_bind [OF q], rule valid_bind [OF p], goal_cases)
    case (1 u r)
    show ?case
    proof (cases r)
      case (Inl e)
      show ?thesis
        unfolding Inl sum.case
        by (rule valid_bind [where R = "\<lambda>_ a. safe g lid a \<and> R (a_store a)"])
          (auto intro: valid_ret valid_conseq [OF sync_valid [OF assms(1), of g lid R i]])
    next
      case (Inr res)
      then show ?thesis by (auto intro!: valid_ret)
    qed
  qed
qed

text \<open>Programs that change neither the store nor a gate.\<close>

definition untouched :: "app \<Rightarrow> app \<Rightarrow> bool" where
  "untouched a b \<longleftrightarrow> a_store b = a_store a \<and> quiesced (a_sup b) = quiesced (a_sup a) \<and> (sup_inv (a_sup a) \<longrightarrow> sup_inv (a_sup b))"

abbreviation inspects :: "(app, 'a) state \<Rightarrow> bool" where
  "inspects m \<equiv> state_io_rel untouched m"

lemma inspects_bind:
  assumes "inspects m" and "\<And>r. inspects (f r)"
  shows "inspects (State_Monad.bind m f)"
proof (rule state_io_relI)
  fix r a b
  assume "run_state (State_Monad.bind m f) a = (r, b)"
  then obtain q c where "run_state m a = (q, c)" "run_state (f q) c = (r, b)" by (auto split: prod.splits)
  then have "untouched a c" "untouched c b" using assms state_io_relD by metis+
  then show "untouched a b" by (simp add: untouched_def)
qed

lemma inspects_ret: "inspects (ret r)"
  by (simp add: state_io_rel_def untouched_def)

lemma inspects_or_return: "inspects m \<Longrightarrow> (\<And>r. inspects (f r)) \<Longrightarrow> inspects (or_return m f)"
  unfolding or_return_def by (intro inspects_bind) (auto intro: inspects_ret split: sum.split)

lemma inspects_docker: "inspects (docker_ps x i)" "inspects (docker_rm x c)"
  by (simp_all add: state_io_rel_def untouched_def docker_ps_def docker_rm_def)

lemma inspect_runtime_inspects:
  assumes "rely x"
  shows "inspects (inspectLauncherRuntime x i)"
proof -
  have "inspects (sup_call x (\<lambda>w. (w, hasRunningForLauncher i w)))"
    using others_quiesced [OF assms] others_inv [OF assms] by (auto simp: state_io_rel_def untouched_def sup_call_def)
  then show ?thesis
    unfolding inspectLauncherRuntime_def inspectHelperContainersForLauncher_def
    by (intro inspects_bind) (auto intro!: inspects_bind inspects_or_return inspects_docker inspects_ret)
qed

lemma remove_containers_inspects: "inspects (removeStaleHelperContainers x cs)"
  by (induction cs) (auto intro!: inspects_bind inspects_docker inspects_ret)

lemma check_phase_inspects:
  assumes "rely x"
  shows "inspects (inspect_launchers x ls)" and "inspects (remove_stale x is)"
proof -
  show "inspects (inspect_launchers x ls)"
    by (induction ls) (auto intro!: inspects_or_return inspects_ret inspect_runtime_inspects [OF assms])
  show "inspects (remove_stale x is)"
    by (induction "is") (auto intro!: inspects_or_return inspects_ret remove_containers_inspects)
qed

lemma inspects_valid:
  assumes "inspects m"
  shows "valid (\<lambda>a. safe g lid a \<and> (\<forall>k\<in>K. quiesced (a_sup a) k) \<and> R (a_store a)) m
    (\<lambda>_ a. safe g lid a \<and> (\<forall>k\<in>K. quiesced (a_sup a) k) \<and> R (a_store a))"
  using assms unfolding valid_def state_io_rel_def untouched_def by (auto simp: app_ok_def guarded_def split: prod.splits)

definition owned_launchers :: "string \<Rightarrow> string list \<Rightarrow> store \<Rightarrow> bool" where
  "owned_launchers u ls s \<longleftrightarrow> (\<exists>p. principal_by_username u s = Some p \<and> launcher_ids_of (pr_id p) s = ls)"

lemma principal_launchers_valid:
  "valid (safe g lid) (db_call (principalLaunchersByUsername io u))
    (\<lambda>r a. safe g lid a \<and> (case r of Inl _ \<Rightarrow> True | Inr ls \<Rightarrow> owned_launchers u ls (a_store a)))"
proof (rule valid_db)
  fix a s n r
  assume a: "safe g lid a" and run: "principalLaunchersByUsername io u (a_store a) (a_calls a) = (s, n, r)"
  have "reads (principalLaunchersByUsername io u)"
    unfolding principalLaunchersByUsername_def principalLaunchers_def findPrincipalIDByUsername_def by (intro db_intros)
  from readsD [OF this run] have "s = a_store a" .
  with a run show "safe g lid (a\<lparr>a_store := s, a_calls := n\<rparr>) \<and>
      (case r of Inl _ \<Rightarrow> True | Inr ls \<Rightarrow> owned_launchers u ls (a_store (a\<lparr>a_store := s, a_calls := n\<rparr>)))"
    by (auto simp: principalLaunchersByUsername_def principalLaunchers_def findPrincipalIDByUsername_def db_then_Inr db_simps
        owned_launchers_def split: sum.split if_splits option.splits)
qed

lemma still_open:
  assumes "store_ok s" and "store_ok s'" and "\<not> launcher_closed s k"
    and "\<And>l p. l \<in> set (launchers s) \<Longrightarrow> la_id l = k \<Longrightarrow> p \<in> set (principals s) \<Longrightarrow> pr_id p = la_principal l \<Longrightarrow>
      pr_enabled p \<Longrightarrow> la_enabled l \<Longrightarrow> l \<in> set (launchers s') \<and> (\<exists>q\<in>set (principals s'). pr_id q = la_principal l \<and> pr_enabled q)"
  shows "\<not> launcher_closed s' k"
proof -
  obtain l p where "launcher_with_owner k s = Some (l, p)" "pr_enabled p" "la_enabled l"
    using assms(3) by (auto simp: launcher_closed_def split: option.splits)
  moreover from this(1) have lp: "l \<in> set (launchers s)" "la_id l = k" "p \<in> set (principals s)" "pr_id p = la_principal l"
    using launcher_with_owner_iff [OF assms(1)] by blast+
  ultimately obtain q where "l \<in> set (launchers s')" "q \<in> set (principals s')" "pr_id q = la_principal l" "pr_enabled q" "la_enabled l"
    using assms(4) by blast
  then show ?thesis using closed_of_row [OF assms(2)] lp(2) by metis
qed

lemma reenabled_member:
  "p \<in> set (principals s) \<Longrightarrow> (if pr_id p = i then p\<lparr>pr_enabled := b\<rparr> else p) \<in> set (principals (reenabled i b s))"
  by (auto simp: reenabled_def update_rows_def)

lemma reenabled_closed:
  assumes "store_ok s" and "launcher_closed (reenabled i b s) k" and "\<not> launcher_closed s k"
  shows "\<not> b \<and> k \<in> set (launcher_ids_of i s)"
proof (rule ccontr)
  assume *: "\<not> (\<not> b \<and> k \<in> set (launcher_ids_of i s))"
  have "\<not> launcher_closed (reenabled i b s) k"
  proof (rule still_open [OF assms(1) reenabled_ok [OF assms(1)] assms(3)])
    fix l p
    assume lp: "l \<in> set (launchers s)" "la_id l = k" "p \<in> set (principals s)" "pr_id p = la_principal l" "pr_enabled p" "la_enabled l"
    let ?q = "if pr_id p = i then p\<lparr>pr_enabled := b\<rparr> else p"
    have "?q \<in> set (principals (reenabled i b s))" using reenabled_member [OF lp(3)] .
    moreover have "pr_id p = i \<Longrightarrow> b" using * lp by (auto simp: launcher_ids_of_def)
    ultimately show "l \<in> set (launchers (reenabled i b s)) \<and>
        (\<exists>q\<in>set (principals (reenabled i b s)). pr_id q = la_principal l \<and> pr_enabled q)"
      using lp by (intro conjI bexI [of _ ?q]) (auto simp: reenabled_def)
  qed
  then show False using assms(2) by blast
qed

lemma delete_principal_closed:
  assumes "store_ok s" and "store_ok s'" and "delete_principal_row i (delete_sessions Q s) = Inr s'"
    and "launcher_closed s' k" and "\<not> launcher_closed s k"
  shows "k \<in> set (launcher_ids_of i s)"
proof (rule ccontr)
  assume *: "k \<notin> set (launcher_ids_of i s)"
  have s': "launchers s' = filter (\<lambda>l. la_principal l \<noteq> i) (launchers s)" "principals s' = filter (\<lambda>p. pr_id p \<noteq> i) (principals s)"
    using assms(3) by (auto simp: delete_principal_row_def delete_sessions_def Let_def split: if_splits)
  have "\<not> launcher_closed s' k"
    by (rule still_open [OF assms(1,2,5)]) (use * in \<open>auto simp: s' launcher_ids_of_def\<close>)
  then show False using assms(4) by blast
qed

lemma persist_principal_valid:
  "valid (\<lambda>a. safe g lid a \<and> (b \<or> owned_launchers u ls (a_store a) \<and> (\<forall>k\<in>set ls. quiesced (a_sup a) k)))
    (db_call (persistPrincipalEnabledChange io u b))
    (\<lambda>r a. safe g lid a \<and> (case r of Inl _ \<Rightarrow> True | Inr res \<Rightarrow> b \<longrightarrow>
       (\<forall>la\<in>set (ec_LauncherAdmissions res). ad_Closed la = launcher_closed (a_store a) (ad_LauncherID la))))"
proof (rule valid_db)
  fix a s n r
  assume pre: "safe g lid a \<and> (b \<or> owned_launchers u ls (a_store a) \<and> (\<forall>k\<in>set ls. quiesced (a_sup a) k))"
    and run: "persistPrincipalEnabledChange io u b (a_store a) (a_calls a) = (s, n, r)"
  have ok: "store_ok (a_store a)" using pre by (simp add: app_ok_def)
  have s: "store_ok s" using keepsD [OF principal_ops_keep(1) ok run] .
  show "safe g lid (a\<lparr>a_store := s, a_calls := n\<rparr>) \<and> (case r of Inl _ \<Rightarrow> True | Inr res \<Rightarrow> b \<longrightarrow>
       (\<forall>la\<in>set (ec_LauncherAdmissions res). ad_Closed la = launcher_closed (a_store (a\<lparr>a_store := s, a_calls := n\<rparr>)) (ad_LauncherID la)))"
  proof (cases rule: persist_principal_store [OF ok run])
    case 1
    then show ?thesis using pre by (auto simp: app_ok_def guarded_def split: sum.split)
  next
    case (2 p)
    have "g \<longrightarrow> launcher_closed s lid \<longrightarrow> quiesced (a_sup a) lid"
      using reenabled_closed [OF ok, of "pr_id p" b lid] pre 2(1,2) unfolding guarded_def owned_launchers_def
      by (auto split: if_splits)
    moreover have "ad_Closed la = launcher_closed s (ad_LauncherID la)"
      if r: "r = Inr res" and b and la: "la \<in> set (ec_LauncherAdmissions res)" for res la
    proof -
      obtain l where l: "l \<in> set (launchers (a_store a))" "la_principal l = pr_id p" "la = \<lparr>ad_LauncherID = la_id l, ad_Closed = (\<not> la_enabled l)\<rparr>"
        using 2(3) [OF r] la \<open>b\<close> by auto
      have p: "p \<in> set (principals (a_store a))" using 2(1) principal_lookup_iff [OF ok] by blast
      have "l \<in> set (launchers s) \<and> (\<exists>q\<in>set (principals s). pr_id q = la_principal l \<and> pr_enabled q)"
        using l p 2(2) \<open>b\<close> reenabled_member [OF p, of "pr_id p" True]
        by (cases "pr_enabled p") (auto intro: bexI [of _ p] bexI [of _ "p\<lparr>pr_enabled := True\<rparr>"] simp: reenabled_def)
      then show ?thesis using closed_of_row [OF s] l(3) by auto
    qed
    ultimately show ?thesis using pre s by (auto simp: app_ok_def guarded_def split: sum.split)
  qed
qed

lemma delete_launcher_row_valid:
  "valid (\<lambda>a. safe g lid a \<and> (i = lid \<longrightarrow> quiesced (a_sup a) lid)) (db_call (deleteLauncherRow io i)) (\<lambda>_. safe g lid)"
proof (rule valid_db)
  fix a s n r
  assume pre: "safe g lid a \<and> (i = lid \<longrightarrow> quiesced (a_sup a) lid)" and run: "deleteLauncherRow io i (a_store a) (a_calls a) = (s, n, r)"
  have ok: "store_ok (a_store a)" using pre by (simp add: app_ok_def)
  show "safe g lid (a\<lparr>a_store := s, a_calls := n\<rparr>)"
  proof (cases rule: delete_launcher_row_store [OF run])
    case 1
    then show ?thesis using pre by (simp add: app_ok_def guarded_def)
  next
    case 2
    have s: "store_ok s" using delete_launcher_ok [OF ok 2(2)] .
    have s': "launchers s = filter (\<lambda>l. la_id l \<noteq> i) (launchers (a_store a))" "principals s = principals (a_store a)"
      using 2(2) by (auto simp: delete_launcher_def split: if_splits)
    have "\<not> launcher_closed s lid" if "\<not> launcher_closed (a_store a) lid" "i \<noteq> lid"
      by (rule still_open [OF ok s that(1)]) (use that(2) in \<open>auto simp: s'\<close>)
    then show ?thesis using pre s by (auto simp: app_ok_def guarded_def)
  qed
qed

lemma delete_launcher_safe:
  assumes "rely x"
  shows "valid (safe g lid) (deleteLauncherChecked x i) (\<lambda>_. safe g lid)"
proof -
  let ?J = "\<lambda>a. safe g lid a \<and> (\<forall>k\<in>{i}. quiesced (a_sup a) k) \<and> True"
  have q: "valid (safe g lid) (quiesce x i) (\<lambda>_. ?J)"
    by (rule valid_conseq [OF quiesce_valid [OF assms, of g lid "{}" "\<lambda>_. True" i]]) auto
  have ins: "valid ?J (inspectLauncherRuntime x i) (\<lambda>_. ?J)"
    by (rule inspects_valid [OF inspect_runtime_inspects [OF assms], of g lid "{i}" "\<lambda>_. True"])
  have rem: "valid ?J (removeStaleHelperContainers x cs) (\<lambda>_. ?J)" for cs
    by (rule inspects_valid [OF remove_containers_inspects, of g lid "{i}" "\<lambda>_. True"])
  have dis: "valid ?J (disableLauncherLocked x i) (\<lambda>r a. safe g lid a \<and> (case r of Inl _ \<Rightarrow> True | Inr _ \<Rightarrow> i = lid \<longrightarrow> quiesced (a_sup a) lid))"
    by (rule valid_conseq [OF disable_launcher_valid [OF assms, of "\<lambda>_. True" i g lid "i = lid"]]) auto
  have res: "valid ?J (do { restoreLauncherAdmissionAfterRefusal x i; ret v }) (\<lambda>_. safe g lid)" for v :: "string list \<times> go_error option"
    by (rule valid_bind [where R = "\<lambda>_. safe g lid"]) (auto intro: valid_ret valid_conseq [OF sync_valid [OF assms, of g lid "\<lambda>_. True" i]])
  have del: "valid (\<lambda>a. safe g lid a \<and> (i = lid \<longrightarrow> quiesced (a_sup a) lid))
      (do { r \<leftarrow> db_call (deleteLauncherRow (x_db x) i); ret (v, case r of Inl e \<Rightarrow> Some e | Inr _ \<Rightarrow> None) }) (\<lambda>_. safe g lid)" for v :: "string list"
    by (rule valid_bind [OF delete_launcher_row_valid]) (rule valid_ret)
  show ?thesis
    unfolding deleteLauncherChecked_def
    by (rule valid_bind [OF q], rule valid_bind [OF ins], rule valid_sum, rule res, rule valid_if, rule res,
        rule valid_bind [OF rem], rule valid_sum, rule res, rule valid_bind [OF dis], rule valid_sum, rule valid_ret, simp,
        unfold sum.case, rule del)
qed

lemma disable_all_valid:
  assumes "rely x" and "\<And>i s. R s \<Longrightarrow> R (relaunched i None (Some False) s)"
  shows "valid (\<lambda>a. safe g lid a \<and> (b \<longrightarrow> quiesced (a_sup a) lid) \<and> R (a_store a)) (disable_launchers x acc ls)
    (\<lambda>r a. safe g lid a \<and> (snd r = None \<longrightarrow> (b \<longrightarrow> quiesced (a_sup a) lid) \<and> R (a_store a)))"
proof (induction ls arbitrary: acc)
  case Nil
  then show ?case by (auto intro: valid_ret)
next
  case (Cons i ls)
  have res: "valid (\<lambda>a. safe g lid a \<and> R (a_store a)) (do { restoreLauncherAdmissionAfterPrincipalRefusal x ls; ret (acc, Some e) })
      (\<lambda>r a. safe g lid a \<and> (snd r = None \<longrightarrow> (b \<longrightarrow> quiesced (a_sup a) lid) \<and> R (a_store a)))" for acc e
    by (rule valid_bind [OF restore_all_valid [OF assms(1)]]) (auto intro: valid_ret)
  show ?case
    unfolding disable_launchers.simps
    by (rule valid_bind [OF disable_launcher_valid [OF assms(1), where R = R]], erule assms(2), rule valid_sum)
      (rule valid_conseq [OF res], simp, simp, rule valid_conseq [OF Cons], simp, simp)
qed

lemma delete_principal_mac_valid:
  "valid (\<lambda>a. safe g lid a \<and> (lid \<in> set ls \<longrightarrow> quiesced (a_sup a) lid) \<and> owned_launchers u ls (a_store a))
    (deletePrincipalWithMAC x u) (\<lambda>_. safe g lid)"
  unfolding deletePrincipalWithMAC_def
proof (rule valid_or_return [where R = "\<lambda>_. safe g lid"])
  show "valid (\<lambda>a. safe g lid a \<and> (lid \<in> set ls \<longrightarrow> quiesced (a_sup a) lid) \<and> owned_launchers u ls (a_store a))
      (db_call (deletePrincipal (x_db x) u)) (\<lambda>_. safe g lid)"
  proof (rule valid_db)
    fix a s n r
    assume pre: "safe g lid a \<and> (lid \<in> set ls \<longrightarrow> quiesced (a_sup a) lid) \<and> owned_launchers u ls (a_store a)"
      and run: "deletePrincipal (x_db x) u (a_store a) (a_calls a) = (s, n, r)"
    have ok: "store_ok (a_store a)" using pre by (simp add: app_ok_def)
    have s: "store_ok s" using keepsD [OF principal_ops_keep(4) ok run] .
    show "safe g lid (a\<lparr>a_store := s, a_calls := n\<rparr>)"
    proof (cases rule: delete_principal_store [OF run])
      case (2 p)
      have "g \<longrightarrow> launcher_closed s lid \<longrightarrow> quiesced (a_sup a) lid"
        using delete_principal_closed [OF ok s 2(2), of lid] pre 2(1) by (auto simp: guarded_def owned_launchers_def)
      then show ?thesis using s pre by (simp add: app_ok_def guarded_def)
    qed (use pre in \<open>simp add: app_ok_def guarded_def\<close>)
  qed
  show "valid (safe g lid) (do { releaseSessionBindings ids; ret (Inr ids) }) (\<lambda>_. safe g lid)" for ids
    by (rule valid_bind [OF release_valid]) (auto intro: valid_ret)
qed simp

lemma owned_relaunched: "owned_launchers u ls s \<Longrightarrow> owned_launchers u ls (relaunched i name enabled s)"
  by (simp add: owned_launchers_def)

lemma delete_principal_safe:
  assumes "rely x"
  shows "valid (safe g lid) (deletePrincipalChecked x u) (\<lambda>_. safe g lid)"
proof -
  let ?J = "\<lambda>ls a. safe g lid a \<and> (\<forall>k\<in>set ls. quiesced (a_sup a) k) \<and> owned_launchers u ls (a_store a)"
  have q: "valid (\<lambda>a. safe g lid a \<and> owned_launchers u ls (a_store a)) (st_each (quiesce x) ls) (\<lambda>_. ?J ls)" for ls
    by (rule quiesce_all_valid [OF assms])
  have chk: "valid (?J ls) (or_return (inspect_launchers x ls) (remove_stale x)) (\<lambda>_. ?J ls)" for ls
    by (rule inspects_valid) (intro inspects_or_return check_phase_inspects assms)
  have res: "valid (?J ls) (do { restoreLauncherAdmissionAfterPrincipalRefusal x ls; ret v }) (\<lambda>_. safe g lid)"
    for ls and v :: "string list \<times> go_error option"
    by (rule valid_bind [where R = "\<lambda>_. safe g lid"])
      (auto intro: valid_ret valid_conseq [OF restore_all_valid [OF assms, of g lid "\<lambda>_. True" ls]])
  have dis: "valid (?J ls) (disable_launchers x [] ls)
      (\<lambda>r a. safe g lid a \<and> (snd r = None \<longrightarrow> (lid \<in> set ls \<longrightarrow> quiesced (a_sup a) lid) \<and> owned_launchers u ls (a_store a)))" for ls
    by (rule valid_conseq [OF disable_all_valid [OF assms, of "owned_launchers u ls" g lid "lid \<in> set ls"]]) (auto intro: owned_relaunched)
  have del: "valid (\<lambda>a. safe g lid a \<and> (lid \<in> set ls \<longrightarrow> quiesced (a_sup a) lid) \<and> owned_launchers u ls (a_store a))
      (do { r \<leftarrow> deletePrincipalWithMAC x u; ret (v, case r of Inl e \<Rightarrow> Some e | Inr _ \<Rightarrow> None) }) (\<lambda>_. safe g lid)" for v :: "string list" and ls
    by (rule valid_bind [OF delete_principal_mac_valid]) (rule valid_ret)
  have tail: "valid (\<lambda>a. safe g lid a \<and> (snd r = None \<longrightarrow> (lid \<in> set ls \<longrightarrow> quiesced (a_sup a) lid) \<and> owned_launchers u ls (a_store a)))
      (case r of (revokedAll, e) \<Rightarrow> case e of Some e \<Rightarrow> ret (revokedAll, Some e)
       | None \<Rightarrow> do { r \<leftarrow> deletePrincipalWithMAC x u; ret (revokedAll, case r of Inl e \<Rightarrow> Some e | Inr _ \<Rightarrow> None) }) (\<lambda>_. safe g lid)"
    for ls and r :: "string list \<times> go_error option"
    using del [of ls "fst r"] by (cases r; cases "snd r") (auto intro: valid_ret)
  show ?thesis
    unfolding deletePrincipalChecked_def
    by (rule valid_bind [OF principal_launchers_valid], rule valid_sum, rule valid_ret, simp, unfold sum.case, rule valid_bind [OF q],
        rule valid_bind [OF chk], rule valid_sum, rule res, rule valid_bind [OF dis], rule tail)
qed

lemma disable_principal_safe:
  assumes "rely x"
  shows "valid (safe g lid) (disablePrincipalLaunchers x u) (\<lambda>_. safe g lid)"
proof -
  have q: "valid (\<lambda>a. safe g lid a \<and> owned_launchers u ls (a_store a)) (st_each (quiesce x) ls)
      (\<lambda>_ a. safe g lid a \<and> (\<forall>k\<in>set ls. quiesced (a_sup a) k) \<and> owned_launchers u ls (a_store a))" for ls
    by (rule quiesce_all_valid [OF assms])
  have p: "valid (\<lambda>a. safe g lid a \<and> (\<forall>k\<in>set ls. quiesced (a_sup a) k) \<and> owned_launchers u ls (a_store a))
      (applyPrincipalEnabledChange x u False) (\<lambda>_. safe g lid)" for ls
    unfolding applyPrincipalEnabledChange_def
    by (rule valid_or_return [where R = "\<lambda>_. safe g lid"])
      (auto intro!: valid_conseq [OF persist_principal_valid [of g lid False u ls]] valid_bind [where R = "\<lambda>_. safe g lid"] valid_ret
        valid_when release_valid)
  have res: "valid (safe g lid) (do { restoreLauncherAdmissionAfterPrincipalRefusal x ls; ret v }) (\<lambda>_. safe g lid)"
    for ls and v :: "(go_error, principalEnabledChangeResult) result"
    by (rule valid_bind [where R = "\<lambda>_. safe g lid"])
      (auto intro: valid_ret valid_conseq [OF restore_all_valid [OF assms, of g lid "\<lambda>_. True" ls]])
  show ?thesis
    unfolding disablePrincipalLaunchers_def
    by (rule valid_or_return [OF principal_launchers_valid], simp, unfold sum.case, rule valid_bind [OF q], rule valid_bind [OF p],
        rule valid_sum, rule res, rule valid_ret)
qed

lemma enable_principal_safe:
  assumes "rely x"
  shows "valid (safe g lid) (enablePrincipalLaunchers x u) (\<lambda>_. safe g lid)"
proof -
  let ?A = "\<lambda>res s. \<forall>la\<in>set (ec_LauncherAdmissions res). ad_Closed la = launcher_closed s (ad_LauncherID la)"
  have rel: "valid (\<lambda>a. safe g lid a \<and> ?A res (a_store a)) (st_when c (releaseSessionBindings ids)) (\<lambda>_ a. safe g lid a \<and> ?A res (a_store a))"
    for res c ids
    by (rule valid_when) (auto intro: release_valid)
  have p: "valid (safe g lid) (applyPrincipalEnabledChange x u True)
      (\<lambda>r a. safe g lid a \<and> (case r of Inl _ \<Rightarrow> True | Inr res \<Rightarrow> ?A res (a_store a)))"
    unfolding applyPrincipalEnabledChange_def
    by (rule valid_or_return [OF valid_conseq [OF persist_principal_valid [of g lid True u "[]"]]], simp, assumption, simp)
      (rule valid_conseq [OF valid_bind [OF rel valid_ret]], auto)
  have gates: "valid (\<lambda>a. safe g lid a \<and> ?A res (a_store a))
      (st_each (\<lambda>la. sup_call x (\<lambda>w. (setQuiesced (ad_LauncherID la) (ad_Closed la) w, ()))) (ec_LauncherAdmissions res))
      (\<lambda>_ a. safe g lid a \<and> ?A res (a_store a))" for res
    by (rule valid_each) (rule valid_conseq [OF set_gate_valid [OF assms, of g lid "?A res"]], auto)
  show ?thesis
    unfolding enablePrincipalLaunchers_def
    by (rule valid_or_return [OF p], simp, unfold sum.case, rule valid_bind [OF gates], rule valid_ret, simp)
qed

end
