(* ===== verification/Control_Plane.thy ===== *)
theory Control_Plane
  imports Lifecycle_Safety
begin

text \<open>
  The control plane as one step relation: the lifecycle transitions of launcher\_lifecycle.go, the
  store mutations of the other components and the Operations of concurrent requests. The schema's
  integrity and the admission gates are invariants of it; checked deletion is proved exact.
\<close>

section \<open>The daemon's control plane as a step relation\<close>

text \<open>
  Every mutation of the store that is not a lifecycle transition: creation, root policy,
  reconciliation and credentials, under any database faults.
\<close>

inductive policy_step :: "store \<Rightarrow> store \<Rightarrow> bool" where
  policy_create_principal: "policy_step s (db_store (createPrincipalWithLifecycle hash ent io fs euid lookup g u issue) s n)"
| policy_create_launcher: "policy_step s (db_store (createLauncherWithLifecycle hash ent io fs euid g p name scope roots issue) s n)"
| policy_add_principal_root: "policy_step s (db_store (addPrincipalAllowedRootWithLifecycle io fs euid g u path access) s n)"
| policy_remove_principal_root: "policy_step s (db_store (removePrincipalAllowedRootWithLifecycle io fs g u path) s n)"
| policy_set_principal_root: "policy_step s (db_store (setPrincipalAllowedRootAccessWithLifecycle io fs u path access) s n)"
| policy_replace_scope: "policy_step s (db_store (replaceLauncherScopeWithLifecycle io fs euid g i scope entries) s n)"
| policy_add_launcher_root: "policy_step s (db_store (addLauncherAllowedRootWithLifecycle io fs euid g i path access) s n)"
| policy_remove_launcher_root: "policy_step s (db_store (removeLauncherAllowedRootWithLifecycle io fs i path) s n)"
| policy_set_launcher_root: "policy_step s (db_store (setLauncherAllowedRootAccessWithLifecycle io fs i path access) s n)"
| policy_reconcile: "policy_step s (db_store (reconcileStoredAllowedRootsToGlobalCeiling io fs g) s n)"
| policy_default_launchers: "policy_step s (db_store (migrateDefaultLaunchers ents io) s n)"
| policy_create_credential: "policy_step s (db_store (createPrincipalCredential hash ent io u name) s n)"
| policy_revoke_credential: "policy_step s (db_store (revokePrincipalCredential io now cid) s n)"
| policy_rotate_credential: "policy_step s (db_store (rotatePrincipalCredential hash ent io p cid) s n)"
| policy_issue_launcher_credential: "policy_step s (db_store (issueLauncherCredential hash ent io i) s n)"
| policy_rotate_launcher_credential: "policy_step s (db_store (rotateLauncherCredentialTargeted hash ent io i expected) s n)"
| policy_delete_launcher_credential: "policy_step s (db_store (deleteLauncherCredential io i) s n)"

inductive app_step :: "app \<Rightarrow> app \<Rightarrow> bool" where
  app_policy: "policy_step (a_store a) s \<Longrightarrow> app_step a (a\<lparr>a_store := s\<rparr>)"
| app_others: "rely x \<Longrightarrow> app_step a (a\<lparr>a_sup := x_others x n (a_sup a)\<rparr>)"
| app_update_launcher: "rely x \<Longrightarrow> run_state (updateLauncherWithLifecycle x i name enabled) a = (r, b) \<Longrightarrow> app_step a b"
| app_delete_launcher: "rely x \<Longrightarrow> run_state (deleteLauncherChecked x i) a = (r2, b) \<Longrightarrow> app_step a b"
| app_delete_principal: "rely x \<Longrightarrow> run_state (deletePrincipalChecked x u) a = (r3, b) \<Longrightarrow> app_step a b"
| app_disable_principal: "rely x \<Longrightarrow> run_state (disablePrincipalLaunchers x u) a = (r4, b) \<Longrightarrow> app_step a b"
| app_enable_principal: "rely x \<Longrightarrow> run_state (enablePrincipalLaunchers x u) a = (r5, b) \<Longrightarrow> app_step a b"

definition start_app :: app where
  "start_app = \<lparr>a_store = empty_store, a_sup = newOperationSupervisor, a_released = [], a_removed = [], a_calls = 0\<rparr>"

lemmas with_lifecycle_defs = createPrincipalWithLifecycle_def createLauncherWithLifecycle_def
  addPrincipalAllowedRootWithLifecycle_def removePrincipalAllowedRootWithLifecycle_def
  setPrincipalAllowedRootAccessWithLifecycle_def replaceLauncherScopeWithLifecycle_def
  addLauncherAllowedRootWithLifecycle_def removeLauncherAllowedRootWithLifecycle_def
  setLauncherAllowedRootAccessWithLifecycle_def

lemma keeps_db_store: "keeps I m \<Longrightarrow> I s \<Longrightarrow> I (db_store m s n)"
  by (simp add: keeps_def)

lemma policy_step_ok:
  assumes "policy_step s s'" and "store_ok s"
  shows "store_ok s'"
  using assms(1)
  by cases (simp_all only: with_lifecycle_defs, (rule keeps_db_store [where I = store_ok, OF _ assms(2)], intro db_intros)+)

text \<open>None of them closes a Launcher that is open.\<close>

lemma closed_cong: "launchers s' = launchers s \<Longrightarrow> principals s' = principals s \<Longrightarrow> launcher_closed s' = launcher_closed s"
  unfolding launcher_closed_def launcher_with_owner_def launcher_by_id_def principal_by_id_def fun_eq_iff
  by (simp cong: option.case_cong)

lemma closed_frame [simp]:
  "launcher_closed (s\<lparr>principal_allowed_roots := prs\<rparr>) = launcher_closed s"
  "launcher_closed (s\<lparr>launcher_allowed_roots := lrs\<rparr>) = launcher_closed s"
  "launcher_closed (s\<lparr>credentials := cs\<rparr>) = launcher_closed s"
  by (rule closed_cong; simp)+

lemma closed_appended:
  assumes "launchers s' = launchers s @ ls" and "principals s' = principals s @ ps" and "launcher_closed s' k"
  shows "launcher_closed s k"
proof -
  have app: "find P (xs @ ys) = (case find P xs of None \<Rightarrow> find P ys | Some y \<Rightarrow> Some y)" for P xs and ys :: "'z list"
    by (induction xs) auto
  show ?thesis
    using assms
    by (auto simp: launcher_closed_def launcher_with_owner_def launcher_by_id_def principal_by_id_def app split: option.splits)
qed

lemma closed_statements:
  "insert_principal u uid gid home s = Inr (s', i) \<Longrightarrow> launcher_closed s' k \<Longrightarrow> launcher_closed s k"
  "insert_launcher l s = Inr s' \<Longrightarrow> launcher_closed s' k \<Longrightarrow> launcher_closed s k"
  "insert_principal_root p e s = Inr s' \<Longrightarrow> launcher_closed s' k \<Longrightarrow> launcher_closed s k"
  "insert_launcher_root i2 e s = Inr s' \<Longrightarrow> launcher_closed s' k \<Longrightarrow> launcher_closed s k"
  "insert_credential c s = Inr s' \<Longrightarrow> launcher_closed s' k \<Longrightarrow> launcher_closed s k"
  "update_credential_hash P h s = Inr (s', m) \<Longrightarrow> launcher_closed s' k \<Longrightarrow> launcher_closed s k"
  "launcher_closed (s\<lparr>launchers := update_rows (\<lambda>l. la_id l = i3) (\<lambda>l. l\<lparr>la_scope := scope\<rparr>) (launchers s)\<rparr>) k \<Longrightarrow> launcher_closed s k"
proof -
  show "insert_principal u uid gid home s = Inr (s', i) \<Longrightarrow> launcher_closed s' k \<Longrightarrow> launcher_closed s k"
    by (rule closed_appended [of s' s "[]"]) (auto simp: insert_principal_def Let_def split: if_splits)
  show "insert_launcher l s = Inr s' \<Longrightarrow> launcher_closed s' k \<Longrightarrow> launcher_closed s k"
    by (rule closed_appended [of s' s _ "[]"]) (auto simp: insert_launcher_def split: if_splits)
  show "launcher_closed (s\<lparr>launchers := update_rows (\<lambda>l. la_id l = i3) (\<lambda>l. l\<lparr>la_scope := scope\<rparr>) (launchers s)\<rparr>) k \<Longrightarrow> launcher_closed s k"
    using owner_of_updated [of i3 "\<lambda>l. l\<lparr>la_scope := scope\<rparr>" "s\<lparr>launchers := update_rows (\<lambda>l. la_id l = i3) (\<lambda>l. l\<lparr>la_scope := scope\<rparr>) (launchers s)\<rparr>" s k]
    by (auto simp: launcher_closed_def split: option.splits if_splits)
qed (auto simp: insert_principal_root_def insert_launcher_root_def insert_credential_def update_credential_hash_def split: if_splits)

text \<open>The same rules as for the schema's integrity, for the gate of one Launcher.\<close>

definition shut_or :: "string \<Rightarrow> bool \<Rightarrow> store \<Rightarrow> bool" where
  "shut_or k q s \<longleftrightarrow> (launcher_closed s k \<longrightarrow> q)"

lemma shut_or_exec [db_intros]:
  "keeps (shut_or k q) (exec io (\<lambda>s. or_exists e (insert_principal u uid gid home s)))"
  "keeps (shut_or k q) (exec io (\<lambda>s. no_result (or_fail (insert_principal_root p en s))))"
  "keeps (shut_or k q) (exec io (\<lambda>s. no_result (or_fail (insert_launcher_root i en s))))"
  "keeps (shut_or k q) (exec io (or_ignore (insert_principal_root p en)))"
  "keeps (shut_or k q) (exec io (or_ignore (insert_launcher_root i en)))"
  "keeps (shut_or k q) (exec io (or_ignore (insert_launcher l)))"
  "keeps (shut_or k q) (exec io (\<lambda>s. no_result (or_exists e (insert_launcher l s))))"
  "keeps (shut_or k q) (exec io (\<lambda>s. no_result (or_exists e (insert_credential c s))))"
  "keeps (shut_or k q) (exec io (\<lambda>s. or_fail (update_credential_hash P h s)))"
  "keeps (shut_or k q) (exec io (\<lambda>s. Inr (s\<lparr>launchers := update_rows (\<lambda>l. la_id l = i) (\<lambda>l. l\<lparr>la_scope := scope\<rparr>) (launchers s)\<rparr>, ())))"
  "keeps (shut_or k q) (exec io (\<lambda>s. Inr (s\<lparr>principal_allowed_roots := fp s\<rparr>, gp s)))"
  "keeps (shut_or k q) (exec io (\<lambda>s. Inr (s\<lparr>launcher_allowed_roots := fl s\<rparr>, gl s)))"
  "keeps (shut_or k q) (exec io (\<lambda>s. Inr (s\<lparr>credentials := fc s\<rparr>, gc s)))"
  by (rule keeps_exec; auto simp: shut_or_def or_ignore_Inr split: if_splits dest: closed_statements)+

lemma shut_or_drop [db_intros]:
  "keeps (shut_or k q) (exec io (\<lambda>s. Inr (drop_principal_root p path s, gp s)))"
  "keeps (shut_or k q) (exec io (\<lambda>s. Inr (drop_launcher_root i path s, gl s)))"
  by (rule keeps_exec; auto simp: shut_or_def drop_principal_root_def drop_launcher_root_def)+

lemma shut_or_credentials [db_intros]:
  "keeps (shut_or k q) (insertPrincipalCredentialInTx hash ent io p u name)"
  "keeps (shut_or k q) (createPrincipalCredential hash ent io u name)"
  "keeps (shut_or k q) (revokePrincipalCredential io now cid)"
  "keeps (shut_or k q) (rotatePrincipalCredential hash ent io p cid)"
  "keeps (shut_or k q) (issueLauncherCredentialInTx hash ent io i)"
  "keeps (shut_or k q) (issueLauncherCredential hash ent io i)"
  "keeps (shut_or k q) (rotateLauncherCredentialTargeted hash ent io i expected)"
  "keeps (shut_or k q) (deleteLauncherCredential io i)"
  unfolding insertPrincipalCredentialInTx_def createPrincipalCredential_def revokePrincipalCredential_def
    rotatePrincipalCredential_def issueLauncherCredentialInTx_def issueLauncherCredential_def
    rotateLauncherCredentialTargeted_def deleteLauncherCredential_def commitPrincipalCredentialRotationAfterDelivery_def
    commitLauncherCredentialRotationAfterDelivery_def commitCredentialRotationAfterDelivery_def Let_def
    replacePrincipalCredentialTokenHashInTx_def replaceLauncherCredentialTokenHashInTx_def
  by (intro db_intros)+

lemma shut_or_policy [db_intros]:
  "keeps (shut_or k q) (ensureDefaultLauncher ent io p)"
  "keeps (shut_or k q) (migrateDefaultLaunchers ents io)"
  "keeps (shut_or k q) (createLauncher hash ent io fs euid p name scope roots ceiling issue)"
  "keeps (shut_or k q) (replaceLauncherScope io fs euid cur scope entries ceiling)"
  "keeps (shut_or k q) (addLauncherAllowedRoot io fs euid cur2 path access ceiling)"
  "keeps (shut_or k q) (removeLauncherAllowedRoot io fs i path)"
  "keeps (shut_or k q) (setLauncherAllowedRootAccess io fs i path access)"
  "keeps (shut_or k q) (addPrincipalAllowedRoot io fs euid u path access g)"
  "keeps (shut_or k q) (setPrincipalAllowedRootAccess io fs u path access)"
  "keeps (shut_or k q) (pruneStoredAllowedRootsToCeilings io g2 pid)"
  "keeps (shut_or k q) (reconcileStoredAllowedRootsToGlobalCeiling io fs g2)"
  "keeps (shut_or k q) (removePrincipalAllowedRootCascaded io fs u path g2)"
  unfolding ensureDefaultLauncher_def migrateDefaultLaunchers_def createLauncher_def replaceLauncherScope_def
    addLauncherAllowedRoot_def removeLauncherAllowedRoot_def setLauncherAllowedRootAccess_def addPrincipalAllowedRoot_def
    setPrincipalAllowedRootAccess_def pruneStoredAllowedRootsToCeilings_def prunePrincipalStoredRootsToCeiling_def
    prune_launcher_roots_def reconcileStoredAllowedRootsToGlobalCeiling_def removePrincipalAllowedRootCascaded_def Let_def
    insert_roots_def
  by (intro db_intros)+

lemma shut_or_create_principal [db_intros]:
  "keeps (shut_or k q) (createPrincipalWithOptionalCredential hash ent io fs euid lookup u g issue)"
  unfolding createPrincipalWithOptionalCredential_def
  by (intro db_intros) (auto split: sum.split intro!: db_intros)

lemma policy_shut_or:
  assumes "policy_step s s'" and "shut_or k q s"
  shows "shut_or k q s'"
  using assms(1)
  by cases (simp_all only: with_lifecycle_defs, (rule keeps_db_store [where I = "shut_or k q", OF _ assms(2)], intro db_intros)+)

lemma app_step_safe:
  assumes "app_step a b" and "safe g lid a"
  shows "safe g lid b"
  using assms(1)
proof cases
  case (app_policy s)
  then show ?thesis
    using policy_step_ok [of "a_store a" s] policy_shut_or [of "a_store a" s lid "g \<longrightarrow> quiesced (a_sup a) lid"] assms(2)
    by (auto simp: app_ok_def guarded_def shut_or_def)
next
  case (app_others x n)
  then show ?thesis
    using others_quiesced [of x n "a_sup a"] others_inv [of x "a_sup a" n] assms(2) by (simp add: app_ok_def guarded_def)
next
  case (app_update_launcher x i name enabled r)
  then show ?thesis using validD [OF update_launcher_safe assms(2)] by blast
next
  case (app_delete_launcher x i r)
  then show ?thesis using validD [OF delete_launcher_safe assms(2)] by blast
next
  case (app_delete_principal x u r)
  then show ?thesis using validD [OF delete_principal_safe assms(2)] by blast
next
  case (app_disable_principal x u r)
  then show ?thesis using validD [OF disable_principal_safe assms(2)] by blast
next
  case (app_enable_principal x u r)
  then show ?thesis using validD [OF enable_principal_safe assms(2)] by blast
qed

interpretation plane: inductive_invariant start_app app_step app_ok
  by unfold_locales
    (use app_step_safe [of _ _ False] in \<open>auto simp: app_ok_def start_app_def inv_start store_ok_empty\<close>)


definition demo_outside :: outside where
  "demo_outside = \<lparr>x_db = fault_free, x_others = (\<lambda>n w. w), x_ps = (\<lambda>n i. Some []), x_rm = (\<lambda>n c. True)\<rparr>"

lemma demo_outside_rely: "rely demo_outside"
  by (simp add: rely_def demo_outside_def)

definition demo_app :: app where
  "demo_app = start_app\<lparr>a_store := db_store (createPrincipalWithLifecycle (\<lambda>t. t) demo_entropy fault_free demo_fs 0
     (\<lambda>u. Some (''1000'', ''1000'', ''/home/alice'')) [mk_entry ''/home'' RW] ''alice'' True) (a_store start_app) 0\<rparr>"

definition demo_id :: string where
  "demo_id = launcherIDPrefix @ hex_encode (replicate 16 1)"

lemma demo_app_reachable: "app_step\<^sup>*\<^sup>* start_app demo_app"
  unfolding demo_app_def by (intro r_into_rtranclp app_policy policy_create_principal)


text \<open>
  C19: admission never fails open. Once the admission gate of a Launcher reflects its authorities (the
  Launcher and its Principal are enabled, or the gate is shut), then at every later point, if the
  Launcher or its Principal is disabled or either has been deleted, the gate is shut. This holds across
  any sequence of transitions, whatever database call fails or commits without reporting it, whatever
  the Docker CLI answers, and whatever Operations other requests run in between.
\<close>

theorem admission_never_fails_open:
  assumes "app_step\<^sup>*\<^sup>* start_app a" and "launcher_closed (a_store a) lid \<longrightarrow> quiesced (a_sup a) lid"
    and "app_step\<^sup>*\<^sup>* a b" and "launcher_closed (a_store b) lid"
  shows "quiesced (a_sup b) lid"
proof -
  have "safe True lid a" using plane.inv_reachable [OF assms(1)] assms(2) by (simp add: guarded_def)
  from assms(3) this have "safe True lid b"
    by (induction rule: rtranclp_induct) (use app_step_safe in blast)+
  then show ?thesis using assms(4) by (simp add: guarded_def)
qed

definition demo_disabled :: app where
  "demo_disabled = snd (run_state (updateLauncherWithLifecycle demo_outside demo_id None (Some False)) demo_app)"

theorem admission_never_fails_open_witness:
  "\<not> launcher_closed (a_store demo_app) demo_id \<and> launcher_closed (a_store demo_disabled) demo_id \<and> quiesced (a_sup demo_disabled) demo_id"
proof -
  have "app_step demo_app demo_disabled"
    by (rule app_update_launcher [OF demo_outside_rely, where i = demo_id and name = None and enabled = "Some False"])
      (simp add: demo_disabled_def prod_eq_iff)
  then have "app_step\<^sup>*\<^sup>* demo_app demo_disabled" by (rule r_into_rtranclp)
  moreover have a: "\<not> launcher_closed (a_store demo_app) demo_id" and b: "launcher_closed (a_store demo_disabled) demo_id" by code_simp+
  ultimately show ?thesis using admission_never_fails_open [OF demo_app_reachable, of demo_id demo_disabled] by blast
qed

section \<open>Checked deletion\<close>

definition idle :: "string \<Rightarrow> app \<Rightarrow> bool" where
  "idle lid a \<longleftrightarrow> sup_inv (a_sup a) \<and> quiesced (a_sup a) lid \<and> \<not> hasRunningForLauncher lid (a_sup a)"

definition same_but_sup :: "app \<Rightarrow> app \<Rightarrow> bool" where
  "same_but_sup a0 a \<longleftrightarrow> a_store a = a_store a0 \<and> a_released a = a_released a0 \<and> a_removed a = a_removed a0"

lemma classify_inactive:
  "classify_containers cs ds = Inr i \<Longrightarrow> \<not> ri_active i \<Longrightarrow>
   ri_containers i = cs \<and> (\<forall>c\<in>set ds. classifyHelperContainerState (hc_State c) = helperStateStale)"
  by (induction ds) (auto split: helperContainerState.splits)

lemma inspect_idle:
  assumes "rely x"
  shows "valid (\<lambda>a. same_but_sup a0 a \<and> sup_inv (a_sup a) \<and> quiesced (a_sup a) lid) (inspectLauncherRuntime x lid)
    (\<lambda>r a. same_but_sup a0 a \<and> (case r of Inl _ \<Rightarrow> True | Inr i \<Rightarrow> ri_active i \<or> idle lid a))"
proof -
  have sup: "valid (\<lambda>a. same_but_sup a0 a \<and> sup_inv (a_sup a) \<and> quiesced (a_sup a) lid)
      (sup_call x (\<lambda>w. (w, hasRunningForLauncher lid w))) (\<lambda>running a. same_but_sup a0 a \<and> (running \<or> idle lid a))"
    by (rule valid_sup) (use others_quiesced [OF assms] others_inv [OF assms] in \<open>auto simp: idle_def same_but_sup_def\<close>)
  have ps: "valid (\<lambda>a. same_but_sup a0 a \<and> idle lid a) (inspectHelperContainersForLauncher x lid) (\<lambda>_ a. same_but_sup a0 a \<and> idle lid a)"
    by (simp add: valid_def inspectHelperContainersForLauncher_def docker_ps_def same_but_sup_def idle_def)
  have scan: "valid (\<lambda>a. same_but_sup a0 a \<and> idle lid a)
      (or_return (inspectHelperContainersForLauncher x lid) (\<lambda>cs. ret (classify_containers cs cs)))
      (\<lambda>r a. same_but_sup a0 a \<and> (case r of Inl _ \<Rightarrow> True | Inr i \<Rightarrow> ri_active i \<or> idle lid a))"
    by (rule valid_or_return [OF ps]) (auto intro: valid_ret split: sum.split)
  show ?thesis
    unfolding inspectLauncherRuntime_def
  proof (rule valid_bind [OF sup])
    show "valid (\<lambda>a. same_but_sup a0 a \<and> (running \<or> idle lid a))
       (if running then ret (Inr \<lparr>ri_containers = [], ri_active = True\<rparr>)
        else or_return (inspectHelperContainersForLauncher x lid) (\<lambda>cs. ret (classify_containers cs cs)))
       (\<lambda>r a. same_but_sup a0 a \<and> (case r of Inl _ \<Rightarrow> True | Inr i \<Rightarrow> ri_active i \<or> idle lid a))" for running
      using scan by (cases running) (auto intro: valid_ret)
  qed
qed

text \<open>Removing containers touches neither the store nor the supervisor.\<close>

lemma remove_containers_frame:
  "run_state (removeStaleHelperContainers x cs) a = (r, b) \<Longrightarrow>
   a_store b = a_store a \<and> a_sup b = a_sup a \<and> a_released b = a_released a"
  by (induction cs arbitrary: a) (auto simp: docker_rm_def split: if_splits prod.splits)

lemma restore_store:
  assumes "run_state (restoreLauncherAdmissionAfterRefusal x lid) a = (u, b)"
  shows "same_but_sup a b"
  using assms
  by (auto simp: restoreLauncherAdmissionAfterRefusal_def syncLauncherAdmission_def or_return_def db_call_def sup_call_def
      effectiveLauncherClosed_def query_def same_but_sup_def split: prod.splits sum.splits if_splits)

lemma quiesce_run:
  assumes "run_state (quiesce x lid) a = (u, b)"
  shows "b = a\<lparr>a_sup := quiesceLauncher lid (x_others x (a_calls a) (a_sup a)), a_calls := Suc (a_calls a)\<rparr>"
  using assms by (auto simp: quiesce_def sup_call_def)

lemma quiesce_idle:
  assumes "rely x" and "run_state (quiesce x lid) a = (u, b)"
  shows "same_but_sup a b" and "sup_inv (a_sup a) \<Longrightarrow> sup_inv (a_sup b) \<and> quiesced (a_sup b) lid" and "idle lid a \<Longrightarrow> idle lid b"
  using others_inv [OF assms(1)] others_idle [OF assms(1)] unfolding quiesce_run [OF assms(2)]
  by (simp_all add: same_but_sup_def idle_def quiesceLauncher_def)

lemma disable_run:
  assumes "rely x" and "store_ok (a_store a)" and "idle lid a" and "run_state (disableLauncherLocked x lid) a = (r, b)"
  shows "a_removed b = a_removed a"
    and "r = Inl e \<Longrightarrow> a_released b = a_released a \<and> (a_store b = a_store a \<or> a_store b = relaunched lid None (Some False) (a_store a))"
    and "r = Inr revoked \<Longrightarrow> idle lid b \<and> a_store b = relaunched lid None (Some False) (a_store a) \<and>
      revoked = session_ids_of (\<lambda>y. se_launcher y = lid) (a_store a) \<and> a_released b = a_released a @ revoked"
proof -
  obtain u a1 where q: "run_state (quiesce x lid) a = (u, a1)" by (rule prod.exhaust)
  note a1 = quiesce_idle [OF assms(1) q]
  obtain s n r1 where p: "persistLauncherChange (x_db x) lid None (Some False) (a_store a1) (a_calls a1) = (s, n, r1)"
    by (metis prod_cases3)
  let ?a2 = "a1\<lparr>a_store := s, a_calls := n\<rparr>"
  have run: "case r1 of
      Inl e \<Rightarrow> r = Inl e \<and> run_state (restoreLauncherAdmissionAfterRefusal x lid) ?a2 = ((), b)
    | Inr res \<Rightarrow> r = Inr (lc_RevokedSessionIDs res) \<and> b = ?a2\<lparr>a_released := a_released ?a2 @ lc_RevokedSessionIDs res\<rparr>"
    using assms(4) q p
    by (auto simp: disableLauncherLocked_def applyLauncherEnabledChange_def or_return_def db_call_def st_when_def
        releaseSessionBindings_def split: prod.splits sum.splits if_splits)
  have same: "a_store a1 = a_store a" "a_released a1 = a_released a" "a_removed a1 = a_removed a"
    using a1(1) by (simp_all add: same_but_sup_def)
  have st: "s = a_store a \<and> (\<forall>res. r1 \<noteq> Inr res) \<or> s = relaunched lid None (Some False) (a_store a) \<and>
      (\<forall>res. r1 = Inr res \<longrightarrow> lc_RevokedSessionIDs res = session_ids_of (\<lambda>y. se_launcher y = lid) (a_store a))"
    using persist_launcher_store [OF assms(2) p [unfolded same]] by (metis (full_types))
  have idle: "idle lid ?a2" using a1(3) [OF assms(3)] by (simp add: idle_def)
  show "a_removed b = a_removed a"
    using run same restore_store [of x lid ?a2 "()" b] by (auto simp: same_but_sup_def split: sum.splits)
  show "a_released b = a_released a \<and> (a_store b = a_store a \<or> a_store b = relaunched lid None (Some False) (a_store a))" if "r = Inl e"
    using run same st that restore_store [of x lid ?a2 "()" b] by (auto simp: same_but_sup_def split: sum.splits)
  show "idle lid b \<and> a_store b = relaunched lid None (Some False) (a_store a) \<and>
      revoked = session_ids_of (\<lambda>y. se_launcher y = lid) (a_store a) \<and> a_released b = a_released a @ revoked" if "r = Inr revoked"
    using run same st that idle by (auto simp: idle_def split: sum.splits)
qed

lemma relaunched_launchers [simp]:
  "has_launcher i (relaunched j name enabled s) = has_launcher i s"
  unfolding has_launcher_iff relaunched_def by (simp add: image_update_rows changed_launcher_def)

text \<open>The store without a Launcher: its row, Sessions, roots and credential are gone.\<close>

definition without_launcher :: "string \<Rightarrow> store \<Rightarrow> store" where
  "without_launcher i s = (delete_sessions (\<lambda>y. se_launcher y = i) s)\<lparr>
     launchers := filter (\<lambda>l. la_id l \<noteq> i) (launchers s),
     launcher_allowed_roots := filter (\<lambda>r. rr_owner r \<noteq> i) (launcher_allowed_roots s),
     credentials := filter (\<lambda>c. cr_launcher c \<noteq> Some i) (credentials s)\<rparr>"

lemma delete_relaunched:
  assumes "delete_launcher i (relaunched i None (Some False) s) = Inr s'"
  shows "s' = without_launcher i s"
proof -
  have "filter (\<lambda>l. la_id l \<noteq> i) (update_rows (\<lambda>l. la_id l = i) (changed_launcher None (Some False)) ls) = filter (\<lambda>l. la_id l \<noteq> i) ls" for ls
    by (induction ls) (auto simp: update_rows_def changed_launcher_def)
  moreover have "launcher_not_in {i} = (\<lambda>c. cr_launcher c \<noteq> Some i)"
    by (auto simp: launcher_not_in_def fun_eq_iff split: option.splits)
  ultimately show ?thesis
    using assms by (auto simp: delete_launcher_def relaunched_def without_launcher_def split: if_splits)
qed

lemma delete_launcher_tail:
  assumes "rely x" and "store_ok (a_store a)" and "idle lid a"
    and "run_state (do { r \<leftarrow> disableLauncherLocked x lid;
               case r of
                 Inl e \<Rightarrow> ret ([], Some e)
               | Inr revoked \<Rightarrow> do {
                   r \<leftarrow> db_call (deleteLauncherRow (x_db x) lid);
                   ret (revoked, case r of Inl e \<Rightarrow> Some e | Inr _ \<Rightarrow> None) } }) a = ((revoked, e), b)"
  shows "e \<noteq> None \<and> a_store b \<in> {a_store a, relaunched lid None (Some False) (a_store a)} \<or>
    a_store b = without_launcher lid (a_store a) \<and> idle lid b \<and>
    (e = None \<longrightarrow> revoked = session_ids_of (\<lambda>y. se_launcher y = lid) (a_store a) \<and> a_released b = a_released a @ revoked)"
proof -
  obtain r c where dis: "run_state (disableLauncherLocked x lid) a = (r, c)" by (rule prod.exhaust)
  note c = disable_run [OF assms(1-3) dis]
  show ?thesis
  proof (cases r)
    case (Inl f)
    then show ?thesis using assms(4) dis c(2) [OF Inl] by auto
  next
    case (Inr ids)
    note c = c(3) [OF Inr]
    obtain s n d where del: "deleteLauncherRow (x_db x) lid (a_store c) (a_calls c) = (s, n, d)" by (metis prod_cases3)
    then have b: "b = c\<lparr>a_store := s, a_calls := n\<rparr>" "revoked = ids" "e = (case d of Inl e \<Rightarrow> Some e | Inr _ \<Rightarrow> None)"
      using assms(4) dis Inr by (auto simp: db_call_def)
    show ?thesis
    proof (cases rule: delete_launcher_row_store [OF del])
      case 1
      then show ?thesis using b c by (auto split: sum.split)
    next
      case 2
      then have "s = without_launcher lid (a_store a)" using delete_relaunched c by simp
      then show ?thesis using b c by (simp add: idle_def)
    qed
  qed
qed

lemma delete_launcher_run:
  assumes "rely x" and "store_ok (a_store a)" and "sup_inv (a_sup a)"
    and "run_state (deleteLauncherChecked x lid) a = ((revoked, e), b)"
  shows "e \<noteq> None \<and> a_store b \<in> {a_store a, relaunched lid None (Some False) (a_store a)} \<or>
    a_store b = without_launcher lid (a_store a) \<and> idle lid b \<and>
    (e = None \<longrightarrow> revoked = session_ids_of (\<lambda>y. se_launcher y = lid) (a_store a) \<and> a_released b = a_released a @ revoked)"
proof -
  obtain u a1 where q: "run_state (quiesce x lid) a = (u, a1)" by (rule prod.exhaust)
  note a1 = quiesce_idle [OF assms(1) q]
  obtain r a2 where ins: "run_state (inspectLauncherRuntime x lid) a1 = (r, a2)" by (rule prod.exhaust)
  have a2: "same_but_sup a a2" "case r of Inl _ \<Rightarrow> True | Inr i \<Rightarrow> ri_active i \<or> idle lid a2"
    using validD [OF inspect_idle [OF assms(1), of a lid] _ ins] a1(1,2) assms(3) by blast+
  show ?thesis
  proof (cases "\<exists>i. r = Inr i \<and> \<not> ri_active i")
    case False
    then obtain f v where "run_state (do { restoreLauncherAdmissionAfterRefusal x lid; ret (v, Some f) }) a2 = ((revoked, e), b)"
      using assms(4) q ins by (cases r) (auto simp: deleteLauncherChecked_def split: if_splits)
    then show ?thesis
      using restore_store [of x lid a2] a2(1) by (auto simp: same_but_sup_def split: prod.splits)
  next
    case True
    then obtain i where i: "r = Inr i" "\<not> ri_active i" by blast
    obtain v a3 where rem: "run_state (removeStaleHelperContainers x (ri_containers i)) a2 = (v, a3)" by (rule prod.exhaust)
    have a3: "idle lid a3" "a_store a3 = a_store a" "a_released a3 = a_released a"
      using remove_containers_frame [OF rem] a2 i by (simp_all add: idle_def same_but_sup_def)
    show ?thesis
    proof (cases v)
      case (Inl f)
      then have "run_state (do { restoreLauncherAdmissionAfterRefusal x lid; ret ([], Some f) }) a3 = ((revoked, e), b)"
        using assms(4) q ins rem i by (simp add: deleteLauncherChecked_def)
      then show ?thesis using restore_store [of x lid a3] a3 by (auto simp: same_but_sup_def split: prod.splits)
    next
      case (Inr w)
      show ?thesis
        using delete_launcher_tail [OF assms(1) _ a3(1), of revoked e b] assms(2,4) q ins rem i Inr a3(2,3)
        by (simp add: deleteLauncherChecked_def)
    qed
  qed
qed

lemma delete_refused_running:
  assumes "run_state (deleteLauncherChecked x lid) a = ((revoked, e), b)"
    and "hasRunningForLauncher lid (x_others x (Suc (a_calls a)) (quiesceLauncher lid (x_others x (a_calls a) (a_sup a))))"
  shows "e = Some [ErrLauncherRuntimeActive] \<and> same_but_sup a b"
proof -
  let ?a2 = "a\<lparr>a_sup := x_others x (Suc (a_calls a)) (quiesceLauncher lid (x_others x (a_calls a) (a_sup a))), a_calls := Suc (Suc (a_calls a))\<rparr>"
  have "run_state (do { restoreLauncherAdmissionAfterRefusal x lid; ret ([], Some [ErrLauncherRuntimeActive]) }) ?a2 = ((revoked, e), b)"
    using assms by (simp add: deleteLauncherChecked_def quiesce_def sup_call_def inspectLauncherRuntime_def)
  then show ?thesis using restore_store [of x lid ?a2] by (auto simp: same_but_sup_def split: prod.splits)
qed

lemma without_launcher_gone: "\<not> has_launcher i (without_launcher i s)"
  by (auto simp: has_launcher_iff without_launcher_def)



section \<open>Deletion of an idle Launcher succeeds\<close>

lemma persist_disable_succeeds:
  assumes "store_ok s" and "has_launcher i s" and "i \<noteq> []"
  shows "\<exists>res n'. persistLauncherChange fault_free i None (Some False) s n = (relaunched i None (Some False) s, n', Inr res)"
proof -
  obtain l where l: "l \<in> set (launchers s)" "la_id l = i" using assms(2) by (auto simp: has_launcher_iff)
  then have "has_principal (la_principal l) s" using store_okD(3) [OF assms(1)] by (simp add: launchers_ok_def)
  then obtain p where "p \<in> set (principals s)" "pr_id p = la_principal l" by (auto simp: has_principal_iff)
  then have own: "launcher_with_owner i s = Some (l, p)" using launcher_with_owner_iff [OF assms(1)] l by blast
  obtain s' n' r where run: "persistLauncherChange fault_free i None (Some False) s n = (s', n', r)" by (metis prod_cases3)
  have "\<exists>res. r = Inr res"
    using run own assms(3)
    by (auto simp: persistLauncherChange_def launcher_change_tx_def launcher_enabled_tx_def with_tx_err_def db_then_def query_def exec_def
        db_when_def db_result_def fault_free_def split: if_splits)
  then show ?thesis using persist_launcher_store [OF assms(1) run] run by metis
qed

lemma delete_row_succeeds:
  assumes "has_launcher i s" and "\<not> list_ex (\<lambda>y. se_launcher y = i) (sessions s)"
  shows "\<exists>s' n'. deleteLauncherRow fault_free i s n = (s', n', Inr ())"
proof -
  have "filter (\<lambda>l. la_id l = i) (launchers s) \<noteq> []" using assms(1) by (auto simp: has_launcher_iff filter_empty_conv)
  then show ?thesis
    using assms(2)
    by (auto simp: deleteLauncherRow_def with_tx_err_def db_then_def query_def exec_def db_result_def fault_free_def delete_launcher_def
        or_fail_def no_result_def split: if_splits)
qed

lemma remove_all_succeeds:
  assumes "\<And>n c. x_rm x n c" and "\<forall>c\<in>set cs. classifyHelperContainerState (hc_State c) = helperStateStale"
  shows "\<exists>b. run_state (removeStaleHelperContainers x cs) a = (Inr (), b)"
  using assms(2) by (induction cs arbitrary: a) (auto simp: docker_rm_def assms(1))

lemma classify_all_stale:
  "\<forall>c\<in>set ds. classifyHelperContainerState (hc_State c) = helperStateStale \<Longrightarrow>
   classify_containers cs ds = Inr \<lparr>ri_containers = cs, ri_active = False\<rparr>"
  by (induction ds) auto



end
