(* ===== verification/Spec2Isabelle.thy ===== *)
theory Spec2Isabelle
  imports Run_Handler Session_Safety AppArmor Snapshot_Store Mac_Coordinator Session_Snapshot Log_Buffer Control_Plane Container_Listing Workspace_Policy
begin

text \<open>
  \<^bold>\<open>docker-helper.\<close> The daemon lets unprivileged agents run and build containers inside
  filesystem scopes that an administrator and the Principals (OS users) delegate. This development
  models its core: the allowed-root policy that decides what may be mounted, the ownership store
  (Principals, Launchers, credentials, Sessions), operator authentication and Session creation, the
  supervisor of running Operations, the coordination of mandatory access control with its AppArmor
  back end, and the lifecycle transitions that keep store, gates and running work consistent.

  \<^bold>\<open>Theories and the code they model\<close> (files under src/).

  \<^item> Go_Text, Go_Json: what the code uses of the Go library: decoding of UTF-8 to runes, rune
    classes, trimming and fields; JSON values, their parser on bytes and the quoting of strings.
  \<^item> Prelude, Errors: results, generic list and counting lemmas, the locale
    \<^verbatim>\<open>inductive_invariant\<close> of step relations; Go error values as chains of sentinel errors
    (\<^verbatim>\<open>errors.Is\<close>), and the host filesystem probes as a parameter record.
  \<^item> Paths (path_containment.go): \<^verbatim>\<open>filepath.Clean/Rel/Join\<close> on Unix and
    \<^verbatim>\<open>pathWithin\<close>; the locale \<^verbatim>\<open>containment\<close> collects what the policy relies on
    (a tree order on canonical paths) and is interpreted on the code's own test.
  \<^item> Allowed_Root, Root_Policy (allowed_root.go, allowed_root_policy.go): entries and their JSON
    forms; validation, most specific lookup, normalization, composition and narrowing. Shown: lookup
    is exact, composition is the meet and never leaves either scope, an accepted request only
    narrows, and where byte order interposes a sibling, normalization can widen.
  \<^item> Session_Snapshot (allowed_root_policy.go): the immutable snapshot of a Session, its
    derivation, the mount exposure decision and the projection to MAC boundaries.
  \<^item> Workspace_Policy (workspace_path_policy.go): the text grammar of host paths on decoded
    runes, forbidden trees, and canonicalization of a requested root.
  \<^item> Log_Buffer (operation.go, client.go): the bounded rolling log and the client's drain.
  \<^item> Operations, Operation_Invariants (operation.go): capacity leases, admission, completion,
    pruning, cancellation and shutdown as steps of critical sections, with interleaving; shown:
    capacity is never oversubscribed and never leaks, every Operation has one outcome, a quiesced
    Launcher stays idle.
  \<^item> Store (database.go): the tables with the constraints of their DDL as executable statements
    and a small program language over them in which every database call may fail, or take effect
    without being reported; transactions roll back.
  \<^item> Credentials, Launchers, Principals, Cascade (credential.go, credential_rotation.go,
    launcher_credential.go, launcher.go, ownership.go, principal.go, allowed_root_cascade.go): the
    operations of the control plane as programs over the store.
  \<^item> Lifecycle, Lifecycle_Safety (launcher_lifecycle.go, lifecycle_owner.go, app.go): the
    mutations under \<^verbatim>\<open>lifecycleMu\<close> as programs in the state monad over store,
    supervisor and Docker CLI, with arbitrary steps of other goroutines between their accesses to
    the supervisor; their Hoare triples.
  \<^item> Control_Plane: the step relation of all control-plane requests and its invariants: the
    schema's integrity, and that admission never fails open.
  \<^item> Container_Listing (launcher_lifecycle.go): decoding of \<^verbatim>\<open>docker ps\<close> output.
  \<^item> Snapshot_Store (session_snapshot_store.go): the persisted snapshot, its digest, the loader
    and the startup verification; shown: the round trip, that the loader accepts nothing but the
    issued entries, and the effect of the legacy cutover.
  \<^item> Programs, Mac_Coordinator (mac_lifecycle.go): programs in the state monad with Hoare
    triples; boundary ownership, preparation with rollback, Session bindings, use leases, deferred
    cleanup and reconciliation against any back end that satisfies the locale
    \<^verbatim>\<open>mac_driver\<close>.
  \<^item> AppArmor_Fragment, AppArmor (apparmor.go, mac_lifecycle.go): the managed profile fragment,
    rendered and parsed exactly, and the driver on it. The locale \<^verbatim>\<open>stable_host\<close> (resolution
    of the boundaries in use does not change) is a sublocale of \<^verbatim>\<open>mac_driver\<close>, so the
    coordinator's invariant holds for this back end; without it a removal can hit another boundary.
  \<^item> Operator_Auth (operator_auth.go, principal_control_auth.go, session_control.go,
    response.go): bearer parsing, operator authorities, request wrappers, scopes and targets.
  \<^item> Sessions, Session_Safety (session.go, session_control.go, response.go): creating, listing,
    finding, deleting and authenticating Sessions; shown: a create is atomic and stays within the
    delegation chain, probes nothing outside the ceiling, and scopes isolate the owners.
  \<^item> Docker_Mount (docker_mount_spec.go): the serialization of bind mounts, with the writer and
    the reader of Go's encoding/csv; shown: the reader gets back exactly the mount, whatever bytes
    the source and the target contain.
  \<^item> Run_Request (run.go, ca.go, runtime_labels.go): validation of a run request, resolution of its
    mounts and the Docker command line; shown: mounts stay within the issued snapshot, no word of
    the request becomes an option, and the 64-bit size computation is exact.
  \<^item> Run_Cleanup (run_cleanup.go, mount_pin_linux.go, workload_mac.go, run.go): what a run holds: pins,
    workload MAC state with its ownership record, lease, cidfile; the proof that its container is
    gone and the ordered cleanup. Shown: no cleanup releases what a resource still held depends on,
    and nothing is released before Docker has listed no container.
  \<^item> Run_Handler (run.go, response.go, logging.go): the whole of \<^verbatim>\<open>handleRun\<close> and
    \<^verbatim>\<open>waitRunCompletion\<close>. Shown: a started process is authorized and everything it needs is
    held; a refusal starts nothing, returns its capacity and leaves nothing behind that the log does
    not name.

  \<^bold>\<open>State.\<close> Tables are lists of records, the supervisor a record with its leases and Operations,
  the daemon the record \<^typ>\<open>app\<close>. Errors are values of a sum type. Loops of the code are
  recursion over the data they traverse, so every definition is total; the client's drain, the one
  loop bounded by remote data, is shown to end and to print everything, its measure being the bytes
  retained beyond the client's offset.

  \<^bold>\<open>Parameters.\<close> SHA-256, the random source, the clock, the outcome of each database call
  (\<^typ>\<open>db_io\<close>), the host filesystem (\<^typ>\<open>host_fs\<close>), the OS user database, the Docker
  CLI and the steps of other goroutines (\<^typ>\<open>outside\<close>) are arguments of the definitions that
  use them; so are, for a run, the outcome of each system call, the workload MAC back end and the
  order of the Operations in the map (\<^typ>\<open>'d run_env\<close>, \<^typ>\<open>'d handler_env\<close>). Hypotheses on them are named in the statements: \<^verbatim>\<open>reported\<close> (no database call takes
  effect unreported), distinctness of hashes or random values where the code relies on it.

  \<^bold>\<open>Not modelled.\<close> HTTP handlers, routing, audit log transport and the response encoding
  (wire format around the modelled operations); the command-line clients, completion and
  configuration commands (argument parsing and printing); configuration file loading and reload
  (file I/O around the modelled policy); schema migrations (sequences of DDL statements on legacy
  schemas); the SELinux back end and the generated workload profiles (edits
  through system tools); the startup reconciliation of workload MAC state; build execution and staging;
  certificate installation (file formats of OpenSSL); the registry and pull requests (pass-through
  to the Docker CLI); structured logging. Error message texts are not modelled, only the sentinel
  chain that callers inspect.
\<close>

end
